(* ===== verification/Base.thy ===== *)
theory Base
  imports Complex_Main "HOL-Library.Monad_Syntax"
begin

text \<open>
  The prelude of the development: the hint collections the component theories add to, the
  byte-level text operations of the Rust standard library the engine uses (a Rust
  \<open>&str\<close> is modelled as its UTF-8 bytes, one \<open>char\<close> per byte), JSON values, and
  the list facts several components share.
\<close>

named_theorems fold_simps "unfolding equations of the session fold"
named_theorems inv_intros "introduction rules of the component invariants"

subsection \<open>Numbers and time\<close>

text \<open>
  \<open>EpochSeconds\<close> is an \<open>f64\<close> in the code. The fold only compares and subtracts
  timestamps, so a timestamp is a rational here: the arithmetic is exact where the code rounds.
\<close>

type_synonym epoch_seconds = rat

definition u64_max :: nat where
  "u64_max = 18446744073709551615"

text \<open>\<open>(end - start) as u64\<close>: truncation, saturating at both ends.\<close>

definition rat_as_u64 :: "rat \<Rightarrow> nat" where
  "rat_as_u64 r = min u64_max (nat \<lfloor>r\<rfloor>)"

subsection \<open>JSON values\<close>

text \<open>\<open>serde_json::Value\<close>; an object is the list of its members.\<close>

datatype json =
    JNull
  | JBool bool
  | JInt int
  | JFloat rat
  | JStr string
  | JArr "json list"
  | JObj "(string \<times> json) list"

fun json_get :: "json \<Rightarrow> string \<Rightarrow> json option" where
  "json_get (JObj ms) k = map_of ms k"
| "json_get _ k = None"

fun json_as_str :: "json \<Rightarrow> string option" where
  "json_as_str (JStr s) = Some s"
| "json_as_str _ = None"

subsection \<open>Text\<close>

definition byte :: "char \<Rightarrow> nat" where
  "byte c = of_char c"

definition is_ascii_digit :: "char \<Rightarrow> bool" where
  "is_ascii_digit c \<longleftrightarrow> 48 \<le> byte c \<and> byte c \<le> 57"

text \<open>
  How many bytes the white-space character at the head of the text takes, 0 when the text
  does not start with one: the \<open>White_Space\<close> code points, as Rust's \<open>trim\<close> uses.
\<close>

fun ws_codes :: "nat list \<Rightarrow> nat" where
  "ws_codes (a # b # c # _) =
     (if (9 \<le> a \<and> a \<le> 13) \<or> a = 32 then 1
      else if a = 194 \<and> (b = 133 \<or> b = 160) then 2
      else if a = 225 \<and> b = 154 \<and> c = 128 then 3
      else if a = 226 \<and> b = 128 \<and> ((128 \<le> c \<and> c \<le> 138) \<or> c = 168 \<or> c = 169 \<or> c = 175) then 3
      else if a = 226 \<and> b = 129 \<and> c = 159 then 3
      else if a = 227 \<and> b = 128 \<and> c = 128 then 3
      else 0)"
| "ws_codes [a, b] =
     (if (9 \<le> a \<and> a \<le> 13) \<or> a = 32 then 1
      else if a = 194 \<and> (b = 133 \<or> b = 160) then 2 else 0)"
| "ws_codes [a] = (if (9 \<le> a \<and> a \<le> 13) \<or> a = 32 then 1 else 0)"
| "ws_codes [] = 0"

definition ws_head :: "string \<Rightarrow> nat" where
  "ws_head s = ws_codes (map byte (take 3 s))"

text \<open>The same at the end of the text, which is given reversed.\<close>

definition ws_tail_rev :: "string \<Rightarrow> nat" where
  "ws_tail_rev r =
     (if ws_codes (map byte (take 1 r)) = 1 then 1
      else if ws_codes (map byte (rev (take 2 r))) = 2 then 2
      else if ws_codes (map byte (rev (take 3 r))) = 3 then 3
      else 0)"

lemma ws_take_shrinks: "0 < ws_codes (map byte (take k s)) \<Longrightarrow> s \<noteq> []"
  by auto

lemma ws_rev_take_shrinks: "0 < ws_codes (map byte (rev (take k s))) \<Longrightarrow> s \<noteq> []"
  by auto

function trim_start :: "string \<Rightarrow> string" where
  "trim_start s = (if ws_head s = 0 then s else trim_start (drop (ws_head s) s))"
  by pat_completeness auto
termination
  by (relation "measure length") (use ws_take_shrinks in \<open>auto simp: ws_head_def\<close>)

function trim_end_rev :: "string \<Rightarrow> string" where
  "trim_end_rev r = (if ws_tail_rev r = 0 then r else trim_end_rev (drop (ws_tail_rev r) r))"
  by pat_completeness auto
termination
proof (relation "measure length")
  fix r :: string
  assume r: "ws_tail_rev r \<noteq> 0"
  then have "r \<noteq> []" by (auto simp: ws_tail_rev_def)
  with r show "(drop (ws_tail_rev r) r, r) \<in> measure length" by simp
qed simp

declare trim_start.simps [simp del] trim_end_rev.simps [simp del]

definition trim :: "string \<Rightarrow> string" where
  "trim s = rev (trim_end_rev (rev (trim_start s)))"

definition starts_with :: "string \<Rightarrow> string \<Rightarrow> bool" where
  "starts_with s p \<longleftrightarrow> take (length p) s = p"

lemma trim_nil [simp]: "trim [] = []"
  by (simp add: trim_def trim_start.simps trim_end_rev.simps ws_head_def ws_tail_rev_def)

text \<open>\<open>texts.join(sep)\<close>.\<close>

fun join_with :: "string \<Rightarrow> string list \<Rightarrow> string" where
  "join_with sep [] = []"
| "join_with sep [x] = x"
| "join_with sep (x # y # zs) = x @ sep @ join_with sep (y # zs)"

text \<open>\<open>n.to_string()\<close> for an unsigned integer.\<close>

fun show_nat :: "nat \<Rightarrow> string" where
  "show_nat n =
     (if n < 10 then [char_of (48 + n)] else show_nat (n div 10) @ [char_of (48 + n mod 10)])"

declare show_nat.simps [simp del]

text \<open>\<open>str::parse::<u64>\<close>: an optional plus sign, at least one digit, no overflow.\<close>

fun digits_value :: "nat \<Rightarrow> string \<Rightarrow> nat option" where
  "digits_value acc [] = Some acc"
| "digits_value acc (c # cs) =
     (if is_ascii_digit c then digits_value (10 * acc + (byte c - 48)) cs else None)"

definition parse_u64 :: "string \<Rightarrow> nat option" where
  "parse_u64 s =
     (let body = (case s of c # cs \<Rightarrow> if c = CHR ''+'' then cs else s | [] \<Rightarrow> s)
      in if body = [] then None
         else case digits_value 0 body of
                None \<Rightarrow> None
              | Some n \<Rightarrow> if n \<le> u64_max then Some n else None)"

text \<open>\<open>s.split(c)\<close>: the pieces between the separators, empty ones included.\<close>

fun split_on :: "char \<Rightarrow> string \<Rightarrow> string list" where
  "split_on sep [] = [[]]"
| "split_on sep (c # cs) =
     (if c = sep then [] # split_on sep cs
      else case split_on sep cs of [] \<Rightarrow> [[c]] | p # ps \<Rightarrow> (c # p) # ps)"

lemma split_on_nonempty [simp]: "split_on sep s \<noteq> []"
  by (induction s) (auto split: list.splits)

lemma split_on_none: "sep \<notin> set s \<Longrightarrow> split_on sep s = [s]"
  by (induction s) auto

lemma split_on_append: "sep \<notin> set s \<Longrightarrow> split_on sep (s @ sep # t) = s # split_on sep t"
  by (induction s) (auto split: list.splits)

subsection \<open>Decimal round trip\<close>

lemma byte_digit [simp]: "d < 10 \<Longrightarrow> byte (char_of (48 + d)) = 48 + d"
  by (simp add: byte_def)

lemma digits_value_append:
  "digits_value acc (xs @ ys) =
     (case digits_value acc xs of None \<Rightarrow> None | Some a \<Rightarrow> digits_value a ys)"
  by (induction xs arbitrary: acc) auto

lemma digits_value_show: "digits_value 0 (show_nat n) = Some n"
proof (induction n rule: show_nat.induct)
  case (1 n)
  show ?case
    by (cases "n < 10")
      (auto simp: show_nat.simps [of n] is_ascii_digit_def digits_value_append "1.IH")
qed

lemma show_nat_digits: "c \<in> set (show_nat n) \<Longrightarrow> is_ascii_digit c"
proof (induction n rule: show_nat.induct)
  case (1 n)
  then show ?case
    by (cases "n < 10") (auto simp: show_nat.simps [of n] is_ascii_digit_def)
qed

lemma show_nat_nonempty [simp]: "show_nat n \<noteq> []"
  by (subst show_nat.simps) simp

lemma not_digit [simp]:
  "\<not> is_ascii_digit (CHR ''+'')" "\<not> is_ascii_digit (CHR ''.'')"
  by (simp_all add: is_ascii_digit_def byte_def)

lemma show_nat_notin: "\<not> is_ascii_digit c \<Longrightarrow> c \<notin> set (show_nat n)"
  using show_nat_digits by blast

lemma parse_u64_show: "n \<le> u64_max \<Longrightarrow> parse_u64 (show_nat n) = Some n"
proof -
  assume n: "n \<le> u64_max"
  obtain c cs where s: "show_nat n = c # cs"
    by (meson neq_Nil_conv show_nat_nonempty)
  then have "is_ascii_digit c"
    using show_nat_digits [of c n] by simp
  then have "c \<noteq> CHR ''+''" by auto
  then show ?thesis
    using s digits_value_show [of n] n by (simp add: parse_u64_def Let_def)
qed

lemma show_nat_inj: "show_nat m = show_nat n \<Longrightarrow> m = n"
  by (metis digits_value_show option.inject)

subsection \<open>Lists\<close>

text \<open>\<open>iter().rposition(p)\<close>: the last index whose element satisfies the predicate.\<close>

fun rposition :: "('a \<Rightarrow> bool) \<Rightarrow> 'a list \<Rightarrow> nat option" where
  "rposition p [] = None"
| "rposition p (x # xs) =
     (case rposition p xs of Some i \<Rightarrow> Some (Suc i) | None \<Rightarrow> if p x then Some 0 else None)"

text \<open>\<open>iter().position(p)\<close>: the first one.\<close>

fun position :: "('a \<Rightarrow> bool) \<Rightarrow> 'a list \<Rightarrow> nat option" where
  "position p [] = None"
| "position p (x # xs) = (if p x then Some 0 else map_option Suc (position p xs))"

text \<open>\<open>v.remove(i)\<close>, for an index in range.\<close>

definition remove_nth :: "nat \<Rightarrow> 'a list \<Rightarrow> 'a list" where
  "remove_nth i xs = take i xs @ drop (Suc i) xs"

text \<open>\<open>v.resize(n, x)\<close>.\<close>

definition resize :: "nat \<Rightarrow> 'a \<Rightarrow> 'a list \<Rightarrow> 'a list" where
  "resize n x xs = take n xs @ replicate (n - length xs) x"

definition count_if :: "('a \<Rightarrow> bool) \<Rightarrow> 'a list \<Rightarrow> nat" where
  "count_if p xs = length (filter p xs)"

lemma rposition_None: "rposition p xs = None \<longleftrightarrow> (\<forall>x\<in>set xs. \<not> p x)"
  by (induction xs) (auto split: option.splits)

lemma rposition_Some:
  "rposition p xs = Some i \<Longrightarrow>
     i < length xs \<and> p (xs ! i) \<and> (\<forall>x\<in>set (drop (Suc i) xs). \<not> p x)"
  by (induction xs arbitrary: i) (auto split: option.splits if_splits simp: rposition_None)

lemma position_Some: "position p xs = Some i \<Longrightarrow> i < length xs \<and> p (xs ! i)"
  by (induction xs arbitrary: i) (auto split: if_splits)

lemma set_remove_nth: "set (remove_nth i xs) \<subseteq> set xs"
  by (auto simp: remove_nth_def dest: in_set_takeD in_set_dropD)

lemma length_resize [simp]: "length (resize n x xs) = n"
  by (simp add: resize_def)

lemma resize_id [simp]: "resize (length xs) x xs = xs"
  by (simp add: resize_def)

lemma count_if_simps [simp]:
  "count_if p [] = 0"
  "count_if p (x # xs) = (if p x then Suc (count_if p xs) else count_if p xs)"
  "count_if p (xs @ ys) = count_if p xs + count_if p ys"
  by (simp_all add: count_if_def)

lemma count_if_le: "count_if p xs \<le> length xs"
  by (simp add: count_if_def)

lemma count_if_none: "(\<forall>x\<in>set xs. \<not> p x) \<Longrightarrow> count_if p xs = 0"
  by (simp add: count_if_def filter_empty_conv)

lemma count_if_take_drop: "count_if p (take n xs) + count_if p (drop n xs) = count_if p xs"
  by (metis append_take_drop_id count_if_simps(3))

text \<open>Dropping the elements at the flagged indices, as the fold's suppression does.\<close>

fun drop_flagged :: "nat \<Rightarrow> (nat \<Rightarrow> bool) \<Rightarrow> 'a list \<Rightarrow> 'a list" where
  "drop_flagged i f [] = []"
| "drop_flagged i f (x # xs) =
     (if f i then drop_flagged (Suc i) f xs else x # drop_flagged (Suc i) f xs)"

lemma drop_flagged_append:
  "drop_flagged i f (xs @ ys) = drop_flagged i f xs @ drop_flagged (i + length xs) f ys"
  by (induction xs arbitrary: i) auto

lemma drop_flagged_cong:
  "(\<And>j. i \<le> j \<Longrightarrow> j < i + length xs \<Longrightarrow> f j = g j) \<Longrightarrow> drop_flagged i f xs = drop_flagged i g xs"
proof (induction xs arbitrary: i)
  case Nil
  then show ?case by simp
next
  case (Cons x xs)
  have "f i = g i" by (rule Cons.prems) auto
  moreover have "drop_flagged (Suc i) f xs = drop_flagged (Suc i) g xs"
    by (rule Cons.IH, rule Cons.prems) auto
  ultimately show ?case by simp
qed

lemma drop_flagged_shift: "drop_flagged (i + k) f xs = drop_flagged i (\<lambda>j. f (j + k)) xs"
  by (induction xs arbitrary: i) (auto simp flip: add_Suc)

lemma drop_flagged_none [simp]: "drop_flagged i (\<lambda>_. False) xs = xs"
  by (induction xs arbitrary: i) auto

lemma set_drop_flagged: "set (drop_flagged i f xs) \<subseteq> set xs"
  by (induction xs arbitrary: i) auto

lemma count_if_drop_flagged:
  "(\<And>j. j < length xs \<Longrightarrow> f (i + j) \<Longrightarrow> \<not> p (xs ! j)) \<Longrightarrow>
     count_if p (drop_flagged i f xs) = count_if p xs"
proof (induction xs arbitrary: i)
  case Nil
  then show ?case by simp
next
  case (Cons x xs)
  have x: "f i \<Longrightarrow> \<not> p x" using Cons.prems [of 0] by simp
  have "count_if p (drop_flagged (Suc i) f xs) = count_if p xs"
    by (rule Cons.IH) (use Cons.prems [of "Suc _"] in auto)
  then show ?case using x by auto
qed

text \<open>\<open>Option::min\<close> as the fold's running minimum.\<close>

definition floor_min :: "nat option \<Rightarrow> nat \<Rightarrow> nat option" where
  "floor_min f i = Some (case f of None \<Rightarrow> i | Some p \<Rightarrow> min p i)"

text \<open>Inserting rows into a map in order, later rows winning.\<close>

fun insert_rows :: "('k \<rightharpoonup> 'v) \<Rightarrow> ('k \<times> 'v) list \<Rightarrow> ('k \<rightharpoonup> 'v)" where
  "insert_rows m [] = m"
| "insert_rows m ((k, v) # rows) = insert_rows (m(k \<mapsto> v)) rows"

lemma insert_rows_append: "insert_rows m (xs @ ys) = insert_rows (insert_rows m xs) ys"
  by (induction m xs rule: insert_rows.induct) (simp_all del: fun_upd_apply)

end
