(* ===== verification/Model.thy ===== *)
theory Model
  imports Base
begin

text \<open>
  The agent-neutral block vocabulary (\<open>claude-replay-engine/src/model.rs\<close>): the data a
  parsed transcript is made of, its classification (\<open>block_kind\<close>, \<open>fold_key\<close>,
  \<open>opens_turn\<close>, \<open>foldable\<close>), the skill-body attachment and the two turn
  finishers the built-in agents install (\<open>coalesce_spans\<close> for Claude's family,
  \<open>codex_finish\<close> for Codex).  The locale \<open>turn_finish\<close> is the contract
  the fold needs of a finisher; both finishers interpret it.
\<close>

subsection \<open>Leaf data\<close>

datatype reply_response = Comment string | FollowingText string

record reply_item =
  ri_quote :: string
  ri_response :: "reply_response option"

record reply_context =
  rc_version :: nat
  rc_items :: "reply_item list"
  rc_request :: "string option"
  rc_context :: string

datatype tool_status = TsCompleted | TsFailed | TsDeclined | TsCancelled | TsUnknown

record tool_duration =
  td_secs :: nat
  td_nanos :: nat

record tool_execution =
  te_status :: "tool_status option"
  te_exit_code :: "int option"
  te_duration :: "tool_duration option"
  te_outside_sandbox :: bool

record published =
  pub_name :: string
  pub_url :: string
  pub_description :: string
  pub_icon :: string
  pub_removed :: "string list"
  pub_edits_applied :: "nat option"

datatype unanswered = TimedOut nat | UnansweredDeclined | UnansweredFailed

record asked_option =
  ao_label :: string
  ao_description :: string
  ao_preview :: string

record asked_question =
  aq_header :: string
  aq_question :: string
  aq_multi_select :: bool
  aq_options :: "asked_option list"
  aq_answer :: "string option"
  aq_notes :: string

record asked =
  ask_questions :: "asked_question list"
  ask_unanswered :: "unanswered option"

datatype assistant_phase = Commentary | Final

record hunk =
  hk_old_start :: nat
  hk_new_start :: nat
  hk_lines :: "string list"
  hk_file :: "string option"

record inbox_quote =
  iq_from :: "string option"
  iq_at :: "string option"
  iq_text :: string

record inbox =
  ib_from :: string
  ib_id :: string
  ib_via :: "string option"
  ib_kind :: "string option"
  ib_at :: "string option"
  ib_about :: "string list"
  ib_to :: "string option"
  ib_task :: "string option"
  ib_guess :: "string option"
  ib_reply_to :: "inbox_quote option"
  ib_instructions :: string

datatype compact_trigger = TriggerAuto | TriggerManual

definition compact_trigger_parse :: "string \<Rightarrow> compact_trigger" where
  "compact_trigger_parse s = (if s = ''manual'' then TriggerManual else TriggerAuto)"

fun compact_trigger_as_str :: "compact_trigger \<Rightarrow> string" where
  "compact_trigger_as_str TriggerAuto = ''auto''"
| "compact_trigger_as_str TriggerManual = ''manual''"

datatype attachment_kind = AkFile | AkPlan | AkEdited | AkRef | AkImage

fun attachment_kind_as_str :: "attachment_kind \<Rightarrow> string" where
  "attachment_kind_as_str AkFile = ''file''"
| "attachment_kind_as_str AkPlan = ''plan''"
| "attachment_kind_as_str AkEdited = ''edited''"
| "attachment_kind_as_str AkRef = ''ref''"
| "attachment_kind_as_str AkImage = ''image''"

record span_hint =
  sh_off :: nat
  sh_len :: nat
  sh_prefix :: string
  sh_postfix :: string
  sh_mime :: "string option"

datatype attachment_content =
    AcNone
  | AcDeferred (ac_at: nat) (ac_index: nat) (ac_span: "span_hint option")

record attachment =
  at_kind :: attachment_kind
  at_name :: string
  at_path :: "string option"
  at_content :: attachment_content
  at_lines :: "nat option"

datatype agent_status =
    AsRunning | AsAsyncLaunched | AsCompleted | AsFailed | AsKilled | AsStopped | AsUnknown

fun is_terminal :: "agent_status \<Rightarrow> bool" where
  "is_terminal AsRunning = False"
| "is_terminal AsAsyncLaunched = False"
| "is_terminal _ = True"

fun done_verb :: "agent_status \<Rightarrow> string" where
  "done_verb AsCompleted = ''completed''"
| "done_verb AsFailed = ''failed''"
| "done_verb AsKilled = ''killed''"
| "done_verb AsStopped = ''stopped''"
| "done_verb _ = ''finished''"

text \<open>The fourteen fields of \<open>Block::ToolUse\<close>.\<close>

record tool_use =
  tu_name :: string
  tu_target :: string
  tu_diffs :: "(string \<times> string) list"
  tu_output :: "string option"
  tu_patch :: "hunk list option"
  tu_read_lines :: "nat option"
  tu_cwd :: string
  tu_execution :: "tool_execution option"
  tu_published :: "published option"
  tu_asked :: "asked option"
  tu_delivered :: "string list"
  tu_sent :: "string option"
  tu_sent_to :: "string option"
  tu_saved_output :: "string option"

subsection \<open>Blocks\<close>

text \<open>
  \<open>Block\<close> and \<open>SubAgent\<close> are mutually recursive: a coalesced thinking span nests
  the tool blocks it absorbed, and a spawned agent nests its own transcript.
\<close>

datatype block =
    UserText string
  | UserReply string reply_context
  | UserInbox string inbox
  | PeerText string "string option" string "string option"
  | QueueEvent string
  | AssistantText string
  | AssistantCutOff string
  | AssistantMessage string assistant_phase bool
  | Thinking string "nat option" "block list"
  | ToolUse tool_use
  | ToolResult string
  | SafetyStop "string option" string
  | AttachmentB attachment
  | SubAgentB sub_agent
  | AgentDone string string string agent_status "string option"
  | CommandB string string "string list"
  | Compaction compact_trigger nat nat string
and sub_agent =
  SubAgent (sa_agent_id: string) (sa_tool_use_id: string) (sa_agent_type: string)
    (sa_phase: "string option") (sa_description: string) (sa_prompt: string)
    (sa_status: agent_status) (sa_result: "string option") (sa_output_file: "string option")
    (sa_blocks: "block list") (sa_subtree_cost: "rat option")

text \<open>\<open>Block::opens_turn\<close>: the one definition of a turn boundary.\<close>

fun opens_turn :: "block \<Rightarrow> bool" where
  "opens_turn (UserText _) = True"
| "opens_turn (UserReply _ _) = True"
| "opens_turn (UserInbox _ _) = True"
| "opens_turn (CommandB _ _ _) = True"
| "opens_turn (PeerText _ _ _ _) = True"
| "opens_turn _ = False"

fun is_marker :: "block \<Rightarrow> bool" where
  "is_marker (QueueEvent _) = True"
| "is_marker _ = False"

fun is_call :: "block \<Rightarrow> bool" where
  "is_call (ToolUse _) = True"
| "is_call (SubAgentB _) = True"
| "is_call _ = False"

datatype blockkind =
    KUser | KPeer | KQueue | KAssistant | KThink | KAct | KToolResult | KAttachment | KAgent
  | KCommand | KBash | KEdit | KWrite | KRead | KSkill | KTool | KCompaction

definition tool_kind :: "string \<Rightarrow> blockkind" where
  "tool_kind name =
     (if name = ''Bash'' then KBash
      else if name \<in> {''Edit'', ''MultiEdit''} then KEdit
      else if name \<in> {''Write'', ''NotebookEdit''} then KWrite
      else if name \<in> {''Read'', ''Grep'', ''Glob'', ''LS'', ''NotebookRead''} then KRead
      else if name = ''Skill'' then KSkill
      else KTool)"

fun block_kind :: "block \<Rightarrow> blockkind" where
  "block_kind (UserText _) = KUser"
| "block_kind (UserReply _ _) = KUser"
| "block_kind (UserInbox _ _) = KUser"
| "block_kind (PeerText _ _ _ _) = KPeer"
| "block_kind (QueueEvent _) = KQueue"
| "block_kind (AssistantText _) = KAssistant"
| "block_kind (AssistantCutOff _) = KAssistant"
| "block_kind (AssistantMessage _ _ _) = KAssistant"
| "block_kind (Thinking _ _ tools) = (if tools = [] then KThink else KAct)"
| "block_kind (ToolResult _) = KToolResult"
| "block_kind (SafetyStop _ _) = KToolResult"
| "block_kind (AttachmentB _) = KAttachment"
| "block_kind (SubAgentB _) = KAgent"
| "block_kind (AgentDone _ _ _ _ _) = KAgent"
| "block_kind (CommandB _ _ _) = KCommand"
| "block_kind (Compaction _ _ _ _) = KCompaction"
| "block_kind (ToolUse t) = tool_kind (tu_name t)"

fun kind_fold_key :: "blockkind \<Rightarrow> string" where
  "kind_fold_key KUser = ''user''"
| "kind_fold_key KPeer = ''peer''"
| "kind_fold_key KQueue = ''queue''"
| "kind_fold_key KAssistant = ''assistant''"
| "kind_fold_key KThink = ''thinking''"
| "kind_fold_key KAct = ''thinking''"
| "kind_fold_key KToolResult = ''tool_result''"
| "kind_fold_key KAttachment = ''attachment''"
| "kind_fold_key KAgent = ''agent''"
| "kind_fold_key KCommand = ''command''"
| "kind_fold_key KBash = ''bash''"
| "kind_fold_key KEdit = ''edit''"
| "kind_fold_key KWrite = ''write''"
| "kind_fold_key KRead = ''read''"
| "kind_fold_key KSkill = ''skill''"
| "kind_fold_key KTool = ''tool''"
| "kind_fold_key KCompaction = ''compaction''"

fun kind_html :: "blockkind \<Rightarrow> string" where
  "kind_html KUser = ''user''"
| "kind_html KPeer = ''peer''"
| "kind_html KQueue = ''queue''"
| "kind_html KAssistant = ''assistant''"
| "kind_html KThink = ''think''"
| "kind_html KAct = ''act''"
| "kind_html KToolResult = ''tool''"
| "kind_html KAttachment = ''attachment''"
| "kind_html KAgent = ''agent''"
| "kind_html KCommand = ''command''"
| "kind_html KBash = ''bash''"
| "kind_html KEdit = ''edit''"
| "kind_html KWrite = ''write''"
| "kind_html KRead = ''read''"
| "kind_html KSkill = ''skill''"
| "kind_html KTool = ''tool''"
| "kind_html KCompaction = ''compaction''"

fun has_patch :: "block \<Rightarrow> bool" where
  "has_patch (ToolUse t) = (case tu_patch t of Some (_ # _) \<Rightarrow> True | _ \<Rightarrow> False)"
| "has_patch _ = False"

definition fold_key :: "block \<Rightarrow> string" where
  "fold_key b =
     (if has_patch b \<and> (block_kind b = KBash \<or> block_kind b = KWrite) then ''edit''
      else kind_fold_key (block_kind b))"

fun foldable :: "block \<Rightarrow> bool" where
  "foldable (ToolUse _) = True"
| "foldable (ToolResult _) = True"
| "foldable (SafetyStop _ _) = True"
| "foldable (Thinking _ _ _) = True"
| "foldable (CommandB _ _ _) = True"
| "foldable (SubAgentB _) = True"
| "foldable (AgentDone _ _ _ _ _) = True"
| "foldable (Compaction _ _ _ _) = True"
| "foldable _ = False"

text \<open>
  \<open>attach_skill_body\<close>: the body nests into the \<open>Skill\<close> call at the index, if
  there is one; \<open>None\<close> is the code's \<open>false\<close>.
\<close>

definition attach_skill_body :: "block list \<Rightarrow> nat option \<Rightarrow> string \<Rightarrow> block list option" where
  "attach_skill_body out idx body =
     (case idx of
        None \<Rightarrow> None
      | Some i \<Rightarrow>
          if i < length out then
            (case out ! i of
               ToolUse t \<Rightarrow>
                 if tu_name t = ''Skill'' then
                   Some (out[i := ToolUse (t\<lparr>tu_output :=
                     Some (case tu_output t of
                             Some o' \<Rightarrow> o' @ [char_of (10::nat), char_of (10::nat)] @ trim body
                           | None \<Rightarrow> trim body)\<rparr>)])
                 else None
             | _ \<Rightarrow> None)
          else None)"

subsection \<open>Coalescing work spans\<close>

definition is_activity_tool :: "string \<Rightarrow> bool" where
  "is_activity_tool name \<longleftrightarrow>
     name \<in> {''Bash'', ''Read'', ''NotebookRead'', ''Grep'', ''Glob'', ''LS''}
     \<or> starts_with name ''mcp__''"

definition is_edit_tool :: "string \<Rightarrow> bool" where
  "is_edit_tool name \<longleftrightarrow> name \<in> {''Edit'', ''MultiEdit'', ''Write'', ''NotebookEdit''}"

fun edit_call :: "block \<Rightarrow> bool" where
  "edit_call (ToolUse t) = is_edit_tool (tu_name t)"
| "edit_call _ = False"

text \<open>The running span: thinking texts, summed duration, tool calls, held attachments.\<close>

record span =
  sp_texts :: "string list"
  sp_dur :: "nat option"
  sp_tools :: "block list"
  sp_held :: "block list"

definition empty_span :: span where
  "empty_span = \<lparr>sp_texts = [], sp_dur = None, sp_tools = [], sp_held = []\<rparr>"

text \<open>
  The inner \<open>flush\<close>: the blocks it appends to the output, and the span it leaves.  It
  leaves texts, duration and tools behind when it writes no span, as the code does: those are
  empty then, but for a duration without text or tool.
\<close>

definition flush_span :: "span \<Rightarrow> block list \<times> span" where
  "flush_span s =
     (let only_edits = sp_texts s = [] \<and> sp_dur s = None \<and> list_all edit_call (sp_tools s) in
      if only_edits then (sp_tools s @ sp_held s, s\<lparr>sp_tools := [], sp_held := []\<rparr>)
      else if sp_texts s \<noteq> [] \<or> sp_tools s \<noteq> [] then
        (Thinking (join_with [char_of (10::nat), char_of (10::nat)] (sp_texts s)) (sp_dur s) (sp_tools s)
           # sp_held s, empty_span)
      else (sp_held s, s\<lparr>sp_held := []\<rparr>))"

definition open_span :: "span \<Rightarrow> bool" where
  "open_span s \<longleftrightarrow> sp_texts s \<noteq> [] \<or> sp_tools s \<noteq> []"

text \<open>One iteration of the loop over the blocks: what it emits and the span after it.\<close>

fun coalesce_step :: "span \<Rightarrow> block \<Rightarrow> block list \<times> span" where
  "coalesce_step s (Thinking text dur inner) =
     ([], s\<lparr>sp_tools := sp_tools s @ inner,
            sp_texts := (if trim text = [] then sp_texts s else sp_texts s @ [text]),
            sp_dur := (case dur of
                         None \<Rightarrow> sp_dur s
                       | Some d \<Rightarrow> Some ((case sp_dur s of None \<Rightarrow> 0 | Some x \<Rightarrow> x) + d))\<rparr>)"
| "coalesce_step s (ToolUse t) =
     (if is_activity_tool (tu_name t) \<or> is_edit_tool (tu_name t)
      then ([], s\<lparr>sp_tools := sp_tools s @ [ToolUse t]\<rparr>)
      else let (e, s') = flush_span s in (e @ [ToolUse t], s'))"
| "coalesce_step s (AttachmentB a) =
     (if open_span s then ([], s\<lparr>sp_held := sp_held s @ [AttachmentB a]\<rparr>)
      else ([AttachmentB a], s))"
| "coalesce_step s b = (let (e, s') = flush_span s in (e @ [b], s'))"

fun coalesce_loop :: "span \<Rightarrow> block list \<Rightarrow> block list" where
  "coalesce_loop s [] = fst (flush_span s)"
| "coalesce_loop s (b # bs) = (let (e, s') = coalesce_step s b in e @ coalesce_loop s' bs)"

definition coalesce_spans :: "block list \<Rightarrow> block list" where
  "coalesce_spans bs = coalesce_loop empty_span bs"

end
