(* ===== verification/Finish.thy ===== *)
theory Finish
  imports Model "HOL-Library.Multiset"
begin

text \<open>
  The contract the session fold needs of an agent's \<open>finish_turns\<close> hook, and its two
  built-in providers: \<open>coalesce_spans\<close> (Claude, Qoder, QoderWork) and
  \<open>codex_finish\<close>.  A finisher is applied turn by turn as turns close, so the fold is
  right only if finishing a prefix and finishing the rest from a turn boundary on is the same
  as finishing the whole, and it may not drop, add or reorder the blocks that open turns.
\<close>

subsection \<open>The contract\<close>

locale turn_finish =
  fixes finish :: "block list \<Rightarrow> block list"
    and raw_ok :: "block \<Rightarrow> bool"
  assumes finish_boundary:
      "list_all raw_ok xs \<Longrightarrow> opens_turn b \<Longrightarrow>
         finish (xs @ b # ys) = finish xs @ finish (b # ys)"
    and finish_openers: "filter opens_turn (finish xs) = filter opens_turn xs"
begin

lemma finish_turn_count: "count_if opens_turn (finish xs) = count_if opens_turn xs"
  by (simp add: count_if_def finish_openers)

lemma finish_split:
  assumes "list_all raw_ok xs" and "ys = [] \<or> opens_turn (hd ys)" and "finish [] = []"
  shows "finish (xs @ ys) = finish xs @ finish ys"
  using assms finish_boundary by (cases ys) auto

lemma finish_turns:
  assumes "\<And>t. t \<in> set ts \<Longrightarrow> t \<noteq> [] \<and> opens_turn (hd t) \<and> list_all raw_ok t"
    and "list_all raw_ok xs" and "finish [] = []"
  shows "finish (xs @ concat ts) = finish xs @ concat (map finish ts)"
  using assms
proof (induction ts arbitrary: xs)
  case Nil
  then show ?case by simp
next
  case (Cons t ts)
  have t: "t \<noteq> []" "opens_turn (hd t)" "list_all raw_ok t"
    using Cons.prems(1) by auto
  have "finish (xs @ t @ concat ts) = finish xs @ finish (t @ concat ts)"
    using t Cons.prems by (intro finish_split) auto
  also have "finish (t @ concat ts) = finish t @ concat (map finish ts)"
    using t Cons.prems by (intro Cons.IH) auto
  finally show ?case by simp
qed

end

subsection \<open>Claude's finisher\<close>

text \<open>
  The raw blocks the adapters produce never carry a blank thinking with a duration (the
  decoders drop a blank text or put a placeholder).  The side condition is needed: such a
  block leaves its duration behind when its span is flushed.
\<close>

fun thinking_ok :: "block \<Rightarrow> bool" where
  "thinking_ok (Thinking t d ts) = (trim t \<noteq> [] \<or> d = None)"
| "thinking_ok _ = True"

definition clean_span :: "span \<Rightarrow> bool" where
  "clean_span s \<longleftrightarrow> (sp_dur s = None \<or> open_span s)"

definition held_ok :: "span \<Rightarrow> bool" where
  "held_ok s \<longleftrightarrow> (\<forall>b\<in>set (sp_held s). \<exists>a. b = AttachmentB a)"

lemma empty_span_ok [simp]: "clean_span empty_span" "held_ok empty_span"
  by (simp_all add: clean_span_def held_ok_def empty_span_def)

lemma flush_empty [simp]: "flush_span empty_span = ([], empty_span)"
  by (simp add: flush_span_def empty_span_def)

lemma flush_clean: "clean_span s \<Longrightarrow> snd (flush_span s) = empty_span"
  by (cases s) (auto simp: flush_span_def clean_span_def open_span_def empty_span_def Let_def)

lemma flush_emptied [simp]:
  "sp_tools (snd (flush_span s)) = []" "sp_held (snd (flush_span s)) = []"
  by (auto simp: flush_span_def Let_def empty_span_def open_span_def)

lemma flush_held_ok: "held_ok (snd (flush_span s))"
  by (auto simp: flush_span_def held_ok_def empty_span_def Let_def)

lemma step_opener:
  "opens_turn b \<Longrightarrow> coalesce_step s b = (fst (flush_span s) @ [b], snd (flush_span s))"
  by (cases b) (auto simp: split_beta)

lemma step_clean:
  "thinking_ok b \<Longrightarrow> clean_span s \<Longrightarrow> clean_span (snd (coalesce_step s b))"
  by (cases b)
    (auto simp: split_beta flush_clean Let_def clean_span_def open_span_def empty_span_def
       split: option.splits)

lemma step_held_ok: "held_ok s \<Longrightarrow> held_ok (snd (coalesce_step s b))"
  by (cases b) (auto simp: split_beta flush_held_ok Let_def held_ok_def)

text \<open>The loop over a concatenation: run the first part, go on from the span it leaves.\<close>

fun coalesce_run :: "span \<Rightarrow> block list \<Rightarrow> block list \<times> span" where
  "coalesce_run s [] = ([], s)"
| "coalesce_run s (b # bs) =
     (let (e, s') = coalesce_step s b; (e', s'') = coalesce_run s' bs in (e @ e', s''))"

lemma loop_append:
  "coalesce_loop s (xs @ ys) = fst (coalesce_run s xs) @ coalesce_loop (snd (coalesce_run s xs)) ys"
  by (induction xs arbitrary: s) (auto simp: split_beta Let_def)

lemma loop_run:
  "coalesce_loop s xs = fst (coalesce_run s xs) @ fst (flush_span (snd (coalesce_run s xs)))"
  using loop_append [of s xs "[]"] by simp

lemma run_clean:
  "list_all thinking_ok xs \<Longrightarrow> clean_span s \<Longrightarrow> clean_span (snd (coalesce_run s xs))"
  by (induction xs arbitrary: s) (auto simp: split_beta Let_def step_clean)

lemma coalesce_boundary:
  assumes "list_all thinking_ok xs" and "opens_turn b"
  shows "coalesce_spans (xs @ b # ys) = coalesce_spans xs @ coalesce_spans (b # ys)"
proof -
  let ?s = "snd (coalesce_run empty_span xs)"
  have "clean_span ?s"
    using run_clean [OF assms(1)] by simp
  then have s: "snd (flush_span ?s) = empty_span"
    by (rule flush_clean)
  show ?thesis
    using s
    by (simp add: coalesce_spans_def loop_append loop_run [of _ xs] step_opener [OF assms(2)])
qed

lemma filter_openers_edits: "list_all edit_call ts \<Longrightarrow> filter opens_turn ts = []"
proof (induction ts)
  case (Cons t ts)
  then show ?case by (cases t) auto
qed simp

lemma flush_openers: "held_ok s \<Longrightarrow> filter opens_turn (fst (flush_span s)) = []"
proof -
  assume "held_ok s"
  then have "filter opens_turn (sp_held s) = []"
    by (auto simp: held_ok_def filter_empty_conv)
  then show ?thesis
    by (auto simp: flush_span_def Let_def filter_openers_edits)
qed

lemma step_openers:
  "held_ok s \<Longrightarrow> filter opens_turn (fst (coalesce_step s b)) = filter opens_turn [b]"
  by (cases b) (auto simp: split_beta flush_openers Let_def)

lemma loop_openers:
  "held_ok s \<Longrightarrow> filter opens_turn (coalesce_loop s bs) = filter opens_turn bs"
proof (induction bs arbitrary: s)
  case Nil
  then show ?case by (simp add: flush_openers)
next
  case (Cons b bs)
  then show ?case
    using step_openers [OF Cons.prems, of b] Cons.IH [OF step_held_ok [OF Cons.prems, of b]]
    by (auto simp: split_beta)
qed

interpretation claude: turn_finish coalesce_spans thinking_ok
proof unfold_locales
  show "filter opens_turn (coalesce_spans xs) = filter opens_turn xs" for xs
    by (simp add: coalesce_spans_def loop_openers)
qed (rule coalesce_boundary)

subsection \<open>What coalescing keeps\<close>

fun calls_of :: "block \<Rightarrow> block list" where
  "calls_of (Thinking t d ts) = ts"
| "calls_of b = [b]"

fun is_attachment :: "block \<Rightarrow> bool" where
  "is_attachment (AttachmentB a) = True"
| "is_attachment _ = False"

abbreviation leaves :: "block list \<Rightarrow> block list" where
  "leaves bs \<equiv> concat (map calls_of bs)"

abbreviation not_attachment :: "block \<Rightarrow> bool" where
  "not_attachment b \<equiv> \<not> is_attachment b"

definition span_leaves :: "span \<Rightarrow> block list" where
  "span_leaves s = sp_tools s @ sp_held s"

lemma leaves_edits: "list_all edit_call ts \<Longrightarrow> leaves ts = ts"
proof (induction ts)
  case (Cons t ts)
  then show ?case by (cases t) auto
qed simp

lemma leaves_held: "held_ok s \<Longrightarrow> leaves (sp_held s) = sp_held s"
proof -
  have "\<forall>b\<in>set xs. \<exists>a. b = AttachmentB a \<Longrightarrow> leaves xs = xs" for xs
    by (induction xs) auto
  then show "held_ok s \<Longrightarrow> ?thesis" by (simp add: held_ok_def)
qed

lemma flush_leaves: "held_ok s \<Longrightarrow> leaves (fst (flush_span s)) = span_leaves s"
  by (auto simp: flush_span_def Let_def span_leaves_def leaves_edits leaves_held)

lemma held_filtered: "held_ok s \<Longrightarrow> filter not_attachment (sp_held s) = []"
  by (auto simp: held_ok_def filter_empty_conv)

lemma step_leaves_seq:
  assumes "held_ok s"
  shows "filter not_attachment (leaves (fst (coalesce_step s b)) @ span_leaves (snd (coalesce_step s b)))
     = filter not_attachment (span_leaves s @ calls_of b)"
  using held_filtered [OF assms]
  by (cases b)
    (auto simp: split_beta Let_def flush_leaves [OF assms] span_leaves_def
       open_span_def)

lemma loop_leaves_seq:
  "held_ok s \<Longrightarrow> filter not_attachment (leaves (coalesce_loop s bs))
     = filter not_attachment (span_leaves s @ leaves bs)"
proof (induction bs arbitrary: s)
  case Nil
  then show ?case by (simp add: flush_leaves)
next
  case (Cons b bs)
  note IH = Cons.IH [OF step_held_ok [OF Cons.prems, of b]]
  have "filter not_attachment (leaves (coalesce_loop s (b # bs))) =
      filter not_attachment (leaves (fst (coalesce_step s b)) @ span_leaves (snd (coalesce_step s b)))
      @ filter not_attachment (leaves bs)"
    using IH by (simp add: split_beta)
  then show ?case
    by (simp only: step_leaves_seq [OF Cons.prems]) simp
qed

lemma step_leaves_mset:
  assumes "held_ok s"
  shows "mset (leaves (fst (coalesce_step s b))) + mset (span_leaves (snd (coalesce_step s b)))
     = mset (span_leaves s) + mset (calls_of b)"
  by (cases b)
    (auto simp: split_beta Let_def flush_leaves [OF assms] span_leaves_def
       open_span_def)

lemma loop_leaves_mset:
  "held_ok s \<Longrightarrow> mset (leaves (coalesce_loop s bs)) = mset (span_leaves s) + mset (leaves bs)"
proof (induction bs arbitrary: s)
  case Nil
  then show ?case by (simp add: flush_leaves)
next
  case (Cons b bs)
  show ?case
    using step_leaves_mset [OF Cons.prems, of b] Cons.IH [OF step_held_ok [OF Cons.prems, of b]]
    by (simp add: split_beta add.assoc [symmetric])
qed

subsection \<open>Codex's finisher\<close>

definition explore_read :: string where
  "explore_read = ''__codex_explore_read''"
definition explore_search :: string where
  "explore_search = ''__codex_explore_search''"
definition explore_list :: string where
  "explore_list = ''__codex_explore_list''"
definition explore_detail :: string where
  "explore_detail = ''__codex_explore_detail''"

definition canonical_activity :: "string \<Rightarrow> string option" where
  "canonical_activity name =
     (if name = explore_read then Some ''Read''
      else if name = explore_search then Some ''Grep''
      else if name = explore_list then Some ''LS''
      else None)"

definition codex_flush :: "block list \<Rightarrow> block list" where
  "codex_flush actions = (if actions = [] then [] else [Thinking [] None actions])"

fun tool_name_of :: "block \<Rightarrow> string" where
  "tool_name_of (ToolUse t) = tu_name t"
| "tool_name_of _ = []"

fun rename_call :: "string \<Rightarrow> block \<Rightarrow> block" where
  "rename_call n (ToolUse t) = ToolUse (t\<lparr>tu_name := n\<rparr>)"
| "rename_call n b = b"

definition detail_text :: "tool_use \<Rightarrow> string" where
  "detail_text t = ''$ '' @ tu_target t @
     (case tu_output t of None \<Rightarrow> [] | Some [] \<Rightarrow> [] | Some o' \<Rightarrow> char_of (10::nat) # o')"

fun set_detail :: "tool_use \<Rightarrow> block \<Rightarrow> block" where
  "set_detail d (ToolUse t) =
     ToolUse (t\<lparr>tu_output := Some (detail_text d), tu_execution := tu_execution d\<rparr>)"
| "set_detail d b = b"

text \<open>One iteration of the loop: the blocks emitted and the actions collected after it.\<close>

definition codex_step :: "block list \<Rightarrow> block \<Rightarrow> block list \<times> block list" where
  "codex_step actions b =
     (case canonical_activity (tool_name_of b) of
        Some c \<Rightarrow> ([], actions @ [rename_call c b])
      | None \<Rightarrow>
          if tool_name_of b = explore_detail \<and> actions \<noteq> [] then
            (case b of
               ToolUse d \<Rightarrow> ([], butlast actions @ [set_detail d (last actions)])
             | _ \<Rightarrow> ([], actions))
          else
            (codex_flush actions
               @ [if tool_name_of b = explore_detail then rename_call ''Bash'' b else b], []))"

fun codex_loop :: "block list \<Rightarrow> block list \<Rightarrow> block list" where
  "codex_loop actions [] = codex_flush actions"
| "codex_loop actions (b # bs) =
     (let (e, actions') = codex_step actions b in e @ codex_loop actions' bs)"

definition codex_finish :: "block list \<Rightarrow> block list" where
  "codex_finish bs = codex_loop [] bs"

lemma explore_names_nonempty:
  "explore_read \<noteq> []" "explore_search \<noteq> []" "explore_list \<noteq> []" "explore_detail \<noteq> []"
  by (simp_all add: explore_read_def explore_search_def explore_list_def explore_detail_def)

lemma codex_step_plain:
  "tool_name_of b = [] \<Longrightarrow> codex_step actions b = (codex_flush actions @ [b], [])"
  using explore_names_nonempty by (auto simp: codex_step_def canonical_activity_def)

lemma opener_no_name: "opens_turn b \<Longrightarrow> tool_name_of b = []"
  by (cases b) auto

lemma codex_loop_boundary:
  "opens_turn b \<Longrightarrow>
     codex_loop actions (xs @ b # ys) = codex_loop actions xs @ codex_loop [] (b # ys)"
proof (induction xs arbitrary: actions)
  case Nil
  then show ?case
    by (simp add: codex_step_plain opener_no_name codex_flush_def)
next
  case (Cons x xs)
  then show ?case by (simp add: split_beta)
qed

lemma rename_call_opens [simp]: "opens_turn (rename_call n b) = opens_turn b"
  by (cases b) auto

lemma codex_step_openers:
  "filter opens_turn (fst (codex_step actions b)) = filter opens_turn [b]"
proof (cases "tool_name_of b = []")
  case True
  then show ?thesis by (simp add: codex_step_plain codex_flush_def)
next
  case False
  then obtain t where "b = ToolUse t" by (cases b) auto
  then show ?thesis
    by (auto simp: codex_step_def codex_flush_def split: option.splits)
qed

lemma codex_loop_openers: "filter opens_turn (codex_loop actions bs) = filter opens_turn bs"
proof (induction bs arbitrary: actions)
  case Nil
  then show ?case by (simp add: codex_flush_def)
next
  case (Cons b bs)
  then show ?case
    using codex_step_openers [of actions b] by (auto simp: split_beta)
qed

interpretation codex: turn_finish codex_finish "\<lambda>_. True"
  by unfold_locales (auto simp: codex_finish_def codex_loop_boundary codex_loop_openers)

subsection \<open>Claim\<close>

text \<open>
  Coalescing work spans loses, invents and reorders nothing but attachments.  Over any
  block stream the calls and plain blocks (attachments apart) come out in the order they went
  in, nested in spans or not, every leaf block occurs as often as before, and the turn-opening
  blocks stay where they were.
\<close>

theorem coalesce_keeps_work:
  "filter not_attachment (leaves (coalesce_spans bs)) = filter not_attachment (leaves bs)
   \<and> mset (leaves (coalesce_spans bs)) = mset (leaves bs)
   \<and> filter opens_turn (coalesce_spans bs) = filter opens_turn bs"
  using loop_leaves_seq [of empty_span bs] loop_leaves_mset [of empty_span bs]
  by (simp add: coalesce_spans_def loop_openers) (simp add: span_leaves_def empty_span_def)

end
