(* ===== verification/Tasks.thy ===== *)
theory Tasks
  imports Base "HOL-Library.Multiset" "HOL-Library.Char_ord" "HOL-Library.List_Lexorder" "HOL-Library.Product_Lexorder"
begin

text \<open>
  The task list of a session (\<open>claude-replay-engine/src/engine/tasks.rs\<close>): items, the
  op-log reducer \<open>TaskFold\<close> with its create/resolve join, the \<open>TodoWrite\<close>
  snapshots that may be refused, and the overlay of the on-disk list.  The lemmas show that the
  list stays sorted with distinct ids, that replaying the recorded log rebuilds the live fold,
  and that a refused snapshot puts back exactly what it replaced.
\<close>

subsection \<open>Items and operations\<close>

datatype task_status = TkPending | TkInProgress | TkCompleted

definition task_status_parse :: "string \<Rightarrow> task_status" where
  "task_status_parse s =
     (if s = ''in_progress'' then TkInProgress
      else if s = ''completed'' then TkCompleted else TkPending)"

fun task_status_label :: "task_status \<Rightarrow> string" where
  "task_status_label TkPending = ''pending''"
| "task_status_label TkInProgress = ''in_progress''"
| "task_status_label TkCompleted = ''completed''"

record task_log_entry =
  tl_ts :: string
  tl_by :: string
  tl_msg :: string

record task_item =
  ti_id :: string
  ti_subject :: string
  ti_description :: string
  ti_active_form :: string
  ti_status :: task_status
  ti_blocks :: "string list"
  ti_blocked_by :: "string list"
  ti_owner :: string
  ti_created :: string
  ti_claimed :: string
  ti_completed :: string
  ti_updated :: string
  ti_outcome :: string
  ti_accept :: "string list"
  ti_checks :: nat
  ti_deferred :: bool
  ti_deferred_reason :: string
  ti_log :: "task_log_entry list"

definition task_item_default :: task_item where
  "task_item_default =
     \<lparr>ti_id = [], ti_subject = [], ti_description = [], ti_active_form = [],
      ti_status = TkPending, ti_blocks = [], ti_blocked_by = [], ti_owner = [],
      ti_created = [], ti_claimed = [], ti_completed = [], ti_updated = [], ti_outcome = [],
      ti_accept = [], ti_checks = 0, ti_deferred = False, ti_deferred_reason = [], ti_log = []\<rparr>"

record todo =
  td_text :: string
  td_status :: string
  td_active_form :: string

datatype task_op =
    Create string string string string "string list"
  | Resolve string "string option"
  | Update string "string option" "string option" "string option" "string option"
      "string list" "string list"
  | Snapshot "todo list" "string option"
  | Retract string

subsection \<open>The order of the list\<close>

text \<open>
  \<open>TaskList::sort\<close>'s comparator: prefix first, then the number (an id with one before an
  id without), then the whole id.
\<close>

datatype task_key = TaskKey string "nat option" string

fun task_key_rep :: "task_key \<Rightarrow> string \<times> (nat \<times> nat) \<times> string" where
  "task_key_rep (TaskKey p n i) = (p, (case n of Some x \<Rightarrow> (0, x) | None \<Rightarrow> (1, 0)), i)"

lemma task_key_rep_inj: "task_key_rep a = task_key_rep b \<Longrightarrow> a = b"
  by (cases a; cases b) (auto split: option.splits)

instantiation task_key :: linorder
begin

definition less_eq_task_key :: "task_key \<Rightarrow> task_key \<Rightarrow> bool" where
  "less_eq_task_key a b = (task_key_rep a \<le> task_key_rep b)"

definition less_task_key :: "task_key \<Rightarrow> task_key \<Rightarrow> bool" where
  "less_task_key a b = (task_key_rep a < task_key_rep b)"

instance
  by standard
    (auto simp: less_eq_task_key_def less_task_key_def not_le intro: task_key_rep_inj)

end

definition task_key_of :: "string \<Rightarrow> task_key" where
  "task_key_of i =
     (let n = length (takeWhile (\<lambda>c. \<not> is_ascii_digit c) i)
      in TaskKey (take n i) (parse_u64 (drop n i)) i)"

definition task_sort :: "task_item list \<Rightarrow> task_item list" where
  "task_sort items = sort_key (\<lambda>t. task_key_of (ti_id t)) items"

subsection \<open>The reducer\<close>

record task_fold =
  tf_list :: "task_item list"
  tf_pending :: "(string \<times> task_item) list"
  tf_held :: "(string \<times> task_item list) option"
  tf_recorded :: "task_op list"

definition task_fold_default :: task_fold where
  "task_fold_default = \<lparr>tf_list = [], tf_pending = [], tf_held = None, tf_recorded = []\<rparr>"

fun is_snapshot_from :: "nat \<Rightarrow> task_item list \<Rightarrow> bool" where
  "is_snapshot_from i [] = True"
| "is_snapshot_from i (t # ts) = (ti_id t = show_nat i \<and> is_snapshot_from (Suc i) ts)"

definition is_snapshot_built :: "task_item list \<Rightarrow> bool" where
  "is_snapshot_built items = is_snapshot_from 0 items"

fun snapshot_items :: "nat \<Rightarrow> todo list \<Rightarrow> task_item list" where
  "snapshot_items i [] = []"
| "snapshot_items i (t # ts) =
     task_item_default\<lparr>ti_id := show_nat i, ti_subject := td_text t,
       ti_active_form := td_active_form t, ti_status := task_status_parse (td_status t)\<rparr>
     # snapshot_items (Suc i) ts"

definition or_else :: "'a list \<Rightarrow> 'a list \<Rightarrow> 'a list" where
  "or_else xs ys = (if xs = [] then ys else xs)"

text \<open>\<open>join\<close>: land a pending create under its id, or drop it when the create failed.\<close>

definition fill_from :: "task_item \<Rightarrow> task_item \<Rightarrow> task_item" where
  "fill_from item prev = item\<lparr>
     ti_subject := or_else (ti_subject item) (ti_subject prev),
     ti_description := or_else (ti_description item) (ti_description prev),
     ti_active_form := or_else (ti_active_form item) (ti_active_form prev),
     ti_blocked_by := or_else (ti_blocked_by item) (ti_blocked_by prev),
     ti_blocks := or_else (ti_blocks item) (ti_blocks prev),
     ti_status := ti_status prev\<rparr>"

definition task_join :: "task_fold \<Rightarrow> string \<Rightarrow> string option \<Rightarrow> task_fold" where
  "task_join f tool_use_id oid =
     (case position (\<lambda>(k, _). k = tool_use_id) (tf_pending f) of
        None \<Rightarrow> f
      | Some pos \<Rightarrow>
          (let draft = snd (tf_pending f ! pos);
               f' = f\<lparr>tf_pending := remove_nth pos (tf_pending f)\<rparr>
           in case oid of
                None \<Rightarrow> f'
              | Some i \<Rightarrow>
                  (let item = draft\<lparr>ti_id := i\<rparr>;
                       item' = (case find (\<lambda>t. ti_id t = i) (tf_list f) of
                                  None \<Rightarrow> item | Some prev \<Rightarrow> fill_from item prev)
                   in f'\<lparr>tf_list :=
                        task_sort (filter (\<lambda>t. ti_id t \<noteq> i) (tf_list f) @ [item'])\<rparr>)))"

fun update_task :: "string \<Rightarrow> (task_item \<Rightarrow> task_item) \<Rightarrow> task_item list \<Rightarrow> task_item list" where
  "update_task i g [] = [g (task_item_default\<lparr>ti_id := i\<rparr>)]"
| "update_task i g (t # ts) = (if ti_id t = i then g t # ts else t # update_task i g ts)"

fun push_missing :: "string list \<Rightarrow> string list \<Rightarrow> string list" where
  "push_missing xs [] = xs"
| "push_missing xs (y # ys) = push_missing (if y \<in> set xs then xs else xs @ [y]) ys"

definition with_default :: "'a \<Rightarrow> 'a option \<Rightarrow> 'a" where
  "with_default d x = (case x of None \<Rightarrow> d | Some v \<Rightarrow> v)"

definition update_fields ::
  "string option \<Rightarrow> string option \<Rightarrow> string option \<Rightarrow> string option \<Rightarrow> string list \<Rightarrow> string list
     \<Rightarrow> task_item \<Rightarrow> task_item" where
  "update_fields status subject description active_form add_blocks add_blocked_by t = t\<lparr>
     ti_status := (case status of None \<Rightarrow> ti_status t | Some s \<Rightarrow> task_status_parse s),
     ti_subject := with_default (ti_subject t) subject,
     ti_description := with_default (ti_description t) description,
     ti_active_form := with_default (ti_active_form t) active_form,
     ti_blocks := push_missing (ti_blocks t) add_blocks,
     ti_blocked_by := push_missing (ti_blocked_by t) add_blocked_by\<rparr>"

fun apply_recorded :: "task_fold \<Rightarrow> task_op \<Rightarrow> task_fold" where
  "apply_recorded f (Create tuid subject description active_form blocked_by) =
     f\<lparr>tf_pending := tf_pending f @
        [(tuid, task_item_default\<lparr>ti_subject := subject, ti_description := description,
           ti_active_form := active_form, ti_blocked_by := blocked_by\<rparr>)]\<rparr>"
| "apply_recorded f (Resolve tuid oid) = task_join f tuid oid"
| "apply_recorded f (Update i status subject description active_form bs bbs) =
     f\<lparr>tf_list := task_sort
        (update_task i (update_fields status subject description active_form bs bbs) (tf_list f))\<rparr>"
| "apply_recorded f (Snapshot todos tuid) =
     (if is_snapshot_built (tf_list f)
      then f\<lparr>tf_held := map_option (\<lambda>i. (i, tf_list f)) tuid,
             tf_list := task_sort (snapshot_items 0 todos)\<rparr>
      else f)"
| "apply_recorded f (Retract tuid) =
     (case tf_held f of
        Some (i, items) \<Rightarrow> if i = tuid then f\<lparr>tf_held := None, tf_list := items\<rparr> else f
      | None \<Rightarrow> f)"

fun is_snapshot_op :: "task_op \<Rightarrow> bool" where
  "is_snapshot_op (Snapshot _ _) = True"
| "is_snapshot_op _ = False"

text \<open>\<open>apply\<close>: record and apply; a snapshot that changes nothing is skipped altogether.\<close>

definition task_apply :: "task_fold \<Rightarrow> task_op \<Rightarrow> task_fold" where
  "task_apply f op =
     (if is_snapshot_op op \<and> tf_list (apply_recorded f op) = tf_list f then f
      else apply_recorded (f\<lparr>tf_recorded := tf_recorded f @ [op]\<rparr>) op)"

text \<open>The id a create's result names: the digits after the first \<open>#\<close>.\<close>

definition created_id :: "string \<Rightarrow> string option" where
  "created_id text =
     (case split_on (CHR ''#'') text of
        _ # r # _ \<Rightarrow> (let d = takeWhile is_ascii_digit r in if d = [] then None else Some d)
      | _ \<Rightarrow> None)"

definition on_tool_result :: "task_fold \<Rightarrow> string \<Rightarrow> string \<Rightarrow> task_fold" where
  "on_tool_result f tuid text =
     (if list_ex (\<lambda>(k, _). k = tuid) (tf_pending f)
      then task_apply f (Resolve tuid (created_id text)) else f)"

definition on_tool_outcome :: "task_fold \<Rightarrow> string \<Rightarrow> bool option \<Rightarrow> task_fold" where
  "on_tool_outcome f tuid is_error =
     (if is_error = Some True \<and> (case tf_held f of Some (i, _) \<Rightarrow> i = tuid | None \<Rightarrow> False)
      then task_apply f (Retract tuid) else f)"

definition drain_recorded :: "task_fold \<Rightarrow> task_op list \<times> task_fold" where
  "drain_recorded f = (tf_recorded f, f\<lparr>tf_recorded := []\<rparr>)"

definition task_fold_is_empty :: "task_fold \<Rightarrow> bool" where
  "task_fold_is_empty f \<longleftrightarrow> tf_list f = [] \<and> tf_pending f = []"

subsection \<open>The list on disk\<close>

text \<open>\<open>merged\<close>: the disk list where it has an item, the log's other items after it.\<close>

fun add_missing :: "task_item list \<Rightarrow> task_item list \<Rightarrow> task_item list" where
  "add_missing out [] = out"
| "add_missing out (t # ts) =
     add_missing (if list_ex (\<lambda>d. ti_id d = ti_id t) out then out else out @ [t]) ts"

definition task_merged :: "task_item list \<Rightarrow> task_item list option \<Rightarrow> task_item list" where
  "task_merged oplog disk =
     (case disk of None \<Rightarrow> oplog | Some d \<Rightarrow> task_sort (add_missing d oplog))"

text \<open>The bytes of the ellipsis a truncated subject ends with.\<close>

definition ellipsis :: string where
  "ellipsis = map char_of [226::nat, 128, 166]"

definition same_subject :: "string \<Rightarrow> string \<Rightarrow> bool" where
  "same_subject oplog disk \<longleftrightarrow>
     oplog = disk
     \<or> (3 \<le> length oplog \<and> drop (length oplog - 3) oplog = ellipsis
         \<and> (let head = take (length oplog - 3) oplog
             in head \<noteq> [] \<and> starts_with disk head))"

definition enrich_item :: "task_item \<Rightarrow> task_item \<Rightarrow> task_item" where
  "enrich_item item disk = item\<lparr>
     ti_subject := or_else (ti_subject item) (ti_subject disk),
     ti_description := or_else (ti_description item) (ti_description disk),
     ti_active_form := or_else (ti_active_form item) (ti_active_form disk),
     ti_status := ti_status disk,
     ti_owner := ti_owner disk, ti_created := ti_created disk, ti_claimed := ti_claimed disk,
     ti_completed := ti_completed disk, ti_updated := ti_updated disk,
     ti_outcome := ti_outcome disk, ti_accept := ti_accept disk, ti_checks := ti_checks disk,
     ti_deferred := ti_deferred disk, ti_deferred_reason := ti_deferred_reason disk,
     ti_log := ti_log disk,
     ti_blocked_by := or_else (ti_blocked_by item) (ti_blocked_by disk),
     ti_blocks := or_else (ti_blocks item) (ti_blocks disk)\<rparr>"

definition queue_match :: "task_item list \<Rightarrow> task_item \<Rightarrow> task_item option" where
  "queue_match queue item =
     find (\<lambda>d. ti_id d = ti_id item
              \<and> (ti_subject item = [] \<or> same_subject (ti_subject item) (ti_subject d))) queue"

definition enrich_from_queue :: "task_item list \<Rightarrow> task_item list \<Rightarrow> task_item list" where
  "enrich_from_queue items queue =
     map (\<lambda>item. case queue_match queue item of
                   None \<Rightarrow> item | Some disk \<Rightarrow> enrich_item item disk) items"

fun json_arr :: "json option \<Rightarrow> json list" where
  "json_arr (Some (JArr xs)) = xs"
| "json_arr _ = []"

definition json_text :: "json option \<Rightarrow> string" where
  "json_text v = with_default [] (Option.bind v json_as_str)"

definition json_field :: "json \<Rightarrow> string \<Rightarrow> string" where
  "json_field v k = json_text (json_get v k)"

definition json_strings :: "json \<Rightarrow> string \<Rightarrow> string list" where
  "json_strings v k = List.map_filter json_as_str (json_arr (json_get v k))"

definition task_log_of :: "json \<Rightarrow> task_log_entry" where
  "task_log_of e =
     \<lparr>tl_ts = json_field e ''ts'', tl_by = json_field e ''by'',
      tl_msg = json_text (case json_get e ''msg'' of Some m \<Rightarrow> Some m
                          | None \<Rightarrow> json_get e ''message'')\<rparr>"

definition task_from_json :: "json \<Rightarrow> task_item option" where
  "task_from_json v =
     (let i = json_field v ''id'';
          meta_str = (\<lambda>k. json_text (Option.bind (json_get v ''meta'') (\<lambda>m. json_get m k)))
      in if i = [] then None
         else Some
          \<lparr>ti_id = i,
           ti_subject = json_field v ''subject'',
           ti_description = json_field v ''description'',
           ti_active_form = json_field v ''activeForm'',
           ti_status = task_status_parse (json_field v ''status''),
           ti_blocks = json_strings v ''blocks'',
           ti_blocked_by = json_strings v ''blockedBy'',
           ti_owner = json_field v ''owner'',
           ti_created = json_field v ''created_at'',
           ti_claimed = json_field v ''claimed_at'',
           ti_completed = json_field v ''completed_at'',
           ti_updated = json_field v ''updated_at'',
           ti_outcome = json_field v ''outcome'',
           ti_accept = json_strings v ''accept'',
           ti_checks = length (json_arr (json_get v ''checks'')),
           ti_deferred = (meta_str ''deferred'' = ''true''),
           ti_deferred_reason = meta_str ''deferred_reason'',
           ti_log = filter (\<lambda>e. tl_msg e \<noteq> []) (map task_log_of (json_arr (json_get v ''log'')))\<rparr>)"

subsection \<open>Runs\<close>

text \<open>What the accumulator feeds the fold: operations, and the two halves of a result.\<close>

datatype task_event =
    TeOp task_op
  | TeResult string string
  | TeOutcome string "bool option"

fun task_step :: "task_fold \<Rightarrow> task_event \<Rightarrow> task_fold" where
  "task_step f (TeOp op) = task_apply f op"
| "task_step f (TeResult i text) = on_tool_result f i text"
| "task_step f (TeOutcome i e) = on_tool_outcome f i e"

definition task_run :: "task_fold \<Rightarrow> task_event list \<Rightarrow> task_fold" where
  "task_run f evs = foldl task_step f evs"

definition task_replay :: "task_fold \<Rightarrow> task_op list \<Rightarrow> task_fold" where
  "task_replay f ops = foldl apply_recorded f ops"

text \<open>The fold's value: what the code's \<open>PartialEq\<close> and serialization see.\<close>

definition task_value :: "task_fold \<Rightarrow> task_fold" where
  "task_value f = f\<lparr>tf_recorded := []\<rparr>"

subsection \<open>Live fold and replay\<close>

lemma task_join_recorded:
  "task_join (f\<lparr>tf_recorded := r\<rparr>) i oid = (task_join f i oid)\<lparr>tf_recorded := r\<rparr>"
  by (simp add: task_join_def Let_def split: option.splits)

lemma apply_recorded_recorded:
  "apply_recorded (f\<lparr>tf_recorded := r\<rparr>) op = (apply_recorded f op)\<lparr>tf_recorded := r\<rparr>"
  by (cases op) (auto simp: task_join_recorded split: option.splits)

lemma apply_recorded_keeps: "tf_recorded (apply_recorded f op) = tf_recorded f"
  by (cases op) (auto simp: task_join_def Let_def split: option.splits)

lemma task_value_apply: "task_value (apply_recorded f op) = apply_recorded (task_value f) op"
  by (simp add: task_value_def apply_recorded_recorded)

text \<open>\<open>extends f f'\<close>: the log grew by operations whose replay explains the new value.\<close>

definition extends :: "task_fold \<Rightarrow> task_fold \<Rightarrow> bool" where
  "extends f f' \<longleftrightarrow>
     (\<exists>new. tf_recorded f' = tf_recorded f @ new
        \<and> task_value f' = task_replay (task_value f) new)"

lemma extends_refl [inv_intros]: "extends f f"
  by (auto simp: extends_def task_replay_def)

lemma extends_trans: "extends f g \<Longrightarrow> extends g h \<Longrightarrow> extends f h"
  unfolding extends_def task_replay_def by (metis append_assoc foldl_append)

lemma extends_apply [inv_intros]: "extends f (task_apply f op)"
proof (cases "is_snapshot_op op \<and> tf_list (apply_recorded f op) = tf_list f")
  case True
  then show ?thesis by (simp add: task_apply_def extends_refl)
next
  case False
  then have "task_apply f op = apply_recorded (f\<lparr>tf_recorded := tf_recorded f @ [op]\<rparr>) op"
    unfolding task_apply_def by (rule if_not_P)
  then show ?thesis
    by (auto simp: extends_def apply_recorded_keeps task_value_apply task_replay_def
        task_value_def apply_recorded_recorded intro!: exI [of _ "[op]"])
qed

lemma extends_step [inv_intros]: "extends f (task_step f e)"
  by (cases e) (auto simp: on_tool_result_def on_tool_outcome_def intro: inv_intros)

lemma extends_run: "extends f (task_run f evs)"
  unfolding task_run_def
  by (induction evs arbitrary: f) (auto intro: inv_intros extends_trans)

subsection \<open>The list stays sorted, its ids distinct\<close>

definition task_ids :: "task_item list \<Rightarrow> string list" where
  "task_ids items = map ti_id items"

definition list_ok :: "task_item list \<Rightarrow> bool" where
  "list_ok items \<longleftrightarrow>
     sorted (map (\<lambda>t. task_key_of (ti_id t)) items) \<and> distinct (task_ids items)"

definition fold_ok :: "task_fold \<Rightarrow> bool" where
  "fold_ok f \<longleftrightarrow> list_ok (tf_list f)
     \<and> (case tf_held f of None \<Rightarrow> True | Some (_, items) \<Rightarrow> list_ok items)"

lemma list_ok_sort: "distinct (task_ids items) \<Longrightarrow> list_ok (task_sort items)"
proof -
  assume "distinct (task_ids items)"
  moreover have "mset (task_ids (task_sort items)) = mset (task_ids items)"
    by (simp add: task_ids_def task_sort_def)
  ultimately show ?thesis
    by (simp add: list_ok_def task_sort_def) (metis mset_eq_imp_distinct_iff task_sort_def)
qed

lemma set_task_sort [simp]: "set (task_sort items) = set items"
  by (simp add: task_sort_def)

lemma task_ids_update:
  "(\<And>t. ti_id (g t) = ti_id t) \<Longrightarrow>
     task_ids (update_task i g items) =
       (if i \<in> set (task_ids items) then task_ids items else task_ids items @ [i])"
  by (induction items) (auto simp: task_ids_def)

lemma update_fields_id [simp]: "ti_id (update_fields a b c d e f t) = ti_id t"
  by (simp add: update_fields_def)

lemma task_ids_snapshot: "task_ids (snapshot_items i ts) = map show_nat [i..<i + length ts]"
  by (induction ts arbitrary: i) (auto simp: task_ids_def upt_rec)

lemma distinct_snapshot: "distinct (task_ids (snapshot_items i ts))"
  by (auto simp: task_ids_snapshot distinct_map inj_on_def dest: show_nat_inj)

lemma find_id: "find (\<lambda>t. ti_id t = i) items = Some p \<Longrightarrow> ti_id p = i"
  by (auto simp: find_Some_iff)

lemma task_join_ok: "fold_ok f \<Longrightarrow> fold_ok (task_join f tuid oid)"
proof -
  assume f: "fold_ok f"
  have d: "distinct (task_ids (filter (\<lambda>t. ti_id t \<noteq> i) (tf_list f) @ [x]))" if "ti_id x = i" for i x
    using f that by (auto simp: fold_ok_def list_ok_def task_ids_def distinct_map_filter)
  show ?thesis
    using f by (auto simp: task_join_def Let_def fold_ok_def fill_from_def
        intro!: list_ok_sort d split: option.splits)
qed

lemma apply_recorded_ok: "fold_ok f \<Longrightarrow> fold_ok (apply_recorded f op)"
proof (cases op)
  case (Resolve i oid)
  then show "fold_ok f \<Longrightarrow> ?thesis" by (simp add: task_join_ok)
next
  case (Update i s u d a bs bbs)
  assume f: "fold_ok f"
  then have "distinct (task_ids (update_task i (update_fields s u d a bs bbs) (tf_list f)))"
    by (auto simp: task_ids_update fold_ok_def list_ok_def)
  then show ?thesis
    using f Update by (simp add: fold_ok_def list_ok_sort)
qed (auto simp: fold_ok_def list_ok_sort distinct_snapshot split: option.splits)

lemma task_apply_ok: "fold_ok f \<Longrightarrow> fold_ok (task_apply f op)"
  using apply_recorded_ok [of "f\<lparr>tf_recorded := tf_recorded f @ [op]\<rparr>" op]
  by (simp add: task_apply_def fold_ok_def)

lemma task_step_ok: "fold_ok f \<Longrightarrow> fold_ok (task_step f e)"
  by (cases e) (auto simp: on_tool_result_def on_tool_outcome_def task_apply_ok)

lemma task_run_ok: "fold_ok f \<Longrightarrow> fold_ok (task_run f evs)"
  unfolding task_run_def by (induction evs arbitrary: f) (auto simp: task_step_ok)

lemma default_fold_ok [simp]: "fold_ok task_fold_default"
  by (simp add: fold_ok_def list_ok_def task_fold_default_def task_ids_def)

subsection \<open>Disk overlay\<close>

lemma task_ids_add_missing:
  "distinct (task_ids out) \<Longrightarrow> distinct (task_ids (add_missing out ts))
     \<and> set (task_ids (add_missing out ts)) = set (task_ids out) \<union> set (task_ids ts)"
proof (induction ts arbitrary: out)
  case (Cons t ts)
  show ?case
  proof (cases "ti_id t \<in> set (task_ids out)")
    case True
    then have "list_ex (\<lambda>d. ti_id d = ti_id t) out"
      by (auto simp: task_ids_def list_ex_iff)
    with True Cons show ?thesis by (auto simp: task_ids_def)
  next
    case False
    then have "\<not> list_ex (\<lambda>d. ti_id d = ti_id t) out" "distinct (task_ids (out @ [t]))"
      using Cons.prems by (auto simp: task_ids_def list_ex_iff image_iff)
    with Cons.IH [of "out @ [t]"] show ?thesis by (auto simp: task_ids_def)
  qed
qed (simp add: task_ids_def)

lemma add_missing_keeps: "set out \<subseteq> set (add_missing out ts)"
proof (induction ts arbitrary: out)
  case (Cons t ts)
  then show ?case using Cons.IH [of "out @ [t]"] by auto
qed simp

lemma add_missing_new:
  "t \<in> set (add_missing out ts) \<Longrightarrow> t \<notin> set out \<Longrightarrow> t \<in> set ts \<and> ti_id t \<notin> set (task_ids out)"
proof (induction ts arbitrary: out)
  case (Cons u us)
  show ?case
  proof (cases "list_ex (\<lambda>d. ti_id d = ti_id u) out")
    case True
    with Cons show ?thesis by auto
  next
    case False
    with Cons have "t = u \<or> (t \<in> set us \<and> ti_id t \<notin> set (task_ids (out @ [u])))"
      by (cases "t = u") auto
    with False show ?thesis by (auto simp: task_ids_def list_ex_iff)
  qed
qed simp

subsection \<open>Claims\<close>

text \<open>
  C4: the recorded operations explain the live task list.  Starting from any fold, whatever
  operations, results and outcomes are fed to it, replaying the operations recorded on the way
  onto the starting value gives the value of the live fold, so a list rebuilt from the persisted
  log equals the one the session showed.
\<close>

theorem task_log_replays:
  "\<exists>new. tf_recorded (task_run f evs) = tf_recorded f @ new
    \<and> task_value (task_run f evs) = task_replay (task_value f) new"
  using extends_run [of f evs] by (simp add: extends_def)

text \<open>
  The task list is always sorted by its key, with no id twice, and so is the list held
  back for a snapshot that may yet be refused.
\<close>

theorem task_list_sorted:
  "fold_ok (task_run task_fold_default evs)"
  by (simp add: task_run_ok)

end
