(* ===== verification/Message.thy ===== *)
theory Message
  imports Model Tasks
begin

text \<open>
  The canonical message log (\<open>claude-replay-engine/src/engine/message.rs\<close>): what an agent's
  decoder produces and the replayer folds, and the per-agent hooks of the fold
  (\<open>Shaping\<close>, \<open>claude-replay-engine/src/engine/replay.rs\<close>).
\<close>

datatype queue_op_kind = QEnqueue | QRemove | QDequeue | QPopAll

datatype note_kind = NotePlain | NoteFailure

datatype message =
    LineStart "epoch_seconds option"
  | MAssistantText string
  | MAssistantCutOff string
  | MAssistantMessage string assistant_phase bool
  | MThinking string "epoch_seconds option"
  | MToolUse string string json string
  | MToolResult string string json "bool option"
  | MUserText string
  | MUserReply string reply_context
  | MUserInbox string string inbox "attachment list"
  | MPeerText string "string option" string "string option" "string option"
  | MSystemNote string note_kind
  | MRefused string "string option"
  | MRefusedNote string string
  | MSandboxOn
  | MSandboxRun string bool
  | MSkillBody string string
  | MCommand string string "string list"
  | MCommandStdout string
  | MAttachmentPrompt string
  | MAttachment attachment
  | MImagePaths "string list"
  | MTaskOp task_op
  | MTurnDuration nat "epoch_seconds option"
  | MQueueOp queue_op_kind "string option" bool "string option"
  | MCompletion string string "agent_status option" string "string option"
  | MCompactBoundary compact_trigger nat nat
  | MCompactUsage nat nat
  | MCompactSummary string

text \<open>\<open>Message::can_open_turn\<close>.\<close>

fun can_open_turn :: "message \<Rightarrow> bool" where
  "can_open_turn (MUserText _) = True"
| "can_open_turn (MUserReply _ _) = True"
| "can_open_turn (MUserInbox _ _ _ _) = True"
| "can_open_turn (MPeerText _ _ _ _ _) = True"
| "can_open_turn (MCommand _ _ _) = True"
| "can_open_turn (MCommandStdout _) = True"
| "can_open_turn (MAttachmentPrompt _) = True"
| "can_open_turn _ = False"

text \<open>
  The agent-specific seam: the block for a call, the join of a result onto a block, whether an
  orphan result is kept, and the final shaping of finished turns.
\<close>

record shaping =
  build_tool :: "string \<Rightarrow> string \<Rightarrow> json \<Rightarrow> string \<Rightarrow> block"
  join_result :: "block \<Rightarrow> string \<Rightarrow> json \<Rightarrow> bool option \<Rightarrow> block"
  keep_orphan :: "string \<Rightarrow> bool"
  finish_turns :: "block list \<Rightarrow> block list"

end
