(* ===== verification/Ansi.thy ===== *)
theory Ansi
  imports Base
begin

text \<open>
  Terminal styling out of transcript text (\<open>claude-replay-engine/src/engine/ansi.rs\<close>).
  The text is UTF-8 bytes; only the two-byte escape looks at a whole character, and skips it
  by the length its lead byte gives.
\<close>

definition is_esc :: "char \<Rightarrow> bool" where
  "is_esc c \<longleftrightarrow> byte c = 27"

definition utf8_len :: "char \<Rightarrow> nat" where
  "utf8_len c =
     (if byte c < 192 then 1 else if byte c < 224 then 2 else if byte c < 240 then 3 else 4)"

text \<open>\<open>s.chars().take(n)\<close>.\<close>

fun utf8_take :: "nat \<Rightarrow> string \<Rightarrow> string" where
  "utf8_take 0 s = []"
| "utf8_take (Suc n) s =
     (case s of [] \<Rightarrow> []
      | c # _ \<Rightarrow> take (utf8_len c) s @ utf8_take n (drop (utf8_len c) s))"

fun skip_csi :: "string \<Rightarrow> string" where
  "skip_csi [] = []"
| "skip_csi (c # cs) = (if 64 \<le> byte c \<and> byte c \<le> 126 then cs else skip_csi cs)"

fun skip_osc :: "string \<Rightarrow> string" where
  "skip_osc [] = []"
| "skip_osc (c # cs) =
     (if byte c = 7 then cs
      else if is_esc c then (case cs of d # ds \<Rightarrow> if byte d = 92 then ds else cs | [] \<Rightarrow> [])
      else skip_osc cs)"

lemma skip_csi_length: "length (skip_csi s) \<le> length s"
  by (induction s) auto

lemma skip_osc_length: "length (skip_osc s) \<le> length s"
  by (induction s) (auto split: list.splits)

function strip_loop :: "string \<Rightarrow> string" where
  "strip_loop [] = []"
| "strip_loop (c # cs) =
     (if \<not> is_esc c then c # strip_loop cs
      else case cs of
             [] \<Rightarrow> []
           | n # ns \<Rightarrow>
               if byte n = 91 then strip_loop (skip_csi ns)
               else if byte n = 93 then strip_loop (skip_osc ns)
               else strip_loop (drop (utf8_len n) cs))"
  by pat_completeness auto
termination
  by (relation "measure length")
    (auto simp: le_imp_less_Suc less_Suc_eq_le skip_csi_length skip_osc_length
       intro: le_SucI)

definition strip_ansi :: "string \<Rightarrow> string" where
  "strip_ansi s = (if list_ex is_esc s then strip_loop s else s)"

lemma strip_loop_no_esc: "list_all (\<lambda>c. \<not> is_esc c) (strip_loop s)"
  by (induction s rule: strip_loop.induct) (auto split: list.splits)

lemma strip_loop_id: "list_all (\<lambda>c. \<not> is_esc c) s \<Longrightarrow> strip_loop s = s"
  by (induction s) auto

lemma strip_ansi_no_esc: "list_all (\<lambda>c. \<not> is_esc c) (strip_ansi s)"
proof (cases "list_ex is_esc s")
  case True
  then show ?thesis by (simp add: strip_ansi_def strip_loop_no_esc)
next
  case False
  then show ?thesis by (simp add: strip_ansi_def list_ex_iff list_all_iff)
qed

lemma strip_ansi_id: "list_all (\<lambda>c. \<not> is_esc c) s \<Longrightarrow> strip_ansi s = s"
  by (auto simp: strip_ansi_def list_ex_iff list_all_iff)

text \<open>
  Stripped text carries no escape byte, stripping it again changes nothing, and text
  without an escape byte is returned as it is.
\<close>

theorem strip_ansi_clean:
  "list_all (\<lambda>c. \<not> is_esc c) (strip_ansi s) \<and> strip_ansi (strip_ansi s) = strip_ansi s
   \<and> (list_all (\<lambda>c. \<not> is_esc c) s \<longrightarrow> strip_ansi s = s)"
  using strip_ansi_no_esc strip_ansi_id by blast

theorem strip_ansi_clean_witness: "strip_ansi ''plain'' = ''plain''"
  using strip_ansi_clean [of "''plain''"] by (simp add: is_esc_def byte_def)

end
