(* ===== verification/Replay.thy ===== *)
theory Replay
  imports Finish Message Ansi
begin

text \<open>
  The session fold (\<open>claude-replay-engine/src/engine/replay.rs\<close>): \<open>Replayer::apply\<close>
  over the message log, one arm per message, and \<open>finalize_completed\<close>, which finishes
  the completed turns, moves them to \<open>durable\<close> and drops their raw blocks.

  A panic of the code (a slice or index out of range, an index subtraction below zero) is the
  result \<open>None\<close>.  Indices the code keeps across calls are logical: they count the raw
  blocks dropped so far, \<open>rp_base\<close>, too.
\<close>

subsection \<open>Spawn identity (\<open>meta_stream.rs\<close>)\<close>

record spawn =
  sw_tool_use_id :: string
  sw_agent_id :: string
  sw_agent_type :: string
  sw_description :: string
  sw_status :: agent_status

definition spawn_keys :: "spawn \<Rightarrow> (string \<times> string \<times> string) list" where
  "spawn_keys s =
     (if sw_tool_use_id s = [] then [] else [(sw_tool_use_id s, sw_agent_id s, sw_agent_type s)])
     @ (if sw_agent_id s = [] then [] else [(sw_agent_id s, sw_agent_id s, sw_agent_type s)])"

definition spawn_of :: "sub_agent \<Rightarrow> spawn" where
  "spawn_of sa = \<lparr>sw_tool_use_id = sa_tool_use_id sa, sw_agent_id = sa_agent_id sa,
     sw_agent_type = sa_agent_type sa, sw_description = sa_description sa,
     sw_status = sa_status sa\<rparr>"

fun agent_pairs :: "block \<Rightarrow> (string \<times> string \<times> string) list" where
  "agent_pairs (SubAgentB sa) = spawn_keys (spawn_of sa)"
| "agent_pairs _ = []"

subsection \<open>State\<close>

record queue_item =
  qi_content :: string
  qi_marker_idx :: "nat option"

record replayer =
  rp_out :: "block list"
  rp_durable :: "block list"
  rp_base :: nat
  rp_user_times :: "epoch_seconds option list"
  rp_turn_durations :: "nat option list"
  rp_pending_ts :: "epoch_seconds option"
  rp_stamped :: nat
  rp_tool_slot :: "string \<rightharpoonup> nat"
  rp_prev_ts :: "epoch_seconds option"
  rp_queue :: "queue_item list"
  rp_suppress :: "nat list"
  rp_last_skill :: "nat option"
  rp_agent_ids :: "string \<rightharpoonup> string \<times> string"
  rp_inbox_ids :: "string set"
  rp_peer_names :: "string \<rightharpoonup> string"
  rp_refused :: "string \<rightharpoonup> string option"
  rp_sandbox_on :: bool

definition replayer_new :: replayer where
  "replayer_new =
     \<lparr>rp_out = [], rp_durable = [], rp_base = 0, rp_user_times = [], rp_turn_durations = [],
      rp_pending_ts = None, rp_stamped = 0, rp_tool_slot = Map.empty, rp_prev_ts = None,
      rp_queue = [], rp_suppress = [], rp_last_skill = None, rp_agent_ids = Map.empty,
      rp_inbox_ids = {}, rp_peer_names = Map.empty, rp_refused = Map.empty,
      rp_sandbox_on = False\<rparr>"

definition max_pinned_turns :: nat where
  "max_pinned_turns = 64"

subsection \<open>Helpers of the fold\<close>

definition sub_agent_label :: "string \<Rightarrow> string \<Rightarrow> string" where
  "sub_agent_label i ty =
     (let short = utf8_take 8 i; t = trim ty
      in if t = [] \<or> t = ''agent'' then ''sub-agent '' @ short
         else ''sub-agent '' @ short @ '' ('' @ t @ '')'')"

definition record_agent ::
  "(string \<rightharpoonup> string \<times> string) \<Rightarrow> block \<Rightarrow> (string \<rightharpoonup> string \<times> string)" where
  "record_agent m b = insert_rows m (agent_pairs b)"

definition note_patch :: "nat option \<Rightarrow> nat \<Rightarrow> nat \<Rightarrow> nat option" where
  "note_patch pf logical frontier =
     (if logical < frontier then floor_min pf logical else pf)"

text \<open>\<open>stamp_user_turns\<close>: the new \<open>stamped\<close> and the times, or a slice panic.\<close>

definition stamp_user_turns ::
  "block list \<Rightarrow> nat \<Rightarrow> epoch_seconds option \<Rightarrow> epoch_seconds option list
     \<Rightarrow> (nat \<times> epoch_seconds option list) option" where
  "stamp_user_turns out stamped ts uts =
     (if stamped \<le> length out
      then Some (length out, uts @ map (\<lambda>_. ts) (filter opens_turn (drop stamped out)))
      else None)"

definition window_stamped :: "replayer \<Rightarrow> nat" where
  "window_stamped r = rp_stamped r - rp_base r"

text \<open>The stamping step \<open>LineStart\<close>, \<open>finalize_completed\<close> and the readers share.\<close>

definition stamp_window :: "replayer \<Rightarrow> replayer option" where
  "stamp_window r = do {
     (ws, uts) \<leftarrow> stamp_user_turns (rp_out r) (window_stamped r) (rp_pending_ts r) (rp_user_times r);
     Some (r\<lparr>rp_user_times := uts,
             rp_turn_durations := resize (length uts) None (rp_turn_durations r),
             rp_stamped := rp_base r + ws\<rparr>)
   }"

definition push_block :: "block \<Rightarrow> replayer \<Rightarrow> replayer" where
  "push_block b r = r\<lparr>rp_out := rp_out r @ [b]\<rparr>"

definition opt_list :: "'a option \<Rightarrow> 'a list" where
  "opt_list x = (case x of None \<Rightarrow> [] | Some v \<Rightarrow> [v])"

text \<open>A pending prompt leaves the queue: its marker, if it drew one, is suppressed.\<close>

definition pop_at :: "nat \<Rightarrow> replayer \<Rightarrow> replayer" where
  "pop_at pos r = r\<lparr>rp_queue := remove_nth pos (rp_queue r),
     rp_suppress := rp_suppress r @ opt_list (qi_marker_idx (rp_queue r ! pos))\<rparr>"

definition pop_content :: "string \<Rightarrow> replayer \<Rightarrow> replayer" where
  "pop_content c r =
     (case position (\<lambda>q. qi_content q = c) (rp_queue r) of
        None \<Rightarrow> r | Some pos \<Rightarrow> pop_at pos r)"

text \<open>
  \<open>tool_slot.get(id).map(|i| i - base)\<close> used as an index: \<open>None\<close> is the panic,
  \<open>Some None\<close> an unknown id.
\<close>

definition slot_rel :: "replayer \<Rightarrow> string \<Rightarrow> nat option option" where
  "slot_rel r i =
     (case rp_tool_slot r i of
        None \<Rightarrow> Some None
      | Some l \<Rightarrow> if rp_base r \<le> l \<and> l - rp_base r < length (rp_out r)
                 then Some (Some (l - rp_base r)) else None)"

definition name_recipient :: "replayer \<Rightarrow> block \<Rightarrow> block" where
  "name_recipient r b =
     (case b of
        ToolUse t \<Rightarrow>
          (case tu_sent_to t of
             None \<Rightarrow> b
           | Some to \<Rightarrow>
               (case rp_peer_names r to of
                  Some who \<Rightarrow> ToolUse (t\<lparr>tu_sent_to := Some who\<rparr>)
                | None \<Rightarrow>
                    (case rp_agent_ids r to of
                       Some (i, ty) \<Rightarrow> ToolUse (t\<lparr>tu_sent_to := Some (sub_agent_label i ty)\<rparr>)
                     | None \<Rightarrow> b)))
      | _ \<Rightarrow> b)"

definition no_execution :: tool_execution where
  "no_execution = \<lparr>te_status = None, te_exit_code = None, te_duration = None,
     te_outside_sandbox = False\<rparr>"

fun mark_outside :: "block \<Rightarrow> block option" where
  "mark_outside (ToolUse t) =
     Some (ToolUse (t\<lparr>tu_execution :=
       Some ((case tu_execution t of None \<Rightarrow> no_execution | Some e \<Rightarrow> e)\<lparr>te_outside_sandbox := True\<rparr>)\<rparr>))"
| "mark_outside _ = None"

fun is_image :: "block \<Rightarrow> bool" where
  "is_image (AttachmentB a) = (at_kind a = AkImage)"
| "is_image _ = False"

fun is_prompt :: "block \<Rightarrow> bool" where
  "is_prompt (UserText _) = True"
| "is_prompt (UserReply _ _) = True"
| "is_prompt (UserInbox _ _) = True"
| "is_prompt _ = False"

fun set_image_path :: "string \<Rightarrow> block \<Rightarrow> block" where
  "set_image_path p (AttachmentB a) =
     AttachmentB (if at_path a = None then a\<lparr>at_path := Some p\<rparr> else a)"
| "set_image_path p b = b"

fun set_paths :: "block list \<Rightarrow> (nat \<times> string) list \<Rightarrow> block list" where
  "set_paths out [] = out"
| "set_paths out ((i, p) # ips) = set_paths (out[i := set_image_path p (out ! i)]) ips"

text \<open>The indices of the images written with the prompt at index \<open>p\<close>, in order.\<close>

definition prompt_images :: "block list \<Rightarrow> nat \<Rightarrow> nat list" where
  "prompt_images out p =
     (let first = p - length (takeWhile is_image (rev (take p out)));
          last = p + length (takeWhile is_image (drop (Suc p) out))
      in filter (\<lambda>i. is_image (out ! i)) [first..<Suc last])"

definition patch_image_paths :: "string list \<Rightarrow> block list \<Rightarrow> block list" where
  "patch_image_paths paths out =
     (case rposition is_prompt out of
        None \<Rightarrow> out
      | Some p \<Rightarrow>
          (let images = prompt_images out p
           in if length images \<noteq> length paths then out else set_paths out (zip images paths)))"

fun set_usage :: "nat \<Rightarrow> nat \<Rightarrow> block \<Rightarrow> block option" where
  "set_usage pre post (Compaction t _ _ s) = Some (Compaction t pre post s)"
| "set_usage pre post _ = None"

fun set_summary :: "string \<Rightarrow> block \<Rightarrow> block option" where
  "set_summary text (Compaction t pre post []) = Some (Compaction t pre post text)"
| "set_summary text _ = None"

fun add_stdout :: "string \<Rightarrow> block \<Rightarrow> block option" where
  "add_stdout text (CommandB n a outp) = Some (CommandB n a (outp @ [text]))"
| "add_stdout text _ = None"

text \<open>\<open>out.last_mut()\<close> rewritten in place, when it has the shape the arm looks for.\<close>

definition patch_last :: "(block \<Rightarrow> block option) \<Rightarrow> block list \<Rightarrow> block list option" where
  "patch_last f out =
     (if out = [] then None
      else case f (last out) of None \<Rightarrow> None | Some b \<Rightarrow> Some (butlast out @ [b]))"

definition turn_start :: "block list \<Rightarrow> nat" where
  "turn_start out = (case rposition opens_turn out of None \<Rightarrow> 0 | Some i \<Rightarrow> i)"

text \<open>Whether a turn duration belongs to the outgoing turn rather than to a head just written.\<close>

definition fresh_head :: "replayer \<Rightarrow> nat \<Rightarrow> epoch_seconds option \<Rightarrow> bool" where
  "fresh_head r secs at_ts =
     (case at_ts of
        None \<Rightarrow> False
      | Some a \<Rightarrow>
          (if rp_user_times r = [] then False
           else case last (rp_user_times r) of
                  None \<Rightarrow> False | Some head \<Rightarrow> a - head < 1 \<and> 1 < secs))"

subsection \<open>The arms of \<open>apply\<close>\<close>

type_synonym fold_state = "replayer \<times> nat option"

definition pushed :: "block \<Rightarrow> fold_state \<Rightarrow> fold_state option" where
  "pushed b s = Some (push_block b (fst s), snd s)"

text \<open>Rewrite the last block and note the patch, or do something else.\<close>

definition patch_last_or ::
  "nat \<Rightarrow> (block \<Rightarrow> block option) \<Rightarrow> fold_state option \<Rightarrow> fold_state \<Rightarrow> fold_state option" where
  "patch_last_or frontier f alt s =
     (let (r, pf) = s in
      case patch_last f (rp_out r) of
        Some out' \<Rightarrow>
          Some (r\<lparr>rp_out := out'\<rparr>,
                note_patch pf (rp_base r + length (rp_out r) - 1) frontier)
      | None \<Rightarrow> alt)"

definition apply_line_start :: "epoch_seconds option \<Rightarrow> fold_state \<Rightarrow> fold_state option" where
  "apply_line_start ts s = do {
     r \<leftarrow> stamp_window (fst s);
     Some (r\<lparr>rp_prev_ts := (if rp_pending_ts r \<noteq> None then rp_pending_ts r else rp_prev_ts r),
             rp_pending_ts := ts\<rparr>, snd s)
   }"

definition apply_thinking ::
  "string \<Rightarrow> epoch_seconds option \<Rightarrow> fold_state \<Rightarrow> fold_state option" where
  "apply_thinking text ts s =
     pushed (Thinking text
       (case (ts, rp_prev_ts (fst s)) of
          (Some e, Some st) \<Rightarrow> if st \<le> e then Some (rat_as_u64 (e - st)) else None
        | _ \<Rightarrow> None) []) s"

definition apply_tool_use ::
  "shaping \<Rightarrow> string \<Rightarrow> string \<Rightarrow> json \<Rightarrow> string \<Rightarrow> fold_state \<Rightarrow> fold_state option" where
  "apply_tool_use sh i name input cwd s =
     (let (r, pf) = s;
          b = name_recipient r (build_tool sh i name input cwd);
          logical = rp_base r + length (rp_out r)
      in Some ((push_block b r)\<lparr>
           rp_last_skill := (case b of
              ToolUse t \<Rightarrow> if tu_name t = ''Skill'' then Some logical else rp_last_skill r
            | _ \<Rightarrow> rp_last_skill r),
           rp_agent_ids := record_agent (rp_agent_ids r) b,
           rp_tool_slot := (if i = [] then rp_tool_slot r else (rp_tool_slot r)(i \<mapsto> logical))\<rparr>,
         pf))"

definition apply_tool_result ::
  "shaping \<Rightarrow> nat \<Rightarrow> string \<Rightarrow> string \<Rightarrow> json \<Rightarrow> bool option \<Rightarrow> fold_state \<Rightarrow> fold_state option" where
  "apply_tool_result sh frontier i raw tur is_error s =
     (let (r, pf) = s; text = strip_ansi raw in
      do {
        slot \<leftarrow> slot_rel r i;
        case slot of
          Some rel \<Rightarrow>
            (let b = join_result sh (rp_out r ! rel) text tur is_error
             in Some (r\<lparr>rp_out := (rp_out r)[rel := b],
                        rp_agent_ids := record_agent (rp_agent_ids r) b\<rparr>,
                      note_patch pf (rp_base r + rel) frontier))
        | None \<Rightarrow>
            if trim text \<noteq> [] \<and> keep_orphan sh text then pushed (ToolResult text) s else Some s
      })"

definition apply_user_inbox ::
  "string \<Rightarrow> string \<Rightarrow> inbox \<Rightarrow> attachment list \<Rightarrow> fold_state \<Rightarrow> fold_state option" where
  "apply_user_inbox text words inbox images s =
     (let r = pop_content (trim text) (fst s) in
      if ib_id inbox \<notin> rp_inbox_ids r
      then Some (r\<lparr>rp_inbox_ids := insert (ib_id inbox) (rp_inbox_ids r),
                   rp_out := rp_out r @ UserInbox words inbox # map AttachmentB images\<rparr>, snd s)
      else Some (push_block (UserText text) r, snd s))"

definition apply_peer_text ::
  "string \<Rightarrow> string option \<Rightarrow> string \<Rightarrow> string option \<Rightarrow> string option \<Rightarrow> fold_state
     \<Rightarrow> fold_state option" where
  "apply_peer_text from_name mode text queued addr s =
     (let r0 = fst s;
          r1 = (case addr of None \<Rightarrow> r0
                | Some a \<Rightarrow> r0\<lparr>rp_peer_names := (rp_peer_names r0)(a \<mapsto> from_name)\<rparr>);
          r2 = (case queued of None \<Rightarrow> r1 | Some raw \<Rightarrow> pop_content (trim raw) r1)
      in Some (push_block (PeerText from_name mode text addr) r2, snd s))"

definition apply_sandbox_run :: "nat \<Rightarrow> string \<Rightarrow> bool \<Rightarrow> fold_state \<Rightarrow> fold_state option" where
  "apply_sandbox_run frontier i inside s =
     (let (r, pf) = s in
      if inside then Some (r\<lparr>rp_sandbox_on := True\<rparr>, pf)
      else if rp_sandbox_on r then do {
        slot \<leftarrow> slot_rel r i;
        case slot of
          None \<Rightarrow> Some s
        | Some rel \<Rightarrow>
            (case mark_outside (rp_out r ! rel) of
               None \<Rightarrow> Some s
             | Some b \<Rightarrow> Some (r\<lparr>rp_out := (rp_out r)[rel := b]\<rparr>,
                              note_patch pf (rp_base r + rel) frontier))
      }
      else Some s)"

definition apply_refused_note :: "string \<Rightarrow> string \<Rightarrow> fold_state \<Rightarrow> fold_state option" where
  "apply_refused_note i text s =
     (let r = fst s in
      case rp_refused r i of
        Some category \<Rightarrow>
          pushed (SafetyStop category text) (r\<lparr>rp_refused := (rp_refused r)(i := None)\<rparr>, snd s)
      | None \<Rightarrow> pushed (ToolResult text) s)"

definition apply_skill_body ::
  "nat \<Rightarrow> string \<Rightarrow> string \<Rightarrow> fold_state \<Rightarrow> fold_state option" where
  "apply_skill_body frontier text fallback s =
     (let (r, pf) = s in
      do {
        target \<leftarrow> (case rp_last_skill r of
                    None \<Rightarrow> Some None
                  | Some i \<Rightarrow>
                      if i < rp_base r then None
                      else Some (if turn_start (rp_out r) \<le> i - rp_base r
                                 then Some (i - rp_base r) else None));
        case attach_skill_body (rp_out r) target text of
          Some out' \<Rightarrow>
            Some (r\<lparr>rp_out := out'\<rparr>,
                  case rp_last_skill r of None \<Rightarrow> pf | Some i \<Rightarrow> note_patch pf i frontier)
        | None \<Rightarrow> if fallback \<noteq> [] then pushed (ToolResult fallback) s else Some s
      })"

definition apply_completion ::
  "string \<Rightarrow> string \<Rightarrow> agent_status option \<Rightarrow> string \<Rightarrow> string option \<Rightarrow> fold_state
     \<Rightarrow> fold_state option" where
  "apply_completion tool_use_id task_id status description res s =
     (let key = (if task_id \<noteq> [] then task_id else tool_use_id);
          (i, ty) = (case rp_agent_ids (fst s) key of Some p \<Rightarrow> p | None \<Rightarrow> (key, []))
      in pushed (AgentDone i ty description
           (case status of None \<Rightarrow> AsUnknown | Some st \<Rightarrow> st) res) s)"

definition apply_turn_duration ::
  "nat \<Rightarrow> epoch_seconds option \<Rightarrow> fold_state \<Rightarrow> fold_state option" where
  "apply_turn_duration secs at_ts s =
     (let r = fst s in
      if fresh_head r secs at_ts \<or> rp_turn_durations r = [] then Some s
      else Some (r\<lparr>rp_turn_durations := butlast (rp_turn_durations r) @ [Some secs]\<rparr>, snd s))"

definition apply_queue_op ::
  "queue_op_kind \<Rightarrow> string option \<Rightarrow> bool \<Rightarrow> fold_state \<Rightarrow> fold_state option" where
  "apply_queue_op op content prose s =
     (let r = fst s in
      case op of
        QEnqueue \<Rightarrow>
          (case content of
             None \<Rightarrow> Some s
           | Some c \<Rightarrow>
               (let r' = (if prose then push_block (QueueEvent (trim c)) r else r);
                    idx = (if prose then Some (rp_base r + length (rp_out r)) else None)
                in Some (r'\<lparr>rp_queue := rp_queue r @ [\<lparr>qi_content = trim c, qi_marker_idx = idx\<rparr>]\<rparr>,
                         snd s)))
      | QPopAll \<Rightarrow>
          Some (r\<lparr>rp_queue := [],
                  rp_suppress := rp_suppress r @ List.map_filter qi_marker_idx (rp_queue r)\<rparr>, snd s)
      | _ \<Rightarrow>
          (case content of
             Some c \<Rightarrow> Some (pop_content (trim c) r, snd s)
           | None \<Rightarrow> Some (if rp_queue r = [] then r else pop_at 0 r, snd s)))"

fun apply_message :: "shaping \<Rightarrow> nat \<Rightarrow> message \<Rightarrow> fold_state \<Rightarrow> fold_state option" where
  "apply_message sh fr (LineStart ts) s = apply_line_start ts s"
| "apply_message sh fr (MTaskOp _) s = Some s"
| "apply_message sh fr (MAssistantText t) s = pushed (AssistantText t) s"
| "apply_message sh fr (MAssistantCutOff t) s = pushed (AssistantCutOff t) s"
| "apply_message sh fr (MAssistantMessage t p i) s = pushed (AssistantMessage t p i) s"
| "apply_message sh fr (MThinking t ts) s = apply_thinking t ts s"
| "apply_message sh fr (MToolUse i n inp cwd) s = apply_tool_use sh i n inp cwd s"
| "apply_message sh fr (MToolResult i t v e) s = apply_tool_result sh fr i t v e s"
| "apply_message sh fr (MUserText t) s =
     pushed (UserText t) (pop_content (trim t) (fst s), snd s)"
| "apply_message sh fr (MUserReply t c) s =
     pushed (UserReply t c) (pop_content (trim t) (fst s), snd s)"
| "apply_message sh fr (MUserInbox t w ib ims) s = apply_user_inbox t w ib ims s"
| "apply_message sh fr (MPeerText f m t q a) s = apply_peer_text f m t q a s"
| "apply_message sh fr (MSystemNote t _) s = pushed (ToolResult t) s"
| "apply_message sh fr (MRefused i c) s =
     Some ((fst s)\<lparr>rp_refused := (rp_refused (fst s))(i \<mapsto> c)\<rparr>, snd s)"
| "apply_message sh fr MSandboxOn s = Some ((fst s)\<lparr>rp_sandbox_on := True\<rparr>, snd s)"
| "apply_message sh fr (MSandboxRun i inside) s = apply_sandbox_run fr i inside s"
| "apply_message sh fr (MRefusedNote i t) s = apply_refused_note i t s"
| "apply_message sh fr (MCompactBoundary t pre post) s = pushed (Compaction t pre post []) s"
| "apply_message sh fr (MCompactUsage pre post) s = patch_last_or fr (set_usage pre post) (Some s) s"
| "apply_message sh fr (MCompactSummary t) s =
     patch_last_or fr (set_summary t) (pushed (ToolResult t) s) s"
| "apply_message sh fr (MSkillBody t fb) s = apply_skill_body fr t fb s"
| "apply_message sh fr (MCommand n a outp) s = pushed (CommandB n a (map strip_ansi outp)) s"
| "apply_message sh fr (MCommandStdout raw) s =
     (let t = strip_ansi raw in patch_last_or fr (add_stdout t) (pushed (CommandB [] [] [t]) s) s)"
| "apply_message sh fr (MAttachmentPrompt t) s =
     pushed (UserText t) (pop_content (trim t) (fst s), snd s)"
| "apply_message sh fr (MAttachment a) s = pushed (AttachmentB a) s"
| "apply_message sh fr (MImagePaths ps) s =
     Some ((fst s)\<lparr>rp_out := patch_image_paths ps (rp_out (fst s))\<rparr>, snd s)"
| "apply_message sh fr (MCompletion tu ti st d res) s = apply_completion tu ti st d res s"
| "apply_message sh fr (MTurnDuration secs a) s = apply_turn_duration secs a s"
| "apply_message sh fr (MQueueOp op c p _) s = apply_queue_op op c p s"

fun apply_messages :: "shaping \<Rightarrow> nat \<Rightarrow> message list \<Rightarrow> fold_state \<Rightarrow> fold_state option" where
  "apply_messages sh fr [] s = Some s"
| "apply_messages sh fr (m # ms) s = do { s' \<leftarrow> apply_message sh fr m s; apply_messages sh fr ms s' }"

subsection \<open>The durability frontier\<close>

definition queue_pin :: "replayer \<Rightarrow> nat \<Rightarrow> nat option" where
  "queue_pin r k =
     (case List.map_filter qi_marker_idx (rp_queue r) of
        [] \<Rightarrow> None
      | i # is \<Rightarrow>
          (let oldest = fold min is i in
           if oldest < rp_base r then None
           else let rel = oldest - rp_base r in
             if k \<le> rel then None
             else let pinned = turn_start (take (Suc rel) (rp_out r));
                      lag = count_if opens_turn (drop pinned (take k (rp_out r)))
                  in if lag \<le> max_pinned_turns then Some pinned else None))"

text \<open>Finish the first \<open>k\<close> raw blocks of the window and advance the frontier past them.\<close>

definition commit_window :: "shaping \<Rightarrow> nat \<Rightarrow> replayer \<Rightarrow> replayer" where
  "commit_window sh k r =
     (let lo = rp_base r; hi = rp_base r + k;
          raw = drop_flagged lo (\<lambda>i. i \<in> set (rp_suppress r)) (take k (rp_out r))
      in r\<lparr>rp_durable := rp_durable r @ finish_turns sh raw,
           rp_out := drop k (rp_out r),
           rp_base := hi,
           rp_suppress := filter (\<lambda>i. hi \<le> i) (rp_suppress r),
           rp_tool_slot := (\<lambda>key. case rp_tool_slot r key of
                              Some v \<Rightarrow> if hi \<le> v then Some v else None | None \<Rightarrow> None),
           rp_last_skill := (case rp_last_skill r of
                              Some i \<Rightarrow> if i < hi then None else Some i | None \<Rightarrow> None)\<rparr>)"

definition commit_point :: "replayer \<Rightarrow> nat" where
  "commit_point r =
     (case rposition opens_turn (rp_out r) of
        None \<Rightarrow> 0
      | Some k \<Rightarrow> (case queue_pin r k of Some pin \<Rightarrow> pin | None \<Rightarrow> k))"

definition finalize_completed :: "shaping \<Rightarrow> replayer \<Rightarrow> replayer option" where
  "finalize_completed sh r =
     (let k = commit_point r in
      if k = 0 then Some r
      else do { r' \<leftarrow> stamp_window r; Some (commit_window sh k r') })"

definition replay_apply :: "shaping \<Rightarrow> message list \<Rightarrow> replayer \<Rightarrow> fold_state option" where
  "replay_apply sh ms r = do {
     (r', pf) \<leftarrow> apply_messages sh (rp_base r + length (rp_out r)) ms (r, None);
     r'' \<leftarrow> finalize_completed sh r';
     Some (r'', pf)
   }"

subsection \<open>Readers\<close>

definition finalize_open :: "shaping \<Rightarrow> replayer \<Rightarrow> block list \<Rightarrow> block list" where
  "finalize_open sh r opn =
     finish_turns sh (drop_flagged 0 (\<lambda>i. i + rp_base r \<in> set (rp_suppress r)) opn)"

definition assemble :: "shaping \<Rightarrow> replayer \<Rightarrow> block list \<Rightarrow> block list" where
  "assemble sh r opn = rp_durable r @ finalize_open sh r opn"

definition open_snapshot ::
  "shaping \<Rightarrow> replayer \<Rightarrow> (block list \<times> epoch_seconds option list) option" where
  "open_snapshot sh r = do {
     (_, uts) \<leftarrow> stamp_user_turns (rp_out r) (window_stamped r) (rp_pending_ts r) (rp_user_times r);
     Some (finalize_open sh r (rp_out r), uts)
   }"

definition snapshot ::
  "shaping \<Rightarrow> replayer \<Rightarrow> (block list \<times> epoch_seconds option list) option" where
  "snapshot sh r = do {
     (_, uts) \<leftarrow> stamp_user_turns (rp_out r) (window_stamped r) (rp_pending_ts r) (rp_user_times r);
     Some (assemble sh r (rp_out r), uts)
   }"

definition into_blocks ::
  "shaping \<Rightarrow> replayer \<Rightarrow> (block list \<times> epoch_seconds option list) option" where
  "into_blocks sh r = do {
     r' \<leftarrow> stamp_window r;
     Some (assemble sh r' (rp_out r'), rp_user_times r')
   }"

definition replay :: "shaping \<Rightarrow> message list \<Rightarrow> (block list \<times> epoch_seconds option list) option" where
  "replay sh ms = do { (r, _) \<leftarrow> replay_apply sh ms replayer_new; into_blocks sh r }"

definition drain_committed :: "replayer \<Rightarrow> block list \<times> replayer" where
  "drain_committed r = (rp_durable r, r\<lparr>rp_durable := []\<rparr>)"

definition raw_len :: "replayer \<Rightarrow> nat" where
  "raw_len r = rp_base r + length (rp_out r)"

end
