(* ===== verification/Replay_Inv.thy ===== *)
theory Replay_Inv
  imports Replay
begin

text \<open>
  The invariant of the session fold and its preservation by every arm.  The locale
  \<open>fold_shaping\<close> is what the fold needs of an agent's four hooks; it extends the
  contract of the finisher.
\<close>

subsection \<open>The contract of the hooks\<close>

locale fold_shaping = turn_finish "finish_turns sh" thinking_ok
  for sh :: shaping +
  assumes build_call: "is_call (build_tool sh i name input cwd)"
    and join_call: "is_call b \<Longrightarrow> is_call (join_result sh b text tur e)"
begin

lemma finish_empty: "finish_turns sh [] = []"
  using finish_boundary [of "[]" "UserText []" "[]"] by simp

end

subsection \<open>The invariant\<close>

definition same_class :: "block \<Rightarrow> block \<Rightarrow> bool" where
  "same_class b b' \<longleftrightarrow> opens_turn b' = opens_turn b \<and> is_marker b' = is_marker b
     \<and> is_call b' = is_call b \<and> (thinking_ok b \<longrightarrow> thinking_ok b')"

lemma list_all_drop_nth:
  assumes "list_all p (drop n xs)" and "n \<le> i" and "i < length xs"
  shows "p (xs ! i)"
proof -
  have "drop n xs ! (i - n) \<in> set (drop n xs)"
    using assms(2,3) by (intro nth_mem) simp
  then show ?thesis
    using assms by (simp add: list_all_iff)
qed

text \<open>The window grew: its old blocks keep their class, the new ones are well formed.\<close>

definition out_grows :: "block list \<Rightarrow> block list \<Rightarrow> bool" where
  "out_grows xs ys \<longleftrightarrow> length xs \<le> length ys \<and> list_all2 same_class xs (take (length xs) ys)
     \<and> list_all thinking_ok (drop (length xs) ys)"

definition call_ref :: "nat \<Rightarrow> block list \<Rightarrow> nat \<Rightarrow> bool" where
  "call_ref base out i \<longleftrightarrow> base \<le> i \<and> i < base + length out \<and> is_call (out ! (i - base))"

definition marker_ref :: "nat \<Rightarrow> block list \<Rightarrow> nat \<Rightarrow> bool" where
  "marker_ref base out i \<longleftrightarrow> i < base + length out \<and> (base \<le> i \<longrightarrow> is_marker (out ! (i - base)))"

definition marks :: "replayer \<Rightarrow> nat set" where
  "marks r = set (rp_suppress r) \<union> {i. \<exists>q\<in>set (rp_queue r). qi_marker_idx q = Some i}"

definition rep_inv :: "replayer \<Rightarrow> bool" where
  "rep_inv r \<longleftrightarrow>
     list_all thinking_ok (rp_out r)
     \<and> rp_base r \<le> rp_stamped r \<and> rp_stamped r \<le> rp_base r + length (rp_out r)
     \<and> length (rp_turn_durations r) = length (rp_user_times r)
     \<and> (\<forall>k i. rp_tool_slot r k = Some i \<longrightarrow> call_ref (rp_base r) (rp_out r) i)
     \<and> (\<forall>i. rp_last_skill r = Some i \<longrightarrow> call_ref (rp_base r) (rp_out r) i)
     \<and> (\<forall>i\<in>marks r. marker_ref (rp_base r) (rp_out r) i)"

text \<open>
  One time per turn: \<open>n\<close> turns drained before, those of \<open>durable\<close>, and the stamped part
  of the window.
\<close>

definition aligned :: "nat \<Rightarrow> replayer \<Rightarrow> bool" where
  "aligned n r \<longleftrightarrow> n + count_if opens_turn (rp_durable r)
     + count_if opens_turn (take (window_stamped r) (rp_out r)) = length (rp_user_times r)"

definition fold_grows :: "replayer \<Rightarrow> replayer \<Rightarrow> bool" where
  "fold_grows r r' \<longleftrightarrow>
     rp_base r' = rp_base r \<and> rp_stamped r' = rp_stamped r \<and> rp_durable r' = rp_durable r
     \<and> rp_user_times r' = rp_user_times r
     \<and> length (rp_turn_durations r') = length (rp_turn_durations r)
     \<and> out_grows (rp_out r) (rp_out r')
     \<and> (\<forall>k i. rp_tool_slot r' k = Some i \<longrightarrow>
            rp_tool_slot r k = Some i \<or> call_ref (rp_base r') (rp_out r') i)
     \<and> (\<forall>i. rp_last_skill r' = Some i \<longrightarrow>
            rp_last_skill r = Some i \<or> call_ref (rp_base r') (rp_out r') i)
     \<and> (\<forall>i\<in>marks r'. i \<in> marks r \<or> marker_ref (rp_base r') (rp_out r') i)"

lemma same_class_refl [simp]: "same_class b b"
  by (simp add: same_class_def)

lemma out_grows_refl [simp]: "out_grows xs xs"
  by (simp add: out_grows_def list_all2_same)

lemma out_grows_append [simp]: "list_all thinking_ok ys \<Longrightarrow> out_grows xs (xs @ ys)"
  by (simp add: out_grows_def list_all2_same)

lemma out_grows_same_length:
  "length ys = length xs \<Longrightarrow> (\<And>i. i < length xs \<Longrightarrow> same_class (xs ! i) (ys ! i)) \<Longrightarrow> out_grows xs ys"
  by (simp add: out_grows_def list_all2_conv_all_nth)

lemma out_grows_update:
  assumes "same_class (xs ! i) b"
  shows "out_grows xs (xs[i := b])"
proof (rule out_grows_same_length)
  show "same_class (xs ! j) (xs[i := b] ! j)" if "j < length xs" for j
    using that assms by (cases "j = i") auto
qed simp

lemma out_grows_nth: "out_grows xs ys \<Longrightarrow> i < length xs \<Longrightarrow> same_class (xs ! i) (ys ! i)"
  by (auto simp: out_grows_def list_all2_conv_all_nth)

lemma out_grows_length: "out_grows xs ys \<Longrightarrow> length xs \<le> length ys"
  by (simp add: out_grows_def)

lemma out_grows_ok:
  assumes "out_grows xs ys" and "list_all thinking_ok xs"
  shows "list_all thinking_ok ys"
proof -
  have "thinking_ok (ys ! i)" if "i < length ys" for i
  proof (cases "i < length xs")
    case True
    then show ?thesis
      using assms out_grows_nth [OF assms(1) True]
      by (simp add: same_class_def list_all_length)
  next
    case False
    then show ?thesis
      using list_all_drop_nth [of thinking_ok "length xs" ys i] assms(1) that False
      by (simp add: out_grows_def)
  qed
  then show ?thesis by (simp add: list_all_length)
qed

lemma count_if_map: "map p xs = map p ys \<Longrightarrow> count_if p xs = count_if p ys"
proof (induction xs arbitrary: ys)
  case (Cons x xs)
  then show ?case by (cases ys) auto
qed simp

lemma out_grows_count:
  assumes "out_grows xs ys" and "n \<le> length xs"
  shows "count_if opens_turn (take n ys) = count_if opens_turn (take n xs)"
proof -
  have "map opens_turn (take n ys) = map opens_turn (take n xs)"
    using assms
    by (intro nth_equalityI)
      (auto simp: out_grows_def list_all2_conv_all_nth same_class_def)
  then show ?thesis by (rule count_if_map)
qed

lemma call_ref_grows: "call_ref b xs i \<Longrightarrow> out_grows xs ys \<Longrightarrow> call_ref b ys i"
  using out_grows_nth [of xs ys "i - b"] out_grows_length [of xs ys]
  by (auto simp: call_ref_def same_class_def)

lemma marker_ref_grows: "marker_ref b xs i \<Longrightarrow> out_grows xs ys \<Longrightarrow> marker_ref b ys i"
  using out_grows_nth [of xs ys "i - b"] out_grows_length [of xs ys]
  by (auto simp: marker_ref_def same_class_def)

lemma fold_grows_refl [simp]: "fold_grows r r"
  by (simp add: fold_grows_def)

lemma rep_inv_refs:
  assumes "rep_inv r"
  shows "rp_tool_slot r k = Some i \<Longrightarrow> call_ref (rp_base r) (rp_out r) i"
    and "rp_last_skill r = Some i \<Longrightarrow> call_ref (rp_base r) (rp_out r) i"
    and "i \<in> marks r \<Longrightarrow> marker_ref (rp_base r) (rp_out r) i"
  using assms unfolding rep_inv_def by blast+

lemma fold_grows_refs:
  assumes "fold_grows r r'"
  shows "rp_tool_slot r' k = Some i \<Longrightarrow> rp_tool_slot r k = Some i \<or> call_ref (rp_base r') (rp_out r') i"
    and "rp_last_skill r' = Some i \<Longrightarrow> rp_last_skill r = Some i \<or> call_ref (rp_base r') (rp_out r') i"
    and "i \<in> marks r' \<Longrightarrow> i \<in> marks r \<or> marker_ref (rp_base r') (rp_out r') i"
  using assms unfolding fold_grows_def by blast+

lemma fold_grows_inv:
  assumes inv: "rep_inv r" and grows: "fold_grows r r'"
  shows "rep_inv r'"
proof -
  have g: "out_grows (rp_out r) (rp_out r')" and b: "rp_base r' = rp_base r"
    using grows by (simp_all add: fold_grows_def)
  have "call_ref (rp_base r') (rp_out r') i" if "rp_tool_slot r' k = Some i" for k i
    using fold_grows_refs(1) [OF grows that] rep_inv_refs(1) [OF inv] call_ref_grows [OF _ g] b
    by metis
  moreover have "call_ref (rp_base r') (rp_out r') i" if "rp_last_skill r' = Some i" for i
    using fold_grows_refs(2) [OF grows that] rep_inv_refs(2) [OF inv] call_ref_grows [OF _ g] b
    by metis
  moreover have "marker_ref (rp_base r') (rp_out r') i" if "i \<in> marks r'" for i
    using fold_grows_refs(3) [OF grows that] rep_inv_refs(3) [OF inv] marker_ref_grows [OF _ g] b
    by metis
  ultimately show ?thesis
    using inv grows out_grows_ok [OF g] out_grows_length [OF g]
    by (auto simp: rep_inv_def fold_grows_def)
qed

lemma fold_grows_aligned:
  assumes "rep_inv r" and "fold_grows r r'" and "aligned n r"
  shows "aligned n r'"
proof -
  have "window_stamped r \<le> length (rp_out r)"
    using assms(1) by (auto simp: rep_inv_def window_stamped_def)
  then show ?thesis
    using assms out_grows_count [of "rp_out r" "rp_out r'" "window_stamped r"]
    by (simp add: aligned_def fold_grows_def window_stamped_def)
qed

subsection \<open>Growth of the window, arm by arm\<close>

lemma out_grows_trans:
  assumes "out_grows xs ys" and "out_grows ys zs"
  shows "out_grows xs zs"
proof -
  have len: "length xs \<le> length ys" "length ys \<le> length zs"
    using assms by (simp_all add: out_grows_def)
  have "same_class (xs ! i) (zs ! i)" if "i < length xs" for i
    using out_grows_nth [OF assms(1) that] out_grows_nth [OF assms(2), of i] that len
    by (auto simp: same_class_def)
  moreover have "thinking_ok (zs ! i)" if "length xs \<le> i" "i < length zs" for i
  proof (cases "i < length ys")
    case True
    have "thinking_ok (ys ! i)"
      using list_all_drop_nth [of thinking_ok "length xs" ys i] assms(1) that True
      by (simp add: out_grows_def)
    then show ?thesis
      using out_grows_nth [OF assms(2) True] by (simp add: same_class_def)
  next
    case False
    then show ?thesis
      using list_all_drop_nth [of thinking_ok "length ys" zs i] assms(2) that False
      by (simp add: out_grows_def)
  qed
  ultimately show ?thesis
    using len by (auto simp: out_grows_def list_all2_conv_all_nth list_all_length)
qed

lemma fold_grows_trans:
  assumes "fold_grows r1 r2" and "fold_grows r2 r3"
  shows "fold_grows r1 r3"
proof -
  have g: "out_grows (rp_out r2) (rp_out r3)" and b: "rp_base r3 = rp_base r2"
    using assms(2) by (simp_all add: fold_grows_def)
  have "rp_tool_slot r1 k = Some i \<or> call_ref (rp_base r3) (rp_out r3) i"
    if "rp_tool_slot r3 k = Some i" for k i
    using fold_grows_refs(1) [OF assms(2) that] fold_grows_refs(1) [OF assms(1)] b
      call_ref_grows [OF _ g] by metis
  moreover have "rp_last_skill r1 = Some i \<or> call_ref (rp_base r3) (rp_out r3) i"
    if "rp_last_skill r3 = Some i" for i
    using fold_grows_refs(2) [OF assms(2) that] fold_grows_refs(2) [OF assms(1)] b
      call_ref_grows [OF _ g] by metis
  moreover have "i \<in> marks r1 \<or> marker_ref (rp_base r3) (rp_out r3) i" if "i \<in> marks r3" for i
    using fold_grows_refs(3) [OF assms(2) that] fold_grows_refs(3) [OF assms(1)] b
      marker_ref_grows [OF _ g] by metis
  moreover have "out_grows (rp_out r1) (rp_out r3)"
    using assms out_grows_trans by (auto simp: fold_grows_def)
  ultimately show ?thesis
    using assms by (simp add: fold_grows_def)
qed

text \<open>The fields outside the invariant.\<close>

lemma marks_frame [simp]:
  "marks (r\<lparr>rp_out := a\<rparr>) = marks r" "marks (r\<lparr>rp_agent_ids := b\<rparr>) = marks r"
  "marks (r\<lparr>rp_inbox_ids := c\<rparr>) = marks r" "marks (r\<lparr>rp_peer_names := d\<rparr>) = marks r"
  "marks (r\<lparr>rp_refused := e\<rparr>) = marks r" "marks (r\<lparr>rp_sandbox_on := f\<rparr>) = marks r"
  "marks (r\<lparr>rp_last_skill := g\<rparr>) = marks r" "marks (r\<lparr>rp_tool_slot := h\<rparr>) = marks r"
  "marks (r\<lparr>rp_turn_durations := k\<rparr>) = marks r" "marks (r\<lparr>rp_user_times := l\<rparr>) = marks r"
  "marks (r\<lparr>rp_stamped := m\<rparr>) = marks r" "marks (r\<lparr>rp_durable := n\<rparr>) = marks r"
  "marks (r\<lparr>rp_base := o'\<rparr>) = marks r" "marks (r\<lparr>rp_prev_ts := p\<rparr>) = marks r"
  "marks (r\<lparr>rp_pending_ts := q\<rparr>) = marks r"
  by (simp_all add: marks_def)

lemma fold_grows_frame [simp]:
  "fold_grows r (r'\<lparr>rp_agent_ids := b\<rparr>) = fold_grows r r'"
  "fold_grows r (r'\<lparr>rp_inbox_ids := c\<rparr>) = fold_grows r r'"
  "fold_grows r (r'\<lparr>rp_peer_names := d\<rparr>) = fold_grows r r'"
  "fold_grows r (r'\<lparr>rp_refused := e\<rparr>) = fold_grows r r'"
  "fold_grows r (r'\<lparr>rp_sandbox_on := f\<rparr>) = fold_grows r r'"
  by (simp_all add: fold_grows_def)

lemma grows_out: "out_grows (rp_out r) out' \<Longrightarrow> fold_grows r (r\<lparr>rp_out := out'\<rparr>)"
  by (simp add: fold_grows_def)

lemma grows_push [simp]: "thinking_ok b \<Longrightarrow> fold_grows r (push_block b r)"
  by (simp add: push_block_def grows_out)

lemma grows_push_after: "fold_grows r r' \<Longrightarrow> thinking_ok b \<Longrightarrow> fold_grows r (push_block b r')"
  using fold_grows_trans grows_push by blast

lemma marks_pop_at: "pos < length (rp_queue r) \<Longrightarrow> marks (pop_at pos r) \<subseteq> marks r"
  using set_remove_nth [of pos "rp_queue r"]
  by (auto simp: marks_def pop_at_def opt_list_def split: option.splits)

lemma pop_at_frame [simp]:
  "rp_base (pop_at p r) = rp_base r" "rp_stamped (pop_at p r) = rp_stamped r"
  "rp_out (pop_at p r) = rp_out r" "rp_durable (pop_at p r) = rp_durable r"
  "rp_user_times (pop_at p r) = rp_user_times r"
  "rp_turn_durations (pop_at p r) = rp_turn_durations r"
  "rp_tool_slot (pop_at p r) = rp_tool_slot r" "rp_last_skill (pop_at p r) = rp_last_skill r"
  by (simp_all add: pop_at_def)

lemma grows_pop_at: "pos < length (rp_queue r) \<Longrightarrow> fold_grows r (pop_at pos r)"
  using marks_pop_at [of pos r] by (auto simp: fold_grows_def)

lemma grows_pop [simp]: "fold_grows r (pop_content c r)"
  by (auto simp: pop_content_def split: option.splits intro!: grows_pop_at dest: position_Some)

lemma pop_content_frame [simp]:
  "rp_base (pop_content c r) = rp_base r" "rp_out (pop_content c r) = rp_out r"
  by (auto simp: pop_content_def split: option.splits)

subsection \<open>Classes of the blocks an arm rewrites\<close>

fun msg_ok :: "message \<Rightarrow> bool" where
  "msg_ok (MThinking t _) = (trim t \<noteq> [])"
| "msg_ok _ = True"

lemma call_class: "is_call b \<Longrightarrow> is_call b' \<Longrightarrow> same_class b b'"
  by (cases b; cases b'; simp add: same_class_def)

lemma call_thinking_ok [simp]: "is_call b \<Longrightarrow> thinking_ok b"
  by (cases b) auto

lemma name_recipient_call [simp]: "is_call (name_recipient r b) = is_call b"
  by (auto simp: name_recipient_def split: block.splits option.splits)

lemma slot_rel_ok:
  assumes "rep_inv r"
  obtains "slot_rel r i = Some None"
  | rel where "slot_rel r i = Some (Some rel)" "rel < length (rp_out r)" "is_call (rp_out r ! rel)"
proof (cases "rp_tool_slot r i")
  case None
  then show ?thesis using that(1) by (simp add: slot_rel_def)
next
  case (Some l)
  then show ?thesis
    using rep_inv_refs(1) [OF assms Some] that(2) [of "l - rp_base r"]
    by (auto simp: slot_rel_def call_ref_def)
qed

lemma mark_outside_call: "mark_outside b = Some b' \<Longrightarrow> is_call b \<and> is_call b'"
  by (cases b) auto

lemma skill_body_class:
  assumes "attach_skill_body out idx body = Some out'"
  shows "out_grows out out'"
proof -
  obtain i t t' where "i < length out" "out ! i = ToolUse t" "out' = out[i := ToolUse t']"
    using assms by (auto simp: attach_skill_body_def split: option.splits if_splits block.splits)
  then show ?thesis
    using out_grows_update [of out i "ToolUse t'"] by (simp add: call_class)
qed

lemma patch_last_grows:
  assumes "patch_last f out = Some out'" and "\<And>b b'. f b = Some b' \<Longrightarrow> same_class b b'"
  shows "out_grows out out'"
proof -
  obtain b where b: "out \<noteq> []" "f (last out) = Some b" "out' = butlast out @ [b]"
    using assms(1) by (auto simp: patch_last_def split: if_splits option.splits)
  then have "out' = out[length out - 1 := b]"
    by (cases out rule: rev_cases) auto
  then show ?thesis
    using out_grows_update [of out "length out - 1" b] assms(2) [OF b(2)] b(1)
    by (simp add: last_conv_nth)
qed

lemma set_usage_class: "set_usage p q b = Some b' \<Longrightarrow> same_class b b'"
  by (cases b) (auto simp: same_class_def)

lemma set_summary_class: "set_summary t b = Some b' \<Longrightarrow> same_class b b'"
  by (induction t b rule: set_summary.induct) (auto simp: same_class_def)

lemma add_stdout_class: "add_stdout t b = Some b' \<Longrightarrow> same_class b b'"
  by (cases b) (auto simp: same_class_def)

lemma set_image_path_class: "same_class b (set_image_path p b)"
  by (cases b) (auto simp: same_class_def)

lemma set_paths_grows: "out_grows out (set_paths out ips)"
proof (induction out ips rule: set_paths.induct)
  case (2 out i p ips)
  then show ?case
    using out_grows_trans [OF out_grows_update [OF set_image_path_class [of "out ! i" p]]]
    unfolding set_paths.simps by blast
qed simp

lemma patch_image_paths_grows: "out_grows out (patch_image_paths ps out)"
  by (auto simp: patch_image_paths_def Let_def set_paths_grows split: option.splits)

subsection \<open>The arms keep the invariant\<close>

fun line_start :: "message \<Rightarrow> bool" where
  "line_start (LineStart _) = True"
| "line_start _ = False"

definition arm_ok :: "replayer \<Rightarrow> fold_state option \<Rightarrow> bool" where
  "arm_ok r x \<longleftrightarrow> (\<exists>s. x = Some s \<and> fold_grows r (fst s))"

lemma arm_ok_Some [simp]: "arm_ok r (Some s) = fold_grows r (fst s)"
  by (simp add: arm_ok_def)

lemma pushed_ok [simp]: "thinking_ok b \<Longrightarrow> fold_grows r (fst s) \<Longrightarrow> arm_ok r (pushed b s)"
  by (simp add: pushed_def grows_push_after)

lemma line_start_ok:
  assumes "rep_inv r" and "aligned n r"
  shows "\<exists>r'. apply_line_start ts (r, pf) = Some (r', pf) \<and> rep_inv r' \<and> aligned n r'
    \<and> rp_base r' = rp_base r \<and> rp_out r' = rp_out r"
proof -
  have w: "window_stamped r \<le> length (rp_out r)" and st: "rp_base r \<le> rp_stamped r"
    using assms(1) by (auto simp: rep_inv_def window_stamped_def)
  have "rep_inv r' \<and> aligned n r'"
    if "r' = r\<lparr>rp_user_times := u @ map (\<lambda>_. t) (filter opens_turn (drop (window_stamped r) (rp_out r))),
        rp_turn_durations := d, rp_stamped := rp_base r + length (rp_out r), rp_prev_ts := p,
        rp_pending_ts := ts\<rparr>" "u = rp_user_times r"
       "length d = length u + count_if opens_turn (drop (window_stamped r) (rp_out r))"
    for r' u t d p
    using assms w st that count_if_take_drop [of opens_turn "window_stamped r" "rp_out r"]
    by (simp add: rep_inv_def aligned_def window_stamped_def marks_def count_if_def)
  then show ?thesis
    using w by (simp add: apply_line_start_def stamp_window_def stamp_user_turns_def count_if_def)
qed

context fold_shaping begin

lemma tool_use_ok:
  "arm_ok r (apply_tool_use sh i name input cwd (r, pf))"
proof -
  let ?b = "name_recipient r (build_tool sh i name input cwd)"
  have "is_call ?b" by (simp add: build_call)
  then have ref: "call_ref (rp_base r) (rp_out r @ [?b]) (rp_base r + length (rp_out r))"
    and ok: "thinking_ok ?b"
    by (simp_all add: call_ref_def)
  show ?thesis
    using ref ok
    by (auto simp: apply_tool_use_def Let_def push_block_def fold_grows_def split: block.splits)
qed

lemma tool_result_ok:
  assumes "rep_inv r"
  shows "arm_ok r (apply_tool_result sh fr i raw tur e (r, pf))"
  using slot_rel_ok [OF assms, of i]
proof cases
  case 1
  then show ?thesis by (auto simp: apply_tool_result_def Let_def pushed_def)
next
  case (2 rel)
  then have "same_class (rp_out r ! rel) (join_result sh (rp_out r ! rel) (strip_ansi raw) tur e)"
    by (simp add: call_class join_call)
  then show ?thesis
    using 2 by (simp add: apply_tool_result_def Let_def grows_out out_grows_update)
qed

lemma sandbox_run_ok:
  assumes "rep_inv r"
  shows "arm_ok r (apply_sandbox_run fr i inside (r, pf))"
  using slot_rel_ok [OF assms, of i]
proof cases
  case 1
  then show ?thesis by (auto simp: apply_sandbox_run_def)
next
  case (2 rel)
  then show ?thesis
    by (auto simp: apply_sandbox_run_def Let_def split: option.splits
      intro!: grows_out out_grows_update dest!: mark_outside_call intro: call_class)
qed

lemma skill_body_ok:
  assumes "rep_inv r"
  shows "arm_ok r (apply_skill_body fr text fb (r, pf))"
proof -
  have "\<not> i < rp_base r" if "rp_last_skill r = Some i" for i
    using rep_inv_refs(2) [OF assms that] by (simp add: call_ref_def)
  then show ?thesis
    by (auto simp: apply_skill_body_def Let_def pushed_def grows_out dest: skill_body_class
      split: option.splits)
qed

lemma patch_last_ok:
  assumes "\<And>b b'. f b = Some b' \<Longrightarrow> same_class b b'"
    and "arm_ok r alt"
  shows "arm_ok r (patch_last_or fr f alt (r, pf))"
  using assms(2) patch_last_grows [OF _ assms(1)]
  by (auto simp: patch_last_or_def grows_out split: option.splits)

lemma inbox_ok: "arm_ok r (apply_user_inbox t w ib ims (r, pf))"
proof -
  let ?r = "pop_content (trim t) r"
  have "list_all thinking_ok (UserInbox w ib # map AttachmentB ims)"
    by (simp add: list_all_iff)
  then have "fold_grows ?r (?r\<lparr>rp_out := rp_out ?r @ UserInbox w ib # map AttachmentB ims\<rparr>)"
    by (intro grows_out out_grows_append)
  then have "fold_grows r (?r\<lparr>rp_out := rp_out r @ UserInbox w ib # map AttachmentB ims\<rparr>)"
    using fold_grows_trans [OF grows_pop] by simp
  then have "fold_grows r (?r\<lparr>rp_inbox_ids := x,
      rp_out := rp_out r @ UserInbox w ib # map AttachmentB ims\<rparr>)" for x
    by (simp add: fold_grows_def)
  then show ?thesis
    by (simp add: apply_user_inbox_def Let_def grows_push_after)
qed

lemma queue_op_ok:
  "arm_ok r (apply_queue_op op c p (r, pf))"
proof (cases op)
  case QEnqueue
  have "fold_grows r ((push_block (QueueEvent (trim d)) r)\<lparr>rp_queue :=
      rp_queue r @ [\<lparr>qi_content = trim d, qi_marker_idx = Some (rp_base r + length (rp_out r))\<rparr>]\<rparr>)" for d
    by (auto simp: fold_grows_def push_block_def marks_def marker_ref_def)
  moreover have "fold_grows r (r\<lparr>rp_queue := rp_queue r @ [\<lparr>qi_content = trim d, qi_marker_idx = None\<rparr>]\<rparr>)" for d
    by (auto simp: fold_grows_def marks_def)
  ultimately show ?thesis
    using QEnqueue by (auto simp: apply_queue_op_def Let_def split: option.splits)
next
  case QPopAll
  have "fold_grows r (r\<lparr>rp_queue := [],
      rp_suppress := rp_suppress r @ List.map_filter qi_marker_idx (rp_queue r)\<rparr>)"
    by (auto simp: fold_grows_def marks_def List.map_filter_def)
  then show ?thesis
    using QPopAll by (simp add: apply_queue_op_def)
qed (auto simp: apply_queue_op_def grows_pop_at split: option.splits)

lemma peer_ok: "arm_ok r (apply_peer_text f m t q a (r, pf))"
  by (auto simp: apply_peer_text_def Let_def split: option.splits
    intro!: grows_push_after intro: fold_grows_trans [OF _ grows_pop])

lemma turn_duration_ok:
  "arm_ok r (apply_turn_duration secs a (r, pf))"
  by (auto simp: apply_turn_duration_def fold_grows_def)

lemma thinking_arm_ok:
  "trim t \<noteq> [] \<Longrightarrow> arm_ok r (apply_thinking t ts (r, pf))"
  by (simp add: apply_thinking_def)

lemma completion_ok: "arm_ok r (apply_completion a b c d e (r, pf))"
  by (auto simp: apply_completion_def Let_def split: prod.splits)

lemma refused_note_ok: "arm_ok r (apply_refused_note i t (r, pf))"
  by (auto simp: apply_refused_note_def Let_def split: option.splits)

lemmas arms_ok = tool_use_ok tool_result_ok sandbox_run_ok skill_body_ok inbox_ok queue_op_ok peer_ok
  turn_duration_ok thinking_arm_ok completion_ok refused_note_ok

lemma message_ok:
  assumes "rep_inv r" and "msg_ok m" and "\<not> line_start m"
  shows "arm_ok r (apply_message sh fr m (r, pf))"
  using assms
  by (cases m) (simp_all add: arms_ok Let_def grows_out patch_image_paths_grows grows_push_after
      patch_last_ok [OF set_usage_class] patch_last_ok [OF set_summary_class]
      patch_last_ok [OF add_stdout_class])

end

subsection \<open>A batch of messages\<close>

lemma aligned_durable:
  "aligned n r \<Longrightarrow> aligned (n + count_if opens_turn (rp_durable r)) (r\<lparr>rp_durable := []\<rparr>)"
  by (simp add: aligned_def window_stamped_def)

text \<open>What a batch does to the window: nothing above is lost, the base stays.\<close>

definition batch_grows :: "replayer \<Rightarrow> replayer \<Rightarrow> bool" where
  "batch_grows r r' \<longleftrightarrow> rp_base r' = rp_base r \<and> rp_durable r' = rp_durable r
     \<and> out_grows (rp_out r) (rp_out r')"

lemma batch_grows_trans: "batch_grows a b \<Longrightarrow> batch_grows b c \<Longrightarrow> batch_grows a c"
  unfolding batch_grows_def using out_grows_trans by metis

lemma line_start_durable:
  "apply_line_start ts s = Some s' \<Longrightarrow> rp_durable (fst s') = rp_durable (fst s)"
  by (auto simp: apply_line_start_def stamp_window_def stamp_user_turns_def split: if_splits)

lemma message_line_start: "line_start m \<Longrightarrow> \<exists>ts. m = LineStart ts"
  by (cases m) auto

context fold_shaping begin

lemma message_keeps:
  assumes "rep_inv r" and "aligned n r" and "msg_ok m"
  shows "\<exists>r' pf'. apply_message sh fr m (r, pf) = Some (r', pf') \<and> rep_inv r' \<and> aligned n r'
    \<and> batch_grows r r'"
proof (cases "line_start m")
  case True
  then obtain ts where "m = LineStart ts" using message_line_start by blast
  then show ?thesis
    using line_start_ok [OF assms(1,2), of ts pf] line_start_durable [of ts "(r, pf)"]
    by (fastforce simp: batch_grows_def)
next
  case False
  obtain r' pf' where r': "apply_message sh fr m (r, pf) = Some (r', pf')" "fold_grows r r'"
    using message_ok [OF assms(1,3) False, of fr pf] by (auto simp: arm_ok_def)
  then show ?thesis
    using fold_grows_inv [OF assms(1) r'(2)] fold_grows_aligned [OF assms(1) r'(2) assms(2)]
    by (auto simp: batch_grows_def fold_grows_def)
qed

lemma messages_keep:
  assumes "rep_inv r" and "aligned n r" and "list_all msg_ok ms"
  shows "\<exists>r' pf'. apply_messages sh fr ms (r, pf) = Some (r', pf') \<and> rep_inv r' \<and> aligned n r'
    \<and> batch_grows r r'"
  using assms
proof (induction ms arbitrary: r pf)
  case Nil
  then show ?case by (simp add: batch_grows_def)
next
  case (Cons m ms)
  obtain r1 pf1 where 1: "apply_message sh fr m (r, pf) = Some (r1, pf1)" "rep_inv r1"
      "aligned n r1" "batch_grows r r1"
    using message_keeps [OF Cons.prems(1,2), of m fr pf] Cons.prems(3) by auto
  obtain r2 pf2 where 2: "apply_messages sh fr ms (r1, pf1) = Some (r2, pf2)" "rep_inv r2"
      "aligned n r2" "batch_grows r1 r2"
    using Cons.IH [OF 1(2,3), of pf1] Cons.prems(3) by auto
  then show ?case
    using 1 batch_grows_trans [OF 1(4) 2(4)] by simp
qed

end

subsection \<open>The commit\<close>

lemma turn_start_opener: "0 < turn_start xs \<Longrightarrow> turn_start xs < length xs \<and> opens_turn (xs ! turn_start xs)"
  by (auto simp: turn_start_def split: option.splits dest: rposition_Some)

lemma turn_start_le: "xs \<noteq> [] \<Longrightarrow> turn_start xs < length xs"
  by (auto simp: turn_start_def split: option.splits dest: rposition_Some)

lemma queue_pin_some:
  assumes "queue_pin r k = Some pin"
  shows "\<exists>rel. rel < k \<and> pin = turn_start (take (Suc rel) (rp_out r))
    \<and> count_if opens_turn (drop pin (take k (rp_out r))) \<le> max_pinned_turns"
proof (cases "List.map_filter qi_marker_idx (rp_queue r)")
  case Nil
  then show ?thesis using assms by (simp add: queue_pin_def)
next
  case (Cons i js)
  then show ?thesis
    using assms
    by (intro exI [of _ "fold min js i - rp_base r"])
      (simp add: queue_pin_def Let_def split: if_splits)
qed

lemma commit_point_opener:
  assumes "0 < commit_point r"
  shows "commit_point r < length (rp_out r) \<and> opens_turn (rp_out r ! commit_point r)"
proof -
  obtain k where k: "rposition opens_turn (rp_out r) = Some k"
    using assms by (auto simp: commit_point_def split: option.splits)
  then have kl: "k < length (rp_out r)" "opens_turn (rp_out r ! k)"
    using rposition_Some [OF k] by auto
  show ?thesis
  proof (cases "queue_pin r k")
    case None
    then show ?thesis using k kl by (simp add: commit_point_def)
  next
    case (Some pin)
    then obtain rel where rel: "rel < k" "pin = turn_start (take (Suc rel) (rp_out r))"
      using queue_pin_some by blast
    have "0 < pin" using assms k Some by (simp add: commit_point_def)
    then have "pin < length (take (Suc rel) (rp_out r)) \<and> opens_turn (take (Suc rel) (rp_out r) ! pin)"
      unfolding rel(2) by (rule turn_start_opener)
    then have "pin < Suc rel \<and> pin < length (rp_out r) \<and> opens_turn (rp_out r ! pin)"
      by (metis length_take min_less_iff_conj nth_take)
    then show ?thesis
      using k Some by (simp add: commit_point_def)
  qed
qed

lemma stamp_window_some:
  assumes "rep_inv r"
  obtains r' where "stamp_window r = Some r'"
    "r' = r\<lparr>rp_user_times := rp_user_times r @
              map (\<lambda>_. rp_pending_ts r) (filter opens_turn (drop (window_stamped r) (rp_out r))),
            rp_turn_durations := resize (length (rp_user_times r @
              map (\<lambda>_. rp_pending_ts r) (filter opens_turn (drop (window_stamped r) (rp_out r))))) None
              (rp_turn_durations r),
            rp_stamped := rp_base r + length (rp_out r)\<rparr>"
proof -
  have "window_stamped r \<le> length (rp_out r)"
    using assms by (auto simp: rep_inv_def window_stamped_def)
  then show ?thesis
    by (intro that) (simp_all add: stamp_window_def stamp_user_turns_def)
qed

lemma stamp_window_inv:
  assumes inv: "rep_inv r" and al: "aligned n r" and st: "stamp_window r = Some r'"
  shows "rep_inv r'" "aligned n r'" "rp_stamped r' = rp_base r' + length (rp_out r')"
    "rp_out r' = rp_out r" "rp_base r' = rp_base r" "rp_durable r' = rp_durable r"
    "rp_suppress r' = rp_suppress r" "rp_queue r' = rp_queue r"
proof -
  obtain d where r': "r' = r\<lparr>rp_user_times := rp_user_times r @
       map (\<lambda>_. rp_pending_ts r) (filter opens_turn (drop (window_stamped r) (rp_out r))),
     rp_turn_durations := d, rp_stamped := rp_base r + length (rp_out r)\<rparr>"
    and d: "length d = length (rp_user_times r)
       + count_if opens_turn (drop (window_stamped r) (rp_out r))"
    by (rule stamp_window_some [OF inv]) (use st in \<open>simp add: count_if_def that\<close>)
  show "rp_stamped r' = rp_base r' + length (rp_out r')" "rp_out r' = rp_out r"
    "rp_base r' = rp_base r" "rp_durable r' = rp_durable r" "rp_suppress r' = rp_suppress r"
    "rp_queue r' = rp_queue r"
    by (simp_all add: r')
  show "rep_inv r'"
    using inv d by (simp add: rep_inv_def r' count_if_def)
  show "aligned n r'"
    using al count_if_take_drop [of opens_turn "window_stamped r" "rp_out r"]
    by (simp add: aligned_def window_stamped_def count_if_def r')
qed

definition suppressed_free :: "replayer \<Rightarrow> bool" where
  "suppressed_free r \<longleftrightarrow> (\<forall>j<length (rp_out r). rp_base r + j \<in> set (rp_suppress r) \<longrightarrow>
     \<not> opens_turn (rp_out r ! j))"

lemma marker_not_opener: "is_marker b \<Longrightarrow> \<not> opens_turn b"
  by (cases b) auto

lemma rep_inv_suppressed: "rep_inv r \<Longrightarrow> suppressed_free r"
  unfolding suppressed_free_def
  by (metis Un_iff add_diff_cancel_left' le_add1 marker_not_opener marker_ref_def marks_def rep_inv_refs(3))

lemma list_all_drop_flagged: "list_all p xs \<Longrightarrow> list_all p (drop_flagged i f xs)"
  using set_drop_flagged [of i f xs] by (auto simp: list_all_iff)

lemma drop_flagged_hd:
  "xs \<noteq> [] \<Longrightarrow> \<not> f i \<Longrightarrow> drop_flagged i f xs \<noteq> [] \<and> hd (drop_flagged i f xs) = hd xs"
  by (cases xs) auto

lemma commit_window_simps [simp]:
  "rp_base (commit_window sh k r) = rp_base r + k"
  "rp_out (commit_window sh k r) = drop k (rp_out r)"
  "rp_stamped (commit_window sh k r) = rp_stamped r"
  "rp_user_times (commit_window sh k r) = rp_user_times r"
  "rp_turn_durations (commit_window sh k r) = rp_turn_durations r"
  "rp_pending_ts (commit_window sh k r) = rp_pending_ts r"
  "rp_queue (commit_window sh k r) = rp_queue r"
  "rp_suppress (commit_window sh k r) = filter (\<lambda>i. rp_base r + k \<le> i) (rp_suppress r)"
  "rp_durable (commit_window sh k r) = rp_durable r @
     finish_turns sh (drop_flagged (rp_base r) (\<lambda>i. i \<in> set (rp_suppress r)) (take k (rp_out r)))"
  by (simp_all add: commit_window_def Let_def)

lemma commit_slot:
  "rp_tool_slot (commit_window sh k r) i = Some v \<Longrightarrow> rp_tool_slot r i = Some v \<and> rp_base r + k \<le> v"
  by (auto simp: commit_window_def Let_def split: option.splits if_splits)

lemma commit_skill:
  "rp_last_skill (commit_window sh k r) = Some v \<Longrightarrow> rp_last_skill r = Some v \<and> rp_base r + k \<le> v"
  by (auto simp: commit_window_def Let_def split: option.splits if_splits)

lemma call_ref_drop:
  "call_ref b xs i \<Longrightarrow> b + k \<le> i \<Longrightarrow> k \<le> length xs \<Longrightarrow> call_ref (b + k) (drop k xs) i"
  by (simp add: call_ref_def)

lemma marker_ref_drop: "marker_ref b xs i \<Longrightarrow> k \<le> length xs \<Longrightarrow> marker_ref (b + k) (drop k xs) i"
  by (auto simp: marker_ref_def)

lemma commit_inv:
  assumes inv: "rep_inv r" and k: "k \<le> length (rp_out r)"
    and st: "rp_stamped r = rp_base r + length (rp_out r)"
  shows "rep_inv (commit_window sh k r)"
proof -
  let ?c = "commit_window sh k r"
  have "call_ref (rp_base ?c) (rp_out ?c) i" if "rp_tool_slot ?c key = Some i" for key i
    using commit_slot [OF that] rep_inv_refs(1) [OF inv] call_ref_drop [OF _ _ k] by auto
  moreover have "call_ref (rp_base ?c) (rp_out ?c) i" if "rp_last_skill ?c = Some i" for i
    using commit_skill [OF that] rep_inv_refs(2) [OF inv] call_ref_drop [OF _ _ k] by auto
  moreover have "marker_ref (rp_base ?c) (rp_out ?c) i" if "i \<in> marks ?c" for i
  proof -
    have "i \<in> marks r" using that by (auto simp: marks_def)
    then show ?thesis
      using rep_inv_refs(3) [OF inv] marker_ref_drop [OF _ k] by auto
  qed
  moreover have "list_all thinking_ok (drop k (rp_out r))"
    using inv by (auto simp: rep_inv_def list_all_iff dest: in_set_dropD)
  ultimately show ?thesis
    using inv st k unfolding rep_inv_def by simp
qed

context fold_shaping begin

lemma commit_aligned:
  assumes inv: "rep_inv r" and al: "aligned n r" and k: "k \<le> length (rp_out r)"
    and st: "rp_stamped r = rp_base r + length (rp_out r)"
  shows "aligned n (commit_window sh k r)"
proof -
  let ?f = "\<lambda>i. i \<in> set (rp_suppress r)"
  have "\<not> opens_turn (take k (rp_out r) ! j)"
    if "j < length (take k (rp_out r))" "?f (rp_base r + j)" for j
    using rep_inv_suppressed [OF inv] that by (simp add: suppressed_free_def)
  then have "count_if opens_turn (drop_flagged (rp_base r) ?f (take k (rp_out r)))
      = count_if opens_turn (take k (rp_out r))"
    by (rule count_if_drop_flagged)
  then show ?thesis
    using al st k count_if_take_drop [of opens_turn k "rp_out r"]
    by (simp add: aligned_def window_stamped_def finish_turn_count)
qed

text \<open>Moving the frontier does not change what a reader assembles.\<close>

lemma commit_assemble:
  assumes inv: "rep_inv r" and k: "k < length (rp_out r)" and op: "opens_turn (rp_out r ! k)"
  shows "assemble sh (commit_window sh k r) (drop k (rp_out r)) = assemble sh r (rp_out r)"
proof -
  let ?f = "\<lambda>i. i \<in> set (rp_suppress r)"
  let ?pre = "drop_flagged (rp_base r) ?f (take k (rp_out r))"
  let ?post = "drop_flagged (rp_base r + k) ?f (drop k (rp_out r))"
  have whole: "drop_flagged 0 (\<lambda>i. i + rp_base r \<in> set (rp_suppress r)) (rp_out r) = ?pre @ ?post"
  proof -
    have "drop_flagged 0 (\<lambda>i. i + rp_base r \<in> set (rp_suppress r)) (rp_out r)
        = drop_flagged (rp_base r) ?f (take k (rp_out r) @ drop k (rp_out r))"
      using drop_flagged_shift [of 0 "rp_base r" ?f "rp_out r"] by simp
    then show ?thesis
      using k by (simp only: drop_flagged_append length_take min.absorb2 less_imp_le)
  qed
  have rest: "drop_flagged 0 (\<lambda>i. i + (rp_base r + k) \<in> set (filter (\<lambda>i. rp_base r + k \<le> i) (rp_suppress r)))
      (drop k (rp_out r)) = ?post"
  proof -
    have "drop_flagged 0 (\<lambda>i. i + (rp_base r + k) \<in> set (filter (\<lambda>i. rp_base r + k \<le> i) (rp_suppress r)))
        (drop k (rp_out r)) = drop_flagged 0 (\<lambda>i. i + (rp_base r + k) \<in> set (rp_suppress r)) (drop k (rp_out r))"
      by (rule drop_flagged_cong) auto
    then show ?thesis
      using drop_flagged_shift [of 0 "rp_base r + k" ?f "drop k (rp_out r)"] by simp
  qed
  have "list_all thinking_ok (take k (rp_out r))"
    using inv by (auto simp: rep_inv_def list_all_iff dest: in_set_takeD)
  then have pre: "list_all thinking_ok ?pre" by (rule list_all_drop_flagged)
  have "\<not> ?f (rp_base r + k)"
    using rep_inv_suppressed [OF inv] k op by (auto simp: suppressed_free_def)
  then have "?post \<noteq> [] \<and> hd ?post = rp_out r ! k"
    using drop_flagged_hd [of "drop k (rp_out r)" ?f "rp_base r + k"] k by (simp add: hd_drop_conv_nth)
  then have "finish_turns sh (?pre @ ?post) = finish_turns sh ?pre @ finish_turns sh ?post"
    using pre op by (intro finish_split) (auto simp: finish_empty)
  then show ?thesis
    using whole rest by (simp add: assemble_def finalize_open_def)
qed

lemma finalize_keeps:
  assumes inv: "rep_inv r" and al: "aligned n r"
  shows "\<exists>r'. finalize_completed sh r = Some r' \<and> rep_inv r' \<and> aligned n r'
    \<and> snapshot sh r' = snapshot sh r \<and> (\<exists>xs. rp_durable r' = rp_durable r @ xs)"
proof (cases "commit_point r = 0")
  case True
  then show ?thesis using inv al by (simp add: finalize_completed_def)
next
  case False
  let ?k = "commit_point r"
  have k: "?k < length (rp_out r)" "opens_turn (rp_out r ! ?k)"
    using commit_point_opener [of r] False by auto
  obtain s where s: "stamp_window r = Some s"
    using stamp_window_some [OF inv] by metis
  note si = stamp_window_inv [OF inv al s]
  have c: "finalize_completed sh r = Some (commit_window sh ?k s)"
    using False s by (simp add: finalize_completed_def)
  have "assemble sh (commit_window sh ?k s) (drop ?k (rp_out s)) = assemble sh s (rp_out s)"
    using commit_assemble [of s ?k] si k by simp
  also have "\<dots> = assemble sh r (rp_out r)"
    using si by (simp add: assemble_def finalize_open_def)
  finally have blocks: "assemble sh (commit_window sh ?k s) (rp_out (commit_window sh ?k s))
      = assemble sh r (rp_out r)" by simp
  have "snapshot sh (commit_window sh ?k s) = snapshot sh r"
    using blocks si s k(1)
    by (simp add: snapshot_def stamp_user_turns_def window_stamped_def stamp_window_def
          split: if_splits)
      (auto split: if_splits)
  moreover have "rep_inv (commit_window sh ?k s)" "aligned n (commit_window sh ?k s)"
    using commit_inv [OF si(1)] commit_aligned [OF si(1,2)] si k by auto
  ultimately show ?thesis using c si(6) by simp
qed

end

end
