(* ===== verification/Codex.thy ===== *)
theory Codex
  imports Replay_Inv
begin

text \<open>
  The Codex agent's shaping hooks (\<open>claude-replay-agents/src/agents/codex/model.rs\<close>): the
  block built for a call, the join of its output, the orphan policy; with the path display of
  \<open>claude-replay-engine/src/engine/path.rs\<close>.  JSON parsing and printing belong to
  \<open>serde_json\<close>, which is not under \<open>src/\<close>: they are the record \<open>codex_env\<close>, with
  the home directory the process runs in.
\<close>

record codex_env =
  ce_parse :: "string \<Rightarrow> json option"
  ce_display :: "json \<Rightarrow> string"
  ce_exec :: "json \<Rightarrow> tool_execution option"
  ce_home :: "string option"

subsection \<open>Text helpers\<close>

definition newline :: char where
  "newline = char_of (10::nat)"

definition strip_cr :: "string \<Rightarrow> string" where
  "strip_cr s = (if s \<noteq> [] \<and> last s = char_of (13::nat) then butlast s else s)"

text \<open>\<open>str::lines\<close>: a carriage return goes only with the line feed after it.\<close>

definition str_lines :: "string \<Rightarrow> string list" where
  "str_lines s =
     (let ps = split_on newline s
      in map strip_cr (butlast ps) @ (if last ps = [] then [] else [last ps]))"

definition flat_line :: "string \<Rightarrow> string" where
  "flat_line s = map (\<lambda>c. if c = newline then CHR '' '' else c) s"

definition strip_pre :: "string \<Rightarrow> string \<Rightarrow> string option" where
  "strip_pre p s = (if starts_with s p then Some (drop (length p) s) else None)"

definition ascii_lower :: "string \<Rightarrow> string" where
  "ascii_lower s = map (\<lambda>c. if 65 \<le> byte c \<and> byte c \<le> 90 then char_of (byte c + 32) else c) s"

subsection \<open>Paths (\<open>engine/path.rs\<close>)\<close>

text \<open>
  \<open>Path::strip_prefix\<close> compares components: repeated slashes and inner dots do not count,
  a leading slash and a leading dot do.  What is left is the path's own text, without the
  empty and dot pieces at its two ends.
\<close>

definition path_junk :: "string \<Rightarrow> bool" where
  "path_junk p \<longleftrightarrow> p = [] \<or> p = ''.''"

definition path_root :: "string \<Rightarrow> bool" where
  "path_root s \<longleftrightarrow> s \<noteq> [] \<and> hd s = CHR ''/''"

definition path_cur :: "string \<Rightarrow> bool" where
  "path_cur s \<longleftrightarrow> hd (split_on (CHR ''/'') s) = ''.''"

fun strip_pieces :: "string list \<Rightarrow> string list \<Rightarrow> string list option" where
  "strip_pieces ps [] = Some ps"
| "strip_pieces [] (n # ns) = None"
| "strip_pieces (p # ps) (n # ns) =
     (if path_junk p then strip_pieces ps (n # ns)
      else if p = n then strip_pieces ps ns else None)"

definition path_strip_prefix :: "string \<Rightarrow> string \<Rightarrow> string option" where
  "path_strip_prefix p base =
     (if path_root p = path_root base \<and> path_cur p = path_cur base then
        map_option
          (\<lambda>ps. join_with ''/'' (rev (dropWhile path_junk (rev (dropWhile path_junk ps)))))
          (strip_pieces (split_on (CHR ''/'') p)
             (filter (\<lambda>q. \<not> path_junk q) (split_on (CHR ''/'') base)))
      else None)"

definition relativize_with :: "string \<Rightarrow> string \<Rightarrow> string option \<Rightarrow> string" where
  "relativize_with p base home =
     (case (if base = [] then None else path_strip_prefix p base) of
        Some r \<Rightarrow> r
      | None \<Rightarrow>
          (case home of
             None \<Rightarrow> p
           | Some h \<Rightarrow>
               if h = [] then p
               else (case path_strip_prefix p h of Some r \<Rightarrow> ''~/'' @ r | None \<Rightarrow> p)))"

subsection \<open>Patches\<close>

definition file_headers :: "string list" where
  "file_headers = [''*** Update File: '', ''*** Add File: '', ''*** Delete File: '']"

fun first_some :: "('a \<Rightarrow> 'b option) \<Rightarrow> 'a list \<Rightarrow> 'b option" where
  "first_some f [] = None"
| "first_some f (x # xs) = (case f x of Some y \<Rightarrow> Some y | None \<Rightarrow> first_some f xs)"

definition patch_target :: "string \<Rightarrow> string option" where
  "patch_target patch =
     first_some (\<lambda>line. first_some (\<lambda>h. strip_pre h line) file_headers) (str_lines patch)"

text \<open>One patch per file.\<close>

fun patch_files_loop :: "string list \<Rightarrow> string list \<Rightarrow> string list" where
  "patch_files_loop out [] = out"
| "patch_files_loop out (line # rest) =
     (if list_ex (starts_with line) file_headers
      then patch_files_loop (out @ [line @ [newline]]) rest
      else if out = [] \<or> starts_with line ''*** Begin Patch'' \<or> starts_with line ''*** End Patch''
      then patch_files_loop out rest
      else patch_files_loop (butlast out @ [last out @ line @ [newline]]) rest)"

definition patch_files :: "string \<Rightarrow> string list" where
  "patch_files patch = patch_files_loop [] (str_lines patch)"

definition diff_flush :: "string list \<Rightarrow> string list \<Rightarrow> (string \<times> string) list" where
  "diff_flush old new =
     (if old = [] \<and> new = [] then [] else [(join_with [newline] old, join_with [newline] new)])"

fun patch_diffs_loop :: "string list \<Rightarrow> string list \<Rightarrow> string list \<Rightarrow> (string \<times> string) list" where
  "patch_diffs_loop old new [] = diff_flush old new"
| "patch_diffs_loop old new (line # rest) =
     (if starts_with line ''@@'' \<or> starts_with line ''*** ''
      then diff_flush old new @ patch_diffs_loop [] [] rest
      else (case line of
              [] \<Rightarrow> patch_diffs_loop old new rest
            | c # body \<Rightarrow>
                if c = CHR ''-'' then patch_diffs_loop (old @ [body]) new rest
                else if c = CHR ''+'' then patch_diffs_loop old (new @ [body]) rest
                else if c = CHR '' '' then patch_diffs_loop (old @ [body]) (new @ [body]) rest
                else patch_diffs_loop old new rest))"

definition patch_diffs :: "string \<Rightarrow> (string \<times> string) list" where
  "patch_diffs patch = patch_diffs_loop [] [] (str_lines patch)"

subsection \<open>The call block\<close>

definition normalize_tool_name :: "string \<Rightarrow> string" where
  "normalize_tool_name name =
     (let n = ascii_lower name in
      if n \<in> {''exec'', ''exec_command'', ''shell'', ''shell_command'', ''bash''} then ''Bash''
      else if n \<in> {''apply_patch'', ''edit'', ''multi_edit'', ''multiedit''} then ''Edit''
      else if n \<in> {''write'', ''write_file''} then ''Write''
      else if n \<in> {''read'', ''read_file'', ''view_image''} then ''Read''
      else if n \<in> {''grep'', ''search'', ''search_query''} then ''Grep''
      else if n \<in> {''glob'', ''list_files''} then ''Glob''
      else if n = ''update_plan'' then ''TodoWrite''
      else name)"

fun display_value :: "codex_env \<Rightarrow> json \<Rightarrow> string" where
  "display_value ce (JStr text) = flat_line text"
| "display_value ce (JArr items) = join_with '' '' (map (display_value ce) items)"
| "display_value ce JNull = []"
| "display_value ce v = ce_display ce v"

definition get_str :: "json \<Rightarrow> string \<Rightarrow> string option" where
  "get_str v k = Option.bind (json_get v k) json_as_str"

definition string_field :: "json \<Rightarrow> string list \<Rightarrow> string" where
  "string_field input ks = (case first_some (get_str input) ks of Some s \<Rightarrow> s | None \<Rightarrow> [])"

definition input_target :: "codex_env \<Rightarrow> json \<Rightarrow> string \<Rightarrow> string" where
  "input_target ce input cwd =
     (case first_some (get_str input) [''file_path'', ''path''] of
        Some v \<Rightarrow> relativize_with v cwd (ce_home ce)
      | None \<Rightarrow>
          (case first_some (json_get input) [''cmd'', ''command''] of
             Some v \<Rightarrow> (case json_as_str v of Some s \<Rightarrow> s | None \<Rightarrow> display_value ce v)
           | None \<Rightarrow>
               (case first_some (json_get input) [''query'', ''pattern'', ''description''] of
                  Some v \<Rightarrow> display_value ce v
                | None \<Rightarrow> [])))"

definition raw_patch_of :: "json \<Rightarrow> string option" where
  "raw_patch_of input = (case input of JStr t \<Rightarrow> Some t | _ \<Rightarrow> get_str input ''patch'')"

definition first_question :: "json \<Rightarrow> string" where
  "first_question input =
     trim (case json_get input ''questions'' of
             Some (JArr (q # _)) \<Rightarrow> (case get_str q ''question'' of Some s \<Rightarrow> s | None \<Rightarrow> [])
           | _ \<Rightarrow> [])"

definition call_target :: "codex_env \<Rightarrow> string \<Rightarrow> json \<Rightarrow> string \<Rightarrow> string" where
  "call_target ce raw_name input cwd =
     (let t0 = (case Option.bind (raw_patch_of input) patch_target of
                  Some path \<Rightarrow> relativize_with path cwd (ce_home ce)
                | None \<Rightarrow> input_target ce input cwd);
          t1 = (if t0 = [] \<and> ascii_lower raw_name = ''request_user_input''
                then first_question input else t0)
      in if t1 = [] then (case input of JStr text \<Rightarrow> flat_line text | _ \<Rightarrow> t1) else t1)"

definition call_diffs :: "string \<Rightarrow> json \<Rightarrow> (string \<times> string) list" where
  "call_diffs name input =
     (if name = ''Edit'' then
        (case raw_patch_of input of
           Some patch \<Rightarrow> patch_diffs patch
         | None \<Rightarrow> [(string_field input [''old_string'', ''old''],
                    string_field input [''new_string'', ''new''])])
      else if name = ''Write'' then [([], string_field input [''content'', ''text''])]
      else [])"

definition call_details ::
  "codex_env \<Rightarrow> string \<Rightarrow> json \<Rightarrow> string \<Rightarrow> string \<times> string \<times> (string \<times> string) list" where
  "call_details ce raw_name input cwd =
     (let name = normalize_tool_name raw_name
      in (name, call_target ce raw_name input cwd, call_diffs name input))"

definition plain_tool :: "string \<Rightarrow> string \<Rightarrow> tool_use" where
  "plain_tool name target =
     \<lparr>tu_name = name, tu_target = target, tu_diffs = [], tu_output = None, tu_patch = None,
      tu_read_lines = None, tu_cwd = [], tu_execution = None, tu_published = None,
      tu_asked = None, tu_delivered = [], tu_sent = None, tu_sent_to = None,
      tu_saved_output = None\<rparr>"

definition codex_build_tool ::
  "codex_env \<Rightarrow> string \<Rightarrow> string \<Rightarrow> json \<Rightarrow> string \<Rightarrow> block" where
  "codex_build_tool ce i raw_name input cwd =
     (if raw_name = ''spawn_agent'' then
        SubAgentB (SubAgent [] i ''agent'' None (string_field input [''task_name''])
          (string_field input [''message'']) AsRunning None None [] None)
      else
        (let (name, target, diffs) = call_details ce raw_name input cwd
         in ToolUse ((plain_tool name target)\<lparr>tu_diffs := diffs, tu_cwd := cwd,
              tu_execution := Option.bind (json_get input ''__execution'') (ce_exec ce)\<rparr>)))"

subsection \<open>Agent keys\<close>

definition agent_path_key_prefix :: string where
  "agent_path_key_prefix = ''codex-agent-''"

definition thread_result_prefix :: string where
  "thread_result_prefix = char_of (0::nat) # ''codex-subagent-thread:''"

definition edit_note :: string where
  "edit_note = ''__codex_edit_note''"

definition hex_digit :: "nat \<Rightarrow> char" where
  "hex_digit n = char_of (if n < 10 then 48 + n else 87 + n)"

definition hex_byte :: "char \<Rightarrow> string" where
  "hex_byte c = [hex_digit (byte c div 16), hex_digit (byte c mod 16)]"

definition encode_agent_path :: "string \<Rightarrow> string" where
  "encode_agent_path path = agent_path_key_prefix @ concat (map hex_byte path)"

text \<open>
  \<open>u8::from_str_radix(s, 16)\<close> on two bytes: a plus sign and one digit are accepted too.
\<close>

definition hex_value :: "char \<Rightarrow> nat option" where
  "hex_value c =
     (if 48 \<le> byte c \<and> byte c \<le> 57 then Some (byte c - 48)
      else if 97 \<le> byte c \<and> byte c \<le> 102 then Some (byte c - 87)
      else if 65 \<le> byte c \<and> byte c \<le> 70 then Some (byte c - 55)
      else None)"

definition hex_pair :: "char \<Rightarrow> char \<Rightarrow> char option" where
  "hex_pair a b =
     (if a = CHR ''+'' then map_option char_of (hex_value b)
      else case (hex_value a, hex_value b) of
             (Some x, Some y) \<Rightarrow> Some (char_of (16 * x + y))
           | _ \<Rightarrow> None)"

definition is_cont :: "char \<Rightarrow> bool" where
  "is_cont c \<longleftrightarrow> 128 \<le> byte c \<and> byte c < 192"

text \<open>
  The pairs in order; the slice \<open>encoded[i..i + 2]\<close> panics (\<open>None\<close>) when it would cut a
  character, the first bad pair ends the collection.
\<close>

fun hex_decode :: "string \<Rightarrow> string option option" where
  "hex_decode [] = Some (Some [])"
| "hex_decode [a] = Some None"
| "hex_decode (a # b # cs) =
     (if is_cont a \<or> (case cs of c # _ \<Rightarrow> is_cont c | [] \<Rightarrow> False) then None
      else case hex_pair a b of
             None \<Rightarrow> Some None
           | Some x \<Rightarrow> map_option (map_option (\<lambda>xs. x # xs)) (hex_decode cs))"

text \<open>\<open>String::from_utf8\<close>: the well-formed byte sequences of the Unicode standard.\<close>

fun valid_utf8_bytes :: "nat list \<Rightarrow> bool" where
  "valid_utf8_bytes [] = True"
| "valid_utf8_bytes (a # bs) =
     (if a < 128 then valid_utf8_bytes bs
      else (case bs of
          b # cs \<Rightarrow>
            if 194 \<le> a \<and> a < 224 then 128 \<le> b \<and> b < 192 \<and> valid_utf8_bytes cs
            else (case cs of
                c # ds \<Rightarrow>
                  if 224 \<le> a \<and> a < 240 then
                    128 \<le> b \<and> b < 192 \<and> (a = 224 \<longrightarrow> 160 \<le> b) \<and> (a = 237 \<longrightarrow> b < 160)
                    \<and> 128 \<le> c \<and> c < 192 \<and> valid_utf8_bytes ds
                  else (case ds of
                      d # es \<Rightarrow>
                        240 \<le> a \<and> a < 245 \<and> 128 \<le> b \<and> b < 192
                        \<and> (a = 240 \<longrightarrow> 144 \<le> b) \<and> (a = 244 \<longrightarrow> b < 144)
                        \<and> 128 \<le> c \<and> c < 192 \<and> 128 \<le> d \<and> d < 192 \<and> valid_utf8_bytes es
                    | [] \<Rightarrow> False)
              | [] \<Rightarrow> False)
        | [] \<Rightarrow> False))"

definition valid_utf8 :: "string \<Rightarrow> bool" where
  "valid_utf8 s = valid_utf8_bytes (map byte s)"

definition decode_agent_path :: "string \<Rightarrow> string option option" where
  "decode_agent_path key =
     (case strip_pre agent_path_key_prefix key of
        None \<Rightarrow> Some None
      | Some encoded \<Rightarrow>
          if length encoded mod 2 \<noteq> 0 then Some None
          else map_option
            (\<lambda>x. case x of Some bs \<Rightarrow> if valid_utf8 bs then Some bs else None | None \<Rightarrow> None)
            (hex_decode encoded))"

lemma byte_lt [simp]: "byte c < 256"
  by (simp add: byte_def)

lemma char_of_byte [simp]: "char_of (byte c) = c"
  by (simp add: byte_def)

lemma hex_digit_value [simp]: "n < 16 \<Longrightarrow> hex_value (hex_digit n) = Some n"
  by (auto simp: hex_value_def hex_digit_def byte_def)

lemma hex_digit_ascii: "n < 16 \<Longrightarrow> hex_digit n \<noteq> CHR ''+'' \<and> \<not> is_cont (hex_digit n)"
proof -
  assume n: "n < 16"
  have "byte (hex_digit n) = (if n < 10 then 48 + n else 87 + n)"
    using n by (simp add: hex_digit_def byte_def)
  moreover have "byte (CHR ''+'') = 43" by (simp add: byte_def)
  ultimately show ?thesis
    using n by (auto simp: is_cont_def split: if_splits)
qed

lemma hex_decode_encode: "hex_decode (concat (map hex_byte p)) = Some (Some p)"
proof (induction p)
  case (Cons c p)
  have h: "byte c div 16 < 16" "byte c mod 16 < 16"
    using byte_lt [of c] by linarith+
  have "hex_pair (hex_digit (byte c div 16)) (hex_digit (byte c mod 16)) = Some c"
    using hex_digit_ascii h by (simp add: hex_pair_def)
  moreover have "\<not> (case concat (map hex_byte p) of d # _ \<Rightarrow> is_cont d | [] \<Rightarrow> False)"
    using hex_digit_ascii byte_lt
    by (cases p) (auto simp: hex_byte_def less_mult_imp_div_less)
  ultimately show ?case
    using Cons.IH hex_digit_ascii h by (simp add: hex_byte_def [of c])
qed simp

lemma hex_encode_even: "length (concat (map hex_byte p)) mod 2 = 0"
  by (induction p) (auto simp: hex_byte_def)

subsection \<open>The output join\<close>

definition set_agent_id :: "string \<Rightarrow> sub_agent \<Rightarrow> sub_agent" where
  "set_agent_id i sa =
     SubAgent i (sa_tool_use_id sa) (sa_agent_type sa) (sa_phase sa) (sa_description sa)
       (sa_prompt sa) (sa_status sa) (sa_result sa) (sa_output_file sa) (sa_blocks sa)
       (sa_subtree_cost sa)"

definition fill_agent_id :: "string \<Rightarrow> sub_agent \<Rightarrow> block" where
  "fill_agent_id i sa = SubAgentB (if sa_agent_id sa = [] then set_agent_id i sa else sa)"

definition apply_output_agent :: "codex_env \<Rightarrow> sub_agent \<Rightarrow> string \<Rightarrow> block" where
  "apply_output_agent ce sa outp =
     (case strip_pre thread_result_prefix outp of
        Some thread \<Rightarrow> SubAgentB (set_agent_id thread sa)
      | None \<Rightarrow>
          (let value = ce_parse ce outp;
               field = (\<lambda>k. Option.bind value (\<lambda>v. get_str v k))
           in case field ''agent_id'' of
                Some i \<Rightarrow> fill_agent_id i sa
              | None \<Rightarrow>
                  (case field ''task_name'' of
                     Some t \<Rightarrow> fill_agent_id (encode_agent_path t) sa
                   | None \<Rightarrow>
                       if sa_agent_id sa = [] \<and> trim outp \<noteq> []
                       then ToolUse ((plain_tool ''spawn_agent'' (sa_description sa))\<lparr>tu_output := Some outp\<rparr>)
                       else SubAgentB sa)))"

fun apply_output :: "codex_env \<Rightarrow> block \<Rightarrow> string \<Rightarrow> block" where
  "apply_output ce (SubAgentB sa) outp = apply_output_agent ce sa outp"
| "apply_output ce (ToolUse t) outp =
     (if tu_name t \<notin> {''Edit'', ''Write''} \<and> trim outp \<noteq> []
      then ToolUse (t\<lparr>tu_output := Some outp\<rparr>) else ToolUse t)"
| "apply_output ce b outp = b"

definition apply_output_shaping ::
  "codex_env \<Rightarrow> block \<Rightarrow> string \<Rightarrow> json \<Rightarrow> bool option \<Rightarrow> block" where
  "apply_output_shaping ce b text tur e =
     (case b of
        ToolUse t \<Rightarrow>
          if json_get tur edit_note \<noteq> None then ToolUse (t\<lparr>tu_output := Some text\<rparr>)
          else apply_output ce b text
      | _ \<Rightarrow> apply_output ce b text)"

definition codex_keep_orphan :: "string \<Rightarrow> bool" where
  "codex_keep_orphan text \<longleftrightarrow> \<not> starts_with text thread_result_prefix"

definition codex_shaping :: "codex_env \<Rightarrow> shaping" where
  "codex_shaping ce =
     \<lparr>build_tool = codex_build_tool ce, join_result = apply_output_shaping ce,
      keep_orphan = codex_keep_orphan, finish_turns = codex_finish\<rparr>"

lemma apply_output_call: "is_call b \<Longrightarrow> is_call (apply_output ce b outp)"
  by (cases b) (auto simp: apply_output_agent_def fill_agent_id_def Let_def split: option.splits)

interpretation codex_fold: fold_shaping "codex_shaping ce" for ce
proof unfold_locales
  show "is_call (build_tool (codex_shaping ce) i name input cwd)" for i name input cwd
    by (simp add: codex_shaping_def codex_build_tool_def split_beta)
  show "is_call (join_result (codex_shaping ce) b outp tur e)" if "is_call b" for b outp tur e
    using apply_output_call [OF that]
    by (cases b) (auto simp: codex_shaping_def apply_output_shaping_def split: option.splits)
qed (simp_all add: codex_shaping_def codex.finish_boundary codex.finish_openers list_all_iff)

subsection \<open>Claim\<close>

text \<open>
  The key a sub-agent's path is encoded as decodes to that path, and the decoder never
  panics on an encoded key.
\<close>

theorem agent_path_roundtrip:
  assumes "valid_utf8 path"
  shows "decode_agent_path (encode_agent_path path) = Some (Some path)"
  using assms hex_encode_even [of path] hex_decode_encode [of path]
  by (simp add: decode_agent_path_def encode_agent_path_def strip_pre_def starts_with_def)

theorem agent_path_roundtrip_witness:
  "decode_agent_path (encode_agent_path ''/root/a'') = Some (Some ''/root/a'')"
  by (rule agent_path_roundtrip) (simp add: valid_utf8_def byte_def)

end
