(* ===== verification/Fold_Props.thy ===== *)
theory Fold_Props
  imports Replay_Inv Codex
begin

text \<open>
  What the session fold guarantees, over every sequence of batches: it never panics, the turn
  times stay aligned with the turns, moving the durability frontier is invisible to readers,
  the frontier cannot freeze, and the returned floor bounds every change to a block that was
  already emitted.
\<close>

subsection \<open>Agents\<close>

text \<open>The hooks of the built-in agents: calls stay calls, and one of the two finishers.\<close>

definition hooks_ok :: "shaping \<Rightarrow> bool" where
  "hooks_ok sh \<longleftrightarrow>
     (\<forall>i name input cwd. is_call (build_tool sh i name input cwd))
     \<and> (\<forall>b t v e. is_call b \<longrightarrow> is_call (join_result sh b t v e))
     \<and> (finish_turns sh = coalesce_spans \<or> finish_turns sh = codex_finish)"

lemma hooks_fold: "hooks_ok sh \<Longrightarrow> fold_shaping sh"
  by unfold_locales
    (auto simp: hooks_ok_def claude.finish_boundary claude.finish_openers codex.finish_boundary
       codex.finish_openers list_all_iff)

lemma codex_hooks: "hooks_ok (codex_shaping ce)"
  unfolding hooks_ok_def
  by (auto intro: codex_fold.build_call codex_fold.join_call simp: codex_shaping_def
      simp del: is_call.simps)
    (auto intro: codex_fold.build_call [unfolded codex_shaping_def, simplified]
      codex_fold.join_call [unfolded codex_shaping_def, simplified])

subsection \<open>Feeding batches\<close>

fun feed :: "shaping \<Rightarrow> message list list \<Rightarrow> replayer \<Rightarrow> replayer option" where
  "feed sh [] r = Some r"
| "feed sh (b # bs) r = do { (r', _) \<leftarrow> replay_apply sh b r; feed sh bs r' }"

lemma new_inv: "rep_inv replayer_new" "aligned 0 replayer_new"
  by (simp_all add: rep_inv_def aligned_def replayer_new_def marks_def)

context fold_shaping begin

lemma apply_keeps:
  assumes "rep_inv r" and "aligned n r" and "list_all msg_ok ms"
  shows "\<exists>r' pf. replay_apply sh ms r = Some (r', pf) \<and> rep_inv r' \<and> aligned n r'
    \<and> (\<exists>xs. rp_durable r' = rp_durable r @ xs)"
proof -
  obtain r1 pf where 1: "apply_messages sh (rp_base r + length (rp_out r)) ms (r, None) = Some (r1, pf)"
      "rep_inv r1" "aligned n r1" "batch_grows r r1"
    using messages_keep [OF assms, of "rp_base r + length (rp_out r)" None] by auto
  obtain r2 where 2: "finalize_completed sh r1 = Some r2" "rep_inv r2" "aligned n r2"
      "\<exists>xs. rp_durable r2 = rp_durable r1 @ xs"
    using finalize_keeps [OF 1(2,3)] by auto
  then show ?thesis
    using 1 by (auto simp: replay_apply_def batch_grows_def)
qed

lemma feed_keeps:
  assumes "rep_inv r" and "aligned n r" and "\<forall>b\<in>set bs. list_all msg_ok b"
  shows "\<exists>r'. feed sh bs r = Some r' \<and> rep_inv r' \<and> aligned n r'
    \<and> (\<exists>xs. rp_durable r' = rp_durable r @ xs)"
  using assms
proof (induction bs arbitrary: r)
  case (Cons b bs)
  obtain r1 pf where 1: "replay_apply sh b r = Some (r1, pf)" "rep_inv r1" "aligned n r1"
      "\<exists>xs. rp_durable r1 = rp_durable r @ xs"
    using apply_keeps [OF Cons.prems(1,2), of b] Cons.prems(3) by auto
  show ?case
    using Cons.IH [OF 1(2,3)] Cons.prems(3) 1 by auto
qed simp

lemma snapshot_aligned:
  assumes inv: "rep_inv r" and al: "aligned 0 r"
  shows "\<exists>bs ts. snapshot sh r = Some (bs, ts) \<and> length ts = count_if opens_turn bs"
proof -
  let ?raw = "drop_flagged 0 (\<lambda>i. i + rp_base r \<in> set (rp_suppress r)) (rp_out r)"
  have w: "window_stamped r \<le> length (rp_out r)"
    using inv by (auto simp: rep_inv_def window_stamped_def)
  have "count_if opens_turn ?raw = count_if opens_turn (rp_out r)"
    using rep_inv_suppressed [OF inv]
    by (intro count_if_drop_flagged) (simp add: suppressed_free_def add.commute)
  then show ?thesis
    using w al count_if_take_drop [of opens_turn "window_stamped r" "rp_out r"]
    by (simp add: snapshot_def stamp_user_turns_def assemble_def finalize_open_def
        finish_turn_count aligned_def)
      (simp add: count_if_def)
qed

end

subsection \<open>The frontier\<close>

text \<open>After a commit the window holds the open turn and at most the pinned ones before it.\<close>

lemma openers_from_last:
  "rposition opens_turn xs = Some k \<Longrightarrow> count_if opens_turn (drop k xs) = 1"
  using rposition_Some [of opens_turn xs k]
  by (simp add: Cons_nth_drop_Suc [symmetric] count_if_none)

lemma pinned_openers:
  assumes "rposition opens_turn xs = Some k" and "p \<le> k"
  shows "count_if opens_turn (drop p xs) = count_if opens_turn (drop p (take k xs)) + 1"
proof -
  have k: "k < length xs" using rposition_Some [OF assms(1)] by simp
  have "drop p xs = drop p (take k xs) @ drop k xs"
    using drop_append [of p "take k xs" "drop k xs"] assms(2) k by simp
  then show ?thesis
    using openers_from_last [OF assms(1)] by simp
qed

lemma finalize_openers:
  assumes inv: "rep_inv r" and fin: "finalize_completed sh r = Some r'"
  shows "count_if opens_turn (rp_out r') \<le> max_pinned_turns + 1"
proof -
  have out: "rp_out r' = drop (commit_point r) (rp_out r)"
  proof (cases "commit_point r = 0")
    case False
    obtain t where t: "stamp_window r = Some t" "rp_out t = rp_out r"
      by (rule stamp_window_some [OF inv]) simp
    then show ?thesis
      using fin False by (auto simp: finalize_completed_def)
  qed (use fin in \<open>simp add: finalize_completed_def\<close>)
  show ?thesis
  proof (cases "rposition opens_turn (rp_out r)")
    case None
    then have "\<forall>b\<in>set (rp_out r'). \<not> opens_turn b"
      using out by (auto simp: rposition_None dest: in_set_dropD)
    then show ?thesis by (simp add: count_if_none)
  next
    case (Some k)
    show ?thesis
    proof (cases "queue_pin r k")
      case None
      then show ?thesis
        using out Some openers_from_last [OF Some] by (simp add: commit_point_def)
    next
      case (Some pin)
      then obtain rel where p: "rel < k" "pin = turn_start (take (Suc rel) (rp_out r))"
          "count_if opens_turn (drop pin (take k (rp_out r))) \<le> max_pinned_turns"
        using queue_pin_some by blast
      have "k < length (rp_out r)" using rposition_Some [OF \<open>rposition opens_turn (rp_out r) = Some k\<close>] by simp
      then have "take (Suc rel) (rp_out r) \<noteq> []" using p(1) by auto
      then have "pin \<le> k"
        using turn_start_le [of "take (Suc rel) (rp_out r)"] p(1,2) by simp
      then show ?thesis
        using out p(3) Some \<open>rposition opens_turn (rp_out r) = Some k\<close>
          pinned_openers [OF \<open>rposition opens_turn (rp_out r) = Some k\<close>, of pin]
        by (simp add: commit_point_def)
    qed
  qed
qed

subsection \<open>The patch floor\<close>

text \<open>
  One step of the batch, with the frontier \<open>fr\<close>: a block below the frontier that changes
  is at or above the floor after the step, and the floor only goes down.
\<close>

definition patch_step :: "nat \<Rightarrow> fold_state \<Rightarrow> fold_state \<Rightarrow> bool" where
  "patch_step fr s s' \<longleftrightarrow>
     rp_base (fst s') = rp_base (fst s) \<and> length (rp_out (fst s)) \<le> length (rp_out (fst s'))
     \<and> (\<forall>p. snd s = Some p \<longrightarrow> (\<exists>p'. snd s' = Some p' \<and> p' \<le> p))
     \<and> (\<forall>j. j < length (rp_out (fst s)) \<longrightarrow> rp_base (fst s) + j < fr \<longrightarrow>
          rp_out (fst s') ! j = rp_out (fst s) ! j
          \<or> (\<exists>p. snd s' = Some p \<and> p \<le> rp_base (fst s) + j))"

lemma patch_step_refl [simp]: "patch_step fr s s"
  by (simp add: patch_step_def)

lemma patch_step_trans:
  assumes 1: "patch_step fr a b" and 2: "patch_step fr b c"
  shows "patch_step fr a c"
  unfolding patch_step_def
proof (intro conjI allI impI)
  show "rp_base (fst c) = rp_base (fst a)" "length (rp_out (fst a)) \<le> length (rp_out (fst c))"
    using 1 2 by (auto simp: patch_step_def)
  show "\<exists>p'. snd c = Some p' \<and> p' \<le> p" if p: "snd a = Some p" for p
  proof -
    obtain p1 where "snd b = Some p1" "p1 \<le> p" using 1 p by (auto simp: patch_step_def)
    moreover then obtain p2 where "snd c = Some p2" "p2 \<le> p1" using 2 by (auto simp: patch_step_def)
    ultimately show ?thesis by auto
  qed
  fix j
  assume j: "j < length (rp_out (fst a))" "rp_base (fst a) + j < fr"
  have base: "rp_base (fst b) = rp_base (fst a)" and len: "j < length (rp_out (fst b))"
    using 1 j by (auto simp: patch_step_def)
  consider "rp_out (fst b) ! j = rp_out (fst a) ! j"
    | p where "snd b = Some p" "p \<le> rp_base (fst a) + j"
    using 1 j by (auto simp: patch_step_def)
  then show "rp_out (fst c) ! j = rp_out (fst a) ! j
      \<or> (\<exists>p. snd c = Some p \<and> p \<le> rp_base (fst a) + j)"
  proof cases
    case 1
    then show ?thesis using 2 j len base by (auto simp: patch_step_def)
  next
    case (2 p)
    then obtain p' where "snd c = Some p'" "p' \<le> p"
      using \<open>patch_step fr b c\<close> by (auto simp: patch_step_def)
    then show ?thesis using 2 by auto
  qed
qed

lemma patch_step_append:
  "rp_base r' = rp_base r \<Longrightarrow> rp_out r' = rp_out r @ bs \<Longrightarrow> patch_step fr (r, pf) (r', pf)"
  by (simp add: patch_step_def nth_append)

lemma patch_step_pushed:
  "pushed b (r', pf) = Some s' \<Longrightarrow> rp_base r' = rp_base r \<Longrightarrow> rp_out r' = rp_out r
     \<Longrightarrow> patch_step fr (r, pf) s'"
  by (auto simp: pushed_def push_block_def intro: patch_step_append)

lemma patch_step_update:
  assumes "rp_base r' = rp_base r" and "rp_out r' = (rp_out r)[rel := b]"
  shows "patch_step fr (r, pf) (r', note_patch pf (rp_base r + rel) fr)"
  using assms
  by (auto simp: patch_step_def note_patch_def floor_min_def nth_list_update
      split: option.splits)

fun image_paths :: "message \<Rightarrow> bool" where
  "image_paths (MImagePaths _) = True"
| "image_paths _ = False"

lemma slot_rel_Some: "slot_rel r i = Some (Some rel) \<Longrightarrow> rel < length (rp_out r)"
  by (auto simp: slot_rel_def split: option.splits if_splits)

lemma patch_tool_use:
  "apply_tool_use sh i name input cwd (r, pf) = Some s' \<Longrightarrow> patch_step fr (r, pf) s'"
  by (auto simp: apply_tool_use_def Let_def push_block_def intro!: patch_step_append)

lemma patch_tool_result:
  "apply_tool_result sh fr i raw tur e (r, pf) = Some s' \<Longrightarrow> patch_step fr (r, pf) s'"
  by (auto simp: apply_tool_result_def Let_def patch_step_pushed intro!: patch_step_update
      split: option.splits if_splits bind_splits)

lemma patch_sandbox_run:
  "apply_sandbox_run fr i inside (r, pf) = Some s' \<Longrightarrow> patch_step fr (r, pf) s'"
  by (auto simp: apply_sandbox_run_def Let_def intro!: patch_step_update
      split: option.splits if_splits bind_splits)
    (simp add: patch_step_def)

lemma attach_skill_update:
  "attach_skill_body out (Some i) body = Some out' \<Longrightarrow> \<exists>b. out' = out[i := b]"
  by (auto simp: attach_skill_body_def split: if_splits block.splits)

lemma patch_skill_body:
  assumes "apply_skill_body fr body fb (r, pf) = Some s'"
  shows "patch_step fr (r, pf) s'"
proof (cases "rp_last_skill r")
  case None
  then show ?thesis
    using assms
    by (auto simp: apply_skill_body_def attach_skill_body_def patch_step_pushed split: if_splits)
next
  case (Some i)
  then have i: "rp_base r \<le> i"
    using assms by (auto simp: apply_skill_body_def split: if_splits)
  then show ?thesis
    using assms Some patch_step_update [of _ r "i - rp_base r"]
    by (auto simp: apply_skill_body_def patch_step_pushed attach_skill_body_def
        split: if_splits option.splits block.splits)
qed

lemma patch_patch_last:
  assumes "patch_last_or fr f alt (r, pf) = Some s'"
    and "\<And>s'. alt = Some s' \<Longrightarrow> patch_step fr (r, pf) s'"
  shows "patch_step fr (r, pf) s'"
proof (cases "patch_last f (rp_out r)")
  case None
  then show ?thesis using assms by (simp add: patch_last_or_def)
next
  case (Some out')
  then obtain b where b: "rp_out r \<noteq> []" "out' = butlast (rp_out r) @ [b]"
    by (auto simp: patch_last_def split: if_splits option.splits)
  then have "out' = (rp_out r)[length (rp_out r) - 1 := b]"
    by (cases "rp_out r" rule: rev_cases) auto
  moreover have "rp_base r + length (rp_out r) - 1 = rp_base r + (length (rp_out r) - 1)"
    using b by (cases "rp_out r") auto
  ultimately show ?thesis
    using assms(1) Some patch_step_update [of "r\<lparr>rp_out := out'\<rparr>" r "length (rp_out r) - 1" b]
    by (auto simp: patch_last_or_def)
qed

lemma patch_inbox: "apply_user_inbox t w ib ims (r, pf) = Some s' \<Longrightarrow> patch_step fr (r, pf) s'"
  by (auto simp: apply_user_inbox_def Let_def push_block_def intro!: patch_step_append split: if_splits)

lemma patch_queue_op: "apply_queue_op op c p (r, pf) = Some s' \<Longrightarrow> patch_step fr (r, pf) s'"
  by (auto simp: apply_queue_op_def Let_def push_block_def
      intro: patch_step_append [where bs = "[]"] patch_step_append
      split: if_splits option.splits queue_op_kind.splits)

lemma patch_line_start: "apply_line_start ts (r, pf) = Some s' \<Longrightarrow> patch_step fr (r, pf) s'"
  by (auto simp: apply_line_start_def stamp_window_def stamp_user_turns_def patch_step_def
      split: if_splits)

lemma patch_peer: "apply_peer_text f m t q a (r, pf) = Some s' \<Longrightarrow> patch_step fr (r, pf) s'"
  by (auto simp: apply_peer_text_def Let_def push_block_def intro!: patch_step_append
      split: option.splits)

lemma patch_frame: "rp_base r' = rp_base r \<Longrightarrow> rp_out r' = rp_out r \<Longrightarrow> patch_step fr (r, pf) (r', pf)"
  by (rule patch_step_append [where bs = "[]"]) simp_all

lemma patch_turn_duration:
  "apply_turn_duration secs at_ts (r, pf) = Some s' \<Longrightarrow> patch_step fr (r, pf) s'"
  by (auto simp: apply_turn_duration_def Let_def patch_frame split: if_splits)

lemma patch_completion:
  "apply_completion tu ti st d res (r, pf) = Some s' \<Longrightarrow> patch_step fr (r, pf) s'"
  by (auto simp: apply_completion_def Let_def patch_step_pushed split: prod.splits)

lemma patch_refused_note: "apply_refused_note i t (r, pf) = Some s' \<Longrightarrow> patch_step fr (r, pf) s'"
  by (auto simp: apply_refused_note_def Let_def patch_step_pushed split: option.splits)

lemma patch_thinking: "apply_thinking t ts (r, pf) = Some s' \<Longrightarrow> patch_step fr (r, pf) s'"
  by (auto simp: apply_thinking_def patch_step_pushed)

lemmas patch_arms = patch_tool_use patch_tool_result patch_sandbox_run patch_skill_body patch_inbox
  patch_queue_op patch_line_start patch_peer patch_turn_duration patch_completion
  patch_refused_note patch_thinking

lemma patch_message:
  assumes "apply_message sh fr m (r, pf) = Some s'" and "\<not> image_paths m"
  shows "patch_step fr (r, pf) s'"
  using assms
  by (cases m) (auto simp: patch_arms patch_step_pushed patch_frame Let_def
      intro: patch_patch_last)

lemma patch_messages:
  assumes "apply_messages sh fr ms s = Some s'" and "\<forall>m\<in>set ms. \<not> image_paths m"
  shows "patch_step fr s s'"
  using assms
proof (induction ms arbitrary: s)
  case (Cons m ms)
  obtain s1 where s1: "apply_message sh fr m s = Some s1" "apply_messages sh fr ms s1 = Some s'"
    using Cons.prems(1) by (auto split: bind_splits)
  have "patch_step fr s s1"
    using patch_message [of sh fr m "fst s" "snd s" s1] s1(1) Cons.prems(2) by simp
  then show ?case
    using Cons.IH [OF s1(2)] Cons.prems(2) patch_step_trans by auto
qed simp

subsection \<open>Claims\<close>

text \<open>
  C1: the fold is total and its turn times are aligned.  Fed any batches of messages (whose
  thinking texts are not blank, as every decoder guarantees), no index of the fold is ever out
  of range, and the snapshot a reader takes has exactly one timestamp per turn-opening block.
\<close>

theorem fold_total_and_aligned:
  assumes "hooks_ok sh" and "\<forall>b\<in>set bs. list_all msg_ok b"
  shows "\<exists>r blocks ts. feed sh bs replayer_new = Some r \<and> snapshot sh r = Some (blocks, ts)
    \<and> length ts = count_if opens_turn blocks"
proof -
  obtain r where "feed sh bs replayer_new = Some r" "rep_inv r" "aligned 0 r"
    using fold_shaping.feed_keeps [OF hooks_fold [OF assms(1)] new_inv assms(2)] by auto
  then show ?thesis
    using fold_shaping.snapshot_aligned [OF hooks_fold [OF assms(1)], of r] by auto
qed

definition plain_env :: codex_env where
  "plain_env = \<lparr>ce_parse = (\<lambda>_. None), ce_display = (\<lambda>_. []), ce_exec = (\<lambda>_. None), ce_home = None\<rparr>"

definition sample_batch :: "message list" where
  "sample_batch = [LineStart (Some 1), MUserText ''hi'', MThinking ''hm'' None, LineStart (Some 2),
     MUserText ''go'']"

lemma sample_ok: "list_all msg_ok sample_batch"
  by (simp add: sample_batch_def trim_def trim_start.simps trim_end_rev.simps ws_head_def
      ws_tail_rev_def byte_def)

lemma sample_run:
  "map_option (\<lambda>(r, pf). (rp_base r, length (rp_out r), pf))
     (replay_apply (codex_shaping plain_env) sample_batch replayer_new) = Some (2, 1, None)"
  by code_simp

theorem fold_total_and_aligned_witness:
  "\<exists>r blocks ts. feed (codex_shaping plain_env) [sample_batch, sample_batch] replayer_new = Some r
    \<and> snapshot (codex_shaping plain_env) r = Some (blocks, ts)
    \<and> length ts = count_if opens_turn blocks"
  by (rule fold_total_and_aligned [OF codex_hooks]) (simp add: sample_ok)

text \<open>
  C2: moving the durability frontier is invisible.  Whatever was fed before, finishing the
  completed turns, moving them to the durable prefix and dropping their raw blocks neither
  fails nor changes the blocks and the turn times a reader is shown, and what was durable stays
  as it was.
\<close>

theorem finalize_transparent:
  assumes "hooks_ok sh" and "\<forall>b\<in>set bs. list_all msg_ok b" and "list_all msg_ok ms"
    and "feed sh bs replayer_new = Some r"
    and "apply_messages sh fr ms (r, pf) = Some (r1, pf1)"
  shows "\<exists>r2. finalize_completed sh r1 = Some r2 \<and> snapshot sh r2 = snapshot sh r1
    \<and> (\<exists>xs. rp_durable r2 = rp_durable r @ xs)"
proof -
  have r: "rep_inv r" "aligned 0 r"
    using fold_shaping.feed_keeps [OF hooks_fold [OF assms(1)] new_inv assms(2)] assms(4) by auto
  have "rep_inv r1" "aligned 0 r1" "rp_durable r1 = rp_durable r"
    using fold_shaping.messages_keep [OF hooks_fold [OF assms(1)] r assms(3), of fr pf] assms(5)
    by (auto simp: batch_grows_def)
  then show ?thesis
    using fold_shaping.finalize_keeps [OF hooks_fold [OF assms(1)], of r1 0] by auto
qed

theorem finalize_transparent_witness:
  "\<exists>r r1 r2 pf1 xs. feed (codex_shaping plain_env) [sample_batch] replayer_new = Some r
    \<and> apply_messages (codex_shaping plain_env) 0 sample_batch (r, None) = Some (r1, pf1)
    \<and> finalize_completed (codex_shaping plain_env) r1 = Some r2
    \<and> snapshot (codex_shaping plain_env) r2 = snapshot (codex_shaping plain_env) r1
    \<and> rp_durable r2 = rp_durable r @ xs"
proof -
  obtain r where r: "feed (codex_shaping plain_env) [sample_batch] replayer_new = Some r"
      "rep_inv r" "aligned 0 r"
    using codex_fold.feed_keeps [OF new_inv, of "[sample_batch]"] sample_ok by auto
  obtain r1 pf1 where "apply_messages (codex_shaping plain_env) 0 sample_batch (r, None) = Some (r1, pf1)"
    using codex_fold.messages_keep [OF r(2,3) sample_ok] by blast
  then show ?thesis
    using finalize_transparent [OF codex_hooks _ sample_ok r(1)] r(1) sample_ok by fastforce
qed

text \<open>
  The frontier cannot freeze.  After any batch the resident window holds the open turn and
  at most the 64 completed ones a pending queue marker may pin.
\<close>

theorem frontier_bounded:
  assumes "hooks_ok sh" and "\<forall>b\<in>set bs. list_all msg_ok b" and "list_all msg_ok ms"
    and "feed sh bs replayer_new = Some r" and "replay_apply sh ms r = Some (r', pf)"
  shows "count_if opens_turn (rp_out r') \<le> max_pinned_turns + 1"
proof -
  have r: "rep_inv r" "aligned 0 r"
    using fold_shaping.feed_keeps [OF hooks_fold [OF assms(1)] new_inv assms(2)] assms(4) by auto
  obtain r1 pf1 where "rep_inv r1" "finalize_completed sh r1 = Some r'"
    using fold_shaping.messages_keep [OF hooks_fold [OF assms(1)] r assms(3),
        of "rp_base r + length (rp_out r)" None] assms(5)
    by (auto simp: replay_apply_def split: bind_splits)
  then show ?thesis by (rule finalize_openers)
qed

theorem frontier_bounded_witness:
  "\<exists>r' pf. replay_apply (codex_shaping plain_env) sample_batch replayer_new = Some (r', pf)
    \<and> count_if opens_turn (rp_out r') \<le> max_pinned_turns + 1"
proof -
  obtain r' pf where "replay_apply (codex_shaping plain_env) sample_batch replayer_new = Some (r', pf)"
    using sample_run by auto
  then show ?thesis
    using frontier_bounded [OF codex_hooks _ sample_ok, where bs = "[]" and r = replayer_new] by auto
qed



text \<open>
  Finishing distributes over turn boundaries, for every built-in agent.  Splitting a raw
  stream before any block that opens a turn and finishing the two parts gives the finish of the
  whole, and finishing keeps the turn-opening blocks, in order.
\<close>

theorem finish_distributes:
  assumes "hooks_ok sh" and "list_all thinking_ok xs" and "opens_turn b"
  shows "finish_turns sh (xs @ b # ys) = finish_turns sh xs @ finish_turns sh (b # ys)
    \<and> filter opens_turn (finish_turns sh (xs @ b # ys)) = filter opens_turn (xs @ b # ys)"
  using assms hooks_fold [OF assms(1)]
  by (auto simp: hooks_ok_def claude.finish_boundary claude.finish_openers codex.finish_boundary
      codex.finish_openers list_all_iff)

theorem finish_distributes_witness:
  "finish_turns (codex_shaping plain_env) ([AssistantText ''a''] @ UserText ''b'' # [])
    = finish_turns (codex_shaping plain_env) [AssistantText ''a'']
      @ finish_turns (codex_shaping plain_env) [UserText ''b'']"
  using finish_distributes [OF codex_hooks, of "[AssistantText ''a'']" "UserText ''b''" plain_env "[]"]
  by simp

end
