(* ===== verification/Session.thy ===== *)
theory Session
  imports Replay
begin

text \<open>
  The session layer (\<open>claude-replay-engine/src/engine/session.rs\<close>,
  \<open>tier_b.rs\<close>, \<open>index.rs\<close>, \<open>adapter.rs\<close>): where committed blocks are kept
  (\<open>BlockStore\<close>), the live header (\<open>SessionMeta\<close>), the sub-agent map, the derived
  index, and the out-of-band spawn identity.  The locale \<open>lossless_store\<close> is the contract
  of a store that can be read back; the in-memory and the on-disk store interpret it.
\<close>

subsection \<open>Block stores\<close>

record ('st, 'bv) store_ops =
  so_put :: "'st \<Rightarrow> block \<Rightarrow> nat \<Rightarrow> epoch_seconds option list \<Rightarrow> nat option list \<Rightarrow> 'bv \<times> 'st"
  so_reset :: "'st \<Rightarrow> 'st"
  so_get :: "'st \<Rightarrow> 'bv \<Rightarrow> block"

text \<open>The accumulator's loop over drained blocks: each is put once, at the next index.\<close>

fun put_all ::
  "('st, 'bv) store_ops \<Rightarrow> epoch_seconds option list \<Rightarrow> nat option list \<Rightarrow> 'st \<times> 'bv list \<Rightarrow> block list
     \<Rightarrow> 'st \<times> 'bv list" where
  "put_all so uts durs (st, bvs) [] = (st, bvs)"
| "put_all so uts durs (st, bvs) (b # bs) =
     (let (bv, st') = so_put so st b (length bvs) uts durs
      in put_all so uts durs (st', bvs @ [bv]) bs)"

locale lossless_store =
  fixes so :: "('st, 'bv) store_ops"
    and sound :: "'st \<Rightarrow> bool"
    and live :: "'st \<Rightarrow> 'bv \<Rightarrow> bool"
    and storable :: "block \<Rightarrow> bool"
  assumes put_get: "sound st \<Longrightarrow> storable b \<Longrightarrow> so_put so st b i uts durs = (bv, st')
      \<Longrightarrow> sound st' \<and> live st' bv \<and> so_get so st' bv = b"
    and put_keeps: "sound st \<Longrightarrow> so_put so st b i uts durs = (bv, st') \<Longrightarrow> live st x
      \<Longrightarrow> live st' x \<and> so_get so st' x = so_get so st x"
    and reset_inv: "sound st \<Longrightarrow> sound (so_reset so st)"
begin

lemma put_all_reads:
  assumes "sound st" and "list_all (live st) bvs" and "list_all storable bs"
    and "put_all so uts durs (st, bvs) bs = (st', bvs')"
  shows "sound st' \<and> list_all (live st') bvs'
    \<and> map (so_get so st') bvs' = map (so_get so st) bvs @ bs"
  using assms
proof (induction bs arbitrary: st bvs)
  case Nil
  then show ?case by simp
next
  case (Cons b bs)
  obtain bv s1 where p: "so_put so st b (length bvs) uts durs = (bv, s1)"
    by (cases "so_put so st b (length bvs) uts durs")
  have ok: "sound s1" "live s1 bv" "so_get so s1 bv = b"
    using put_get [OF Cons.prems(1) _ p] Cons.prems(3) by auto
  have keep: "live s1 x \<and> so_get so s1 x = so_get so st x" if "x \<in> set bvs" for x
    using put_keeps [OF Cons.prems(1) p] Cons.prems(2) that by (auto simp: list_all_iff)
  have "sound st' \<and> list_all (live st') bvs'
      \<and> map (so_get so st') bvs' = map (so_get so s1) (bvs @ [bv]) @ bs"
    using Cons.prems(3,4) p ok keep by (intro Cons.IH) (auto simp: list_all_iff)
  then show ?case
    using keep ok by (auto intro: map_cong)
qed

end

text \<open>\<open>InMemoryStore\<close> and \<open>ArcStore\<close>: the block itself is the stored value.\<close>

definition in_memory_store :: "(unit, block) store_ops" where
  "in_memory_store = \<lparr>so_put = (\<lambda>st b i uts durs. (b, st)), so_reset = (\<lambda>st. st),
     so_get = (\<lambda>st bv. bv)\<rparr>"

interpretation mem: lossless_store in_memory_store "\<lambda>_. True" "\<lambda>_ _. True" "\<lambda>_. True"
  by unfold_locales (auto simp: in_memory_store_def)

subsection \<open>The on-disk store (\<open>tier_b.rs\<close>)\<close>

text \<open>
  The backing is a buffer, or a file with its write cursor and the tracked length.  Block
  serialization belongs to \<open>serde_json\<close>: encoder and decoder are arguments.
\<close>

datatype backing = BackMem string | BackFile string nat nat

record deferred =
  df_offset :: nat
  df_size :: nat

text \<open>A write at the cursor; a gap past the end reads as zero bytes.\<close>

definition write_at :: "nat \<Rightarrow> string \<Rightarrow> string \<Rightarrow> string" where
  "write_at pos bytes content =
     take pos content @ replicate (pos - length content) (char_of (0::nat)) @ bytes
       @ drop (pos + length bytes) content"

definition tier_put ::
  "(block \<Rightarrow> string) \<Rightarrow> backing \<Rightarrow> block \<Rightarrow> nat \<Rightarrow> epoch_seconds option list \<Rightarrow> nat option list
     \<Rightarrow> deferred \<times> backing" where
  "tier_put enc st b i uts durs =
     (let json = enc b; size = length json mod 2 ^ 32; framed = json @ [char_of (10::nat)]
      in case st of
           BackMem buf \<Rightarrow> (\<lparr>df_offset = length buf, df_size = size\<rparr>, BackMem (buf @ framed))
         | BackFile content cur len \<Rightarrow>
             (\<lparr>df_offset = len, df_size = size\<rparr>,
              BackFile (write_at cur framed content) (cur + length framed) (len + length framed)))"

fun tier_reset :: "backing \<Rightarrow> backing" where
  "tier_reset (BackMem buf) = BackMem []"
| "tier_reset (BackFile content cur len) = BackFile [] 0 0"

fun backing_bytes :: "backing \<Rightarrow> string" where
  "backing_bytes (BackMem buf) = buf"
| "backing_bytes (BackFile content cur len) = content"

definition tier_get :: "(string \<Rightarrow> block) \<Rightarrow> backing \<Rightarrow> deferred \<Rightarrow> block" where
  "tier_get dec st d = dec (take (df_size d) (drop (df_offset d) (backing_bytes st)))"

definition tier_store :: "(block \<Rightarrow> string) \<Rightarrow> (string \<Rightarrow> block) \<Rightarrow> (backing, deferred) store_ops" where
  "tier_store enc dec = \<lparr>so_put = tier_put enc, so_reset = tier_reset, so_get = tier_get dec\<rparr>"

fun backing_ok :: "backing \<Rightarrow> bool" where
  "backing_ok (BackMem buf) = True"
| "backing_ok (BackFile content cur len) = (cur = len \<and> len = length content)"

definition in_backing :: "backing \<Rightarrow> deferred \<Rightarrow> bool" where
  "in_backing st d \<longleftrightarrow> df_offset d + df_size d \<le> length (backing_bytes st)"

lemma write_at_end [simp]: "write_at (length content) bytes content = content @ bytes"
  by (simp add: write_at_def)

lemma tier_put_append:
  assumes "backing_ok st" and "tier_put enc st b i uts durs = (d, st')"
  shows "backing_ok st' \<and> backing_bytes st' = backing_bytes st @ enc b @ [char_of (10::nat)]
    \<and> d = \<lparr>df_offset = length (backing_bytes st), df_size = length (enc b) mod 2 ^ 32\<rparr>"
  using assms by (cases st) (auto simp: tier_put_def Let_def)

text \<open>A block the on-disk store can hold: it decodes back, and its size fits the locator.\<close>

definition tier_storable :: "(block \<Rightarrow> string) \<Rightarrow> (string \<Rightarrow> block) \<Rightarrow> block \<Rightarrow> bool" where
  "tier_storable enc dec b \<longleftrightarrow> dec (enc b) = b \<and> length (enc b) < 2 ^ 32"

interpretation tier: lossless_store "tier_store enc dec" backing_ok in_backing "tier_storable enc dec"
  for enc dec
proof unfold_locales
  fix st b i uts durs d st'
  assume st: "backing_ok st" and p: "so_put (tier_store enc dec) st b i uts durs = (d, st')"
  note put = tier_put_append [OF st, of enc b i uts durs d st'] p [unfolded tier_store_def, simplified]
  show "backing_ok st' \<and> in_backing st' d \<and> so_get (tier_store enc dec) st' d = b"
    if "tier_storable enc dec b"
    using put that by (simp add: tier_store_def in_backing_def tier_get_def tier_storable_def)
  show "in_backing st' x \<and> so_get (tier_store enc dec) st' x = so_get (tier_store enc dec) st x"
    if "in_backing st x" for x
    using put that by (simp add: tier_store_def in_backing_def tier_get_def)
next
  show "backing_ok (so_reset (tier_store enc dec) st)" if "backing_ok st" for st
    by (cases st) (simp_all add: tier_store_def)
qed

text \<open>\<open>TierBStore::open\<close>: a file written earlier, opened again for appending.\<close>

definition tier_open :: "string \<Rightarrow> backing" where
  "tier_open content = BackFile content (length content) (length content)"

subsection \<open>The live header\<close>

record child_meta =
  cm_id :: string
  cm_description :: string
  cm_agent_type :: string
  cm_phase :: "string option"
  cm_running :: bool

record session_meta =
  sm_turns :: nat
  sm_tools :: nat
  sm_children :: "child_meta list"

definition session_meta_default :: session_meta where
  "session_meta_default = \<lparr>sm_turns = 0, sm_tools = 0, sm_children = []\<rparr>"

definition child_of :: "sub_agent \<Rightarrow> child_meta" where
  "child_of sa = \<lparr>cm_id = sa_agent_id sa, cm_description = sa_description sa,
     cm_agent_type = sa_agent_type sa, cm_phase = sa_phase sa,
     cm_running = (\<not> is_terminal (sa_status sa))\<rparr>"

definition stop_child :: "string \<Rightarrow> child_meta list \<Rightarrow> child_meta list" where
  "stop_child i cs = map (\<lambda>c. if cm_id c = i then c\<lparr>cm_running := False\<rparr> else c) cs"

definition meta_push :: "session_meta \<Rightarrow> block \<Rightarrow> session_meta" where
  "meta_push m b =
     (if opens_turn b then m\<lparr>sm_turns := sm_turns m + 1\<rparr>
      else case b of
             ToolUse _ \<Rightarrow> m\<lparr>sm_tools := sm_tools m + 1\<rparr>
           | Thinking _ _ tools \<Rightarrow> m\<lparr>sm_tools := sm_tools m + length tools\<rparr>
           | SubAgentB sa \<Rightarrow>
               (if sa_agent_id sa \<noteq> [] then m\<lparr>sm_children := sm_children m @ [child_of sa]\<rparr> else m)
           | AgentDone i _ _ _ _ \<Rightarrow>
               (if i \<noteq> [] then m\<lparr>sm_children := stop_child i (sm_children m)\<rparr> else m)
           | _ \<Rightarrow> m)"

definition meta_build :: "block list \<Rightarrow> session_meta" where
  "meta_build bs = foldl meta_push session_meta_default bs"

lemma meta_build_append: "meta_build (xs @ ys) = foldl meta_push (meta_build xs) ys"
  by (simp add: meta_build_def)

subsection \<open>Sub-agents\<close>

record sub_agent_meta =
  sg_agent_type :: string
  sg_status :: agent_status
  sg_subtree_cost :: "rat option"
  sg_transcript :: "string option"
  sg_output_file :: "string option"
  sg_spawn_at :: nat
  sg_done_at :: "nat option"

definition push_sub_agent ::
  "(string \<rightharpoonup> sub_agent_meta) \<Rightarrow> nat \<Rightarrow> block \<Rightarrow> (string \<rightharpoonup> sub_agent_meta)" where
  "push_sub_agent m i b =
     (case b of
        SubAgentB sa \<Rightarrow>
          (if sa_agent_id sa = [] then m
           else m(sa_agent_id sa \<mapsto>
             \<lparr>sg_agent_type = sa_agent_type sa, sg_status = sa_status sa,
              sg_subtree_cost = sa_subtree_cost sa, sg_transcript = None,
              sg_output_file = sa_output_file sa, sg_spawn_at = i, sg_done_at = None\<rparr>))
      | AgentDone a _ _ st _ \<Rightarrow>
          (case m a of
             None \<Rightarrow> m | Some g \<Rightarrow> m(a \<mapsto> g\<lparr>sg_done_at := Some i, sg_status := st\<rparr>))
      | _ \<Rightarrow> m)"

fun sub_agents_from :: "(string \<rightharpoonup> sub_agent_meta) \<Rightarrow> nat \<Rightarrow> block list \<Rightarrow> (string \<rightharpoonup> sub_agent_meta)" where
  "sub_agents_from m i [] = m"
| "sub_agents_from m i (b # bs) = sub_agents_from (push_sub_agent m i b) (Suc i) bs"

definition build_sub_agents :: "block list \<Rightarrow> (string \<rightharpoonup> sub_agent_meta)" where
  "build_sub_agents bs = sub_agents_from Map.empty 0 bs"

lemma sub_agents_from_append:
  "sub_agents_from m i (xs @ ys) = sub_agents_from (sub_agents_from m i xs) (i + length xs) ys"
  by (induction m i xs rule: sub_agents_from.induct) simp_all

subsection \<open>Out-of-band spawn identity (\<open>adapter.rs\<close>)\<close>

record spawn_link =
  ln_tool_use_id :: string
  ln_agent_id :: string

fun with_agent_id :: "string \<Rightarrow> sub_agent \<Rightarrow> sub_agent" where
  "with_agent_id i (SubAgent j tu ty ph d p st r outf bs c) = SubAgent i tu ty ph d p st r outf bs c"

definition adopt_link :: "spawn_link list \<Rightarrow> block \<Rightarrow> block" where
  "adopt_link links b =
     (case b of
        SubAgentB sa \<Rightarrow>
          (if sa_agent_id sa \<noteq> [] then b
           else case find (\<lambda>l. ln_tool_use_id l = sa_tool_use_id sa) links of
                  None \<Rightarrow> b | Some l \<Rightarrow> SubAgentB (with_agent_id (ln_agent_id l) sa))
      | _ \<Rightarrow> b)"

definition apply_spawn_links :: "spawn_link list \<Rightarrow> block list \<Rightarrow> block list" where
  "apply_spawn_links links bs = (if links = [] then bs else map (adopt_link links) bs)"

record spawn_roster =
  ro_run :: string
  ro_members :: "sub_agent list"

definition spawned_in :: "block list \<Rightarrow> string \<Rightarrow> bool" where
  "spawned_in bs i \<longleftrightarrow> list_ex (\<lambda>b. case b of SubAgentB sa \<Rightarrow> sa_agent_id sa = i | _ \<Rightarrow> False) bs"

fun add_members :: "block list \<Rightarrow> sub_agent list \<Rightarrow> block list" where
  "add_members out [] = out"
| "add_members out (m # ms) =
     add_members (if spawned_in out (sa_agent_id m) then out else out @ [SubAgentB m]) ms"

text \<open>The run a block launches is the adapter's word (\<open>spawn_run\<close>), an argument.\<close>

fun expand_rosters_from ::
  "(block \<Rightarrow> string option) \<Rightarrow> spawn_roster list \<Rightarrow> block list \<Rightarrow> block list \<Rightarrow> block list" where
  "expand_rosters_from run rosters out [] = out"
| "expand_rosters_from run rosters out (b # bs) =
     expand_rosters_from run rosters
       (case Option.bind (run b) (\<lambda>k. find (\<lambda>r. ro_run r = k) rosters) of
          None \<Rightarrow> out @ [b]
        | Some r \<Rightarrow> add_members (out @ [b]) (ro_members r)) bs"

definition expand_spawn_rosters ::
  "(block \<Rightarrow> string option) \<Rightarrow> block list \<Rightarrow> spawn_roster list \<Rightarrow> block list" where
  "expand_spawn_rosters run bs rosters =
     (if rosters = [] then bs else expand_rosters_from run rosters [] bs)"

definition member_child :: "sub_agent \<Rightarrow> child_meta" where
  "member_child m = child_of m"

fun add_children :: "child_meta list \<Rightarrow> sub_agent list \<Rightarrow> child_meta list" where
  "add_children out [] = out"
| "add_children out (m # ms) =
     add_children (if list_ex (\<lambda>c. cm_id c = sa_agent_id m) out then out else out @ [member_child m]) ms"

definition merged_children :: "session_meta \<Rightarrow> spawn_roster list \<Rightarrow> child_meta list" where
  "merged_children meta rosters =
     (if rosters = [] then sm_children meta
      else add_children (sm_children meta) (concat (map ro_members rosters)))"

lemma adopt_link_class [simp]:
  "opens_turn (adopt_link links b) = opens_turn b"
  by (auto simp: adopt_link_def split: block.splits option.splits)

lemma apply_spawn_links_length [simp]: "length (apply_spawn_links links bs) = length bs"
  by (simp add: apply_spawn_links_def)

lemma apply_spawn_links_openers [simp]:
  "count_if opens_turn (apply_spawn_links links bs) = count_if opens_turn bs"
proof -
  have "count_if opens_turn (map (adopt_link links) bs) = count_if opens_turn bs"
    by (induction bs) auto
  then show ?thesis by (simp add: apply_spawn_links_def)
qed

end
