(* ===== verification/Meta.thy ===== *)
theory Meta
  imports Session Tasks "HOL-Library.Word"
begin

text \<open>
  The durable meta stream (\<open>claude-replay-engine/src/engine/meta_stream.rs\<close>): one record
  per committing drain, the materialized view they fold to, its alignment against the committed
  blocks, and the checksum of the stream's anchor.  Counters are unbounded here; the code's are
  64-bit.
\<close>

subsection \<open>Token counters (\<open>metrics.rs\<close>)\<close>

record long_prompt =
  lp_input :: nat
  lp_cache_creation :: nat
  lp_cache_read :: nat
  lp_output :: nat
  lp_cache_creation_1h :: nat

record token_counts =
  tc_input :: nat
  tc_cache_creation :: nat
  tc_cache_read :: nat
  tc_output :: nat
  tc_cache_creation_1h :: nat
  tc_long_prompt :: long_prompt

definition long_prompt_zero :: long_prompt where
  "long_prompt_zero = \<lparr>lp_input = 0, lp_cache_creation = 0, lp_cache_read = 0, lp_output = 0,
     lp_cache_creation_1h = 0\<rparr>"

definition tokens_zero :: token_counts where
  "tokens_zero = \<lparr>tc_input = 0, tc_cache_creation = 0, tc_cache_read = 0, tc_output = 0,
     tc_cache_creation_1h = 0, tc_long_prompt = long_prompt_zero\<rparr>"

definition long_prompt_add :: "long_prompt \<Rightarrow> long_prompt \<Rightarrow> long_prompt" where
  "long_prompt_add a b =
     \<lparr>lp_input = lp_input a + lp_input b, lp_cache_creation = lp_cache_creation a + lp_cache_creation b,
      lp_cache_read = lp_cache_read a + lp_cache_read b, lp_output = lp_output a + lp_output b,
      lp_cache_creation_1h = lp_cache_creation_1h a + lp_cache_creation_1h b\<rparr>"

definition tokens_add :: "token_counts \<Rightarrow> token_counts \<Rightarrow> token_counts" where
  "tokens_add a b =
     \<lparr>tc_input = tc_input a + tc_input b, tc_cache_creation = tc_cache_creation a + tc_cache_creation b,
      tc_cache_read = tc_cache_read a + tc_cache_read b, tc_output = tc_output a + tc_output b,
      tc_cache_creation_1h = tc_cache_creation_1h a + tc_cache_creation_1h b,
      tc_long_prompt = long_prompt_add (tc_long_prompt a) (tc_long_prompt b)\<rparr>"

text \<open>Subtraction on \<open>nat\<close> stops at zero, as \<open>saturating_sub\<close> does.\<close>

definition long_prompt_sub :: "long_prompt \<Rightarrow> long_prompt \<Rightarrow> long_prompt" where
  "long_prompt_sub a b =
     \<lparr>lp_input = lp_input a - lp_input b, lp_cache_creation = lp_cache_creation a - lp_cache_creation b,
      lp_cache_read = lp_cache_read a - lp_cache_read b, lp_output = lp_output a - lp_output b,
      lp_cache_creation_1h = lp_cache_creation_1h a - lp_cache_creation_1h b\<rparr>"

definition tokens_sub :: "token_counts \<Rightarrow> token_counts \<Rightarrow> token_counts" where
  "tokens_sub a b =
     \<lparr>tc_input = tc_input a - tc_input b, tc_cache_creation = tc_cache_creation a - tc_cache_creation b,
      tc_cache_read = tc_cache_read a - tc_cache_read b, tc_output = tc_output a - tc_output b,
      tc_cache_creation_1h = tc_cache_creation_1h a - tc_cache_creation_1h b,
      tc_long_prompt = long_prompt_sub (tc_long_prompt a) (tc_long_prompt b)\<rparr>"

subsection \<open>Records\<close>

datatype agent_event = Spawned spawn | Finished string

record resume =
  rs_id :: nat
  rs_replay_from :: nat
  rs_prev_ts :: "epoch_seconds option"
  rs_pending_ts :: "epoch_seconds option"
  rs_pre :: json
  rs_metrics_state :: json

type_synonym token_map = "string \<rightharpoonup> token_counts"
type_synonym extra_map = "string \<rightharpoonup> nat"
type_synonym time_span = "(epoch_seconds \<times> epoch_seconds) option"

record materialized_meta =
  mm_session_meta :: session_meta
  mm_agent_ids :: "string \<rightharpoonup> string \<times> string"
  mm_user_times :: "epoch_seconds option list"
  mm_turn_durations :: "nat option list"
  mm_tokens :: token_map
  mm_extra :: extra_map
  mm_tasks :: task_fold
  mm_cwd :: string
  mm_span :: time_span
  mm_inbox_ids :: "string set"
  mm_peer_names :: "string \<rightharpoonup> string"
  mm_sandbox_on :: bool

definition materialized_default :: materialized_meta where
  "materialized_default =
     \<lparr>mm_session_meta = session_meta_default, mm_agent_ids = Map.empty, mm_user_times = [],
      mm_turn_durations = [], mm_tokens = Map.empty, mm_extra = Map.empty,
      mm_tasks = task_fold_default, mm_cwd = [], mm_span = None, mm_inbox_ids = {},
      mm_peer_names = Map.empty, mm_sandbox_on = False\<rparr>"

text \<open>The ordered maps of a record are lists of entries here, one per key.\<close>

record meta_record =
  mr_turns :: "nat option"
  mr_tools :: "nat option"
  mr_agents :: "agent_event list"
  mr_user_times :: "epoch_seconds option list"
  mr_turn_durations :: "nat option list"
  mr_tokens :: "(string \<times> token_counts) list"
  mr_extra :: "(string \<times> nat) list"
  mr_task_ops :: "task_op list"
  mr_inbox_ids :: "string list"
  mr_peer_names :: "(string \<times> string) list"
  mr_cwd :: "string option"
  mr_span :: time_span
  mr_sandbox_on :: "bool option"
  mr_resume :: "resume option"
  mr_checkpoint :: "materialized_meta option"

definition record_default :: meta_record where
  "record_default =
     \<lparr>mr_turns = None, mr_tools = None, mr_agents = [], mr_user_times = [], mr_turn_durations = [],
      mr_tokens = [], mr_extra = [], mr_task_ops = [], mr_inbox_ids = [], mr_peer_names = [],
      mr_cwd = None, mr_span = None, mr_sandbox_on = None, mr_resume = None,
      mr_checkpoint = None\<rparr>"

subsection \<open>Folding records\<close>

definition spawned_child :: "spawn \<Rightarrow> child_meta" where
  "spawned_child s = \<lparr>cm_id = sw_agent_id s, cm_description = sw_description s,
     cm_agent_type = sw_agent_type s, cm_phase = None,
     cm_running = (\<not> is_terminal (sw_status s))\<rparr>"

fun push_event ::
  "session_meta \<times> (string \<rightharpoonup> string \<times> string) \<Rightarrow> agent_event
     \<Rightarrow> session_meta \<times> (string \<rightharpoonup> string \<times> string)" where
  "push_event (m, ids) (Spawned s) =
     (if sw_agent_id s \<noteq> [] then m\<lparr>sm_children := sm_children m @ [spawned_child s]\<rparr> else m,
      insert_rows ids (spawn_keys s))"
| "push_event (m, ids) (Finished i) = (m\<lparr>sm_children := stop_child i (sm_children m)\<rparr>, ids)"

fun add_tokens :: "token_map \<Rightarrow> (string \<times> token_counts) list \<Rightarrow> token_map" where
  "add_tokens m [] = m"
| "add_tokens m ((k, c) # rows) =
     add_tokens (m(k \<mapsto> tokens_add (case m k of None \<Rightarrow> tokens_zero | Some x \<Rightarrow> x) c)) rows"

fun add_extra :: "extra_map \<Rightarrow> (string \<times> nat) list \<Rightarrow> extra_map" where
  "add_extra m [] = m"
| "add_extra m ((k, n) # rows) =
     add_extra (m(k \<mapsto> (case m k of None \<Rightarrow> 0 | Some x \<Rightarrow> x) + n)) rows"

definition or_zero :: "nat option \<Rightarrow> nat" where
  "or_zero x = (case x of None \<Rightarrow> 0 | Some n \<Rightarrow> n)"

definition push_delta :: "materialized_meta \<Rightarrow> meta_record \<Rightarrow> materialized_meta" where
  "push_delta mm r =
     (let sm = (mm_session_meta mm)\<lparr>
            sm_turns := sm_turns (mm_session_meta mm) + or_zero (mr_turns r),
            sm_tools := sm_tools (mm_session_meta mm) + or_zero (mr_tools r)\<rparr>;
          (sm', ids) = foldl push_event (sm, mm_agent_ids mm) (mr_agents r);
          uts = mm_user_times mm @ mr_user_times r
      in mm\<lparr>mm_session_meta := sm', mm_agent_ids := ids, mm_user_times := uts,
            mm_turn_durations := resize (length uts) None (mm_turn_durations mm @ mr_turn_durations r),
            mm_tokens := add_tokens (mm_tokens mm) (mr_tokens r),
            mm_extra := add_extra (mm_extra mm) (mr_extra r),
            mm_inbox_ids := mm_inbox_ids mm \<union> set (mr_inbox_ids r),
            mm_peer_names := insert_rows (mm_peer_names mm) (mr_peer_names r),
            mm_tasks := foldl apply_recorded (mm_tasks mm) (mr_task_ops r),
            mm_cwd := with_default (mm_cwd mm) (mr_cwd r),
            mm_span := (case mr_span r of None \<Rightarrow> mm_span mm | Some s \<Rightarrow> Some s),
            mm_sandbox_on := with_default (mm_sandbox_on mm) (mr_sandbox_on r)\<rparr>)"

definition materialized_push :: "materialized_meta \<Rightarrow> meta_record \<Rightarrow> materialized_meta" where
  "materialized_push mm r =
     (case mr_checkpoint r of Some c \<Rightarrow> c | None \<Rightarrow> push_delta mm r)"

subsection \<open>Alignment\<close>

record aligned_meta =
  al_committed :: nat
  al_meta :: materialized_meta
  al_resume :: resume
  al_records :: nat

text \<open>
  Equality of materialized views, as the derived \<open>PartialEq\<close> sees it: the operations a task
  fold has recorded are not part of its value.
\<close>

definition mm_eq :: "materialized_meta \<Rightarrow> materialized_meta \<Rightarrow> bool" where
  "mm_eq a b \<longleftrightarrow>
     a\<lparr>mm_tasks := task_value (mm_tasks a)\<rparr> = b\<lparr>mm_tasks := task_value (mm_tasks b)\<rparr>"

text \<open>\<open>Inl\<close> is \<open>AlignError::CheckpointMismatch\<close>.\<close>

fun align_from ::
  "nat \<Rightarrow> materialized_meta \<Rightarrow> aligned_meta option \<Rightarrow> meta_record list \<Rightarrow> nat
     \<Rightarrow> unit + aligned_meta option" where
  "align_from folded mm best [] committed = Inr best"
| "align_from folded mm best (r # rs) committed =
     (if (case mr_resume r of Some res \<Rightarrow> committed < rs_id res | None \<Rightarrow> False) then Inr best
      else if (case mr_checkpoint r of
                 Some c \<Rightarrow> 0 < folded \<and> \<not> mm_eq (push_delta mm r) c | None \<Rightarrow> False) then Inl ()
      else
        (let mm' = materialized_push mm r
         in align_from (Suc folded) mm'
              (case mr_resume r of
                 None \<Rightarrow> best
               | Some res \<Rightarrow> Some \<lparr>al_committed = rs_id res, al_meta = mm', al_resume = res,
                                    al_records = Suc folded\<rparr>)
              rs committed))"

definition align :: "meta_record list \<Rightarrow> nat \<Rightarrow> unit + aligned_meta option" where
  "align rs committed = align_from 0 materialized_default None rs committed"

subsection \<open>Checksum\<close>

unbundle bit_operations_syntax

definition crc_step :: "32 word \<Rightarrow> 32 word" where
  "crc_step crc = drop_bit 1 crc XOR (0xEDB88320 AND (NOT (crc AND 1) + 1))"

definition crc_byte :: "32 word \<Rightarrow> char \<Rightarrow> 32 word" where
  "crc_byte crc b = (crc_step ^^ 8) (crc XOR word_of_nat (byte b))"

definition crc32 :: "string \<Rightarrow> 32 word" where
  "crc32 bytes = NOT (foldl crc_byte (NOT 0) bytes)"

subsection \<open>What a record says about its blocks (\<open>builder.rs\<close>)\<close>

definition bump :: "nat \<Rightarrow> nat option \<Rightarrow> nat option" where
  "bump n x = Some (or_zero x + n)"

definition count_into :: "meta_record \<Rightarrow> block \<Rightarrow> meta_record" where
  "count_into rec b =
     (if opens_turn b then rec\<lparr>mr_turns := bump 1 (mr_turns rec)\<rparr>
      else case b of
             ToolUse _ \<Rightarrow> rec\<lparr>mr_tools := bump 1 (mr_tools rec)\<rparr>
           | Thinking _ _ tools \<Rightarrow>
               (if tools \<noteq> [] then rec\<lparr>mr_tools := bump (length tools) (mr_tools rec)\<rparr> else rec)
           | SubAgentB sa \<Rightarrow> rec\<lparr>mr_agents := mr_agents rec @ [Spawned (spawn_of sa)]\<rparr>
           | AgentDone i _ _ _ _ \<Rightarrow>
               (if i \<noteq> [] then rec\<lparr>mr_agents := mr_agents rec @ [Finished i]\<rparr> else rec)
           | _ \<Rightarrow> rec)"

lemma resize_append:
  "length xs = n \<Longrightarrow> length ys = k \<Longrightarrow> resize (n + k) x (xs @ ys) = xs @ ys"
  by (metis length_append resize_id)

subsection \<open>The two answers of a checkpoint\<close>

text \<open>
  The builder maintains the header of the committed blocks with \<open>meta_push\<close>, and writes records
  with \<open>count_into\<close>; a reader folds the records.  Both give the same header and the same spawn
  identity, for blocks whose spawns carry no phase.
\<close>

definition plain_spawn :: "block \<Rightarrow> bool" where
  "plain_spawn b \<longleftrightarrow> (case b of SubAgentB sa \<Rightarrow> sa_phase sa = None | _ \<Rightarrow> True)"

text \<open>The header and identity parts of a delta, as a function of the record.\<close>

definition delta_header ::
  "session_meta \<times> (string \<rightharpoonup> string \<times> string) \<Rightarrow> meta_record
     \<Rightarrow> session_meta \<times> (string \<rightharpoonup> string \<times> string)" where
  "delta_header s r =
     foldl push_event
       ((fst s)\<lparr>sm_turns := sm_turns (fst s) + or_zero (mr_turns r),
               sm_tools := sm_tools (fst s) + or_zero (mr_tools r)\<rparr>, snd s) (mr_agents r)"

lemma push_delta_header:
  "(mm_session_meta (push_delta mm r), mm_agent_ids (push_delta mm r))
     = delta_header (mm_session_meta mm, mm_agent_ids mm) r"
  by (simp add: push_delta_def delta_header_def Let_def split: prod.splits)

fun child_event ::
  "child_meta list \<times> (string \<rightharpoonup> string \<times> string) \<Rightarrow> agent_event
     \<Rightarrow> child_meta list \<times> (string \<rightharpoonup> string \<times> string)" where
  "child_event (cs, ids) (Spawned s) =
     (if sw_agent_id s \<noteq> [] then cs @ [spawned_child s] else cs, insert_rows ids (spawn_keys s))"
| "child_event (cs, ids) (Finished i) = (stop_child i cs, ids)"

lemma push_events:
  "foldl push_event (m, ids) es =
     (m\<lparr>sm_children := fst (foldl child_event (sm_children m, ids) es)\<rparr>,
      snd (foldl child_event (sm_children m, ids) es))"
proof (induction es arbitrary: m ids)
  case (Cons e es)
  then show ?case by (cases e) auto
qed simp

lemma delta_header_fields:
  "delta_header s r =
     (\<lparr>sm_turns = sm_turns (fst s) + or_zero (mr_turns r),
       sm_tools = sm_tools (fst s) + or_zero (mr_tools r),
       sm_children = fst (foldl child_event (sm_children (fst s), snd s) (mr_agents r))\<rparr>,
      snd (foldl child_event (sm_children (fst s), snd s) (mr_agents r)))"
  by (simp add: delta_header_def push_events)

lemma insert_rows_nil [simp]: "insert_rows m [] = m"
  by simp

lemma count_into_header:
  assumes "plain_spawn b"
  shows "fst (delta_header s (count_into rec b)) = meta_push (fst (delta_header s rec)) b"
    and "snd (delta_header s (count_into rec b)) = insert_rows (snd (delta_header s rec)) (agent_pairs b)"
  using assms
  by (cases b; cases "foldl child_event (sm_children (fst s), snd s) (mr_agents rec)";
      simp add: delta_header_fields count_into_def meta_push_def bump_def or_zero_def plain_spawn_def
        spawned_child_def child_of_def spawn_of_def split: option.splits)+

lemma count_all_header:
  assumes "list_all plain_spawn bs"
  shows "fst (delta_header s (foldl count_into rec bs)) = foldl meta_push (fst (delta_header s rec)) bs
    \<and> snd (delta_header s (foldl count_into rec bs))
       = foldl (\<lambda>m b. insert_rows m (agent_pairs b)) (snd (delta_header s rec)) bs"
  using assms
proof (induction bs arbitrary: rec)
  case (Cons b bs)
  then show ?case
    using count_into_header [of b s rec] by simp
qed simp

lemma delta_header_none:
  "mr_turns r = None \<Longrightarrow> mr_tools r = None \<Longrightarrow> mr_agents r = [] \<Longrightarrow> delta_header s r = s"
  by (cases s) (simp add: delta_header_def or_zero_def)

end
