(* ===== verification/Builder.thy ===== *)
theory Builder
  imports Meta Replay_Inv
begin

text \<open>
  The session accumulator (\<open>claude-replay-engine/src/engine/builder.rs\<close>): one line at a time it
  decodes, folds, drains the turns that became durable into the block store, and authors the
  meta record of the drain.  The adapter's hooks (\<open>TranscriptAdapter\<close>), the block store and
  the JSON parser are arguments.
\<close>

subsection \<open>The adapter\<close>

datatype preprocessed = PreInclude | PreIgnore | PreMessages "message list"

type_synonym metrics_totals = "(string \<times> token_counts) list \<times> (string \<times> nat) list \<times> time_span"

record ('p, 'm) adapter =
  ad_shaping :: shaping
  ad_decode :: "string \<Rightarrow> string \<Rightarrow> message list \<times> string"
  ad_pre_new :: 'p
  ad_pre_process :: "'p \<Rightarrow> string \<Rightarrow> preprocessed \<times> 'p"
  ad_pre_state :: "'p \<Rightarrow> json"
  ad_pre_restore :: "'p \<Rightarrow> json \<Rightarrow> 'p"
  ad_met_new :: 'm
  ad_met_push :: "'m \<Rightarrow> json \<Rightarrow> 'm"
  ad_met_malformed :: "'m \<Rightarrow> 'm"
  ad_met_bump :: "'m \<Rightarrow> string \<Rightarrow> nat \<Rightarrow> 'm"
  ad_met_totals :: "'m \<Rightarrow> metrics_totals"
  ad_met_state :: "'m \<Rightarrow> json"
  ad_met_restore :: "'m \<Rightarrow> json \<Rightarrow> 'm"
  ad_met_reseed :: "'m \<Rightarrow> metrics_totals \<Rightarrow> 'm"
  ad_parse :: "string \<Rightarrow> json option"

subsection \<open>State\<close>

record boundary =
  bd_logical :: nat
  bd_offset :: nat
  bd_prev_ts :: "epoch_seconds option"
  bd_pending_ts :: "epoch_seconds option"
  bd_tokens :: "(string \<times> token_counts) list"
  bd_extra :: "(string \<times> nat) list"
  bd_span :: time_span
  bd_cwd :: string
  bd_sandbox_on :: bool
  bd_pre :: json
  bd_metrics_state :: json

definition boundary_default :: boundary where
  "boundary_default =
     \<lparr>bd_logical = 0, bd_offset = 0, bd_prev_ts = None, bd_pending_ts = None, bd_tokens = [],
      bd_extra = [], bd_span = None, bd_cwd = [], bd_sandbox_on = False, bd_pre = JNull,
      bd_metrics_state = JNull\<rparr>"

record ('p, 'm, 'st, 'bv) acc =
  ac_replayer :: replayer
  ac_cwd :: string
  ac_pre :: 'p
  ac_metrics :: 'm
  ac_store :: 'st
  ac_committed :: "'bv list"
  ac_committed_meta :: session_meta
  ac_task_fold :: task_fold
  ac_boundary :: "boundary list"
  ac_emitted :: boundary
  ac_meta_out :: "meta_record list"
  ac_links :: "spawn_link list"
  ac_committed_agents :: "string \<rightharpoonup> string \<times> string"
  ac_committed_inbox :: "string set"
  ac_committed_peers :: "string \<rightharpoonup> string"
  ac_since_checkpoint :: nat

definition checkpoint_every :: nat where
  "checkpoint_every = 64"

definition acc_new :: "('p, 'm) adapter \<Rightarrow> 'st \<Rightarrow> ('p, 'm, 'st, 'bv) acc" where
  "acc_new ad store =
     \<lparr>ac_replayer = replayer_new, ac_cwd = [], ac_pre = ad_pre_new ad, ac_metrics = ad_met_new ad,
      ac_store = store, ac_committed = [], ac_committed_meta = session_meta_default,
      ac_task_fold = task_fold_default, ac_boundary = [], ac_emitted = boundary_default,
      ac_meta_out = [], ac_links = [], ac_committed_agents = Map.empty, ac_committed_inbox = {},
      ac_committed_peers = Map.empty, ac_since_checkpoint = 0\<rparr>"

definition set_spawn_links :: "spawn_link list \<Rightarrow> ('p, 'm, 'st, 'bv) acc \<Rightarrow> ('p, 'm, 'st, 'bv) acc" where
  "set_spawn_links links a = a\<lparr>ac_links := links\<rparr>"

subsection \<open>One line\<close>

text \<open>The byte offset and ordinal of every content-bearing attachment of the line.\<close>

fun stamp_attachments :: "nat \<Rightarrow> nat \<Rightarrow> message list \<Rightarrow> message list" where
  "stamp_attachments offset i [] = []"
| "stamp_attachments offset i (m # ms) =
     (case m of
        MAttachment a \<Rightarrow>
          (case at_content a of
             AcDeferred _ _ hint \<Rightarrow>
               MAttachment (a\<lparr>at_content := AcDeferred offset i hint\<rparr>)
                 # stamp_attachments offset (Suc i) ms
           | AcNone \<Rightarrow> m # stamp_attachments offset i ms)
      | _ \<Rightarrow> m # stamp_attachments offset i ms)"

fun fold_task_message :: "task_fold \<Rightarrow> message \<Rightarrow> task_fold" where
  "fold_task_message f (MTaskOp op) = task_apply f op"
| "fold_task_message f (MToolResult i text _ e) = on_tool_result (on_tool_outcome f i e) i text"
| "fold_task_message f _ = f"

text \<open>The state before the line, when the line may open a turn.\<close>

definition candidate ::
  "('p, 'm) adapter \<Rightarrow> ('p, 'm, 'st, 'bv) acc \<Rightarrow> nat \<Rightarrow> json \<Rightarrow> json \<Rightarrow> message list
     \<Rightarrow> boundary option" where
  "candidate ad a offset pre mstate delta =
     (if list_ex can_open_turn delta then
        (let (tokens, extra, span) = ad_met_totals ad (ac_metrics a); r = ac_replayer a
         in Some \<lparr>bd_logical = raw_len r, bd_offset = offset, bd_prev_ts = rp_prev_ts r,
              bd_pending_ts = rp_pending_ts r, bd_tokens = tokens, bd_extra = extra,
              bd_span = span, bd_cwd = ac_cwd a, bd_sandbox_on = rp_sandbox_on r,
              bd_pre = pre, bd_metrics_state = mstate\<rparr>)
      else None)"

text \<open>One drained block in the record and in the committed identity state.\<close>

definition inbox_of :: "block \<Rightarrow> string list" where
  "inbox_of b = (case b of UserInbox _ ib \<Rightarrow> [ib_id ib] | _ \<Rightarrow> [])"

definition peer_of :: "block \<Rightarrow> (string \<times> string) list" where
  "peer_of b = (case b of PeerText from_name _ _ (Some addr) \<Rightarrow> [(addr, from_name)] | _ \<Rightarrow> [])"

definition record_block :: "meta_record \<Rightarrow> block \<Rightarrow> meta_record" where
  "record_block rec b =
     (let rec' = count_into rec b
      in rec'\<lparr>mr_inbox_ids := mr_inbox_ids rec' @ inbox_of b,
              mr_peer_names := mr_peer_names rec' @ peer_of b\<rparr>)"

definition commit_identity :: "('p, 'm, 'st, 'bv) acc \<Rightarrow> block \<Rightarrow> ('p, 'm, 'st, 'bv) acc" where
  "commit_identity a b =
     a\<lparr>ac_committed_agents := insert_rows (ac_committed_agents a) (agent_pairs b),
       ac_committed_inbox := ac_committed_inbox a \<union> set (inbox_of b),
       ac_committed_peers := insert_rows (ac_committed_peers a) (peer_of b)\<rparr>"

text \<open>The gauge and counter deltas and the resume payload, when the partition exists.\<close>

definition token_deltas ::
  "(string \<times> token_counts) list \<Rightarrow> (string \<times> token_counts) list \<Rightarrow> (string \<times> token_counts) list" where
  "token_deltas now before =
     filter (\<lambda>(m, d). d \<noteq> tokens_zero)
       (map (\<lambda>(m, c). (m, tokens_sub c (case map_of before m of None \<Rightarrow> tokens_zero | Some p \<Rightarrow> p))) now)"

definition extra_deltas :: "(string \<times> nat) list \<Rightarrow> (string \<times> nat) list \<Rightarrow> (string \<times> nat) list" where
  "extra_deltas now before =
     filter (\<lambda>(k, d). 0 < d)
       (map (\<lambda>(k, n). (k, n - (case map_of before k of None \<Rightarrow> 0 | Some p \<Rightarrow> p))) now)"

definition author_resume ::
  "('p, 'm, 'st, 'bv) acc \<Rightarrow> meta_record \<Rightarrow> ('p, 'm, 'st, 'bv) acc \<times> meta_record" where
  "author_resume a rec =
     (case ac_boundary a of
        [] \<Rightarrow> (a, rec)
      | e # _ \<Rightarrow>
          if bd_logical e \<noteq> rp_base (ac_replayer a) then (a, rec)
          else
            (let old = ac_emitted a
             in (a\<lparr>ac_emitted := e\<rparr>,
                 rec\<lparr>mr_tokens := token_deltas (bd_tokens e) (bd_tokens old),
                     mr_extra := extra_deltas (bd_extra e) (bd_extra old),
                     mr_span := (if bd_span e \<noteq> bd_span old then bd_span e else mr_span rec),
                     mr_cwd := (if bd_cwd e \<noteq> bd_cwd old then Some (bd_cwd e) else mr_cwd rec),
                     mr_sandbox_on := (if bd_sandbox_on e \<noteq> bd_sandbox_on old
                                       then Some (bd_sandbox_on e) else mr_sandbox_on rec),
                     mr_resume := Some \<lparr>rs_id = length (ac_committed a), rs_replay_from = bd_offset e,
                       rs_prev_ts = bd_prev_ts e, rs_pending_ts = bd_pending_ts e,
                       rs_pre = bd_pre e, rs_metrics_state = bd_metrics_state e\<rparr>\<rparr>)))"

text \<open>The absolute state as of the last resume point.\<close>

definition materialized :: "('p, 'm, 'st, 'bv) acc \<Rightarrow> materialized_meta" where
  "materialized a =
     (let e = ac_emitted a; turns = sm_turns (ac_committed_meta a)
      in \<lparr>mm_session_meta = ac_committed_meta a, mm_agent_ids = ac_committed_agents a,
          mm_user_times = take turns (rp_user_times (ac_replayer a)),
          mm_turn_durations = take turns (rp_turn_durations (ac_replayer a)),
          mm_tokens = map_of (filter (\<lambda>(_, v). v \<noteq> tokens_zero) (bd_tokens e)),
          mm_extra = map_of (filter (\<lambda>(_, v). v \<noteq> 0) (bd_extra e)),
          mm_tasks = ac_task_fold a, mm_cwd = bd_cwd e, mm_span = bd_span e,
          mm_inbox_ids = ac_committed_inbox a, mm_peer_names = ac_committed_peers a,
          mm_sandbox_on = bd_sandbox_on e\<rparr>)"

definition checkpoint_maybe ::
  "('p, 'm, 'st, 'bv) acc \<Rightarrow> meta_record \<Rightarrow> ('p, 'm, 'st, 'bv) acc \<times> meta_record" where
  "checkpoint_maybe a rec =
     (if mr_resume rec = None then (a, rec)
      else if checkpoint_every \<le> ac_since_checkpoint a + 1
      then (a\<lparr>ac_since_checkpoint := 0\<rparr>, rec\<lparr>mr_checkpoint := Some (materialized a)\<rparr>)
      else (a\<lparr>ac_since_checkpoint := ac_since_checkpoint a + 1\<rparr>, rec))"

text \<open>Storing the drained blocks, once each, and folding them into the header.\<close>

definition store_drained ::
  "('st, 'bv) store_ops \<Rightarrow> block list \<Rightarrow> ('p, 'm, 'st, 'bv) acc \<Rightarrow> ('p, 'm, 'st, 'bv) acc" where
  "store_drained so bs a =
     (let r = ac_replayer a;
          (st, bvs) = put_all so (rp_user_times r) (rp_turn_durations r) (ac_store a, ac_committed a) bs
      in a\<lparr>ac_store := st, ac_committed := bvs,
           ac_committed_meta := foldl meta_push (ac_committed_meta a) bs\<rparr>)"

text \<open>
  The record of a drain, once its blocks are stored: the slices of times and durations, the
  task operations, the resume payload, the checkpoint.  \<open>None\<close> is the panic of the slice of
  turn times.
\<close>

definition author_record ::
  "nat \<Rightarrow> meta_record \<Rightarrow> ('p, 'm, 'st, 'bv) acc \<Rightarrow> ('p, 'm, 'st, 'bv) acc option" where
  "author_record turns0 rec a1 =
     (let r = ac_replayer a1; turns1 = sm_turns (ac_committed_meta a1);
          uts = rp_user_times r; durs = rp_turn_durations r
      in if \<not> (turns0 \<le> turns1 \<and> turns1 \<le> length uts) then None
         else
           (let (ops, tf) = drain_recorded (ac_task_fold a1);
                rec1 = rec\<lparr>mr_user_times := take (turns1 - turns0) (drop turns0 uts),
                  mr_turn_durations := (if turns1 \<le> length durs
                    then take (turns1 - turns0) (drop turns0 durs) else []),
                  mr_task_ops := ops\<rparr>;
                a2 = a1\<lparr>ac_task_fold := tf,
                  ac_boundary := filter (\<lambda>e. rp_base r \<le> bd_logical e) (ac_boundary a1)\<rparr>;
                (a3, rec2) = author_resume a2 rec1;
                (a4, rec3) = checkpoint_maybe a3 rec2
            in Some (a4\<lparr>ac_meta_out := ac_meta_out a4 @ [rec3]\<rparr>)))"

text \<open>The drain of the turns that crossed the frontier.\<close>

definition drain_step ::
  "('st, 'bv) store_ops \<Rightarrow> ('p, 'm, 'st, 'bv) acc \<Rightarrow> ('p, 'm, 'st, 'bv) acc option" where
  "drain_step so a0 =
     (let (raw, r) = drain_committed (ac_replayer a0); a = a0\<lparr>ac_replayer := r\<rparr>
      in if raw = [] then Some a
         else
           (let drained = apply_spawn_links (ac_links a) raw
            in author_record (sm_turns (ac_committed_meta a)) (foldl record_block record_default drained)
                 (store_drained so drained (foldl commit_identity a drained))))"

text \<open>The metrics of a line: parsed and pushed, or counted as malformed unless blank.\<close>

definition push_metrics :: "('p, 'm) adapter \<Rightarrow> string \<Rightarrow> 'm \<Rightarrow> 'm" where
  "push_metrics ad line m =
     (case ad_parse ad line of
        Some v \<Rightarrow> ad_met_push ad m v
      | None \<Rightarrow> if trim line \<noteq> [] then ad_met_malformed ad m else m)"

text \<open>The messages of a line after preprocessing and decoding; \<open>None\<close> is an ignored line.\<close>

definition decode_delta ::
  "('p, 'm) adapter \<Rightarrow> string \<Rightarrow> ('p, 'm, 'st, 'bv) acc
     \<Rightarrow> message list option \<times> ('p, 'm, 'st, 'bv) acc" where
  "decode_delta ad line a =
     (let (verdict, p) = ad_pre_process ad (ac_pre a) line; a' = a\<lparr>ac_pre := p\<rparr>
      in case verdict of
           PreIgnore \<Rightarrow> (None, a')
         | PreMessages ms \<Rightarrow> (Some ms, a')
         | PreInclude \<Rightarrow>
             (let (ms, cwd) = ad_decode ad line (ac_cwd a) in (Some ms, a'\<lparr>ac_cwd := cwd\<rparr>)))"

definition fold_line ::
  "('p, 'm) adapter \<Rightarrow> boundary option \<Rightarrow> message list \<Rightarrow> ('p, 'm, 'st, 'bv) acc
     \<Rightarrow> (('p, 'm, 'st, 'bv) acc \<times> nat option) option" where
  "fold_line ad cand delta a = do {
     (r, patched) \<leftarrow> replay_apply (ad_shaping ad) delta (ac_replayer a);
     Some (a\<lparr>ac_task_fold := foldl fold_task_message (ac_task_fold a) delta, ac_replayer := r,
             ac_boundary := ac_boundary a
               @ (case cand of None \<Rightarrow> []
                  | Some c \<Rightarrow> if bd_logical c < raw_len r then [c] else [])\<rparr>, patched)
   }"

definition advance_at ::
  "('p, 'm) adapter \<Rightarrow> ('st, 'bv) store_ops \<Rightarrow> nat \<Rightarrow> string \<Rightarrow> ('p, 'm, 'st, 'bv) acc
     \<Rightarrow> (('p, 'm, 'st, 'bv) acc \<times> nat option) option" where
  "advance_at ad so offset line a =
     (let pre = ad_pre_state ad (ac_pre a); mstate = ad_met_state ad (ac_metrics a);
          (decoded, a0) = decode_delta ad line a
      in case decoded of
           None \<Rightarrow> Some (a0, None)
         | Some ms \<Rightarrow>
             (let delta = stamp_attachments offset 0 ms;
                  cand = candidate ad a0 offset pre mstate delta
              in do {
                (a1, patched) \<leftarrow> fold_line ad cand delta a0;
                a2 \<leftarrow> drain_step so a1;
                Some (a2\<lparr>ac_metrics := push_metrics ad line (ac_metrics a2)\<rparr>, patched)
              }))"

fun advance_lines ::
  "('p, 'm) adapter \<Rightarrow> ('st, 'bv) store_ops \<Rightarrow> (nat \<times> string) list \<Rightarrow> nat option
     \<Rightarrow> ('p, 'm, 'st, 'bv) acc \<Rightarrow> (('p, 'm, 'st, 'bv) acc \<times> nat option) option" where
  "advance_lines ad so [] pf a = Some (a, pf)"
| "advance_lines ad so ((offset, line) # rest) pf a = do {
     (a', p) \<leftarrow> advance_at ad so offset line a;
     advance_lines ad so rest (case p of None \<Rightarrow> pf | Some i \<Rightarrow> floor_min pf i) a'
   }"

subsection \<open>The other operations\<close>

definition drain_meta ::
  "('p, 'm, 'st, 'bv) acc \<Rightarrow> meta_record list \<times> ('p, 'm, 'st, 'bv) acc" where
  "drain_meta a = (ac_meta_out a, a\<lparr>ac_meta_out := []\<rparr>)"

record elision_counts =
  ec_lines :: nat
  ec_bytes :: nat
  ec_skipped :: nat

definition elision_zero :: elision_counts where
  "elision_zero = \<lparr>ec_lines = 0, ec_bytes = 0, ec_skipped = 0\<rparr>"

definition bank_elision ::
  "('p, 'm) adapter \<Rightarrow> elision_counts \<Rightarrow> ('p, 'm, 'st, 'bv) acc \<Rightarrow> ('p, 'm, 'st, 'bv) acc" where
  "bank_elision ad c a =
     a\<lparr>ac_metrics :=
         foldl (\<lambda>m (k, n). if 0 < n then ad_met_bump ad m k n else m) (ac_metrics a)
           [(''elided_lines'', ec_lines c), (''elided_bytes'', ec_bytes c),
            (''skipped_lines'', ec_skipped c)]\<rparr>"

text \<open>\<open>reset\<close> keeps \<open>boundary\<close>, \<open>emitted\<close>, \<open>meta_out\<close> and the links, as the code does.\<close>

definition acc_reset ::
  "('p, 'm) adapter \<Rightarrow> ('st, 'bv) store_ops \<Rightarrow> ('p, 'm, 'st, 'bv) acc \<Rightarrow> ('p, 'm, 'st, 'bv) acc" where
  "acc_reset ad so a =
     a\<lparr>ac_replayer := replayer_new, ac_cwd := [], ac_pre := ad_pre_new ad,
       ac_metrics := ad_met_new ad, ac_committed := [], ac_committed_meta := session_meta_default,
       ac_committed_agents := Map.empty, ac_committed_inbox := {}, ac_committed_peers := Map.empty,
       ac_since_checkpoint := 0, ac_task_fold := task_fold_default,
       ac_store := so_reset so (ac_store a)\<rparr>"

text \<open>\<open>Replayer::reseed\<close> and \<open>restore\<close>: an accumulator from the persisted halves.\<close>

definition reseed ::
  "materialized_meta \<Rightarrow> epoch_seconds option \<Rightarrow> epoch_seconds option \<Rightarrow> replayer \<Rightarrow> replayer" where
  "reseed mm prev_ts pending_ts r =
     r\<lparr>rp_agent_ids := mm_agent_ids mm, rp_inbox_ids := mm_inbox_ids mm,
       rp_peer_names := mm_peer_names mm, rp_refused := Map.empty,
       rp_sandbox_on := mm_sandbox_on mm,
       rp_turn_durations := resize (length (mm_user_times mm)) None (mm_turn_durations mm),
       rp_user_times := mm_user_times mm, rp_prev_ts := prev_ts, rp_pending_ts := pending_ts,
       rp_base := 0, rp_stamped := 0, rp_out := [], rp_durable := []\<rparr>"

definition acc_restore ::
  "('p, 'm) adapter \<Rightarrow> 'st \<Rightarrow> 'bv list \<Rightarrow> materialized_meta \<Rightarrow> metrics_totals \<Rightarrow> resume
     \<Rightarrow> ('p, 'm, 'st, 'bv) acc" where
  "acc_restore ad store committed mm totals rs =
     (let (tokens, extra, span) = totals; a = acc_new ad store
      in a\<lparr>ac_committed := committed, ac_committed_agents := mm_agent_ids mm,
           ac_committed_inbox := mm_inbox_ids mm, ac_committed_peers := mm_peer_names mm,
           ac_committed_meta := mm_session_meta mm, ac_cwd := mm_cwd mm,
           ac_task_fold := mm_tasks mm,
           ac_metrics := ad_met_restore ad (ad_met_reseed ad (ac_metrics a) totals) (rs_metrics_state rs),
           ac_replayer := reseed mm (rs_prev_ts rs) (rs_pending_ts rs) (ac_replayer a),
           ac_pre := ad_pre_restore ad (ac_pre a) (rs_pre rs),
           ac_emitted := \<lparr>bd_logical = 0, bd_offset = rs_replay_from rs, bd_prev_ts = rs_prev_ts rs,
             bd_pending_ts = rs_pending_ts rs, bd_tokens = tokens, bd_extra = extra,
             bd_span = span, bd_cwd = mm_cwd mm, bd_sandbox_on = mm_sandbox_on mm,
             bd_pre = rs_pre rs, bd_metrics_state = rs_metrics_state rs\<rparr>\<rparr>)"

subsection \<open>Readers\<close>

definition committed_tail ::
  "('st, 'bv) store_ops \<Rightarrow> nat \<Rightarrow> ('p, 'm, 'st, 'bv) acc \<Rightarrow> block list" where
  "committed_tail so from_idx a =
     map (so_get so (ac_store a)) (drop (min from_idx (length (ac_committed a))) (ac_committed a))"

definition acc_open_snapshot ::
  "('p, 'm) adapter \<Rightarrow> ('p, 'm, 'st, 'bv) acc \<Rightarrow> (block list \<times> epoch_seconds option list) option" where
  "acc_open_snapshot ad a = do {
     (opn, uts) \<leftarrow> open_snapshot (ad_shaping ad) (ac_replayer a);
     Some (apply_spawn_links (ac_links a) opn, uts)
   }"

definition acc_session_meta ::
  "('p, 'm) adapter \<Rightarrow> ('p, 'm, 'st, 'bv) acc \<Rightarrow> session_meta option" where
  "acc_session_meta ad a = do {
     (opn, _) \<leftarrow> acc_open_snapshot ad a;
     Some (foldl meta_push (ac_committed_meta a) opn)
   }"

text \<open>\<open>fold\<close>: the whole presentable stream, committed blocks read back from the store.\<close>

definition acc_fold ::
  "('p, 'm) adapter \<Rightarrow> ('st, 'bv) store_ops \<Rightarrow> ('p, 'm, 'st, 'bv) acc
     \<Rightarrow> (block list \<times> epoch_seconds option list) option" where
  "acc_fold ad so a = do {
     (opn, uts) \<leftarrow> acc_open_snapshot ad a;
     Some (map (so_get so (ac_store a)) (ac_committed a) @ opn, uts)
   }"

record stream_read =
  sr_committed_delta :: "block list"
  sr_provisional :: "block list"
  sr_user_times :: "epoch_seconds option list"
  sr_turn_durations :: "nat option list"
  sr_meta :: session_meta
  sr_n_committed :: nat
  sr_tasks :: "task_item list"

definition open_read ::
  "('p, 'm) adapter \<Rightarrow> ('p, 'm, 'st, 'bv) acc \<Rightarrow> stream_read option" where
  "open_read ad a = do {
     (opn, uts) \<leftarrow> acc_open_snapshot ad a;
     Some \<lparr>sr_committed_delta = [], sr_provisional = opn, sr_user_times = uts,
       sr_turn_durations = resize (length uts) None (rp_turn_durations (ac_replayer a)),
       sr_meta = foldl meta_push (ac_committed_meta a) opn,
       sr_n_committed = length (ac_committed a), sr_tasks = tf_list (ac_task_fold a)\<rparr>
   }"

definition read_stream ::
  "('p, 'm) adapter \<Rightarrow> ('st, 'bv) store_ops \<Rightarrow> nat \<Rightarrow> ('p, 'm, 'st, 'bv) acc \<Rightarrow> stream_read option" where
  "read_stream ad so from_idx a = do {
     r \<leftarrow> open_read ad a;
     Some (r\<lparr>sr_committed_delta := committed_tail so from_idx a\<rparr>)
   }"

text \<open>The batch parse: every line of a transcript through a fresh accumulator.\<close>

definition parse_lines ::
  "('p, 'm) adapter \<Rightarrow> ('st, 'bv) store_ops \<Rightarrow> 'st \<Rightarrow> (nat \<times> string) list
     \<Rightarrow> ('p, 'm, 'st, 'bv) acc option" where
  "parse_lines ad so store lines = map_option fst (advance_lines ad so lines None (acc_new ad store))"

end
