(* ===== verification/Builder_Inv.thy ===== *)
theory Builder_Inv
  imports Builder Fold_Props
begin

text \<open>
  The invariant of the session accumulator: its replayer is well formed and drained, every
  committed locator reads back the block that was stored, the maintained header is the header
  of the committed blocks, and the turn times are aligned with them.  Every line preserves it,
  and no line panics.
\<close>

subsection \<open>The invariant\<close>

abbreviation stored :: "('st, 'bv) store_ops \<Rightarrow> ('p, 'm, 'st, 'bv) acc \<Rightarrow> block list" where
  "stored so a \<equiv> map (so_get so (ac_store a)) (ac_committed a)"

definition acc_inv ::
  "('st, 'bv) store_ops \<Rightarrow> ('st \<Rightarrow> bool) \<Rightarrow> ('st \<Rightarrow> 'bv \<Rightarrow> bool) \<Rightarrow> ('p, 'm, 'st, 'bv) acc \<Rightarrow> bool" where
  "acc_inv so sound live a \<longleftrightarrow>
     sound (ac_store a) \<and> list_all (live (ac_store a)) (ac_committed a)
     \<and> rep_inv (ac_replayer a) \<and> rp_durable (ac_replayer a) = []
     \<and> ac_committed_meta a = meta_build (stored so a)
     \<and> aligned (sm_turns (ac_committed_meta a)) (ac_replayer a)"

lemma acc_inv_metrics [simp]: "acc_inv so sound live (a\<lparr>ac_metrics := m\<rparr>) = acc_inv so sound live a"
  unfolding acc_inv_def by simp

text \<open>What the adapter's decoder may not do: produce a blank thinking text.\<close>

definition decoder_ok :: "('p, 'm) adapter \<Rightarrow> bool" where
  "decoder_ok ad \<longleftrightarrow>
     (\<forall>line cwd. list_all msg_ok (fst (ad_decode ad line cwd)))
     \<and> (\<forall>p line ms. fst (ad_pre_process ad p line) = PreMessages ms \<longrightarrow> list_all msg_ok ms)"

lemma meta_push_turns:
  "sm_turns (foldl meta_push m bs) = sm_turns m + count_if opens_turn bs"
proof (induction bs arbitrary: m)
  case (Cons b bs)
  have "sm_turns (meta_push m b) = sm_turns m + (if opens_turn b then 1 else 0)"
    by (cases b) (simp_all add: meta_push_def)
  then show ?case using Cons.IH by simp
qed simp

lemma stamp_attachments_ok: "list_all msg_ok ms \<Longrightarrow> list_all msg_ok (stamp_attachments offset i ms)"
  by (induction offset i ms rule: stamp_attachments.induct)
    (auto split: message.splits attachment_content.splits)

lemma decode_delta_ok:
  assumes "decoder_ok ad" and "decode_delta ad line a = (Some ms, a')"
  shows "list_all msg_ok ms"
proof (cases "ad_pre_process ad (ac_pre a) line")
  case (Pair verdict p)
  show ?thesis
  proof (cases verdict)
    case PreInclude
    then have "ms = fst (ad_decode ad line (ac_cwd a))"
      using assms(2) Pair by (simp add: decode_delta_def split: prod.splits)
    then show ?thesis using assms(1) by (simp add: decoder_ok_def)
  next
    case PreIgnore
    then show ?thesis using assms Pair by (simp add: decode_delta_def)
  next
    case (PreMessages x)
    then have "fst (ad_pre_process ad (ac_pre a) line) = PreMessages ms"
      using assms(2) Pair by (simp add: decode_delta_def)
    then show ?thesis using assms(1) by (simp add: decoder_ok_def)
  qed
qed

lemma decode_delta_frame:
  assumes "decode_delta ad line a = (d, a')"
  shows "ac_replayer a' = ac_replayer a" "ac_store a' = ac_store a" "ac_committed a' = ac_committed a"
    "ac_committed_meta a' = ac_committed_meta a" "ac_links a' = ac_links a"
  using assms by (auto simp: decode_delta_def Let_def split: prod.splits preprocessed.splits)

lemma commit_identity_frame:
  "ac_store (foldl commit_identity a bs) = ac_store a"
  "ac_committed (foldl commit_identity a bs) = ac_committed a"
  "ac_replayer (foldl commit_identity a bs) = ac_replayer a"
  "ac_committed_meta (foldl commit_identity a bs) = ac_committed_meta a"
  "ac_links (foldl commit_identity a bs) = ac_links a"
  by (induction bs arbitrary: a) (simp_all add: commit_identity_def)

lemma author_resume_frame [simp]:
  "ac_store (fst (author_resume a rec)) = ac_store a"
  "ac_committed (fst (author_resume a rec)) = ac_committed a"
  "ac_replayer (fst (author_resume a rec)) = ac_replayer a"
  "ac_committed_meta (fst (author_resume a rec)) = ac_committed_meta a"
  "ac_links (fst (author_resume a rec)) = ac_links a"
  by (simp_all add: author_resume_def Let_def split: list.split)

lemma checkpoint_maybe_frame [simp]:
  "ac_store (fst (checkpoint_maybe a rec)) = ac_store a"
  "ac_committed (fst (checkpoint_maybe a rec)) = ac_committed a"
  "ac_replayer (fst (checkpoint_maybe a rec)) = ac_replayer a"
  "ac_committed_meta (fst (checkpoint_maybe a rec)) = ac_committed_meta a"
  "ac_links (fst (checkpoint_maybe a rec)) = ac_links a"
  by (simp_all add: checkpoint_maybe_def)

lemma author_record_frame:
  assumes "author_record turns0 rec a = Some a'"
  shows "ac_store a' = ac_store a" "ac_committed a' = ac_committed a"
    "ac_replayer a' = ac_replayer a" "ac_committed_meta a' = ac_committed_meta a"
    "ac_links a' = ac_links a"
  using assms
  by (auto simp: author_record_def drain_recorded_def Let_def case_prod_beta split: if_splits)

lemma drain_step_some:
  assumes "rp_durable (ac_replayer a) \<noteq> []"
  shows "drain_step so a =
    (let bs = apply_spawn_links (ac_links a) (rp_durable (ac_replayer a));
         a' = a\<lparr>ac_replayer := (ac_replayer a)\<lparr>rp_durable := []\<rparr>\<rparr>
     in author_record (sm_turns (ac_committed_meta a)) (foldl record_block record_default bs)
          (store_drained so bs (foldl commit_identity a' bs)))"
  using assms by (simp add: drain_step_def drain_committed_def Let_def)

lemma author_record_some:
  assumes "turns0 \<le> sm_turns (ac_committed_meta a)"
    and "sm_turns (ac_committed_meta a) \<le> length (rp_user_times (ac_replayer a))"
  obtains a' where "author_record turns0 rec a = Some a'" "ac_store a' = ac_store a"
    "ac_committed a' = ac_committed a" "ac_replayer a' = ac_replayer a"
    "ac_committed_meta a' = ac_committed_meta a" "ac_links a' = ac_links a"
proof -
  obtain a' where "author_record turns0 rec a = Some a'"
    using assms by (simp add: author_record_def Let_def case_prod_beta)
  then show ?thesis
    using that author_record_frame [of turns0 rec a a'] by blast
qed

text \<open>The accumulator between the fold of a line and its drain.\<close>

definition undrained ::
  "('st, 'bv) store_ops \<Rightarrow> ('st \<Rightarrow> bool) \<Rightarrow> ('st \<Rightarrow> 'bv \<Rightarrow> bool) \<Rightarrow> ('p, 'm, 'st, 'bv) acc \<Rightarrow> bool" where
  "undrained so sound live a \<longleftrightarrow>
     sound (ac_store a) \<and> list_all (live (ac_store a)) (ac_committed a)
     \<and> rep_inv (ac_replayer a) \<and> ac_committed_meta a = meta_build (stored so a)
     \<and> aligned (sm_turns (ac_committed_meta a)) (ac_replayer a)"

lemma rep_inv_durable [simp]: "rep_inv (r\<lparr>rp_durable := d\<rparr>) = rep_inv r"
  by (simp add: rep_inv_def)

lemma aligned_turns: "aligned n r \<Longrightarrow> n + count_if opens_turn (rp_durable r) \<le> length (rp_user_times r)"
  by (simp add: aligned_def)

lemma undrained_parts:
  assumes "undrained so sound live a"
  shows "sound (ac_store a)" "list_all (live (ac_store a)) (ac_committed a)" "rep_inv (ac_replayer a)"
    "ac_committed_meta a = meta_build (stored so a)" "aligned (sm_turns (ac_committed_meta a)) (ac_replayer a)"
  using assms unfolding undrained_def by blast+

lemma aligned_drained:
  "rp_durable r = [] \<Longrightarrow> aligned n (r\<lparr>rp_durable := []\<rparr>) = aligned n r"
  by (simp add: aligned_def window_stamped_def)

context lossless_store begin

lemma store_drained_reads:
  assumes "sound (ac_store a)" and "list_all (live (ac_store a)) (ac_committed a)"
    and "list_all storable bs" and "store_drained so bs a = a'"
  shows "sound (ac_store a') \<and> list_all (live (ac_store a')) (ac_committed a')
    \<and> stored so a' = stored so a @ bs
    \<and> ac_committed_meta a' = foldl meta_push (ac_committed_meta a) bs
    \<and> ac_replayer a' = ac_replayer a"
proof -
  let ?r = "ac_replayer a"
  obtain st bvs where p:
    "put_all so (rp_user_times ?r) (rp_turn_durations ?r) (ac_store a, ac_committed a) bs = (st, bvs)"
    by (cases "put_all so (rp_user_times ?r) (rp_turn_durations ?r) (ac_store a, ac_committed a) bs")
  show ?thesis
    using put_all_reads [OF assms(1,2,3) p] assms(4) p by (auto simp: store_drained_def Let_def)
qed

lemma drain_step_keeps:
  assumes u: "undrained so sound live a"
    and st: "list_all storable (apply_spawn_links (ac_links a) (rp_durable (ac_replayer a)))"
  shows "\<exists>a'. drain_step so a = Some a' \<and> acc_inv so sound live a'
    \<and> stored so a' = stored so a @ apply_spawn_links (ac_links a) (rp_durable (ac_replayer a))
    \<and> ac_replayer a' = (ac_replayer a)\<lparr>rp_durable := []\<rparr> \<and> ac_links a' = ac_links a"
proof (cases "rp_durable (ac_replayer a) = []")
  case True
  let ?a = "a\<lparr>ac_replayer := (ac_replayer a)\<lparr>rp_durable := []\<rparr>\<rparr>"
  have step: "drain_step so a = Some ?a"
    using True by (simp add: drain_step_def drain_committed_def)
  have "acc_inv so sound live ?a"
    using undrained_parts [OF u] aligned_drained [OF True] by (simp add: acc_inv_def)
  then show ?thesis
    using step True by (simp add: apply_spawn_links_def)
next
  case False
  let ?r = "(ac_replayer a)\<lparr>rp_durable := []\<rparr>"
  define bs where "bs = apply_spawn_links (ac_links a) (rp_durable (ac_replayer a))"
  define a1 where "a1 = store_drained so bs (foldl commit_identity (a\<lparr>ac_replayer := ?r\<rparr>) bs)"
  have facts: "sound (ac_store a1) \<and> list_all (live (ac_store a1)) (ac_committed a1)
      \<and> stored so a1 = stored so a @ bs
      \<and> ac_committed_meta a1 = foldl meta_push (ac_committed_meta a) bs \<and> ac_replayer a1 = ?r"
    using store_drained_reads [of "foldl commit_identity (a\<lparr>ac_replayer := ?r\<rparr>) bs" bs a1] undrained_parts [OF u] st
    by (simp add: commit_identity_frame a1_def bs_def)
  have links: "ac_links a1 = ac_links a"
    by (simp add: a1_def store_drained_def Let_def commit_identity_frame split: prod.splits)
  have turns: "sm_turns (ac_committed_meta a1)
      = sm_turns (ac_committed_meta a) + count_if opens_turn (rp_durable (ac_replayer a))"
    using facts by (simp add: meta_push_turns bs_def)
  have al: "aligned (sm_turns (ac_committed_meta a1)) ?r"
    using aligned_durable [OF undrained_parts(5) [OF u]] turns by simp
  have meta: "ac_committed_meta a1 = meta_build (stored so a1)"
    using facts undrained_parts(4) [OF u] by (simp add: meta_build_append)
  have le: "sm_turns (ac_committed_meta a) \<le> sm_turns (ac_committed_meta a1)"
    "sm_turns (ac_committed_meta a1) \<le> length (rp_user_times ?r)"
    using turns aligned_turns [OF undrained_parts(5) [OF u]] by simp_all
  obtain a' where step: "author_record (sm_turns (ac_committed_meta a))
        (foldl record_block record_default bs) a1 = Some a'" "ac_store a' = ac_store a1"
      "ac_committed a' = ac_committed a1" "ac_replayer a' = ac_replayer a1"
      "ac_committed_meta a' = ac_committed_meta a1" "ac_links a' = ac_links a1"
    by (rule author_record_some [of "sm_turns (ac_committed_meta a)" a1]) (use le facts in simp_all)
  moreover have "drain_step so a = Some a'"
    using False step(1) by (simp add: drain_step_def drain_committed_def Let_def a1_def bs_def)
  moreover have "acc_inv so sound live a'"
    using facts al meta undrained_parts(3) [OF u] step
    unfolding acc_inv_def by (simp del: foldl_append)
  ultimately show ?thesis
    using facts links step(6) by (simp add: bs_def)
qed

text \<open>A whole line: it never panics, keeps the invariant, and only appends committed blocks.\<close>

lemma advance_at_keeps:
  assumes hooks: "hooks_ok (ad_shaping ad)" and dec: "decoder_ok ad" and all: "\<forall>b. storable b"
    and inv: "acc_inv so sound live a"
  shows "\<exists>a' pf. advance_at ad so offset line a = Some (a', pf) \<and> acc_inv so sound live a'
    \<and> (\<exists>xs. stored so a' = stored so a @ xs) \<and> ac_links a' = ac_links a"
proof -
  obtain d a0 where d: "decode_delta ad line a = (d, a0)"
    by (cases "decode_delta ad line a")
  note fr = decode_delta_frame [OF d]
  have inv0: "acc_inv so sound live a0" "stored so a0 = stored so a"
    using inv unfolding acc_inv_def fr by blast+
  show ?thesis
  proof (cases d)
    case None
    then show ?thesis using d inv0 fr by (auto simp: advance_at_def)
  next
    case (Some ms)
    let ?delta = "stamp_attachments offset 0 ms" and ?sh = "ad_shaping ad"
    let ?cand = "candidate ad a0 offset (ad_pre_state ad (ac_pre a)) (ad_met_state ad (ac_metrics a)) ?delta"
    have ok: "list_all msg_ok ?delta"
      using decode_delta_ok [OF dec] d Some stamp_attachments_ok by blast
    obtain r pf where r: "replay_apply ?sh ?delta (ac_replayer a0) = Some (r, pf)" "rep_inv r"
        "aligned (sm_turns (ac_committed_meta a0)) r"
      using fold_shaping.apply_keeps [OF hooks_fold [OF hooks] _ _ ok, of "ac_replayer a0"] inv0(1)
      unfolding acc_inv_def by blast
    obtain a1 where a1: "fold_line ad ?cand ?delta a0 = Some (a1, pf)" "ac_replayer a1 = r"
        "ac_store a1 = ac_store a0" "ac_committed a1 = ac_committed a0"
        "ac_committed_meta a1 = ac_committed_meta a0" "ac_links a1 = ac_links a0"
      using r(1) by (simp add: fold_line_def)
    have "undrained so sound live a1"
      using inv0(1) r a1 by (simp add: undrained_def acc_inv_def)
    then obtain a2 where a2: "drain_step so a1 = Some a2" "acc_inv so sound live a2"
        "\<exists>xs. stored so a2 = stored so a1 @ xs" "ac_links a2 = ac_links a1"
      using drain_step_keeps [of a1] all by (auto simp: list_all_iff)
    let ?a3 = "a2\<lparr>ac_metrics := push_metrics ad line (ac_metrics a2)\<rparr>"
    have "advance_at ad so offset line a = Some (?a3, pf)"
      using d Some a1(1) a2(1) by (simp add: advance_at_def Let_def)
    moreover have "acc_inv so sound live ?a3"
      using a2(2) by simp
    ultimately show ?thesis
      using a2 a1 inv0(2) fr by (auto simp del: map_append)
  qed
qed

lemma advance_lines_keep:
  assumes "hooks_ok (ad_shaping ad)" and "decoder_ok ad" and "\<forall>b. storable b"
    and "acc_inv so sound live a"
  shows "\<exists>a' pf'. advance_lines ad so lines pf a = Some (a', pf') \<and> acc_inv so sound live a'
    \<and> (\<exists>xs. stored so a' = stored so a @ xs) \<and> ac_links a' = ac_links a"
  using assms(4)
proof (induction lines arbitrary: pf a)
  case (Cons l ls)
  obtain offset line where l: "l = (offset, line)" by (cases l)
  obtain a1 p where a1: "advance_at ad so offset line a = Some (a1, p)" "acc_inv so sound live a1"
      "\<exists>xs. stored so a1 = stored so a @ xs" "ac_links a1 = ac_links a"
    using advance_at_keeps [OF assms(1-3) Cons.prems] by blast
  show ?case
    using Cons.IH [OF a1(2), of "case p of None \<Rightarrow> pf | Some i \<Rightarrow> floor_min pf i"] a1 l
    by (auto simp del: map_append)
qed simp

lemma acc_new_inv: "sound st \<Longrightarrow> acc_inv so sound live (acc_new ad st)"
  using new_inv by (simp add: acc_inv_def acc_new_def meta_build_def session_meta_default_def replayer_new_def)

lemma acc_reset_inv: "acc_inv so sound live a \<Longrightarrow> acc_inv so sound live (acc_reset ad so a)"
  using new_inv reset_inv
  by (auto simp: acc_inv_def acc_reset_def meta_build_def session_meta_default_def replayer_new_def)

end

end
