(* ===== verification/Parse_Props.thy ===== *)
theory Parse_Props
  imports Builder_Inv
begin

text \<open>
  What the session accumulator promises its readers: a parse never panics and its header and
  turn times are those of the blocks it shows; feeding more lines only appends committed
  blocks; and the choice of the block store is invisible, so the on-disk store shows what the
  in-memory one does.
\<close>

subsection \<open>What a reader is shown\<close>

context fold_shaping begin

lemma open_snapshot_aligned:
  assumes inv: "rep_inv r" and al: "aligned n r" and dur: "rp_durable r = []"
  shows "\<exists>bs ts. open_snapshot sh r = Some (bs, ts) \<and> length ts = n + count_if opens_turn bs"
proof -
  let ?raw = "drop_flagged 0 (\<lambda>i. i + rp_base r \<in> set (rp_suppress r)) (rp_out r)"
  have w: "window_stamped r \<le> length (rp_out r)"
    using inv by (auto simp: rep_inv_def window_stamped_def)
  have "count_if opens_turn ?raw = count_if opens_turn (rp_out r)"
    using rep_inv_suppressed [OF inv]
    by (intro count_if_drop_flagged) (simp add: suppressed_free_def add.commute)
  then show ?thesis
    using w al dur count_if_take_drop [of opens_turn "window_stamped r" "rp_out r"]
    by (simp add: open_snapshot_def stamp_user_turns_def finalize_open_def finish_turn_count aligned_def)
      (simp add: count_if_def)
qed

end

lemma acc_shown:
  assumes "hooks_ok (ad_shaping ad)" and "acc_inv so sound live a"
  shows "\<exists>blocks times. acc_fold ad so a = Some (blocks, times)
    \<and> acc_session_meta ad a = Some (meta_build blocks)
    \<and> length times = sm_turns (meta_build blocks)
    \<and> take (length (ac_committed a)) blocks = stored so a"
proof -
  have inv: "rep_inv (ac_replayer a)" "aligned (sm_turns (ac_committed_meta a)) (ac_replayer a)"
      "rp_durable (ac_replayer a) = []" "ac_committed_meta a = meta_build (stored so a)"
    using assms(2) unfolding acc_inv_def by blast+
  obtain bs ts where o: "open_snapshot (ad_shaping ad) (ac_replayer a) = Some (bs, ts)"
      "length ts = sm_turns (ac_committed_meta a) + count_if opens_turn bs"
    using fold_shaping.open_snapshot_aligned [OF hooks_fold [OF assms(1)] inv(1-3)] by blast
  let ?opn = "apply_spawn_links (ac_links a) bs"
  have "sm_turns (meta_build (stored so a @ ?opn)) = sm_turns (ac_committed_meta a) + count_if opens_turn bs"
    unfolding meta_build_append meta_push_turns inv(4) by simp
  then show ?thesis
    using o by (simp add: acc_fold_def acc_session_meta_def acc_open_snapshot_def inv(4) meta_build_append)
qed

subsection \<open>The store is invisible\<close>

text \<open>The accumulator as it would be with its committed blocks in memory.\<close>

definition as_mem ::
  "('st, 'bv) store_ops \<Rightarrow> ('p, 'm, 'st, 'bv) acc \<Rightarrow> ('p, 'm, unit, block) acc" where
  "as_mem so a =
     \<lparr>ac_replayer = ac_replayer a, ac_cwd = ac_cwd a, ac_pre = ac_pre a, ac_metrics = ac_metrics a,
      ac_store = (), ac_committed = stored so a, ac_committed_meta = ac_committed_meta a,
      ac_task_fold = ac_task_fold a, ac_boundary = ac_boundary a, ac_emitted = ac_emitted a,
      ac_meta_out = ac_meta_out a, ac_links = ac_links a,
      ac_committed_agents = ac_committed_agents a, ac_committed_inbox = ac_committed_inbox a,
      ac_committed_peers = ac_committed_peers a, ac_since_checkpoint = ac_since_checkpoint a\<rparr>"

lemma as_mem_simps [simp]:
  "ac_replayer (as_mem so a) = ac_replayer a" "ac_cwd (as_mem so a) = ac_cwd a"
  "ac_pre (as_mem so a) = ac_pre a" "ac_metrics (as_mem so a) = ac_metrics a"
  "ac_committed (as_mem so a) = stored so a" "ac_committed_meta (as_mem so a) = ac_committed_meta a"
  "ac_task_fold (as_mem so a) = ac_task_fold a" "ac_boundary (as_mem so a) = ac_boundary a"
  "ac_emitted (as_mem so a) = ac_emitted a" "ac_meta_out (as_mem so a) = ac_meta_out a"
  "ac_links (as_mem so a) = ac_links a" "ac_committed_agents (as_mem so a) = ac_committed_agents a"
  "ac_committed_inbox (as_mem so a) = ac_committed_inbox a"
  "ac_committed_peers (as_mem so a) = ac_committed_peers a"
  "ac_since_checkpoint (as_mem so a) = ac_since_checkpoint a"
  by (simp_all add: as_mem_def)

lemma as_mem_update [simp]:
  "as_mem so (a\<lparr>ac_replayer := r\<rparr>) = (as_mem so a)\<lparr>ac_replayer := r\<rparr>"
  "as_mem so (a\<lparr>ac_cwd := c\<rparr>) = (as_mem so a)\<lparr>ac_cwd := c\<rparr>"
  "as_mem so (a\<lparr>ac_pre := p\<rparr>) = (as_mem so a)\<lparr>ac_pre := p\<rparr>"
  "as_mem so (a\<lparr>ac_metrics := m\<rparr>) = (as_mem so a)\<lparr>ac_metrics := m\<rparr>"
  "as_mem so (a\<lparr>ac_task_fold := t\<rparr>) = (as_mem so a)\<lparr>ac_task_fold := t\<rparr>"
  "as_mem so (a\<lparr>ac_boundary := b\<rparr>) = (as_mem so a)\<lparr>ac_boundary := b\<rparr>"
  "as_mem so (a\<lparr>ac_emitted := e\<rparr>) = (as_mem so a)\<lparr>ac_emitted := e\<rparr>"
  "as_mem so (a\<lparr>ac_meta_out := mo\<rparr>) = (as_mem so a)\<lparr>ac_meta_out := mo\<rparr>"
  "as_mem so (a\<lparr>ac_committed_meta := cm\<rparr>) = (as_mem so a)\<lparr>ac_committed_meta := cm\<rparr>"
  "as_mem so (a\<lparr>ac_committed_agents := g\<rparr>) = (as_mem so a)\<lparr>ac_committed_agents := g\<rparr>"
  "as_mem so (a\<lparr>ac_committed_inbox := i\<rparr>) = (as_mem so a)\<lparr>ac_committed_inbox := i\<rparr>"
  "as_mem so (a\<lparr>ac_committed_peers := q\<rparr>) = (as_mem so a)\<lparr>ac_committed_peers := q\<rparr>"
  "as_mem so (a\<lparr>ac_since_checkpoint := n\<rparr>) = (as_mem so a)\<lparr>ac_since_checkpoint := n\<rparr>"
  by (simp_all add: as_mem_def)

lemma as_mem_identity: "as_mem so (foldl commit_identity a bs) = foldl commit_identity (as_mem so a) bs"
  by (induction bs arbitrary: a) (simp_all add: commit_identity_def)

lemma as_mem_resume:
  "author_resume (as_mem so a) rec = map_prod (as_mem so) id (author_resume a rec)"
  by (simp add: author_resume_def Let_def split: list.split)

lemma as_mem_checkpoint:
  "checkpoint_maybe (as_mem so a) rec = map_prod (as_mem so) id (checkpoint_maybe a rec)"
  by (simp add: checkpoint_maybe_def materialized_def Let_def)

lemma as_mem_record:
  "author_record n rec (as_mem so a) = map_option (as_mem so) (author_record n rec a)"
  by (simp add: author_record_def Let_def drain_recorded_def as_mem_resume as_mem_checkpoint
      flip: as_mem_update split: prod.split)

lemma as_mem_decode:
  "decode_delta ad line (as_mem so a) = map_prod id (as_mem so) (decode_delta ad line a)"
  by (simp add: decode_delta_def Let_def split: prod.split preprocessed.split)

lemma as_mem_candidate: "candidate ad (as_mem so a) = candidate ad a"
  by (simp add: candidate_def fun_eq_iff)

lemma as_mem_fold_line:
  "fold_line ad cand ms (as_mem so a) = map_option (map_prod (as_mem so) id) (fold_line ad cand ms a)"
  by (cases "replay_apply (ad_shaping ad) ms (ac_replayer a)") (auto simp: fold_line_def)

lemma put_all_mem: "put_all in_memory_store uts durs (u, bvs) bs = (u, bvs @ bs)"
  by (induction bs arbitrary: bvs) (simp_all add: in_memory_store_def)

lemma stored_mem [simp]: "stored in_memory_store a = ac_committed a"
  by (simp add: in_memory_store_def)

lemma drain_step_mem:
  assumes "drain_step in_memory_store b = Some b'"
  shows "ac_committed b' = ac_committed b @ apply_spawn_links (ac_links b) (rp_durable (ac_replayer b))"
proof (cases "rp_durable (ac_replayer b) = []")
  case True
  then show ?thesis
    using assms by (auto simp: drain_step_def drain_committed_def apply_spawn_links_def)
next
  case False
  then show ?thesis
    using assms
    by (auto simp: drain_step_some Let_def store_drained_def put_all_mem commit_identity_frame
        dest: author_record_frame)
qed

context lossless_store begin

text \<open>The accumulator's store is sound and every committed locator can be read.\<close>

definition readable :: "('p, 'm, 'st, 'bv) acc \<Rightarrow> bool" where
  "readable a \<longleftrightarrow> sound (ac_store a) \<and> list_all (live (ac_store a)) (ac_committed a)"

lemma as_mem_store:
  assumes "readable a" and "list_all storable bs"
  shows "as_mem so (store_drained so bs a) = store_drained in_memory_store bs (as_mem so a)
    \<and> readable (store_drained so bs a)"
proof -
  have "sound (ac_store (store_drained so bs a))
      \<and> list_all (live (ac_store (store_drained so bs a))) (ac_committed (store_drained so bs a))
      \<and> stored so (store_drained so bs a) = stored so a @ bs"
    using store_drained_reads [OF _ _ assms(2) refl, of a] assms(1) by (simp add: readable_def)
  moreover then have "stored so (store_drained so bs a) = stored so a @ bs" by blast
  ultimately show ?thesis
    by (auto simp: store_drained_def Let_def put_all_mem as_mem_def readable_def split: prod.splits)
qed

lemma author_record_readable:
  "author_record n rec a = Some a' \<Longrightarrow> readable a' = readable a"
  by (simp add: readable_def author_record_frame)

lemma drain_step_mirror:
  assumes r: "readable a" and st: "list_all storable (apply_spawn_links (ac_links a) (rp_durable (ac_replayer a)))"
  shows "drain_step in_memory_store (as_mem so a) = map_option (as_mem so) (drain_step so a)
    \<and> (\<forall>a'. drain_step so a = Some a' \<longrightarrow> readable a')"
proof (cases "rp_durable (ac_replayer a) = []")
  case True
  then show ?thesis
    using r by (simp add: drain_step_def drain_committed_def readable_def)
next
  case False
  define bs where "bs = apply_spawn_links (ac_links a) (rp_durable (ac_replayer a))"
  define a1 where "a1 = foldl commit_identity (a\<lparr>ac_replayer := (ac_replayer a)\<lparr>rp_durable := []\<rparr>\<rparr>) bs"
  have r1: "readable a1"
    using r by (simp add: readable_def a1_def commit_identity_frame)
  have m: "as_mem so a1 = foldl commit_identity ((as_mem so a)\<lparr>ac_replayer := (ac_replayer a)\<lparr>rp_durable := []\<rparr>\<rparr>) bs"
    by (simp add: a1_def as_mem_identity)
  have st1: "as_mem so (store_drained so bs a1) = store_drained in_memory_store bs (as_mem so a1)"
      "readable (store_drained so bs a1)"
    using as_mem_store [OF r1, of bs] st by (simp_all add: bs_def)
  let ?n = "sm_turns (ac_committed_meta a)" and ?rec = "foldl record_block record_default bs"
  have "drain_step so a = author_record ?n ?rec (store_drained so bs a1)"
    using False by (simp add: drain_step_some Let_def a1_def bs_def)
  moreover have "drain_step in_memory_store (as_mem so a)
      = author_record ?n ?rec (store_drained in_memory_store bs (as_mem so a1))"
    unfolding m using False by (simp add: drain_step_some Let_def bs_def)
  ultimately show ?thesis
    using st1(2) author_record_readable by (auto simp: as_mem_record simp flip: st1(1))
qed

lemma advance_at_mirror:
  assumes r: "readable a"
    and m: "advance_at ad in_memory_store offset line (as_mem so a) = Some (b, pf)"
    and st: "\<forall>x\<in>set (ac_committed b). storable x"
  shows "\<exists>a'. advance_at ad so offset line a = Some (a', pf) \<and> as_mem so a' = b \<and> readable a'"
proof -
  obtain d a0 where d: "decode_delta ad line a = (d, a0)"
    by (cases "decode_delta ad line a")
  note fr = decode_delta_frame [OF d]
  have r0: "readable a0" using r fr by (simp add: readable_def)
  show ?thesis
  proof (cases d)
    case None
    then show ?thesis using m d r0 by (auto simp: advance_at_def as_mem_decode)
  next
    case (Some ms)
    let ?delta = "stamp_attachments offset 0 ms"
    let ?cand = "candidate ad a0 offset (ad_pre_state ad (ac_pre a)) (ad_met_state ad (ac_metrics a)) ?delta"
    obtain a1 b2 where a1: "fold_line ad ?cand ?delta a0 = Some (a1, pf)"
        "drain_step in_memory_store (as_mem so a1) = Some b2"
        "b = b2\<lparr>ac_metrics := push_metrics ad line (ac_metrics b2)\<rparr>"
      using m d Some
      by (auto simp: advance_at_def as_mem_decode Let_def as_mem_candidate as_mem_fold_line
          split: bind_splits)
    have r1: "readable a1" and l1: "ac_links a1 = ac_links a0"
      using a1(1) r0 by (auto simp: fold_line_def readable_def split: bind_splits)
    have "list_all storable (apply_spawn_links (ac_links a1) (rp_durable (ac_replayer a1)))"
      using drain_step_mem [OF a1(2)] st a1(3) by (simp add: list_all_iff)
    then obtain a2 where "drain_step so a1 = Some a2" "as_mem so a2 = b2" "readable a2"
      using drain_step_mirror [OF r1] a1(2) by (cases "drain_step so a1") auto
    then show ?thesis
      using d Some a1 by (auto simp: advance_at_def Let_def readable_def)
  qed
qed

end

lemma advance_at_mem_grows:
  assumes "advance_at ad in_memory_store offset line a = Some (b, pf)"
  shows "\<exists>xs. ac_committed b = ac_committed a @ xs"
  using assms
  by (auto simp: advance_at_def fold_line_def Let_def split: prod.splits option.splits bind_splits
      dest!: drain_step_mem decode_delta_frame(3))

lemma advance_lines_mem_grows:
  "advance_lines ad in_memory_store lines pf a = Some (b, pf') \<Longrightarrow> \<exists>xs. ac_committed b = ac_committed a @ xs"
proof (induction lines arbitrary: pf a)
  case (Cons l ls)
  obtain offset line where l: "l = (offset, line)" by (cases l)
  obtain a1 p where "advance_at ad in_memory_store offset line a = Some (a1, p)"
    using Cons.prems l by (auto split: bind_splits)
  then show ?case
    using Cons l advance_at_mem_grows [of ad offset line a a1 p] by fastforce
qed simp

context lossless_store begin

lemma advance_lines_mirror:
  assumes "readable a"
    and "advance_lines ad in_memory_store lines pf (as_mem so a) = Some (b, pf')"
    and "\<forall>x\<in>set (ac_committed b). storable x"
  shows "\<exists>a'. advance_lines ad so lines pf a = Some (a', pf') \<and> as_mem so a' = b \<and> readable a'"
  using assms
proof (induction lines arbitrary: pf a)
  case (Cons l ls)
  obtain offset line where l: "l = (offset, line)" by (cases l)
  obtain b1 p where b1: "advance_at ad in_memory_store offset line (as_mem so a) = Some (b1, p)"
      "advance_lines ad in_memory_store ls (case p of None \<Rightarrow> pf | Some i \<Rightarrow> floor_min pf i) b1 = Some (b, pf')"
    using Cons.prems(2) l by (auto split: bind_splits)
  have "\<forall>x\<in>set (ac_committed b1). storable x"
    using advance_lines_mem_grows [OF b1(2)] Cons.prems(3) by auto
  then obtain a1 where "advance_at ad so offset line a = Some (a1, p)" "as_mem so a1 = b1" "readable a1"
    using advance_at_mirror [OF Cons.prems(1) b1(1)] by blast
  then show ?case
    using Cons.IH [of a1] b1(2) Cons.prems(3) l by auto
qed simp

end

subsection \<open>A reset session\<close>

text \<open>The part of the accumulator the readers look at.\<close>

definition shown_by :: "('m \<Rightarrow> 'n) \<Rightarrow> ('p, 'm, 'st, 'bv) acc \<Rightarrow> ('p, 'n, 'st, 'bv) acc" where
  "shown_by g a =
     \<lparr>ac_replayer = ac_replayer a, ac_cwd = ac_cwd a, ac_pre = ac_pre a, ac_metrics = g (ac_metrics a),
      ac_store = ac_store a, ac_committed = ac_committed a, ac_committed_meta = ac_committed_meta a,
      ac_task_fold = ac_task_fold a, ac_boundary = [], ac_emitted = boundary_default,
      ac_meta_out = [], ac_links = ac_links a, ac_committed_agents = Map.empty,
      ac_committed_inbox = {}, ac_committed_peers = Map.empty, ac_since_checkpoint = 0\<rparr>"

abbreviation shown :: "('p, 'm, 'st, 'bv) acc \<Rightarrow> ('p, 'm, 'st, 'bv) acc" where
  "shown \<equiv> shown_by (\<lambda>m. m)"

abbreviation seen :: "('p, 'm, 'st, 'bv) acc \<Rightarrow> ('p, unit, 'st, 'bv) acc" where
  "seen \<equiv> shown_by (\<lambda>_. ())"

text \<open>The projections of the metrics that go through every update of them: all or nothing.\<close>

definition metric_proj :: "('m \<Rightarrow> 'n) \<Rightarrow> bool" where
  "metric_proj g \<longleftrightarrow> (\<forall>F m m'. g m = g m' \<longrightarrow> g (F m) = g (F m'))"

lemma metric_proj_simps [simp]: "metric_proj (\<lambda>m. m)" "metric_proj (\<lambda>_. c)"
  by (simp_all add: metric_proj_def)

lemma metric_projD: "metric_proj g \<Longrightarrow> g m = g m' \<Longrightarrow> g (F m) = g (F m')"
  unfolding metric_proj_def by (elim allE impE)

lemma shown_simps [simp]:
  "ac_replayer (shown_by g a) = ac_replayer a" "ac_cwd (shown_by g a) = ac_cwd a" "ac_pre (shown_by g a) = ac_pre a"
  "ac_metrics (shown_by g a) = g (ac_metrics a)" "ac_store (shown_by g a) = ac_store a"
  "ac_committed (shown_by g a) = ac_committed a" "ac_committed_meta (shown_by g a) = ac_committed_meta a"
  "ac_task_fold (shown_by g a) = ac_task_fold a" "ac_links (shown_by g a) = ac_links a"
  by (simp_all add: shown_by_def)

lemma shown_eq_iff:
  "shown_by g a = shown_by g b \<longleftrightarrow>
     ac_replayer a = ac_replayer b \<and> ac_cwd a = ac_cwd b \<and> ac_pre a = ac_pre b
     \<and> g (ac_metrics a) = g (ac_metrics b) \<and> ac_store a = ac_store b \<and> ac_committed a = ac_committed b
     \<and> ac_committed_meta a = ac_committed_meta b \<and> ac_task_fold a = ac_task_fold b
     \<and> ac_links a = ac_links b"
  unfolding shown_by_def by simp

lemma identity_shown [simp]: "shown_by g (foldl commit_identity a bs) = shown_by g a"
proof (induction bs arbitrary: a)
  case (Cons x xs)
  have "shown_by g (commit_identity a x) = shown_by g a"
    by (simp add: commit_identity_def shown_by_def)
  then show ?case using Cons by simp
qed simp

lemma resume_shown [simp]: "shown_by g (fst (author_resume a rec)) = shown_by g a"
  by (simp add: author_resume_def Let_def shown_eq_iff split: list.split)

lemma checkpoint_shown [simp]: "shown_by g (fst (checkpoint_maybe a rec)) = shown_by g a"
  by (simp add: checkpoint_maybe_def shown_eq_iff)

lemma record_shown:
  "map_option (shown_by g) (author_record n rec a) =
     (if n \<le> sm_turns (ac_committed_meta a)
         \<and> sm_turns (ac_committed_meta a) \<le> length (rp_user_times (ac_replayer a))
      then Some (shown_by g (a\<lparr>ac_task_fold := (ac_task_fold a)\<lparr>tf_recorded := []\<rparr>\<rparr>)) else None)"
proof -
  have *: "shown_by g (x\<lparr>ac_meta_out := y\<rparr>) = shown_by g x" for x and y
    by (simp add: shown_eq_iff)
  show ?thesis
    by (simp add: author_record_def Let_def case_prod_beta drain_recorded_def *) (simp add: shown_eq_iff)
qed

lemma store_shown:
  "shown_by g a = shown_by g b \<Longrightarrow> shown_by g (store_drained so bs a) = shown_by g (store_drained so bs b)"
  by (auto simp: store_drained_def Let_def shown_eq_iff split: prod.split)

lemma drain_step_shown:
  assumes "shown_by g a = shown_by g b"
  shows "map_option (shown_by g) (drain_step so a) = map_option (shown_by g) (drain_step so b)"
proof (cases "rp_durable (ac_replayer a) = []")
  case True
  then show ?thesis
    using assms by (simp add: drain_step_def drain_committed_def shown_eq_iff)
next
  case False
  define bs where "bs = apply_spawn_links (ac_links a) (rp_durable (ac_replayer a))"
  let ?f = "\<lambda>x. store_drained so bs
    (foldl commit_identity (x\<lparr>ac_replayer := (ac_replayer a)\<lparr>rp_durable := []\<rparr>\<rparr>) bs)"
  have eq: "shown_by g (?f a) = shown_by g (?f b)"
    by (rule store_shown) (use assms in \<open>simp add: shown_eq_iff\<close>)
  let ?n = "sm_turns (ac_committed_meta a)" and ?rec = "foldl record_block record_default bs"
  have "drain_step so a = author_record ?n ?rec (?f a)" "drain_step so b = author_record ?n ?rec (?f b)"
    using False assms by (simp_all add: drain_step_some Let_def bs_def shown_eq_iff)
  then show ?thesis
    using eq by (simp only: record_shown) (simp add: shown_eq_iff)
qed

lemma advance_at_shown:
  assumes "metric_proj g" and "shown_by g a = shown_by g b"
  shows "map_option (map_prod (shown_by g) id) (advance_at ad so offset line a)
    = map_option (map_prod (shown_by g) id) (advance_at ad so offset line b)"
proof -
  obtain d a0 where d: "decode_delta ad line a = (d, a0)" by (cases "decode_delta ad line a")
  obtain d' b0 where d': "decode_delta ad line b = (d', b0)" by (cases "decode_delta ad line b")
  have same: "d' = d" "shown_by g a0 = shown_by g b0"
    using assms d d' metric_projD [OF assms(1)]
    by (auto simp: decode_delta_def Let_def shown_eq_iff split: prod.splits preprocessed.splits)
  show ?thesis
  proof (cases d)
    case None
    then show ?thesis using d d' same by (simp add: advance_at_def)
  next
    case (Some ms)
    let ?delta = "stamp_attachments offset 0 ms"
    have fold_eq: "map_option (map_prod (shown_by g) id) (fold_line ad c ?delta a0)
        = map_option (map_prod (shown_by g) id) (fold_line ad c' ?delta b0)" for c c'
      using same(2) by (cases "replay_apply (ad_shaping ad) ?delta (ac_replayer b0)")
        (auto simp: fold_line_def shown_eq_iff)
    have step: "map_option (shown_by g) (drain_step so x) = map_option (shown_by g) (drain_step so y)
        \<Longrightarrow> map_option (map_prod (shown_by g) id)
              (do { z \<leftarrow> drain_step so x; Some (z\<lparr>ac_metrics := push_metrics ad line (ac_metrics z)\<rparr>, p) })
          = map_option (map_prod (shown_by g) id)
              (do { z \<leftarrow> drain_step so y; Some (z\<lparr>ac_metrics := push_metrics ad line (ac_metrics z)\<rparr>, p) })"
      for x y and p :: "nat option"
      by (cases "drain_step so x"; cases "drain_step so y") (auto simp: shown_eq_iff intro: metric_projD [OF assms(1)])
    show ?thesis
    proof -
      let ?c = "\<lambda>x y. candidate ad x offset (ad_pre_state ad (ac_pre y)) (ad_met_state ad (ac_metrics y)) ?delta"
      consider "fold_line ad (?c a0 a) ?delta a0 = None" "fold_line ad (?c b0 b) ?delta b0 = None"
        | x y p where "fold_line ad (?c a0 a) ?delta a0 = Some (x, p)"
            "fold_line ad (?c b0 b) ?delta b0 = Some (y, p)" "shown_by g x = shown_by g y"
        using fold_eq [of "?c a0 a" "?c b0 b"]
        by (cases "fold_line ad (?c a0 a) ?delta a0"; cases "fold_line ad (?c b0 b) ?delta b0") auto
      then show ?thesis
      proof cases
        case 1
        then show ?thesis using d d' same Some by (simp add: advance_at_def Let_def)
      next
        case (2 x y p)
        then show ?thesis
          using d d' same Some step [OF drain_step_shown [OF 2(3)], of p]
          by (simp add: advance_at_def Let_def)
      qed
    qed
  qed
qed

lemma advance_lines_shown:
  assumes "metric_proj g" and "shown_by g a = shown_by g b" and "advance_lines ad so lines pf a = Some (a', q)"
  shows "\<exists>b'. advance_lines ad so lines pf b = Some (b', q) \<and> shown_by g a' = shown_by g b'"
  using assms(2,3)
proof (induction lines arbitrary: pf a b)
  case (Cons l ls)
  obtain offset line where l: "l = (offset, line)" by (cases l)
  obtain a1 p where a1: "advance_at ad so offset line a = Some (a1, p)"
      "advance_lines ad so ls (case p of None \<Rightarrow> pf | Some i \<Rightarrow> floor_min pf i) a1 = Some (a', q)"
    using Cons.prems(2) l by (auto split: bind_splits)
  obtain b1 where "advance_at ad so offset line b = Some (b1, p)" "shown_by g a1 = shown_by g b1"
    using advance_at_shown [OF assms(1) Cons.prems(1), of ad so offset line] a1(1)
    by (cases "advance_at ad so offset line b") auto
  then show ?case
    using Cons.IH [of a1 b1] a1(2) l by auto
qed simp

lemma advance_lines_append:
  "advance_lines ad so (xs @ ys) pf a =
     do { (a', p) \<leftarrow> advance_lines ad so xs pf a; advance_lines ad so ys p a' }"
proof (induction xs arbitrary: pf a)
  case (Cons l ls)
  obtain offset line where "l = (offset, line)" by (cases l)
  then show ?case
    by (cases "advance_at ad so offset line a") (auto simp: Cons.IH)
qed simp

lemma author_record_meta_out:
  "author_record n rec a = Some a' \<Longrightarrow> \<exists>r. ac_meta_out a' = ac_meta_out a @ [r]"
proof -
  have "ac_meta_out (fst (author_resume x rec')) = ac_meta_out x"
    "ac_meta_out (fst (checkpoint_maybe x rec')) = ac_meta_out x" for x :: "('a, 'b, 'c, 'd) acc" and rec'
    by (simp_all add: author_resume_def checkpoint_maybe_def Let_def split: list.split)
  then show "author_record n rec a = Some a' \<Longrightarrow> ?thesis"
    by (auto simp: author_record_def Let_def case_prod_beta drain_recorded_def split: if_splits)
qed

lemma commit_identity_meta_out: "ac_meta_out (foldl commit_identity a bs) = ac_meta_out a"
  by (induction bs arbitrary: a) (simp_all add: commit_identity_def)

lemma advance_at_meta_out:
  assumes "advance_at ad so offset line a = Some (a', pf)"
  shows "\<exists>rs. ac_meta_out a' = ac_meta_out a @ rs"
proof (cases "decode_delta ad line a")
  case (Pair d a0)
  have 0: "ac_meta_out a0 = ac_meta_out a"
    using Pair by (auto simp: decode_delta_def Let_def split: prod.splits preprocessed.splits)
  show ?thesis
  proof (cases d)
    case None
    then show ?thesis using assms Pair 0 by (simp add: advance_at_def)
  next
    case (Some ms)
    obtain c a1 a2 where 1: "fold_line ad c (stamp_attachments offset 0 ms) a0 = Some (a1, pf)"
        "drain_step so a1 = Some a2" "ac_meta_out a' = ac_meta_out a2"
      using assms Pair Some by (auto simp: advance_at_def Let_def split: bind_splits)
    have 2: "ac_meta_out a1 = ac_meta_out a0"
      using 1(1) by (auto simp: fold_line_def split: bind_splits)
    show ?thesis
    proof (cases "rp_durable (ac_replayer a1) = []")
      case True
      then show ?thesis using 0 1 2 by (auto simp: drain_step_def drain_committed_def)
    next
      case False
      have "ac_meta_out (store_drained so bs x) = ac_meta_out x" for bs and x :: "('a, 'b, 'c, 'd) acc"
        by (simp add: store_drained_def Let_def split: prod.split)
      then show ?thesis
        using 0 1 2 False author_record_meta_out
        by (fastforce simp: drain_step_some Let_def commit_identity_meta_out)
    qed
  qed
qed

lemma advance_lines_meta_out:
  "advance_lines ad so lines pf a = Some (a', pf') \<Longrightarrow> \<exists>rs. ac_meta_out a' = ac_meta_out a @ rs"
proof (induction lines arbitrary: pf a)
  case (Cons l ls)
  obtain offset line where l: "l = (offset, line)" by (cases l)
  obtain a1 p where "advance_at ad so offset line a = Some (a1, p)"
    using Cons.prems l by (auto split: bind_splits)
  then show ?case
    using Cons l advance_at_meta_out [of ad so offset line a a1 p] by fastforce
qed simp

abbreviation mem_inv :: "('p, 'm, unit, block) acc \<Rightarrow> bool" where
  "mem_inv \<equiv> acc_inv in_memory_store (\<lambda>_. True) (\<lambda>_ _. True)"

lemma mem_new: "mem_inv (acc_new ad ())"
  using mem.acc_new_inv by simp

lemma mem_lines:
  assumes "hooks_ok (ad_shaping ad)" and "decoder_ok ad" and "mem_inv a"
  obtains a' pf' where "advance_lines ad in_memory_store lines pf a = Some (a', pf')" "mem_inv a'"
  using mem.advance_lines_keep [OF assms(1,2) _ assms(3), of lines pf] by auto

lemma advance_at_links: "advance_at ad so offset line a = Some (a', pf) \<Longrightarrow> ac_links a' = ac_links a"
proof -
  assume s: "advance_at ad so offset line a = Some (a', pf)"
  have "ac_links a'' = ac_links a1" if "drain_step so a1 = Some a''" for a1 a'' :: "('a, 'b, 'c, 'd) acc"
    using that
    by (cases "rp_durable (ac_replayer a1) = []")
      (auto simp: drain_step_def drain_committed_def Let_def store_drained_def commit_identity_frame
        dest!: author_record_frame(5) split: prod.splits if_splits)
  then show "ac_links a' = ac_links a"
    using s
    by (auto simp: advance_at_def fold_line_def Let_def split: prod.splits option.splits bind_splits
        dest!: decode_delta_frame(5))
qed

lemma advance_lines_links:
  "advance_lines ad so ls pf a = Some (b, q) \<Longrightarrow> ac_links b = ac_links a"
proof (induction ls arbitrary: pf a)
  case (Cons l ls)
  then show ?case by (cases l) (auto split: bind_splits dest: advance_at_links)
qed simp

subsection \<open>Claims\<close>

text \<open>
  C5: a parse never panics, and its parts agree.  Whatever the lines are, the batch parse
  returns an accumulator whose reader gets blocks, a header that is the header of exactly those
  blocks, one turn time per counted turn, and the committed blocks as a prefix.
\<close>

theorem parse_shows_consistently:
  assumes "hooks_ok (ad_shaping ad)" and "decoder_ok ad"
  shows "\<exists>a blocks times. parse_lines ad in_memory_store () lines = Some a
    \<and> acc_fold ad in_memory_store a = Some (blocks, times)
    \<and> acc_session_meta ad a = Some (meta_build blocks)
    \<and> length times = sm_turns (meta_build blocks)
    \<and> take (length (ac_committed a)) blocks = ac_committed a"
proof -
  obtain a pf where "advance_lines ad in_memory_store lines None (acc_new ad ()) = Some (a, pf)"
      "mem_inv a"
    by (rule mem_lines [OF assms mem_new])
  then show ?thesis
    using acc_shown [OF assms(1), of in_memory_store "\<lambda>_. True" "\<lambda>_ _. True" a] stored_mem [of a]
    by (auto simp: parse_lines_def simp del: map_is_Nil_conv)
qed

text \<open>A small adapter: every line is the text of a user turn, and every line is counted.\<close>

definition text_adapter :: "(unit, nat) adapter" where
  "text_adapter =
     \<lparr>ad_shaping = codex_shaping plain_env,
      ad_decode = (\<lambda>line cwd. ([LineStart None, MUserText line], cwd)),
      ad_pre_new = (), ad_pre_process = (\<lambda>p _. (PreInclude, p)), ad_pre_state = (\<lambda>_. JNull),
      ad_pre_restore = (\<lambda>p _. p), ad_met_new = 0, ad_met_push = (\<lambda>m _. m),
      ad_met_malformed = Suc, ad_met_bump = (\<lambda>m _ n. m + n),
      ad_met_totals = (\<lambda>m. ([], [(''malformed'', m)], None)), ad_met_state = (\<lambda>_. JNull),
      ad_met_restore = (\<lambda>m _. m),
      ad_met_reseed = (\<lambda>m (_, extra, _). m + sum_list (map snd extra)),
      ad_parse = (\<lambda>_. None)\<rparr>"

lemma text_adapter_ok: "hooks_ok (ad_shaping text_adapter)" "decoder_ok text_adapter"
  using codex_hooks by (simp_all add: text_adapter_def decoder_ok_def)

theorem parse_shows_consistently_witness:
  "\<exists>a blocks times. parse_lines text_adapter in_memory_store () [(0, ''a''), (2, ''b'')] = Some a
    \<and> acc_fold text_adapter in_memory_store a = Some (blocks, times)
    \<and> acc_session_meta text_adapter a = Some (meta_build blocks)
    \<and> length times = sm_turns (meta_build blocks)
    \<and> take (length (ac_committed a)) blocks = ac_committed a"
  by (rule parse_shows_consistently [OF text_adapter_ok])

text \<open>
  A live session only appends.  Feeding more lines to an accumulator that has read some
  keeps every committed block and every authored meta record, in place; and reading the lines in
  two portions is reading them at once.
\<close>

theorem more_lines_append:
  assumes "hooks_ok (ad_shaping ad)" and "decoder_ok ad"
  shows "\<exists>a pf b qf. advance_lines ad in_memory_store xs None (acc_new ad ()) = Some (a, pf)
    \<and> advance_lines ad in_memory_store ys pf a = Some (b, qf)
    \<and> advance_lines ad in_memory_store (xs @ ys) None (acc_new ad ()) = Some (b, qf)
    \<and> take (length (ac_committed a)) (ac_committed b) = ac_committed a
    \<and> take (length (ac_meta_out a)) (ac_meta_out b) = ac_meta_out a"
proof -
  obtain a pf where a: "advance_lines ad in_memory_store xs None (acc_new ad ()) = Some (a, pf)"
      "mem_inv a"
    by (rule mem_lines [OF assms mem_new])
  obtain b qf where b: "advance_lines ad in_memory_store ys pf a = Some (b, qf)"
    by (rule mem_lines [OF assms a(2)])
  show ?thesis
    using a(1) b advance_lines_mem_grows [OF b] advance_lines_meta_out [OF b]
    by (auto simp: advance_lines_append)
qed

theorem more_lines_append_witness:
  "\<exists>a pf b qf.
      advance_lines text_adapter in_memory_store [(0, ''a'')] None (acc_new text_adapter ()) = Some (a, pf)
    \<and> advance_lines text_adapter in_memory_store [(2, ''b'')] pf a = Some (b, qf)
    \<and> advance_lines text_adapter in_memory_store ([(0, ''a'')] @ [(2, ''b'')]) None (acc_new text_adapter ())
       = Some (b, qf)
    \<and> take (length (ac_committed a)) (ac_committed b) = ac_committed a
    \<and> take (length (ac_meta_out a)) (ac_meta_out b) = ac_meta_out a"
  by (rule more_lines_append [OF text_adapter_ok])

text \<open>
  C6: the on-disk block store is a refinement of the in-memory one.  If the parse with blocks
  in memory commits only blocks that the store can hold (they decode back and their size fits
  the 32-bit field of the locator), then the parse with the on-disk store succeeds with the same
  patch floor, reads back exactly the same blocks, writes the same meta records, and shows the
  same.
\<close>

theorem disk_store_refines_memory:
  assumes "parse_lines ad in_memory_store () lines = Some b"
    and "\<forall>x\<in>set (ac_committed b). tier_storable enc dec x"
  shows "\<exists>a. parse_lines ad (tier_store enc dec) (BackFile [] 0 0) lines = Some a
    \<and> map (tier_get dec (ac_store a)) (ac_committed a) = ac_committed b
    \<and> ac_meta_out a = ac_meta_out b
    \<and> acc_fold ad (tier_store enc dec) a = acc_fold ad in_memory_store b"
proof -
  have new: "as_mem (tier_store enc dec) (acc_new ad (BackFile [] 0 0)) = acc_new ad ()"
    by (simp add: as_mem_def acc_new_def)
  have r: "tier.readable (acc_new ad (BackFile [] 0 0))"
    by (simp add: tier.readable_def acc_new_def)
  obtain pf where "advance_lines ad in_memory_store lines None (acc_new ad ()) = Some (b, pf)"
    using assms(1) by (auto simp: parse_lines_def)
  then have m: "advance_lines ad in_memory_store lines None
      (as_mem (tier_store enc dec) (acc_new ad (BackFile [] 0 0))) = Some (b, pf)"
    by (simp only: new)
  obtain a where "advance_lines ad (tier_store enc dec) lines None (acc_new ad (BackFile [] 0 0)) = Some (a, pf)"
      "as_mem (tier_store enc dec) a = b"
    using tier.advance_lines_mirror [OF r m assms(2)] by blast
  then show ?thesis
    by (auto simp: parse_lines_def tier_store_def acc_fold_def acc_open_snapshot_def in_memory_store_def)
qed

fun text_enc :: "block \<Rightarrow> string" where
  "text_enc (UserText t) = t"
| "text_enc _ = []"

theorem disk_store_refines_memory_witness:
  "\<exists>a b. parse_lines text_adapter in_memory_store () [(0, ''a''), (2, ''b'')] = Some b
    \<and> ac_committed b = [UserText ''a'']
    \<and> parse_lines text_adapter (tier_store text_enc UserText) (BackFile [] 0 0) [(0, ''a''), (2, ''b'')] = Some a
    \<and> map (tier_get UserText (ac_store a)) (ac_committed a) = [UserText ''a'']"
proof -
  have "map_option ac_committed (parse_lines text_adapter in_memory_store () [(0, ''a''), (2, ''b'')])
      = Some [UserText ''a'']"
    by code_simp
  then obtain b where "parse_lines text_adapter in_memory_store () [(0, ''a''), (2, ''b'')] = Some b"
      "ac_committed b = [UserText ''a'']"
    by auto
  then show ?thesis
    using disk_store_refines_memory [of text_adapter "[(0, ''a''), (2, ''b'')]" b text_enc UserText]
    by (auto simp: tier_storable_def)
qed

text \<open>
  C7: a session re-read after a reset shows what a fresh parse shows.  When the transcript was
  truncated or replaced, the follower resets the accumulator; whatever was read before, the
  blocks, the turn times and the header of the second reading are those of a fresh one with the
  same spawn links.
\<close>

theorem reset_rereads:
  assumes "advance_lines ad in_memory_store xs None (set_spawn_links links (acc_new ad ())) = Some (a, pf)"
    and "advance_lines ad in_memory_store ys None (acc_reset ad in_memory_store a) = Some (b, qf)"
  shows "\<exists>c. advance_lines ad in_memory_store ys None (set_spawn_links links (acc_new ad ())) = Some (c, qf)
    \<and> acc_fold ad in_memory_store c = acc_fold ad in_memory_store b
    \<and> acc_session_meta ad c = acc_session_meta ad b
    \<and> tf_list (ac_task_fold c) = tf_list (ac_task_fold b)"
proof -
  have "shown (acc_reset ad in_memory_store a) = shown (set_spawn_links links (acc_new ad ()))"
    using advance_lines_links [OF assms(1)]
    by (simp add: shown_eq_iff acc_reset_def set_spawn_links_def acc_new_def in_memory_store_def)
  then obtain c where "advance_lines ad in_memory_store ys None (set_spawn_links links (acc_new ad ())) = Some (c, qf)"
      "shown b = shown c"
    using advance_lines_shown [OF metric_proj_simps(1) _ assms(2)] by blast
  then show ?thesis
    unfolding shown_eq_iff
    by (auto simp: acc_fold_def acc_session_meta_def acc_open_snapshot_def)
qed

theorem reset_rereads_witness:
  "\<exists>a pf b qf c.
      advance_lines text_adapter in_memory_store [(0, ''x''), (2, ''y'')] None
        (set_spawn_links [] (acc_new text_adapter ())) = Some (a, pf)
    \<and> advance_lines text_adapter in_memory_store [(0, ''z'')] None
        (acc_reset text_adapter in_memory_store a) = Some (b, qf)
    \<and> advance_lines text_adapter in_memory_store [(0, ''z'')] None
        (set_spawn_links [] (acc_new text_adapter ())) = Some (c, qf)
    \<and> acc_fold text_adapter in_memory_store c = acc_fold text_adapter in_memory_store b"
proof -
  have new: "mem_inv (set_spawn_links [] (acc_new text_adapter ()))"
    using mem_new [of text_adapter] by (simp add: set_spawn_links_def acc_new_def)
  obtain a pf where a: "advance_lines text_adapter in_memory_store [(0, ''x''), (2, ''y'')] None
        (set_spawn_links [] (acc_new text_adapter ())) = Some (a, pf)"
      "mem_inv a"
    by (rule mem_lines [OF text_adapter_ok new])
  obtain b qf where "advance_lines text_adapter in_memory_store [(0, ''z'')] None
        (acc_reset text_adapter in_memory_store a) = Some (b, qf)"
    by (rule mem_lines [OF text_adapter_ok mem.acc_reset_inv [OF a(2), of text_adapter], of "[(0, ''z'')]" None])
  then show ?thesis
    using reset_rereads [OF a(1)] a(1) by blast
qed

end
