(* ===== verification/Meta_Sync.thy ===== *)
theory Meta_Sync
  imports Parse_Props
begin

text \<open>
  The meta stream a session authors agrees with the session: folding its records gives the
  state the accumulator holds, so the checkpoints it embeds never disagree with the records
  before them, and aligning the stream at its end gives the live state back.
\<close>

subsection \<open>Committed turns keep their times\<close>

text \<open>The first \<open>n\<close> turn times and durations stay as they are.\<close>

definition keeps_times :: "nat \<Rightarrow> replayer \<Rightarrow> replayer \<Rightarrow> bool" where
  "keeps_times n r r' \<longleftrightarrow>
     take n (rp_user_times r') = take n (rp_user_times r)
     \<and> take n (rp_turn_durations r') = take n (rp_turn_durations r)
     \<and> length (rp_user_times r) \<le> length (rp_user_times r')"

lemma keeps_times_trans: "keeps_times n a b \<Longrightarrow> keeps_times n b c \<Longrightarrow> keeps_times n a c"
  by (simp add: keeps_times_def)

lemma keeps_times_frame:
  "rp_user_times r' = rp_user_times r \<Longrightarrow> rp_turn_durations r' = rp_turn_durations r
     \<Longrightarrow> keeps_times n r r'"
  by (simp add: keeps_times_def)

lemma pop_at_durations [simp]: "rp_turn_durations (pop_at k r) = rp_turn_durations r"
  "rp_user_times (pop_at k r) = rp_user_times r"
  by (simp_all add: pop_at_def)

lemma pop_content_durations [simp]: "rp_turn_durations (pop_content c r) = rp_turn_durations r"
  "rp_user_times (pop_content c r) = rp_user_times r"
  by (simp_all add: pop_content_def split: option.split)

lemma take_resize: "n \<le> length xs \<Longrightarrow> length xs \<le> k \<Longrightarrow> take n (resize k x xs) = take n xs"
  by (simp add: resize_def)

lemma stamp_keeps_times:
  assumes "rep_inv r" and "n \<le> length (rp_user_times r)" and "stamp_window r = Some r'"
  shows "keeps_times n r r'"
proof -
  have "length (rp_turn_durations r) = length (rp_user_times r)"
    using assms(1) by (simp add: rep_inv_def)
  then show ?thesis
    using assms(2,3)
    by (auto simp: stamp_window_def stamp_user_turns_def keeps_times_def take_resize split: if_splits)
qed

text \<open>The arms that touch neither list.\<close>

definition quiet :: "replayer \<Rightarrow> fold_state option \<Rightarrow> bool" where
  "quiet r res \<longleftrightarrow> (\<forall>s. res = Some s \<longrightarrow> rp_user_times (fst s) = rp_user_times r
     \<and> rp_turn_durations (fst s) = rp_turn_durations r)"

lemma quiet_None [simp]: "quiet r None"
  by (simp add: quiet_def)

lemma quiet_Some [simp]:
  "quiet r (Some s) \<longleftrightarrow> rp_user_times (fst s) = rp_user_times r
     \<and> rp_turn_durations (fst s) = rp_turn_durations r"
  by (simp add: quiet_def)

lemma quiet_pushed [simp]:
  "quiet r (pushed b s) \<longleftrightarrow> rp_user_times (fst s) = rp_user_times r
     \<and> rp_turn_durations (fst s) = rp_turn_durations r"
  by (simp add: pushed_def push_block_def)

lemma quiet_patch_last: "quiet r alt \<Longrightarrow> quiet r (patch_last_or fr f alt (r, pf))"
  by (simp add: patch_last_or_def split: option.split)

lemma quiet_tool_result: "quiet r (apply_tool_result sh fr i raw tur e (r, pf))"
  by (cases "slot_rel r i") (simp_all add: apply_tool_result_def Let_def split: option.split)

lemma quiet_sandbox_run: "quiet r (apply_sandbox_run fr i inside (r, pf))"
  by (cases "slot_rel r i") (simp_all add: apply_sandbox_run_def Let_def split: option.split)

lemma quiet_skill_body: "quiet r (apply_skill_body fr body fb (r, pf))"
  by (cases "rp_last_skill r") (simp_all add: apply_skill_body_def split: option.split)

lemma quiet_arms:
  "quiet r (apply_tool_use sh i name input cwd (r, pf))"
  "quiet r (apply_user_inbox t w ib ims (r, pf))"
  "quiet r (apply_queue_op op c p (r, pf))"
  "quiet r (apply_peer_text f m t q a (r, pf))"
  "quiet r (apply_completion tu ti st d res (r, pf))"
  "quiet r (apply_refused_note i t (r, pf))"
  "quiet r (apply_thinking t ts (r, pf))"
  by (simp_all add: apply_tool_use_def apply_user_inbox_def apply_queue_op_def apply_peer_text_def
      apply_completion_def apply_refused_note_def apply_thinking_def push_block_def Let_def
      split: option.split queue_op_kind.split prod.split)

fun timing :: "message \<Rightarrow> bool" where
  "timing (LineStart _) = True"
| "timing (MTurnDuration _ _) = True"
| "timing _ = False"

lemma quiet_message: "\<not> timing m \<Longrightarrow> quiet r (apply_message sh fr m (r, pf))"
  by (cases m) (simp_all add: quiet_arms quiet_tool_result quiet_sandbox_run quiet_skill_body
      quiet_patch_last Let_def)

lemma take_butlast_short: "n < length xs \<Longrightarrow> take n (butlast xs) = take n xs"
  by (cases xs rule: rev_cases) auto

lemma message_keeps_times:
  assumes inv: "rep_inv r" and n: "n = 0 \<or> n < length (rp_user_times r)"
    and m: "apply_message sh fr m (r, pf) = Some (r', pf')"
  shows "keeps_times n r r'"
proof (cases "timing m")
  case False
  then show ?thesis
    using quiet_message [OF False, of r sh fr pf] m by (auto simp: quiet_def intro: keeps_times_frame)
next
  case True
  have len: "length (rp_turn_durations r) = length (rp_user_times r)"
    using inv by (simp add: rep_inv_def)
  from True show ?thesis
  proof (cases m)
    case (LineStart ts)
    then obtain s where "stamp_window r = Some s" "rp_user_times r' = rp_user_times s"
        "rp_turn_durations r' = rp_turn_durations s"
      using m by (auto simp: apply_line_start_def split: bind_splits)
    moreover have "n \<le> length (rp_user_times r)" using n by auto
    ultimately show ?thesis
      using stamp_keeps_times [OF inv, of n s] by (simp add: keeps_times_def)
  next
    case (MTurnDuration secs at)
    then show ?thesis
      using m n len
      by (auto simp: apply_turn_duration_def keeps_times_def Let_def take_butlast_short split: if_splits)
  qed simp_all
qed

context fold_shaping begin

lemma messages_keep_times:
  assumes "rep_inv r" and "aligned k r" and "list_all msg_ok ms"
    and "n = 0 \<or> n < length (rp_user_times r)"
    and "apply_messages sh fr ms (r, pf) = Some (r', pf')"
  shows "keeps_times n r r'"
  using assms
proof (induction ms arbitrary: r pf)
  case Nil
  then show ?case by (simp add: keeps_times_def)
next
  case (Cons m ms)
  obtain r1 pf1 where 1: "apply_message sh fr m (r, pf) = Some (r1, pf1)" "rep_inv r1" "aligned k r1"
    using message_keeps [OF Cons.prems(1,2), of m fr pf] Cons.prems(3) by auto
  have k: "keeps_times n r r1"
    by (rule message_keeps_times [OF Cons.prems(1,4) 1(1)])
  then have "n = 0 \<or> n < length (rp_user_times r1)"
    using Cons.prems(4) by (auto simp: keeps_times_def)
  then have "keeps_times n r1 r'"
    using Cons.IH [OF 1(2,3)] Cons.prems(3,5) 1(1) by auto
  then show ?case using k keeps_times_trans by blast
qed

text \<open>After a batch that drained something the window still holds a turn.\<close>

lemma finalize_leaves_turn:
  assumes inv: "rep_inv r" and al: "aligned k r" and fin: "finalize_completed sh r = Some r'"
    and n: "n = 0 \<or> n < length (rp_user_times r)"
  shows "keeps_times n r r' \<and> (rp_durable r' = rp_durable r
    \<or> k + count_if opens_turn (rp_durable r') < length (rp_user_times r'))"
proof (cases "commit_point r = 0")
  case True
  then show ?thesis using fin by (simp add: finalize_completed_def keeps_times_def)
next
  case False
  let ?k = "commit_point r"
  have k: "?k < length (rp_out r)" "opens_turn (rp_out r ! ?k)"
    using commit_point_opener [of r] False by auto
  obtain s where s: "stamp_window r = Some s"
    using stamp_window_some [OF inv] by metis
  have so: "rp_out s = rp_out r" "rp_stamped s = rp_base s + length (rp_out s)"
    using s by (auto simp: stamp_window_def stamp_user_turns_def split: if_splits)
  note si = stamp_window_inv [OF inv al s]
  have r': "r' = commit_window sh ?k s"
    using fin False s by (simp add: finalize_completed_def)
  have "keeps_times n r s"
    using stamp_keeps_times [OF inv _ s, of n] n by auto
  then have kt: "keeps_times n r r'"
    by (simp add: r' keeps_times_def)
  have al': "aligned k r'"
    unfolding r' using commit_aligned [of s k ?k] si so k by auto
  have "rp_out r' = drop ?k (rp_out r)" "window_stamped r' = length (rp_out r')"
    using so k by (simp_all add: r' window_stamped_def)
  moreover have "0 < count_if opens_turn (drop ?k (rp_out r))"
    using k by (simp flip: Cons_nth_drop_Suc)
  ultimately show ?thesis
    using kt al' by (simp add: aligned_def)
qed

end

subsection \<open>Deltas of growing counters\<close>

definition long_prompt_le :: "long_prompt \<Rightarrow> long_prompt \<Rightarrow> bool" where
  "long_prompt_le a b \<longleftrightarrow> lp_input a \<le> lp_input b \<and> lp_cache_creation a \<le> lp_cache_creation b
     \<and> lp_cache_read a \<le> lp_cache_read b \<and> lp_output a \<le> lp_output b
     \<and> lp_cache_creation_1h a \<le> lp_cache_creation_1h b"

definition tokens_le :: "token_counts \<Rightarrow> token_counts \<Rightarrow> bool" where
  "tokens_le a b \<longleftrightarrow> tc_input a \<le> tc_input b \<and> tc_cache_creation a \<le> tc_cache_creation b
     \<and> tc_cache_read a \<le> tc_cache_read b \<and> tc_output a \<le> tc_output b
     \<and> tc_cache_creation_1h a \<le> tc_cache_creation_1h b
     \<and> long_prompt_le (tc_long_prompt a) (tc_long_prompt b)"

lemma tokens_add_sub: "tokens_le a b \<Longrightarrow> tokens_add a (tokens_sub b a) = b"
  by (cases b; cases "tc_long_prompt b")
    (simp add: tokens_le_def long_prompt_le_def tokens_add_def tokens_sub_def long_prompt_add_def
      long_prompt_sub_def)

lemma tokens_sub_zero: "tokens_sub b tokens_zero = b"
  by (cases b; cases "tc_long_prompt b")
    (simp add: tokens_sub_def long_prompt_sub_def tokens_zero_def long_prompt_zero_def)

lemma tokens_add_zero [simp]: "tokens_add tokens_zero b = b"
  by (cases b; cases "tc_long_prompt b")
    (simp add: tokens_add_def long_prompt_add_def tokens_zero_def long_prompt_zero_def)

lemma tokens_sub_none: "tokens_le a b \<Longrightarrow> tokens_sub b a = tokens_zero \<Longrightarrow> b = a"
  by (cases a; cases b; cases "tc_long_prompt a"; cases "tc_long_prompt b")
    (auto simp: tokens_le_def long_prompt_le_def tokens_sub_def long_prompt_sub_def tokens_zero_def
      long_prompt_zero_def)

lemma tokens_le_zero [simp]: "tokens_le a tokens_zero \<longleftrightarrow> a = tokens_zero"
  by (cases a; cases "tc_long_prompt a")
    (auto simp: tokens_le_def long_prompt_le_def tokens_zero_def long_prompt_zero_def)

lemma tokens_le_refl [simp]: "tokens_le a a"
  by (simp add: tokens_le_def long_prompt_le_def)

lemma tokens_le_trans: "tokens_le a b \<Longrightarrow> tokens_le b c \<Longrightarrow> tokens_le a c"
  by (auto simp: tokens_le_def long_prompt_le_def)

text \<open>One capture of the totals precedes another of the same growing fold.\<close>

definition grows_to :: "metrics_totals \<Rightarrow> metrics_totals \<Rightarrow> bool" where
  "grows_to s t \<longleftrightarrow>
     (\<forall>k a. map_of (fst s) k = Some a \<longrightarrow> (\<exists>b. map_of (fst t) k = Some b \<and> tokens_le a b))
     \<and> (\<forall>k a. map_of (fst (snd s)) k = Some a \<longrightarrow> (\<exists>b. map_of (fst (snd t)) k = Some b \<and> a \<le> b))
     \<and> (snd (snd s) \<noteq> None \<longrightarrow> snd (snd t) \<noteq> None)"

definition totals_ok :: "metrics_totals \<Rightarrow> bool" where
  "totals_ok t \<longleftrightarrow> distinct (map fst (fst t)) \<and> distinct (map fst (fst (snd t)))"

lemma grows_to_refl [simp]: "grows_to t t"
  by (auto simp: grows_to_def)

lemma grows_to_tokens:
  "grows_to s t \<Longrightarrow> map_of (fst s) k = Some a \<Longrightarrow> \<exists>b. map_of (fst t) k = Some b \<and> tokens_le a b"
  unfolding grows_to_def by blast

lemma grows_to_extra:
  "grows_to s t \<Longrightarrow> map_of (fst (snd s)) k = Some a \<Longrightarrow> \<exists>b. map_of (fst (snd t)) k = Some b \<and> a \<le> b"
  unfolding grows_to_def by blast

lemma grows_to_span: "grows_to s t \<Longrightarrow> snd (snd s) \<noteq> None \<Longrightarrow> snd (snd t) \<noteq> None"
  unfolding grows_to_def by blast

lemma grows_to_trans:
  assumes "grows_to a b" and "grows_to b c"
  shows "grows_to a c"
  unfolding grows_to_def
proof (intro conjI allI impI)
  show "\<exists>v. map_of (fst c) k = Some v \<and> tokens_le x v" if "map_of (fst a) k = Some x" for k x
    using grows_to_tokens [OF assms(1) that] grows_to_tokens [OF assms(2)] tokens_le_trans by blast
  show "\<exists>v. map_of (fst (snd c)) k = Some v \<and> x \<le> v" if "map_of (fst (snd a)) k = Some x" for k x
    using grows_to_extra [OF assms(1) that] grows_to_extra [OF assms(2)] le_trans by blast
  show "snd (snd c) \<noteq> None" if "snd (snd a) \<noteq> None"
    using grows_to_span [OF assms(2) grows_to_span [OF assms(1) that]] .
qed

lemma grows_to_zero [simp]: "grows_to ([], [], None) t" and totals_ok_zero [simp]: "totals_ok ([], [], None)"
  by (simp_all add: grows_to_def totals_ok_def)

lemma map_of_filter_value:
  "distinct (map fst xs) \<Longrightarrow> map_of (filter (\<lambda>(_, v). P v) xs) k =
     (case map_of xs k of None \<Rightarrow> None | Some v \<Rightarrow> if P v then Some v else None)"
proof (induction xs)
  case (Cons x xs)
  obtain a b where x: "x = (a, b)" by (cases x)
  have "map_of xs a = None" using Cons.prems x by (simp add: map_of_eq_None_iff)
  then show ?case using Cons x by (auto split: option.split)
qed simp

lemma add_tokens_lookup:
  "distinct (map fst rows) \<Longrightarrow> add_tokens m rows k =
     (case map_of rows k of None \<Rightarrow> m k
      | Some c \<Rightarrow> Some (tokens_add (case m k of None \<Rightarrow> tokens_zero | Some x \<Rightarrow> x) c))"
proof (induction rows arbitrary: m)
  case (Cons x xs)
  obtain a b where x: "x = (a, b)" by (cases x)
  have "map_of xs a = None" using Cons.prems x by (simp add: map_of_eq_None_iff)
  then show ?case using Cons x by (auto split: option.split)
qed simp

lemma add_extra_lookup:
  "distinct (map fst rows) \<Longrightarrow> add_extra m rows k =
     (case map_of rows k of None \<Rightarrow> m k
      | Some c \<Rightarrow> Some ((case m k of None \<Rightarrow> 0 | Some x \<Rightarrow> x) + c))"
proof (induction rows arbitrary: m)
  case (Cons x xs)
  obtain a b where x: "x = (a, b)" by (cases x)
  have "map_of xs a = None" using Cons.prems x by (simp add: map_of_eq_None_iff)
  then show ?case using Cons x by (auto split: option.split)
qed simp

lemma map_of_map_keys:
  "map_of (map (\<lambda>(m, c). (m, f m c)) xs) k = map_option (f k) (map_of xs k)"
  by (induction xs) auto

lemma token_deltas_add:
  assumes "totals_ok s" and "totals_ok t" and "grows_to s t"
  shows "add_tokens (map_of (filter (\<lambda>(_, v). v \<noteq> tokens_zero) (fst s))) (token_deltas (fst t) (fst s))
    = map_of (filter (\<lambda>(_, v). v \<noteq> tokens_zero) (fst t))"
proof
  fix k
  let ?f = "\<lambda>m c. tokens_sub c (case map_of (fst s) m of None \<Rightarrow> tokens_zero | Some p \<Rightarrow> p)"
  have d: "distinct (map fst (map (\<lambda>(m, c). (m, ?f m c)) (fst t)))"
    using assms(2) by (simp add: totals_ok_def comp_def case_prod_beta)
  then have d': "distinct (map fst (token_deltas (fst t) (fst s)))"
    by (simp add: token_deltas_def distinct_map_filter)
  have look: "map_of (token_deltas (fst t) (fst s)) k =
      (case map_of (fst t) k of None \<Rightarrow> None
       | Some c \<Rightarrow> if ?f k c \<noteq> tokens_zero then Some (?f k c) else None)"
    unfolding token_deltas_def using map_of_filter_value [OF d, of "\<lambda>d. d \<noteq> tokens_zero" k]
    by (simp add: map_of_map_keys split: option.split)
  show "add_tokens (map_of (filter (\<lambda>(_, v). v \<noteq> tokens_zero) (fst s))) (token_deltas (fst t) (fst s)) k
      = map_of (filter (\<lambda>(_, v). v \<noteq> tokens_zero) (fst t)) k"
  proof (cases "map_of (fst s) k")
    case None
    then show ?thesis
      using assms(1,2) look
      by (simp add: add_tokens_lookup [OF d'] map_of_filter_value totals_ok_def tokens_sub_zero split: option.split)
  next
    case (Some a)
    then obtain b where b: "map_of (fst t) k = Some b" "tokens_le a b"
      using grows_to_tokens [OF assms(3)] by blast
    then show ?thesis
      using assms(1,2) look Some tokens_add_sub [OF b(2)] tokens_sub_none [OF b(2)]
      by (auto simp: add_tokens_lookup [OF d'] map_of_filter_value totals_ok_def tokens_sub_zero)
  qed
qed

lemma extra_deltas_add:
  assumes "totals_ok s" and "totals_ok t" and "grows_to s t"
  shows "add_extra (map_of (filter (\<lambda>(_, v). v \<noteq> 0) (fst (snd s))))
      (extra_deltas (fst (snd t)) (fst (snd s)))
    = map_of (filter (\<lambda>(_, v). v \<noteq> 0) (fst (snd t)))"
proof
  fix k
  let ?s = "fst (snd s)" and ?t = "fst (snd t)"
  let ?f = "\<lambda>m c. c - (case map_of ?s m of None \<Rightarrow> 0 | Some p \<Rightarrow> p)"
  have d: "distinct (map fst (map (\<lambda>(m, c). (m, ?f m c)) ?t))"
    using assms(2) by (simp add: totals_ok_def comp_def case_prod_beta)
  then have d': "distinct (map fst (extra_deltas ?t ?s))"
    by (simp add: extra_deltas_def distinct_map_filter)
  have look: "map_of (extra_deltas ?t ?s) k =
      (case map_of ?t k of None \<Rightarrow> None | Some c \<Rightarrow> if 0 < ?f k c then Some (?f k c) else None)"
    unfolding extra_deltas_def using map_of_filter_value [OF d, of "\<lambda>d. 0 < d" k]
    by (simp add: map_of_map_keys split: option.split)
  show "add_extra (map_of (filter (\<lambda>(_, v). v \<noteq> 0) ?s)) (extra_deltas ?t ?s) k
      = map_of (filter (\<lambda>(_, v). v \<noteq> 0) ?t) k"
  proof (cases "map_of ?s k")
    case None
    then show ?thesis
      using assms(1,2) look
      by (simp add: add_extra_lookup [OF d'] map_of_filter_value totals_ok_def split: option.split)
  next
    case (Some a)
    then obtain b where b: "map_of ?t k = Some b" "a \<le> b"
      using grows_to_extra [OF assms(3)] by blast
    then show ?thesis
      using assms(1,2) look Some
      by (auto simp: add_extra_lookup [OF d'] map_of_filter_value totals_ok_def)
  qed
qed

subsection \<open>What a record carries\<close>

lemma push_delta_fields:
  "mm_session_meta (push_delta mm r) = fst (delta_header (mm_session_meta mm, mm_agent_ids mm) r)"
  "mm_agent_ids (push_delta mm r) = snd (delta_header (mm_session_meta mm, mm_agent_ids mm) r)"
  "mm_user_times (push_delta mm r) = mm_user_times mm @ mr_user_times r"
  "mm_turn_durations (push_delta mm r) =
     resize (length (mm_user_times mm @ mr_user_times r)) None (mm_turn_durations mm @ mr_turn_durations r)"
  "mm_tokens (push_delta mm r) = add_tokens (mm_tokens mm) (mr_tokens r)"
  "mm_extra (push_delta mm r) = add_extra (mm_extra mm) (mr_extra r)"
  "mm_inbox_ids (push_delta mm r) = mm_inbox_ids mm \<union> set (mr_inbox_ids r)"
  "mm_peer_names (push_delta mm r) = insert_rows (mm_peer_names mm) (mr_peer_names r)"
  "mm_tasks (push_delta mm r) = foldl apply_recorded (mm_tasks mm) (mr_task_ops r)"
  "mm_cwd (push_delta mm r) = with_default (mm_cwd mm) (mr_cwd r)"
  "mm_span (push_delta mm r) = (case mr_span r of None \<Rightarrow> mm_span mm | Some s \<Rightarrow> Some s)"
  "mm_sandbox_on (push_delta mm r) = with_default (mm_sandbox_on mm) (mr_sandbox_on r)"
  by (simp_all add: push_delta_header [symmetric]) (simp_all add: push_delta_def Let_def case_prod_beta)

lemma record_block_fields [simp]:
  "mr_turns (record_block rec b) = mr_turns (count_into rec b)"
  "mr_tools (record_block rec b) = mr_tools (count_into rec b)"
  "mr_agents (record_block rec b) = mr_agents (count_into rec b)"
  "mr_inbox_ids (record_block rec b) = mr_inbox_ids rec @ inbox_of b"
  "mr_peer_names (record_block rec b) = mr_peer_names rec @ peer_of b"
  "mr_tokens (record_block rec b) = mr_tokens rec" "mr_extra (record_block rec b) = mr_extra rec"
  "mr_cwd (record_block rec b) = mr_cwd rec" "mr_span (record_block rec b) = mr_span rec"
  "mr_sandbox_on (record_block rec b) = mr_sandbox_on rec"
  "mr_resume (record_block rec b) = mr_resume rec"
  "mr_checkpoint (record_block rec b) = mr_checkpoint rec"
  by (cases b; simp add: record_block_def count_into_def Let_def)+

text \<open>The record of a drain before its times, operations and resume payload.\<close>

lemma record_blocks_plain:
  "mr_tokens (foldl record_block rec bs) = mr_tokens rec"
  "mr_extra (foldl record_block rec bs) = mr_extra rec"
  "mr_cwd (foldl record_block rec bs) = mr_cwd rec"
  "mr_span (foldl record_block rec bs) = mr_span rec"
  "mr_sandbox_on (foldl record_block rec bs) = mr_sandbox_on rec"
  "mr_resume (foldl record_block rec bs) = mr_resume rec"
  "mr_checkpoint (foldl record_block rec bs) = mr_checkpoint rec"
  "mr_inbox_ids (foldl record_block rec bs) = mr_inbox_ids rec @ concat (map inbox_of bs)"
  "mr_peer_names (foldl record_block rec bs) = mr_peer_names rec @ concat (map peer_of bs)"
  by (induction bs arbitrary: rec) simp_all

lemma delta_header_cong:
  "mr_turns r = mr_turns r' \<Longrightarrow> mr_tools r = mr_tools r' \<Longrightarrow> mr_agents r = mr_agents r'
     \<Longrightarrow> delta_header s r = delta_header s r'"
  by (simp add: delta_header_def)

lemma record_blocks_header:
  assumes "list_all plain_spawn bs"
  shows "delta_header s (foldl record_block rec bs) =
     (foldl meta_push (fst (delta_header s rec)) bs,
      foldl (\<lambda>m b. insert_rows m (agent_pairs b)) (snd (delta_header s rec)) bs)"
proof -
  have count_cong: "mr_turns (count_into r b) = mr_turns (count_into r' b)
      \<and> mr_tools (count_into r b) = mr_tools (count_into r' b)
      \<and> mr_agents (count_into r b) = mr_agents (count_into r' b)"
    if "mr_turns r = mr_turns r'" "mr_tools r = mr_tools r'" "mr_agents r = mr_agents r'" for r r' b
    using that by (cases b) (simp_all add: count_into_def)
  have eq: "mr_turns (foldl record_block r bs) = mr_turns (foldl count_into r' bs)
      \<and> mr_tools (foldl record_block r bs) = mr_tools (foldl count_into r' bs)
      \<and> mr_agents (foldl record_block r bs) = mr_agents (foldl count_into r' bs)"
    if "mr_turns r = mr_turns r'" "mr_tools r = mr_tools r'" "mr_agents r = mr_agents r'" for r r'
    using that
  proof (induction bs arbitrary: r r')
    case (Cons b bs)
    show ?case
      using Cons.IH [of "record_block r b" "count_into r' b"] count_cong [OF Cons.prems, of b] by simp
  qed simp
  have "delta_header s (foldl record_block rec bs) = delta_header s (foldl count_into rec bs)"
    using eq [of rec rec] by (intro delta_header_cong) simp_all
  then show ?thesis
    using count_all_header [OF assms, of s rec] by (simp add: prod_eq_iff)
qed

lemma identity_fields:
  "ac_committed_agents (foldl commit_identity a bs) =
     foldl (\<lambda>m b. insert_rows m (agent_pairs b)) (ac_committed_agents a) bs"
  "ac_committed_inbox (foldl commit_identity a bs) =
     ac_committed_inbox a \<union> set (concat (map inbox_of bs))"
  "ac_committed_peers (foldl commit_identity a bs) =
     insert_rows (ac_committed_peers a) (concat (map peer_of bs))"
  "ac_task_fold (foldl commit_identity a bs) = ac_task_fold a"
  "ac_boundary (foldl commit_identity a bs) = ac_boundary a"
  "ac_emitted (foldl commit_identity a bs) = ac_emitted a"
  "ac_meta_out (foldl commit_identity a bs) = ac_meta_out a"
  "ac_since_checkpoint (foldl commit_identity a bs) = ac_since_checkpoint a"
  "ac_metrics (foldl commit_identity a bs) = ac_metrics a"
  by (induction bs arbitrary: a) (simp_all add: commit_identity_def insert_rows_append Un_assoc)

subsection \<open>The invariant\<close>

definition flat :: "meta_record list \<Rightarrow> materialized_meta" where
  "flat rs = foldl push_delta materialized_default rs"

definition totals_of :: "boundary \<Rightarrow> metrics_totals" where
  "totals_of b = (bd_tokens b, bd_extra b, bd_span b)"

text \<open>Folding the records gives the state, up to the task operations not yet in a record.\<close>

definition synced :: "('p, 'm, 'st, 'bv) acc \<Rightarrow> bool" where
  "synced a \<longleftrightarrow>
     (let F = flat (ac_meta_out a)
      in tf_recorded (mm_tasks F) = []
         \<and> F\<lparr>mm_tasks := foldl apply_recorded (mm_tasks F) (tf_recorded (ac_task_fold a))\<rparr>
           = (materialized a)\<lparr>mm_tasks := task_value (ac_task_fold a)\<rparr>)"

text \<open>The captures of the totals are those of one growing fold, oldest first.\<close>

definition history_ok :: "metrics_totals list \<Rightarrow> bool" where
  "history_ok ts \<longleftrightarrow> sorted_wrt grows_to ts \<and> list_all totals_ok ts"

definition captures :: "('p, 'm) adapter \<Rightarrow> ('p, 'm, 'st, 'bv) acc \<Rightarrow> metrics_totals list" where
  "captures ad a =
     totals_of (ac_emitted a) # map totals_of (ac_boundary a) @ [ad_met_totals ad (ac_metrics a)]"

fun checks_ok :: "meta_record list \<Rightarrow> meta_record list \<Rightarrow> bool" where
  "checks_ok old [] = True"
| "checks_ok old (r # rs) =
     ((case mr_checkpoint r of None \<Rightarrow> True | Some c \<Rightarrow> c = flat (old @ [r]))
      \<and> checks_ok (old @ [r]) rs)"

lemma checks_ok_snoc:
  "checks_ok old (rs @ [r]) \<longleftrightarrow> checks_ok old rs
     \<and> (case mr_checkpoint r of None \<Rightarrow> True | Some c \<Rightarrow> c = flat (old @ rs @ [r]))"
  by (induction old rs rule: checks_ok.induct) (simp_all split: option.splits)

definition resumes_below :: "nat \<Rightarrow> meta_record list \<Rightarrow> bool" where
  "resumes_below n rs \<longleftrightarrow> list_all (\<lambda>r. case mr_resume r of None \<Rightarrow> True | Some s \<Rightarrow> rs_id s \<le> n) rs"

definition last_resume :: "nat \<Rightarrow> meta_record list \<Rightarrow> bool" where
  "last_resume n rs \<longleftrightarrow> (\<forall>rs' r x. rs = rs' @ [r] \<longrightarrow> mr_resume r = Some x \<longrightarrow> rs_id x = n)"

definition settled :: "('p, 'm, 'st, 'bv) acc \<Rightarrow> bool" where
  "settled a \<longleftrightarrow> (let n = sm_turns (ac_committed_meta a)
     in n = 0 \<or> n < length (rp_user_times (ac_replayer a)))"

definition meta_inv :: "('p, 'm) adapter \<Rightarrow> ('p, 'm, unit, block) acc \<Rightarrow> bool" where
  "meta_inv ad a \<longleftrightarrow> synced a \<and> history_ok (captures ad a) \<and> checks_ok [] (ac_meta_out a)
     \<and> resumes_below (length (ac_committed a)) (ac_meta_out a)
     \<and> last_resume (length (ac_committed a)) (ac_meta_out a) \<and> settled a"

lemma synced_iff:
  "synced a \<longleftrightarrow>
     (let F = flat (ac_meta_out a); n = sm_turns (ac_committed_meta a); e = ac_emitted a
      in tf_recorded (mm_tasks F) = [] \<and> mm_session_meta F = ac_committed_meta a
         \<and> mm_agent_ids F = ac_committed_agents a
         \<and> mm_user_times F = take n (rp_user_times (ac_replayer a))
         \<and> mm_turn_durations F = take n (rp_turn_durations (ac_replayer a))
         \<and> mm_tokens F = map_of (filter (\<lambda>(_, v). v \<noteq> tokens_zero) (bd_tokens e))
         \<and> mm_extra F = map_of (filter (\<lambda>(_, v). v \<noteq> 0) (bd_extra e))
         \<and> mm_cwd F = bd_cwd e \<and> mm_span F = bd_span e \<and> mm_sandbox_on F = bd_sandbox_on e
         \<and> mm_inbox_ids F = ac_committed_inbox a \<and> mm_peer_names F = ac_committed_peers a
         \<and> foldl apply_recorded (mm_tasks F) (tf_recorded (ac_task_fold a)) = task_value (ac_task_fold a))"
  by (cases "flat (ac_meta_out a)") (auto simp: synced_def materialized_def Let_def)

text \<open>The resume payload moves the gauges and counters of the record to the emitted capture.\<close>

definition moves_to :: "boundary \<Rightarrow> meta_record \<Rightarrow> boundary \<Rightarrow> bool" where
  "moves_to old rec new \<longleftrightarrow>
     add_tokens (map_of (filter (\<lambda>(_, v). v \<noteq> tokens_zero) (bd_tokens old))) (mr_tokens rec)
       = map_of (filter (\<lambda>(_, v). v \<noteq> tokens_zero) (bd_tokens new))
     \<and> add_extra (map_of (filter (\<lambda>(_, v). v \<noteq> 0) (bd_extra old))) (mr_extra rec)
       = map_of (filter (\<lambda>(_, v). v \<noteq> 0) (bd_extra new))
     \<and> with_default (bd_cwd old) (mr_cwd rec) = bd_cwd new
     \<and> with_default (bd_sandbox_on old) (mr_sandbox_on rec) = bd_sandbox_on new
     \<and> (case mr_span rec of None \<Rightarrow> bd_span old | Some s \<Rightarrow> Some s) = bd_span new"

text \<open>Two records with the same counts, identities, times and operations.\<close>

definition same_body :: "meta_record \<Rightarrow> meta_record \<Rightarrow> bool" where
  "same_body r r' \<longleftrightarrow> mr_turns r' = mr_turns r \<and> mr_tools r' = mr_tools r \<and> mr_agents r' = mr_agents r
     \<and> mr_user_times r' = mr_user_times r \<and> mr_turn_durations r' = mr_turn_durations r
     \<and> mr_task_ops r' = mr_task_ops r \<and> mr_inbox_ids r' = mr_inbox_ids r
     \<and> mr_peer_names r' = mr_peer_names r"

lemma author_resume_sync:
  assumes step: "author_resume a rec = (a', rec')" and h: "history_ok (captures ad a)"
    and none: "mr_tokens rec = []" "mr_extra rec = []" "mr_span rec = None" "mr_cwd rec = None"
      "mr_sandbox_on rec = None" "mr_resume rec = None"
  shows "moves_to (ac_emitted a) rec' (ac_emitted a') \<and> history_ok (captures ad a')
    \<and> a' = a\<lparr>ac_emitted := ac_emitted a'\<rparr> \<and> same_body rec rec'
    \<and> mr_checkpoint rec' = mr_checkpoint rec
    \<and> (\<forall>x. mr_resume rec' = Some x \<longrightarrow> rs_id x = length (ac_committed a))"
proof (cases "a' = a \<and> rec' = rec")
  case True
  then show ?thesis
    using h none by (simp add: moves_to_def same_body_def with_default_def)
next
  case False
  then obtain e es where e: "ac_boundary a = e # es" "bd_logical e = rp_base (ac_replayer a)"
    using step by (auto simp: author_resume_def split: list.splits if_splits)
  let ?s = "totals_of (ac_emitted a)" and ?t = "totals_of e"
  have t: "totals_ok ?s" "totals_ok ?t" "grows_to ?s ?t"
    using h e by (auto simp: history_ok_def captures_def)
  have a': "a' = a\<lparr>ac_emitted := e\<rparr>"
    using step e by (auto simp: author_resume_def Let_def)
  have r: "mr_tokens rec' = token_deltas (bd_tokens e) (bd_tokens (ac_emitted a))"
      "mr_extra rec' = extra_deltas (bd_extra e) (bd_extra (ac_emitted a))"
      "mr_span rec' = (if bd_span e \<noteq> bd_span (ac_emitted a) then bd_span e else None)"
      "mr_cwd rec' = (if bd_cwd e \<noteq> bd_cwd (ac_emitted a) then Some (bd_cwd e) else None)"
      "mr_sandbox_on rec' =
         (if bd_sandbox_on e \<noteq> bd_sandbox_on (ac_emitted a) then Some (bd_sandbox_on e) else None)"
    using step e none by (auto simp: author_resume_def Let_def)
  have "(case mr_span rec' of None \<Rightarrow> bd_span (ac_emitted a) | Some s \<Rightarrow> Some s) = bd_span e"
    using r(3) grows_to_span [OF t(3)]
    by (cases "bd_span e"; cases "bd_span (ac_emitted a)") (auto simp: totals_of_def)
  then have "moves_to (ac_emitted a) rec' e"
    using r token_deltas_add [OF t] extra_deltas_add [OF t]
    by (simp add: moves_to_def totals_of_def with_default_def)
  moreover have "history_ok (captures ad a')"
    using h e a' by (auto simp: history_ok_def captures_def)
  ultimately show ?thesis
    using step e a' by (auto simp: author_resume_def Let_def same_body_def)
qed

lemma same_body_push:
  assumes "same_body r r'"
  shows "mm_session_meta (push_delta mm r') = mm_session_meta (push_delta mm r)"
    and "mm_agent_ids (push_delta mm r') = mm_agent_ids (push_delta mm r)"
    and "mm_user_times (push_delta mm r') = mm_user_times (push_delta mm r)"
    and "mm_turn_durations (push_delta mm r') = mm_turn_durations (push_delta mm r)"
    and "mm_inbox_ids (push_delta mm r') = mm_inbox_ids (push_delta mm r)"
    and "mm_peer_names (push_delta mm r') = mm_peer_names (push_delta mm r)"
    and "mm_tasks (push_delta mm r') = mm_tasks (push_delta mm r)"
  using assms delta_header_cong [of r' r] by (simp_all add: push_delta_fields same_body_def)

lemma flat_snoc: "flat (rs @ [r]) = push_delta (flat rs) r"
  by (simp add: flat_def)

lemma author_record_parts:
  assumes "author_record n rec a = Some a'"
  obtains a3 rec2 a4 rec3 where
    "n \<le> sm_turns (ac_committed_meta a)" "sm_turns (ac_committed_meta a) \<le> length (rp_user_times (ac_replayer a))"
    "author_resume
       (a\<lparr>ac_task_fold := (ac_task_fold a)\<lparr>tf_recorded := []\<rparr>,
          ac_boundary := filter (\<lambda>e. rp_base (ac_replayer a) \<le> bd_logical e) (ac_boundary a)\<rparr>)
       (rec\<lparr>mr_user_times := take (sm_turns (ac_committed_meta a) - n) (drop n (rp_user_times (ac_replayer a))),
          mr_turn_durations := (if sm_turns (ac_committed_meta a) \<le> length (rp_turn_durations (ac_replayer a))
            then take (sm_turns (ac_committed_meta a) - n) (drop n (rp_turn_durations (ac_replayer a))) else []),
          mr_task_ops := tf_recorded (ac_task_fold a)\<rparr>) = (a3, rec2)"
    "checkpoint_maybe a3 rec2 = (a4, rec3)" "a' = a4\<lparr>ac_meta_out := ac_meta_out a4 @ [rec3]\<rparr>"
  using assms
  by (auto simp: author_record_def Let_def drain_recorded_def split: if_splits prod.splits)

lemma checkpoint_maybe_sync:
  assumes "checkpoint_maybe a rec = (a', rec')"
  shows "(\<exists>k. a' = a\<lparr>ac_since_checkpoint := k\<rparr>) \<and> same_body rec rec'
    \<and> mr_tokens rec' = mr_tokens rec \<and> mr_extra rec' = mr_extra rec \<and> mr_cwd rec' = mr_cwd rec
    \<and> mr_span rec' = mr_span rec \<and> mr_sandbox_on rec' = mr_sandbox_on rec
    \<and> mr_resume rec' = mr_resume rec
    \<and> (mr_checkpoint rec' = mr_checkpoint rec \<or> mr_checkpoint rec' = Some (materialized a))"
  using assms
  by (auto simp: checkpoint_maybe_def same_body_def split: if_splits
      intro: exI [of _ "ac_since_checkpoint a"])

lemma same_body_trans: "same_body a b \<Longrightarrow> same_body b c \<Longrightarrow> same_body a c"
  by (simp add: same_body_def)

lemma synced_flat:
  assumes "synced a" and "tf_recorded (ac_task_fold a) = []"
  shows "flat (ac_meta_out a) = materialized a"
proof -
  have "task_value (ac_task_fold a) = ac_task_fold a"
    using assms(2) by (cases "ac_task_fold a") (simp add: task_value_def)
  then show ?thesis
    using assms by (cases "flat (ac_meta_out a)") (simp add: synced_def materialized_def Let_def)
qed

lemma tf_recorded_foldl: "tf_recorded (foldl apply_recorded f ops) = tf_recorded f"
  by (induction ops arbitrary: f) (simp_all add: apply_recorded_keeps)

lemma take_slices: "n \<le> m \<Longrightarrow> take n xs @ take (m - n) (drop n xs) = take m xs"
  by (metis le_add_diff_inverse take_add)

lemma author_record_synced:
  assumes sy: "synced a" and h: "history_ok (captures ad a)" and ps: "list_all plain_spawn bs"
    and len: "length (rp_turn_durations (ac_replayer a)) = length (rp_user_times (ac_replayer a))"
    and rec: "author_record (sm_turns (ac_committed_meta a)) (foldl record_block record_default bs)
      (store_drained in_memory_store bs (foldl commit_identity a bs)) = Some a'"
  shows "synced a' \<and> tf_recorded (ac_task_fold a') = [] \<and> history_ok (captures ad a')
    \<and> (\<exists>r. ac_meta_out a' = ac_meta_out a @ [r]
        \<and> (\<forall>c. mr_checkpoint r = Some c \<longrightarrow> c = flat (ac_meta_out a'))
        \<and> (\<forall>x. mr_resume r = Some x \<longrightarrow> rs_id x = length (ac_committed a')))"
proof -
  let ?rec = "foldl record_block record_default bs" and ?A = "store_drained in_memory_store bs (foldl commit_identity a bs)"
  let ?F = "flat (ac_meta_out a)" and ?n0 = "sm_turns (ac_committed_meta a)"
  have A: "ac_replayer ?A = ac_replayer a" "ac_task_fold ?A = ac_task_fold a" "ac_boundary ?A = ac_boundary a"
      "ac_emitted ?A = ac_emitted a" "ac_meta_out ?A = ac_meta_out a" "ac_metrics ?A = ac_metrics a"
      "ac_committed_meta ?A = foldl meta_push (ac_committed_meta a) bs"
      "ac_committed_agents ?A = foldl (\<lambda>m b. insert_rows m (agent_pairs b)) (ac_committed_agents a) bs"
      "ac_committed_inbox ?A = ac_committed_inbox a \<union> set (concat (map inbox_of bs))"
      "ac_committed_peers ?A = insert_rows (ac_committed_peers a) (concat (map peer_of bs))"
    by (simp_all add: store_drained_def Let_def identity_fields commit_identity_frame split: prod.split)
  let ?n1 = "sm_turns (ac_committed_meta ?A)" and ?uts = "rp_user_times (ac_replayer a)"
    and ?durs = "rp_turn_durations (ac_replayer a)"
  obtain a3 rec2 a4 rec3 where
    le: "?n0 \<le> ?n1" "?n1 \<le> length ?uts" and
    res: "author_resume
       (?A\<lparr>ac_task_fold := (ac_task_fold a)\<lparr>tf_recorded := []\<rparr>,
          ac_boundary := filter (\<lambda>e. rp_base (ac_replayer a) \<le> bd_logical e) (ac_boundary a)\<rparr>)
       (?rec\<lparr>mr_user_times := take (?n1 - ?n0) (drop ?n0 ?uts),
          mr_turn_durations := take (?n1 - ?n0) (drop ?n0 ?durs),
          mr_task_ops := tf_recorded (ac_task_fold a)\<rparr>) = (a3, rec2)" and
    chk: "checkpoint_maybe a3 rec2 = (a4, rec3)" and
    a': "a' = a4\<lparr>ac_meta_out := ac_meta_out a4 @ [rec3]\<rparr>"
    by (rule author_record_parts [OF rec]) (use A len in simp)
  let ?a2 = "?A\<lparr>ac_task_fold := (ac_task_fold a)\<lparr>tf_recorded := []\<rparr>,
          ac_boundary := filter (\<lambda>e. rp_base (ac_replayer a) \<le> bd_logical e) (ac_boundary a)\<rparr>"
  let ?rec1 = "?rec\<lparr>mr_user_times := take (?n1 - ?n0) (drop ?n0 ?uts),
          mr_turn_durations := take (?n1 - ?n0) (drop ?n0 ?durs),
          mr_task_ops := tf_recorded (ac_task_fold a)\<rparr>"
  have h2: "history_ok (captures ad ?a2)"
    using h A by (auto simp: history_ok_def captures_def sorted_wrt_append list_all_iff sorted_wrt_filter sorted_wrt_map)
  have r: "moves_to (ac_emitted a) rec2 (ac_emitted a3)" "history_ok (captures ad a3)"
      "a3 = ?a2\<lparr>ac_emitted := ac_emitted a3\<rparr>" "same_body ?rec1 rec2" "mr_checkpoint rec2 = None"
      "\<forall>x. mr_resume rec2 = Some x \<longrightarrow> rs_id x = length (ac_committed ?A)"
    using author_resume_sync [OF res h2] A by (auto simp: record_blocks_plain record_default_def)
  obtain k where k: "a4 = a3\<lparr>ac_since_checkpoint := k\<rparr>" "same_body rec2 rec3"
      "mr_tokens rec3 = mr_tokens rec2" "mr_extra rec3 = mr_extra rec2" "mr_cwd rec3 = mr_cwd rec2"
      "mr_span rec3 = mr_span rec2" "mr_sandbox_on rec3 = mr_sandbox_on rec2"
      "mr_resume rec3 = mr_resume rec2"
      "mr_checkpoint rec3 = None \<or> mr_checkpoint rec3 = Some (materialized a3)"
    using checkpoint_maybe_sync [OF chk] r(5) by auto
  have e: "ac_emitted a' = ac_emitted a3" by (simp add: a' k(1))
  have B: "ac_replayer a' = ac_replayer a" "ac_task_fold a' = (ac_task_fold a)\<lparr>tf_recorded := []\<rparr>"
      "ac_meta_out a' = ac_meta_out a @ [rec3]" "ac_committed a' = ac_committed ?A"
      "ac_committed_meta a' = ac_committed_meta ?A" "ac_committed_agents a' = ac_committed_agents ?A"
      "ac_committed_inbox a' = ac_committed_inbox ?A" "ac_committed_peers a' = ac_committed_peers ?A"
    unfolding a' k(1) by (subst r(3), simp add: A)+
  have flat': "flat (ac_meta_out a') = push_delta ?F rec3"
    by (simp add: B flat_snoc)
  note body = same_body_push [OF same_body_trans [OF r(4) k(2)], of ?F]
  note S = sy [unfolded synced_iff Let_def]
  have head: "delta_header (mm_session_meta ?F, mm_agent_ids ?F) ?rec1
      = (ac_committed_meta ?A, ac_committed_agents ?A)"
    using record_blocks_header [OF ps, of "(mm_session_meta ?F, mm_agent_ids ?F)" record_default] S A
      delta_header_cong [of ?rec1 ?rec "(mm_session_meta ?F, mm_agent_ids ?F)"]
    by (simp add: delta_header_none record_default_def)
  have times: "mm_user_times (push_delta ?F ?rec1) = take ?n1 ?uts"
      "mm_turn_durations (push_delta ?F ?rec1) = take ?n1 ?durs"
    using S take_slices [OF le(1)] le len by (simp_all add: push_delta_fields resize_def)
  have tasks: "mm_tasks (push_delta ?F ?rec1) = task_value (ac_task_fold a)"
    using S by (simp add: push_delta_fields)
  have span: "mm_span (push_delta ?F rec3) = bd_span (ac_emitted a3)"
  proof -
    have "mm_span ?F = bd_span (ac_emitted a)" using S by blast
    then show ?thesis
      using r(1) k(6) by (cases "mr_span rec2"; cases "bd_span (ac_emitted a3)")
          (simp_all add: push_delta_fields moves_to_def)
  qed
  have moved: "mm_tokens (push_delta ?F rec3) = map_of (filter (\<lambda>(_, v). v \<noteq> tokens_zero) (bd_tokens (ac_emitted a3)))"
      "mm_extra (push_delta ?F rec3) = map_of (filter (\<lambda>(_, v). v \<noteq> 0) (bd_extra (ac_emitted a3)))"
      "mm_cwd (push_delta ?F rec3) = bd_cwd (ac_emitted a3)"
      "mm_sandbox_on (push_delta ?F rec3) = bd_sandbox_on (ac_emitted a3)"
    using S r(1) k(3-7) by (simp_all add: push_delta_fields moves_to_def)
  have rows: "mm_inbox_ids (push_delta ?F ?rec1) = ac_committed_inbox ?A"
      "mm_peer_names (push_delta ?F ?rec1) = ac_committed_peers ?A"
      "mm_session_meta (push_delta ?F ?rec1) = ac_committed_meta ?A"
      "mm_agent_ids (push_delta ?F ?rec1) = ac_committed_agents ?A"
    using S A head by (simp_all add: push_delta_fields record_blocks_plain record_default_def)
  note whole = trans [OF body(1) rows(3)] trans [OF body(2) rows(4)] trans [OF body(3) times(1)]
    trans [OF body(4) times(2)] trans [OF body(5) rows(1)] trans [OF body(6) rows(2)]
    trans [OF body(7) tasks]
  have "synced a'"
    unfolding synced_iff Let_def flat' whole moved span B(1,2,4-8) e
    by (simp add: task_value_def)
  moreover have tf: "tf_recorded (ac_task_fold a') = []" by (simp add: B)
  moreover have "materialized a3 = materialized a'"
    by (simp add: a' k(1) materialized_def Let_def)
  moreover have "history_ok (captures ad a')"
    using r(2) by (simp add: a' k(1) captures_def)
  ultimately show ?thesis
    using synced_flat [of a'] B k(8,9) r(6) by auto
qed

subsection \<open>Every line keeps the invariant\<close>

lemma extends_message: "extends f (fold_task_message f m)"
proof -
  have "extends f (on_tool_result (on_tool_outcome f i e) i t)" for i e t
    using extends_run [of f "[TeOutcome i e, TeResult i t]"] by (simp add: task_run_def)
  then show ?thesis
    by (cases m) (simp_all add: extends_refl extends_apply)
qed

lemma extends_messages: "extends f (foldl fold_task_message f ms)"
  by (induction ms arbitrary: f) (auto intro: extends_refl extends_trans extends_message)

lemma synced_frame:
  assumes "synced a" and "ac_meta_out a' = ac_meta_out a" and "ac_committed_meta a' = ac_committed_meta a"
    and "ac_emitted a' = ac_emitted a" and "ac_committed_agents a' = ac_committed_agents a"
    and "ac_committed_inbox a' = ac_committed_inbox a" and "ac_committed_peers a' = ac_committed_peers a"
    and "keeps_times (sm_turns (ac_committed_meta a)) (ac_replayer a) (ac_replayer a')"
    and "extends (ac_task_fold a) (ac_task_fold a')"
  shows "synced a'"
proof -
  obtain new where new: "tf_recorded (ac_task_fold a') = tf_recorded (ac_task_fold a) @ new"
      "task_value (ac_task_fold a') = foldl apply_recorded (task_value (ac_task_fold a)) new"
    using assms(9) by (auto simp: extends_def task_replay_def)
  show ?thesis
    using assms(1,8) new unfolding synced_iff Let_def assms(2-7) keeps_times_def by simp
qed

text \<open>The accumulator's totals only grow.\<close>

definition metrics_grow :: "('p, 'm) adapter \<Rightarrow> bool" where
  "metrics_grow ad \<longleftrightarrow> (\<forall>m. totals_ok (ad_met_totals ad m)
     \<and> (\<forall>v. grows_to (ad_met_totals ad m) (ad_met_totals ad (ad_met_push ad m v)))
     \<and> grows_to (ad_met_totals ad m) (ad_met_totals ad (ad_met_malformed ad m)))"

lemma push_metrics_grows:
  "metrics_grow ad \<Longrightarrow> grows_to (ad_met_totals ad m) (ad_met_totals ad (push_metrics ad line m))"
  by (simp add: metrics_grow_def push_metrics_def split: option.split)

lemma history_snoc:
  "history_ok (ts @ [t]) \<Longrightarrow> grows_to t u \<Longrightarrow> totals_ok u \<Longrightarrow> history_ok (ts @ [u])"
  by (auto simp: history_ok_def sorted_wrt_append intro: grows_to_trans)

lemma history_dup: "history_ok (ts @ [t]) \<Longrightarrow> history_ok (ts @ [t, t])"
  by (auto simp: history_ok_def sorted_wrt_append)

lemma captures_fold_line:
  assumes h: "history_ok (captures ad a)"
    and f: "fold_line ad (candidate ad a offset pre mstate delta) delta a = Some (a', pf)"
  shows "history_ok (captures ad a')"
proof -
  have "ac_boundary a' = ac_boundary a
      \<or> (\<exists>c. ac_boundary a' = ac_boundary a @ [c] \<and> totals_of c = ad_met_totals ad (ac_metrics a))"
    "ac_emitted a' = ac_emitted a" "ac_metrics a' = ac_metrics a"
    using f by (auto simp: fold_line_def candidate_def Let_def totals_of_def
        split: bind_splits option.splits prod.splits if_splits)
  then show ?thesis
    using h history_dup [of "totals_of (ac_emitted a) # map totals_of (ac_boundary a)"
        "ad_met_totals ad (ac_metrics a)"]
    by (auto simp: captures_def)
qed

lemma resumes_below_mono: "resumes_below n rs \<Longrightarrow> n \<le> m \<Longrightarrow> resumes_below m rs"
  by (auto simp: resumes_below_def list_all_iff split: option.splits)

lemma drain_meta_inv:
  assumes mi: "meta_inv ad a" and dur: "rp_durable (ac_replayer a) \<noteq> []"
    and len: "length (rp_turn_durations (ac_replayer a)) = length (rp_user_times (ac_replayer a))"
    and st: "sm_turns (ac_committed_meta a) + count_if opens_turn (rp_durable (ac_replayer a))
      < length (rp_user_times (ac_replayer a))"
    and step: "drain_step in_memory_store a = Some a'"
    and ps: "\<forall>b\<in>set (ac_committed a'). plain_spawn b"
  shows "meta_inv ad a'"
proof -
  let ?a = "a\<lparr>ac_replayer := (ac_replayer a)\<lparr>rp_durable := []\<rparr>\<rparr>"
  let ?bs = "apply_spawn_links (ac_links a) (rp_durable (ac_replayer a))"
  have sy: "synced ?a"
    by (rule synced_frame [of a]) (use mi in \<open>simp_all add: meta_inv_def keeps_times_def extends_refl\<close>)
  have h: "history_ok (captures ad ?a)"
    using mi by (simp add: meta_inv_def captures_def)
  have comm: "ac_committed a' = ac_committed a @ ?bs"
    by (rule drain_step_mem [OF step])
  have rec: "author_record (sm_turns (ac_committed_meta ?a)) (foldl record_block record_default ?bs)
      (store_drained in_memory_store ?bs (foldl commit_identity ?a ?bs)) = Some a'"
    using step dur by (simp add: drain_step_some Let_def)
  have "list_all plain_spawn ?bs" using ps comm by (simp add: list_all_iff)
  from author_record_synced [OF sy h this _ rec] len
  obtain r where r: "synced a'" "history_ok (captures ad a')" "ac_meta_out a' = ac_meta_out a @ [r]"
      "\<forall>c. mr_checkpoint r = Some c \<longrightarrow> c = flat (ac_meta_out a')"
      "\<forall>x. mr_resume r = Some x \<longrightarrow> rs_id x = length (ac_committed a')"
    by auto
  have "ac_replayer a' = (ac_replayer a)\<lparr>rp_durable := []\<rparr>"
      "ac_committed_meta a' = foldl meta_push (ac_committed_meta a) ?bs"
    using author_record_frame(3,4) [OF rec]
    by (simp_all add: store_drained_def Let_def commit_identity_frame split: prod.splits)
  then have "settled a'"
    using st by (simp add: settled_def meta_push_turns)
  moreover have "checks_ok [] (ac_meta_out a')"
    using mi r(3,4) by (simp add: meta_inv_def checks_ok_snoc split: option.splits)
  moreover have "resumes_below (length (ac_committed a')) (ac_meta_out a')"
    using mi r(3,5) comm resumes_below_mono [of "length (ac_committed a)" "ac_meta_out a" "length (ac_committed a')"]
    by (simp add: meta_inv_def) (simp add: resumes_below_def split: option.splits)
  moreover have "last_resume (length (ac_committed a')) (ac_meta_out a')"
    using r(3,5) by (auto simp: last_resume_def)
  ultimately show ?thesis using r by (simp add: meta_inv_def)
qed

lemma advance_at_meta_inv:
  assumes hooks: "hooks_ok (ad_shaping ad)" and dec: "decoder_ok ad" and met: "metrics_grow ad"
    and inv: "mem_inv a" and mi: "meta_inv ad a"
    and step: "advance_at ad in_memory_store offset line a = Some (a', pf)"
    and ps: "\<forall>b\<in>set (ac_committed a'). plain_spawn b"
  shows "meta_inv ad a'"
proof (cases "decode_delta ad line a")
  case (Pair d a0)
  note fr = decode_delta_frame [OF Pair]
  have fr': "ac_meta_out a0 = ac_meta_out a" "ac_emitted a0 = ac_emitted a" "ac_boundary a0 = ac_boundary a"
      "ac_metrics a0 = ac_metrics a" "ac_task_fold a0 = ac_task_fold a"
      "ac_committed_agents a0 = ac_committed_agents a" "ac_committed_inbox a0 = ac_committed_inbox a"
      "ac_committed_peers a0 = ac_committed_peers a"
    using Pair by (auto simp: decode_delta_def Let_def split: prod.splits preprocessed.splits)
  have sy0: "synced a0"
    by (rule synced_frame [of a])
      (use mi fr fr' in \<open>simp_all add: meta_inv_def keeps_times_def extends_refl\<close>)
  have mi0: "meta_inv ad a0"
    using mi sy0 fr fr' by (simp add: meta_inv_def captures_def settled_def Let_def)
  show ?thesis
  proof (cases d)
    case None
    then show ?thesis using step Pair mi0 by (simp add: advance_at_def)
  next
    case (Some ms)
    let ?delta = "stamp_attachments offset 0 ms" and ?n = "sm_turns (ac_committed_meta a0)"
    obtain pre mstate a1 a2 where
      f: "fold_line ad (candidate ad a0 offset pre mstate ?delta) ?delta a0 = Some (a1, pf)" and
      d: "drain_step in_memory_store a1 = Some a2" and
      a': "a' = a2\<lparr>ac_metrics := push_metrics ad line (ac_metrics a2)\<rparr>"
      using step Pair Some by (auto simp: advance_at_def Let_def split: bind_splits)
    have ok: "list_all msg_ok ?delta"
      using decode_delta_ok [OF dec] Pair Some stamp_attachments_ok by blast
    have inv0: "rep_inv (ac_replayer a0)" "aligned ?n (ac_replayer a0)" "rp_durable (ac_replayer a0) = []"
      using inv unfolding acc_inv_def fr by blast+
    have n0: "?n = 0 \<or> ?n < length (rp_user_times (ac_replayer a0))"
      using mi0 by (simp add: meta_inv_def settled_def Let_def)
    obtain r1 pf1 r2 where r: "apply_messages (ad_shaping ad)
          (rp_base (ac_replayer a0) + length (rp_out (ac_replayer a0))) ?delta (ac_replayer a0, None) = Some (r1, pf1)"
        "finalize_completed (ad_shaping ad) r1 = Some r2" "ac_replayer a1 = r2"
      using f by (auto simp: fold_line_def replay_apply_def split: bind_splits)
    note fold = hooks_fold [OF hooks]
    have r1: "rep_inv r1" "aligned ?n r1" "rp_durable r1 = []"
      using fold_shaping.messages_keep [OF fold inv0(1,2) ok,
          of "rp_base (ac_replayer a0) + length (rp_out (ac_replayer a0))" None] r(1) inv0(3)
      by (auto simp: batch_grows_def)
    have k1: "keeps_times ?n (ac_replayer a0) r1"
      by (rule fold_shaping.messages_keep_times [OF fold inv0(1,2) ok n0 r(1)])
    then have n1: "?n = 0 \<or> ?n < length (rp_user_times r1)"
      using n0 by (auto simp: keeps_times_def)
    have k2: "keeps_times ?n r1 r2" and lt: "rp_durable r2 = []
        \<or> ?n + count_if opens_turn (rp_durable r2) < length (rp_user_times r2)"
      using fold_shaping.finalize_leaves_turn [OF fold r1(1,2) r(2) n1] r1(3) by auto
    have kt: "keeps_times ?n (ac_replayer a0) (ac_replayer a1)"
      using keeps_times_trans [OF k1 k2] r(3) by simp
    have fr1: "ac_meta_out a1 = ac_meta_out a0" "ac_emitted a1 = ac_emitted a0"
        "ac_committed a1 = ac_committed a0" "ac_committed_meta a1 = ac_committed_meta a0"
        "ac_committed_agents a1 = ac_committed_agents a0" "ac_committed_inbox a1 = ac_committed_inbox a0"
        "ac_committed_peers a1 = ac_committed_peers a0"
        "ac_task_fold a1 = foldl fold_task_message (ac_task_fold a0) ?delta"
      using f by (auto simp: fold_line_def split: bind_splits)
    have "synced a1"
      by (rule synced_frame [OF sy0]) (use fr1 kt in \<open>simp_all add: extends_messages\<close>)
    moreover have "settled a1"
      using n0 kt fr1 by (auto simp: settled_def Let_def keeps_times_def)
    moreover have "history_ok (captures ad a1)"
      using captures_fold_line [OF _ f] mi0 by (simp add: meta_inv_def)
    ultimately have mi1: "meta_inv ad a1"
      using mi0 fr1 by (simp add: meta_inv_def)
    have mi2: "meta_inv ad a2"
    proof (cases "rp_durable r2 = []")
      case True
      then have a2: "a2 = a1\<lparr>ac_replayer := r2\<lparr>rp_durable := []\<rparr>\<rparr>"
        using d r(3) by (simp add: drain_step_def drain_committed_def)
      have "synced a2"
        by (rule synced_frame [of a1])
          (use r(3) mi1 a2 in \<open>simp_all add: meta_inv_def keeps_times_def extends_refl\<close>)
      then show ?thesis
        using mi1 r(3) a2 by (simp add: meta_inv_def captures_def settled_def)
    next
      case False
      have "rep_inv r2"
        using fold_shaping.finalize_keeps [OF fold r1(1,2)] r(2) by auto
      then show ?thesis
        using False lt r(3) fr1 a' ps by (intro drain_meta_inv [OF mi1 _ _ _ d]) (auto simp: rep_inv_def)
    qed
    have sy': "synced a'"
      by (rule synced_frame [of a2]) (use mi2 a' in \<open>simp_all add: meta_inv_def keeps_times_def extends_refl\<close>)
    have "history_ok (captures ad a')"
      using mi2 a' history_snoc [of "totals_of (ac_emitted a2) # map totals_of (ac_boundary a2)"
          "ad_met_totals ad (ac_metrics a2)"] push_metrics_grows [OF met, of "ac_metrics a2" line] met
      by (simp add: meta_inv_def captures_def metrics_grow_def)
    then show ?thesis
      using mi2 sy' a' by (simp add: meta_inv_def settled_def)
  qed
qed

lemma advance_lines_meta_inv:
  assumes "hooks_ok (ad_shaping ad)" and "decoder_ok ad" and "metrics_grow ad"
    and "mem_inv a" and "meta_inv ad a"
    and "advance_lines ad in_memory_store lines pf a = Some (a', pf')"
    and "\<forall>b\<in>set (ac_committed a'). plain_spawn b"
  shows "meta_inv ad a'"
  using assms(4-)
proof (induction lines arbitrary: pf a)
  case (Cons l ls)
  obtain offset line where l: "l = (offset, line)" by (cases l)
  obtain a1 p where a1: "advance_at ad in_memory_store offset line a = Some (a1, p)"
      "advance_lines ad in_memory_store ls (case p of None \<Rightarrow> pf | Some i \<Rightarrow> floor_min pf i) a1 = Some (a', pf')"
    using Cons.prems(3) l by (auto split: bind_splits)
  have "mem_inv a1"
    using mem.advance_at_keeps [OF assms(1,2) _ Cons.prems(1), of offset line] a1(1) by auto
  moreover have "\<forall>b\<in>set (ac_committed a1). plain_spawn b"
    using advance_lines_mem_grows [OF a1(2)] Cons.prems(4) by auto
  then have "meta_inv ad a1"
    by (rule advance_at_meta_inv [OF assms(1-3) Cons.prems(1,2) a1(1)])
  ultimately show ?case
    using Cons.IH [OF _ _ a1(2)] Cons.prems(4) by blast
qed simp

lemma meta_inv_new: "metrics_grow ad \<Longrightarrow> meta_inv ad (acc_new ad ())"
  by (simp add: meta_inv_def synced_iff acc_new_def flat_def materialized_default_def Let_def
      session_meta_default_def boundary_default_def task_fold_default_def task_value_def history_ok_def
      captures_def totals_of_def metrics_grow_def resumes_below_def last_resume_def settled_def)

subsection \<open>Alignment\<close>

lemma push_checked:
  "(case mr_checkpoint r of None \<Rightarrow> True | Some c \<Rightarrow> c = flat (old @ [r]))
     \<Longrightarrow> materialized_push (flat old) r = flat (old @ [r])"
  by (simp add: materialized_push_def flat_snoc split: option.splits)

lemma align_no_mismatch:
  "checks_ok old rs \<Longrightarrow> \<exists>best. align_from k (flat old) b rs n = Inr best"
proof (induction rs arbitrary: old k b)
  case (Cons r rs)
  then have c: "case mr_checkpoint r of None \<Rightarrow> True | Some c \<Rightarrow> c = flat (old @ [r])"
      "checks_ok (old @ [r]) rs"
    by simp_all
  have eq: "\<not> (case mr_checkpoint r of None \<Rightarrow> False | Some c \<Rightarrow> 0 < k \<and> \<not> mm_eq (push_delta (flat old) r) c)"
    using c(1) by (simp add: mm_eq_def flat_snoc split: option.splits)
  show ?case
    using Cons.IH [OF c(2)] eq by (simp add: push_checked [OF c(1)] Let_def)
qed simp

lemma align_full:
  "checks_ok old rs \<Longrightarrow> resumes_below n rs \<Longrightarrow>
     align_from k (flat old) b rs n =
       (if rs = [] then Inr b
        else case mr_resume (last rs) of
               None \<Rightarrow> align_from k (flat old) b (butlast rs) n
             | Some x \<Rightarrow> Inr (Some \<lparr>al_committed = rs_id x, al_meta = flat (old @ rs), al_resume = x,
                                    al_records = k + length rs\<rparr>))"
proof (induction rs arbitrary: old k b)
  case (Cons r rs)
  then have c: "case mr_checkpoint r of None \<Rightarrow> True | Some c \<Rightarrow> c = flat (old @ [r])"
      "checks_ok (old @ [r]) rs" "resumes_below n rs"
      "case mr_resume r of None \<Rightarrow> True | Some x \<Rightarrow> rs_id x \<le> n"
    by (simp_all add: resumes_below_def)
  have eq: "\<not> (case mr_checkpoint r of None \<Rightarrow> False | Some c \<Rightarrow> 0 < k \<and> \<not> mm_eq (push_delta (flat old) r) c)"
    using c(1) by (simp add: mm_eq_def flat_snoc split: option.splits)
  have le: "\<not> (case mr_resume r of None \<Rightarrow> False | Some x \<Rightarrow> n < rs_id x)"
    using c(4) by (simp split: option.splits)
  note step = push_checked [OF c(1)]
  show ?case
    using eq le Cons.IH [OF c(2,3)]
    by (cases "rs = []") (simp_all add: step Let_def split: option.splits)
qed simp

subsection \<open>Claims\<close>

text \<open>
  C8: a session never rejects its own meta stream.  For an adapter whose counters only grow and
  committed spawns without a phase label, the records authored by a parse align at every block
  count without a checkpoint mismatch.  If the last record carries a resume point, aligning at
  the full count accepts every record, resumes at the committed count, and yields the live
  materialized state once the task operations that are not yet in a record are replayed.
\<close>

theorem own_stream_aligns:
  assumes "hooks_ok (ad_shaping ad)" and "decoder_ok ad" and "metrics_grow ad"
    and "parse_lines ad in_memory_store () lines = Some a"
    and "\<forall>b\<in>set (ac_committed a). plain_spawn b"
  shows "(\<forall>n. \<exists>best. align (ac_meta_out a) n = Inr best)
    \<and> (\<forall>x. ac_meta_out a \<noteq> [] \<and> mr_resume (last (ac_meta_out a)) = Some x \<longrightarrow>
        (\<exists>m. align (ac_meta_out a) (length (ac_committed a)) =
             Inr (Some \<lparr>al_committed = length (ac_committed a), al_meta = m, al_resume = x,
                        al_records = length (ac_meta_out a)\<rparr>)
           \<and> m\<lparr>mm_tasks := foldl apply_recorded (mm_tasks m) (tf_recorded (ac_task_fold a))\<rparr>
             = (materialized a)\<lparr>mm_tasks := task_value (ac_task_fold a)\<rparr>))"
proof -
  obtain pf where run: "advance_lines ad in_memory_store lines None (acc_new ad ()) = Some (a, pf)"
    using assms(4) by (auto simp: parse_lines_def)
  have mi: "meta_inv ad a"
    by (rule advance_lines_meta_inv [OF assms(1-3) mem_new meta_inv_new [OF assms(3)] run assms(5)])
  then have c: "checks_ok [] (ac_meta_out a)" "resumes_below (length (ac_committed a)) (ac_meta_out a)"
      "last_resume (length (ac_committed a)) (ac_meta_out a)" "synced a"
    by (simp_all add: meta_inv_def)
  have nil: "materialized_default = flat []" by (simp add: flat_def)
  have "\<exists>m. align (ac_meta_out a) (length (ac_committed a)) =
             Inr (Some \<lparr>al_committed = length (ac_committed a), al_meta = m, al_resume = x,
                        al_records = length (ac_meta_out a)\<rparr>)
           \<and> m\<lparr>mm_tasks := foldl apply_recorded (mm_tasks m) (tf_recorded (ac_task_fold a))\<rparr>
             = (materialized a)\<lparr>mm_tasks := task_value (ac_task_fold a)\<rparr>"
    if x: "ac_meta_out a \<noteq> []" "mr_resume (last (ac_meta_out a)) = Some x" for x
  proof -
    have "ac_meta_out a = butlast (ac_meta_out a) @ [last (ac_meta_out a)]" using x(1) by simp
    then have "rs_id x = length (ac_committed a)" using c(3) x(2) unfolding last_resume_def by metis
    then show ?thesis
      using align_full [OF c(1,2), of 0 None] x c(4)
      by (simp add: align_def nil synced_def Let_def)
  qed
  then show ?thesis
    using align_no_mismatch [OF c(1)] by (auto simp: align_def nil)
qed

lemma text_adapter_metrics: "metrics_grow text_adapter"
  by (simp add: metrics_grow_def totals_ok_def grows_to_def text_adapter_def)

theorem own_stream_aligns_witness:
  "\<exists>a x m. parse_lines text_adapter in_memory_store () [(0, ''a''), (2, ''b'')] = Some a
    \<and> align (ac_meta_out a) 1 =
        Inr (Some \<lparr>al_committed = 1, al_meta = m, al_resume = x, al_records = 1\<rparr>)"
proof -
  have "map_option (\<lambda>a. (ac_committed a, length (ac_meta_out a), map_option rs_replay_from (mr_resume (last (ac_meta_out a)))))
      (parse_lines text_adapter in_memory_store () [(0, ''a''), (2, ''b'')])
      = Some ([UserText ''a''], 1, Some 2)"
    by code_simp
  then obtain a x where a: "parse_lines text_adapter in_memory_store () [(0, ''a''), (2, ''b'')] = Some a"
      "ac_committed a = [UserText ''a'']" "length (ac_meta_out a) = 1"
      "mr_resume (last (ac_meta_out a)) = Some x"
    by auto
  then show ?thesis
    using own_stream_aligns [OF text_adapter_ok text_adapter_metrics a(1)]
    by (auto simp: plain_spawn_def)
qed

end
