(* ===== verification/Follow.thy ===== *)
theory Follow
  imports Builder
begin

text \<open>
  The live follower (\<open>claude-replay-engine/src/follow.rs\<close>): it keeps a cursor into the
  transcript, folds what was appended since, starts over when the file shrank, and reports what
  changed.  The file system is an argument: a tick gets the answers its calls would return.
\<close>

subsection \<open>What a tick finds\<close>

record source_view =
  en_len :: nat
  en_same :: bool
  en_open :: bool
  en_seek :: bool
  en_lines :: "(nat \<times> string) list"
  en_offset :: nat
  en_elided :: elision_counts
  en_fail :: bool
  en_links :: "spawn_link list"

text \<open>
  \<open>en_lines\<close> are the lines \<open>LineSource::next\<close> yields, \<open>en_offset\<close> its offset afterwards,
  \<open>en_elided\<close> what it counted meanwhile, and \<open>en_fail\<close> whether it ended in an error.
\<close>

subsection \<open>State\<close>

record ('p, 'm, 'st, 'bv) follower =
  fw_acc :: "('p, 'm, 'st, 'bv) acc"
  fw_cursor :: nat
  fw_src :: "(nat \<times> elision_counts) option"
  fw_banked :: elision_counts
  fw_prev_committed :: nat
  fw_prev_provisional :: "block list"

definition follow_with_store ::
  "('p, 'm) adapter \<Rightarrow> 'st \<Rightarrow> spawn_link list \<Rightarrow> ('p, 'm, 'st, 'bv) follower" where
  "follow_with_store ad store links =
     \<lparr>fw_acc = set_spawn_links links (acc_new ad store), fw_cursor = 0, fw_src = None,
      fw_banked = elision_zero, fw_prev_committed = 0, fw_prev_provisional = []\<rparr>"

definition follow_resume ::
  "('p, 'm) adapter \<Rightarrow> 'st \<Rightarrow> 'bv list \<Rightarrow> materialized_meta \<Rightarrow> metrics_totals \<Rightarrow> resume
     \<Rightarrow> spawn_link list \<Rightarrow> ('p, 'm, 'st, 'bv) follower" where
  "follow_resume ad store committed mm totals rs links =
     \<lparr>fw_acc = set_spawn_links links (acc_restore ad store committed mm totals rs),
      fw_cursor = rs_replay_from rs, fw_src = None, fw_banked = elision_zero,
      fw_prev_committed = length committed, fw_prev_provisional = []\<rparr>"

record tick =
  tk_advanced :: bool
  tk_reset :: bool
  tk_patch_floor :: "nat option"

definition tick_idle :: tick where
  "tick_idle = \<lparr>tk_advanced = False, tk_reset = False, tk_patch_floor = None\<rparr>"

subsection \<open>Advancing\<close>

definition elision_add :: "elision_counts \<Rightarrow> elision_counts \<Rightarrow> elision_counts" where
  "elision_add a b = \<lparr>ec_lines = ec_lines a + ec_lines b, ec_bytes = ec_bytes a + ec_bytes b,
     ec_skipped = ec_skipped a + ec_skipped b\<rparr>"

text \<open>The deltas to bank; \<open>None\<close> is the overflow of an unsigned subtraction.\<close>

definition elision_sub :: "elision_counts \<Rightarrow> elision_counts \<Rightarrow> elision_counts option" where
  "elision_sub a b =
     (if ec_lines b \<le> ec_lines a \<and> ec_bytes b \<le> ec_bytes a \<and> ec_skipped b \<le> ec_skipped a
      then Some \<lparr>ec_lines = ec_lines a - ec_lines b, ec_bytes = ec_bytes a - ec_bytes b,
                 ec_skipped = ec_skipped a - ec_skipped b\<rparr>
      else None)"

text \<open>An I/O error is \<open>Inl ()\<close>; a panic is \<open>None\<close>.\<close>

type_synonym ('a, 's) ticked = "((unit + 'a) \<times> 's) option"

definition fold_source ::
  "('p, 'm) adapter \<Rightarrow> ('st, 'bv) store_ops \<Rightarrow> source_view \<Rightarrow> bool \<Rightarrow> nat \<times> elision_counts
     \<Rightarrow> ('p, 'm, 'st, 'bv) follower \<Rightarrow> (tick, ('p, 'm, 'st, 'bv) follower) ticked" where
  "fold_source ad so en reset src f = do {
     (a, pf) \<leftarrow> advance_lines ad so (en_lines en) None (fw_acc f);
     let counts = elision_add (snd src) (en_elided en);
     let f1 = f\<lparr>fw_acc := a, fw_src := Some (en_offset en, counts)\<rparr>;
     if en_fail en then Some (Inl (), f1)
     else do {
       delta \<leftarrow> elision_sub counts (fw_banked f);
       let f2 = f1\<lparr>fw_acc := bank_elision ad delta a, fw_cursor := en_offset en, fw_banked := counts\<rparr>;
       if \<not> reset \<and> en_lines en = [] then Some (Inr tick_idle, f2)
       else Some (Inr \<lparr>tk_advanced = True, tk_reset = reset, tk_patch_floor = pf\<rparr>,
                  f2\<lparr>fw_acc := set_spawn_links (en_links en) (fw_acc f2)\<rparr>)
     }
   }"

definition read_offset :: "('p, 'm, 'st, 'bv) follower \<Rightarrow> nat" where
  "read_offset f = (case fw_src f of Some (off, _) \<Rightarrow> off | None \<Rightarrow> fw_cursor f)"

text \<open>The state a tick reads from: reopened when the file was replaced, reset when it shrank.\<close>

definition prepare ::
  "('p, 'm) adapter \<Rightarrow> ('st, 'bv) store_ops \<Rightarrow> source_view \<Rightarrow> ('p, 'm, 'st, 'bv) follower
     \<Rightarrow> bool \<times> ('p, 'm, 'st, 'bv) follower" where
  "prepare ad so en f =
     (let cursor = read_offset f; reset = en_len en < cursor;
          f1 = (if \<not> reset \<and> fw_src f \<noteq> None \<and> \<not> en_same en
                then f\<lparr>fw_src := None, fw_cursor := cursor, fw_banked := elision_zero\<rparr> else f);
          f2 = (if reset
                then f1\<lparr>fw_acc := acc_reset ad so (fw_acc f1), fw_src := None, fw_cursor := 0,
                        fw_banked := elision_zero\<rparr> else f1)
      in (reset, f2))"

definition advance_from_source ::
  "('p, 'm) adapter \<Rightarrow> ('st, 'bv) store_ops \<Rightarrow> source_view \<Rightarrow> ('p, 'm, 'st, 'bv) follower
     \<Rightarrow> (tick, ('p, 'm, 'st, 'bv) follower) ticked" where
  "advance_from_source ad so en f =
     (let (reset, f2) = prepare ad so en f
      in case fw_src f2 of
           None \<Rightarrow>
             (if \<not> en_open en
              then Some (Inr (if reset then \<lparr>tk_advanced = True, tk_reset = True, tk_patch_floor = None\<rparr>
                              else tick_idle), f2)
              else if \<not> en_seek en then Some (Inl (), f2)
              else fold_source ad so en reset (fw_cursor f2, elision_zero) f2)
         | Some src \<Rightarrow>
             (if \<not> en_seek en then Some (Inl (), f2) else fold_source ad so en reset src f2))"

subsection \<open>Polls\<close>

fun common_prefix_len :: "'a list \<Rightarrow> 'a list \<Rightarrow> nat" where
  "common_prefix_len (x # xs) (y # ys) = (if x = y then Suc (common_prefix_len xs ys) else 0)"
| "common_prefix_len _ _ = 0"

definition advance_stream ::
  "('p, 'm) adapter \<Rightarrow> ('st, 'bv) store_ops \<Rightarrow> source_view \<Rightarrow> ('p, 'm, 'st, 'bv) follower
     \<Rightarrow> ((bool \<times> nat option) option, ('p, 'm, 'st, 'bv) follower) ticked" where
  "advance_stream ad so en f = do {
     (res, f') \<leftarrow> advance_from_source ad so en f;
     Some (case res of
             Inl e \<Rightarrow> Inl e
           | Inr t \<Rightarrow> Inr (if tk_advanced t then Some (tk_reset t, tk_patch_floor t) else None), f')
   }"

definition follow_poll ::
  "('p, 'm) adapter \<Rightarrow> ('st, 'bv) store_ops \<Rightarrow> source_view \<Rightarrow> ('p, 'm, 'st, 'bv) follower
     \<Rightarrow> ((block list \<times> epoch_seconds option list) option, ('p, 'm, 'st, 'bv) follower) ticked" where
  "follow_poll ad so en f = do {
     (res, f') \<leftarrow> advance_from_source ad so en f;
     case res of
       Inl e \<Rightarrow> Some (Inl e, f')
     | Inr t \<Rightarrow>
         if tk_advanced t then do { v \<leftarrow> acc_fold ad so (fw_acc f'); Some (Inr (Some v), f') }
         else Some (Inr None, f')
   }"

text \<open>
  \<open>poll_delta\<close>: the blocks, the times and the first index that differs from the last poll.
  The slice \<open>blocks[prev_committed..]\<close> panics when the last poll committed more blocks than
  there are now.
\<close>

definition poll_delta ::
  "('p, 'm) adapter \<Rightarrow> ('st, 'bv) store_ops \<Rightarrow> source_view \<Rightarrow> ('p, 'm, 'st, 'bv) follower
     \<Rightarrow> ((block list \<times> epoch_seconds option list \<times> nat) option, ('p, 'm, 'st, 'bv) follower) ticked" where
  "poll_delta ad so en f = do {
     (res, f') \<leftarrow> advance_from_source ad so en f;
     case res of
       Inl e \<Rightarrow> Some (Inl e, f')
     | Inr t \<Rightarrow>
         if \<not> tk_advanced t then Some (Inr None, f')
         else do {
           (blocks, times) \<leftarrow> acc_fold ad so (fw_acc f');
           let n = length (ac_committed (fw_acc f'));
           changed \<leftarrow> (if tk_reset t then Some 0
                      else if fw_prev_committed f' \<le> length blocks
                      then Some (fw_prev_committed f'
                        + common_prefix_len (fw_prev_provisional f') (drop (fw_prev_committed f') blocks))
                      else None);
           Some (Inr (Some (blocks, times, changed)),
                 f'\<lparr>fw_prev_committed := n, fw_prev_provisional := drop n blocks\<rparr>)
         }
   }"

end
