(* ===== verification/Pull.thy ===== *)
theory Pull
  imports Base
begin

text \<open>
  The pull protocol (\<open>claude-replay-present/src/pull.rs\<close>): the cursor and its query form, the
  reply a server computes from the two zones, and the client that applies replies.  The protocol
  never looks into a block, so the block type is a parameter.
\<close>

subsection \<open>Cursors\<close>

record cursor =
  cu_epoch :: nat
  cu_committed :: nat
  cu_gen :: nat
  cu_provisional :: nat

definition cursor_default :: cursor where
  "cursor_default = \<lparr>cu_epoch = 0, cu_committed = 0, cu_gen = 0, cu_provisional = 0\<rparr>"

definition to_query :: "cursor \<Rightarrow> string" where
  "to_query c = show_nat (cu_epoch c) @ ''.'' @ show_nat (cu_committed c) @ ''.''
     @ show_nat (cu_gen c) @ ''.'' @ show_nat (cu_provisional c)"

definition from_query :: "string \<Rightarrow> cursor" where
  "from_query s =
     (case split_on (CHR ''.'') s of
        [e, c, g, p] \<Rightarrow>
          (case (parse_u64 e, parse_u64 c, parse_u64 g, parse_u64 p) of
             (Some e', Some c', Some g', Some p') \<Rightarrow>
               \<lparr>cu_epoch = e', cu_committed = c', cu_gen = g', cu_provisional = p'\<rparr>
           | _ \<Rightarrow> cursor_default)
      | _ \<Rightarrow> cursor_default)"

subsection \<open>Replies\<close>

record 'b pull_reply =
  re_epoch :: nat
  re_committed_from :: nat
  re_committed :: "'b list"
  re_gen :: nat
  re_provisional_from :: nat
  re_provisional :: "'b list"

definition is_idle :: "'b pull_reply \<Rightarrow> bool" where
  "is_idle r \<longleftrightarrow> re_committed r = [] \<and> re_provisional r = []"

definition start_cursor :: "'b pull_reply \<Rightarrow> cursor" where
  "start_cursor r = \<lparr>cu_epoch = re_epoch r, cu_committed = re_committed_from r, cu_gen = re_gen r,
     cu_provisional = re_provisional_from r\<rparr>"

definition next_cursor :: "'b pull_reply \<Rightarrow> cursor" where
  "next_cursor r = \<lparr>cu_epoch = re_epoch r,
     cu_committed = re_committed_from r + length (re_committed r), cu_gen = re_gen r,
     cu_provisional = re_provisional_from r + length (re_provisional r)\<rparr>"

definition pull_indices :: "nat \<Rightarrow> nat \<Rightarrow> nat \<Rightarrow> nat \<Rightarrow> cursor \<Rightarrow> nat \<times> nat" where
  "pull_indices epoch n_committed n_provisional gen c =
     (if cu_epoch c \<noteq> epoch then (0, 0)
      else if n_committed < cu_committed c then (0, 0)
      else (cu_committed c,
            if cu_committed c < n_committed \<or> cu_gen c \<noteq> gen then 0
            else min (cu_provisional c) n_provisional))"

text \<open>\<open>xs[from..]\<close>; \<open>None\<close> is the panic.\<close>

definition slice_from :: "'b list \<Rightarrow> nat \<Rightarrow> 'b list option" where
  "slice_from xs i = (if i \<le> length xs then Some (drop i xs) else None)"

definition pull :: "nat \<Rightarrow> 'b list \<Rightarrow> 'b list \<Rightarrow> nat \<Rightarrow> cursor \<Rightarrow> 'b pull_reply option" where
  "pull epoch committed provisional gen c =
     (let (cf, pf) = pull_indices epoch (length committed) (length provisional) gen c
      in do {
        cs \<leftarrow> slice_from committed cf;
        ps \<leftarrow> slice_from provisional pf;
        Some \<lparr>re_epoch = epoch, re_committed_from = cf, re_committed = cs, re_gen = gen,
              re_provisional_from = pf, re_provisional = ps\<rparr>
      })"

subsection \<open>The client\<close>

record 'b pull_client =
  cl_cursor :: cursor
  cl_committed :: "'b list"
  cl_provisional :: "'b list"

definition client_new :: "'b pull_client" where
  "client_new = \<lparr>cl_cursor = cursor_default, cl_committed = [], cl_provisional = []\<rparr>"

definition client_view :: "'b pull_client \<Rightarrow> 'b list" where
  "client_view c = cl_committed c @ cl_provisional c"

record applied =
  ap_first_changed :: "nat option"
  ap_resync :: bool

text \<open>The sentinel \<open>usize::MAX\<close> of \<open>first\<close> is \<open>None\<close> here.\<close>

definition client_apply :: "'b pull_reply \<Rightarrow> 'b pull_client \<Rightarrow> applied \<times> 'b pull_client" where
  "client_apply r c =
     (let resync = (re_epoch r \<noteq> cu_epoch (cl_cursor c))
      in if \<not> resync \<and> is_idle r then (\<lparr>ap_first_changed = None, ap_resync = False\<rparr>, c)
         else
           (let (first1, com) =
                  (if resync \<or> re_committed r \<noteq> []
                   then (Some (re_committed_from r),
                         take (re_committed_from r) (cl_committed c) @ re_committed r)
                   else (None, cl_committed c));
                stale = (re_provisional_from r < length (cl_provisional c));
                (first2, prov) =
                  (if stale \<or> re_provisional r \<noteq> []
                   then (floor_min first1 (length com + re_provisional_from r),
                         take (re_provisional_from r) (cl_provisional c) @ re_provisional r)
                   else (first1, cl_provisional c))
            in (\<lparr>ap_first_changed = first2, ap_resync = resync\<rparr>,
                \<lparr>cl_cursor = next_cursor r, cl_committed = com, cl_provisional = prov\<rparr>)))"

subsection \<open>Index lemmas\<close>

lemma pull_indices_bounds:
  "pull_indices e n p g c = (cf, pf) \<Longrightarrow> cf \<le> n \<and> pf \<le> p"
  by (auto simp: pull_indices_def split: if_splits)

lemma pull_total: "\<exists>r. pull e cs ps g c = Some r"
  using pull_indices_bounds [of e "length cs" "length ps" g c]
  by (cases "pull_indices e (length cs) (length ps) g c") (auto simp: pull_def slice_from_def)

lemma pull_Some:
  "pull e cs ps g c = Some r \<longleftrightarrow>
     (let (cf, pf) = pull_indices e (length cs) (length ps) g c
      in r = \<lparr>re_epoch = e, re_committed_from = cf, re_committed = drop cf cs, re_gen = g,
              re_provisional_from = pf, re_provisional = drop pf ps\<rparr>)"
  using pull_indices_bounds [of e "length cs" "length ps" g c]
  by (auto simp: pull_def slice_from_def split: prod.splits)

subsection \<open>The server between polls\<close>

text \<open>What a client can see of a server: epoch, generation, and the two zones.\<close>

record 'b snap =
  sn_epoch :: nat
  sn_gen :: nat
  sn_committed :: "'b list"
  sn_provisional :: "'b list"

definition snap_pull :: "'b snap \<Rightarrow> cursor \<Rightarrow> 'b pull_reply option" where
  "snap_pull s c = pull (sn_epoch s) (sn_committed s) (sn_provisional s) (sn_gen s) c"

text \<open>
  The contract of the counters: an epoch keeps the committed zone append-only, and a generation
  keeps the committed zone and only appends to the provisional one.
\<close>

inductive serves :: "'b snap \<Rightarrow> 'b snap \<Rightarrow> bool" where
  same: "serves s s"
| reset: "serves s \<lparr>sn_epoch = Suc (sn_epoch s), sn_gen = Suc (sn_gen s), sn_committed = cs,
                    sn_provisional = ps\<rparr>"
| append: "serves s (s\<lparr>sn_provisional := sn_provisional s @ ps\<rparr>)"
| rewrite: "serves s (s\<lparr>sn_gen := Suc (sn_gen s), sn_committed := sn_committed s @ cs,
                        sn_provisional := ps\<rparr>)"

inductive_cases servesE: "serves s t"

text \<open>What a client holds, seen from the server.\<close>

definition in_step :: "'b snap \<Rightarrow> 'b pull_client \<Rightarrow> bool" where
  "in_step s c \<longleftrightarrow>
     0 < sn_epoch s \<and> cu_epoch (cl_cursor c) \<le> sn_epoch s
     \<and> cu_committed (cl_cursor c) = length (cl_committed c)
     \<and> cu_provisional (cl_cursor c) = length (cl_provisional c)
     \<and> (cu_epoch (cl_cursor c) = sn_epoch s \<longrightarrow>
          cu_gen (cl_cursor c) \<le> sn_gen s
          \<and> (\<exists>cs. sn_committed s = cl_committed c @ cs)
          \<and> (cu_gen (cl_cursor c) = sn_gen s \<longrightarrow> sn_committed s = cl_committed c \<longrightarrow>
               (\<exists>ps. sn_provisional s = cl_provisional c @ ps)))"

lemma in_step_new: "0 < sn_epoch s \<Longrightarrow> in_step s client_new"
  by (simp add: in_step_def client_new_def cursor_default_def)

lemma in_step_serves:
  assumes "in_step s c" and "serves s t"
  shows "in_step t c"
  using assms(2,1) by cases (auto simp: in_step_def)

text \<open>One request and its reply.\<close>

definition poll_once :: "'b snap \<Rightarrow> 'b pull_client \<Rightarrow> (applied \<times> 'b pull_client) option" where
  "poll_once s c = map_option (\<lambda>r. client_apply r c) (snap_pull s (cl_cursor c))"

text \<open>
  The one reply a client ignores although its open turn went away: same epoch, nothing new
  committed, a new generation whose provisional zone is empty.
\<close>

definition emptied :: "'b snap \<Rightarrow> 'b pull_client \<Rightarrow> bool" where
  "emptied s c \<longleftrightarrow> cu_epoch (cl_cursor c) = sn_epoch s
     \<and> cl_committed c = sn_committed s \<and> sn_provisional s = [] \<and> cl_provisional c \<noteq> []"

lemma client_apply_idle:
  "re_epoch r = cu_epoch (cl_cursor c) \<Longrightarrow> is_idle r
     \<Longrightarrow> client_apply r c = (\<lparr>ap_first_changed = None, ap_resync = False\<rparr>, c)"
  by (simp add: client_apply_def)

lemma client_apply_zones:
  assumes "\<not> (re_epoch r = cu_epoch (cl_cursor c) \<and> is_idle r)"
  shows "snd (client_apply r c) =
    \<lparr>cl_cursor = next_cursor r,
     cl_committed = (if re_epoch r \<noteq> cu_epoch (cl_cursor c) \<or> re_committed r \<noteq> []
       then take (re_committed_from r) (cl_committed c) @ re_committed r else cl_committed c),
     cl_provisional = take (re_provisional_from r) (cl_provisional c) @ re_provisional r\<rparr>"
  using assms by (auto simp: client_apply_def Let_def)

text \<open>The reply of a server a client is in step with, case by case.\<close>

lemma poll_resync:
  assumes "cu_epoch (cl_cursor c) \<noteq> sn_epoch s"
  shows "snap_pull s (cl_cursor c) = Some \<lparr>re_epoch = sn_epoch s, re_committed_from = 0,
    re_committed = sn_committed s, re_gen = sn_gen s, re_provisional_from = 0,
    re_provisional = sn_provisional s\<rparr>"
  using assms by (simp add: snap_pull_def pull_Some pull_indices_def)

lemma poll_same_epoch:
  assumes "in_step s c" and "cu_epoch (cl_cursor c) = sn_epoch s" and "sn_committed s = cl_committed c @ cs"
  shows "snap_pull s (cl_cursor c) =
    (let pf = (if cs \<noteq> [] \<or> cu_gen (cl_cursor c) \<noteq> sn_gen s then 0 else length (cl_provisional c))
     in Some \<lparr>re_epoch = sn_epoch s, re_committed_from = length (cl_committed c), re_committed = cs,
       re_gen = sn_gen s, re_provisional_from = pf, re_provisional = drop pf (sn_provisional s)\<rparr>)"
  using assms by (auto simp: snap_pull_def pull_Some pull_indices_def in_step_def Let_def)

lemma poll_result:
  assumes st: "in_step s c" and poll: "poll_once s c = Some (ap, c')"
  shows "in_step s c' \<and> (if emptied s c then c' = c \<and> ap = \<lparr>ap_first_changed = None, ap_resync = False\<rparr>
     else cl_committed c' = sn_committed s \<and> cl_provisional c' = sn_provisional s)"
proof (cases "cu_epoch (cl_cursor c) = sn_epoch s")
  case False
  let ?r = "\<lparr>re_epoch = sn_epoch s, re_committed_from = 0,
    re_committed = sn_committed s, re_gen = sn_gen s, re_provisional_from = 0,
    re_provisional = sn_provisional s\<rparr>"
  have "c' = snd (client_apply ?r c)"
    using poll poll_resync [OF False] by (simp add: poll_once_def)
  then show ?thesis
    using st False client_apply_zones [of ?r c] by (simp add: in_step_def emptied_def next_cursor_def)
next
  case True
  obtain cs where cs: "sn_committed s = cl_committed c @ cs"
    using st True by (auto simp: in_step_def)
  let ?pf = "if cs \<noteq> [] \<or> cu_gen (cl_cursor c) \<noteq> sn_gen s then 0 else length (cl_provisional c)"
  let ?r = "\<lparr>re_epoch = sn_epoch s, re_committed_from = length (cl_committed c), re_committed = cs,
       re_gen = sn_gen s, re_provisional_from = ?pf, re_provisional = drop ?pf (sn_provisional s)\<rparr>"
  have app: "(ap, c') = client_apply ?r c"
    using poll poll_same_epoch [OF st True cs] by (simp add: poll_once_def Let_def)
  have held: "\<exists>ps. sn_provisional s = cl_provisional c @ ps"
    if "cs = []" "cu_gen (cl_cursor c) = sn_gen s"
    using st True cs that by (simp add: in_step_def)
  show ?thesis
  proof (cases "is_idle ?r")
    case idle: True
    then have "cs = []" "drop ?pf (sn_provisional s) = []" by (auto simp: is_idle_def)
    moreover have "ap = \<lparr>ap_first_changed = None, ap_resync = False\<rparr> \<and> c' = c"
      using app client_apply_idle [of ?r c] True idle by simp
    ultimately show ?thesis
      using st True cs held by (auto simp: emptied_def split: if_splits)
  next
    case False
    then have z: "c' = \<lparr>cl_cursor = next_cursor ?r,
        cl_committed = (if sn_epoch s \<noteq> cu_epoch (cl_cursor c) \<or> cs \<noteq> []
          then take (length (cl_committed c)) (cl_committed c) @ cs else cl_committed c),
        cl_provisional = take ?pf (cl_provisional c) @ drop ?pf (sn_provisional s)\<rparr>"
      using client_apply_zones [of ?r c] arg_cong [OF app, of snd] by simp
    have com: "cl_committed c' = sn_committed s"
      using z cs by simp
    have prov: "cl_provisional c' = sn_provisional s"
    proof (cases "cs = [] \<and> cu_gen (cl_cursor c) = sn_gen s")
      case True
      then obtain ps where "sn_provisional s = cl_provisional c @ ps" using held by auto
      then show ?thesis using z True by simp
    qed (use z in auto)
    have cur: "cu_epoch (cl_cursor c') = sn_epoch s" "cu_gen (cl_cursor c') = sn_gen s"
        "cu_committed (cl_cursor c') = length (sn_committed s)"
      using z cs by (simp_all add: next_cursor_def)
    have "cu_provisional (cl_cursor c') = ?pf + length (drop ?pf (sn_provisional s))"
      using z by (simp add: next_cursor_def)
    moreover have "?pf \<le> length (sn_provisional s)"
      using held by auto
    ultimately have "cu_provisional (cl_cursor c') = length (sn_provisional s)" by simp
    moreover have "\<not> emptied s c"
      using False cs by (auto simp: emptied_def is_idle_def)
    ultimately show ?thesis
      using st com prov cur by (simp add: in_step_def)
  qed
qed

text \<open>The first changed index a client reports is sound.\<close>

definition changed_ok :: "applied \<Rightarrow> 'b list \<Rightarrow> 'b list \<Rightarrow> bool" where
  "changed_ok ap old new \<longleftrightarrow>
     (case ap_first_changed ap of None \<Rightarrow> new = old | Some k \<Rightarrow> take k new = take k old)"

lemma client_apply_first:
  assumes "\<not> (re_epoch r = cu_epoch (cl_cursor c) \<and> is_idle r)"
  shows "ap_first_changed (fst (client_apply r c)) =
    (let com = (if re_epoch r \<noteq> cu_epoch (cl_cursor c) \<or> re_committed r \<noteq> []
       then take (re_committed_from r) (cl_committed c) @ re_committed r else cl_committed c);
       first1 = (if re_epoch r \<noteq> cu_epoch (cl_cursor c) \<or> re_committed r \<noteq> []
         then Some (re_committed_from r) else None)
     in if re_provisional_from r < length (cl_provisional c) \<or> re_provisional r \<noteq> []
        then floor_min first1 (length com + re_provisional_from r) else first1)"
  using assms by (auto simp: client_apply_def Let_def)

lemma poll_first_changed:
  assumes st: "in_step s c" and poll: "poll_once s c = Some (ap, c')"
  shows "changed_ok ap (client_view c) (client_view c')"
proof (cases "cu_epoch (cl_cursor c) = sn_epoch s")
  case False
  let ?r = "\<lparr>re_epoch = sn_epoch s, re_committed_from = 0,
    re_committed = sn_committed s, re_gen = sn_gen s, re_provisional_from = 0,
    re_provisional = sn_provisional s\<rparr>"
  have app: "(ap, c') = client_apply ?r c"
    using poll poll_resync [OF False] by (simp add: poll_once_def)
  have "ap_first_changed ap = Some 0"
    using arg_cong [OF app, of fst] client_apply_first [of ?r c] False
    by (auto simp: floor_min_def Let_def)
  then show ?thesis by (simp add: changed_ok_def)
next
  case True
  obtain cs where cs: "sn_committed s = cl_committed c @ cs"
    using st True by (auto simp: in_step_def)
  let ?pf = "if cs \<noteq> [] \<or> cu_gen (cl_cursor c) \<noteq> sn_gen s then 0 else length (cl_provisional c)"
  let ?r = "\<lparr>re_epoch = sn_epoch s, re_committed_from = length (cl_committed c), re_committed = cs,
       re_gen = sn_gen s, re_provisional_from = ?pf, re_provisional = drop ?pf (sn_provisional s)\<rparr>"
  have app: "(ap, c') = client_apply ?r c"
    using poll poll_same_epoch [OF st True cs] by (simp add: poll_once_def Let_def)
  show ?thesis
  proof (cases "is_idle ?r")
    case idle: True
    then show ?thesis using app client_apply_idle [of ?r c] True by (simp add: changed_ok_def)
  next
    case False
    have z: "c' = \<lparr>cl_cursor = next_cursor ?r,
        cl_committed = (if cs \<noteq> [] then cl_committed c @ cs else cl_committed c),
        cl_provisional = take ?pf (cl_provisional c) @ drop ?pf (sn_provisional s)\<rparr>"
      using client_apply_zones [of ?r c] False True arg_cong [OF app, of snd] by simp
    have first: "ap_first_changed ap =
      (if ?pf < length (cl_provisional c) \<or> drop ?pf (sn_provisional s) \<noteq> []
       then floor_min (if cs \<noteq> [] then Some (length (cl_committed c)) else None)
              (length (cl_committed c @ cs) + ?pf)
       else if cs \<noteq> [] then Some (length (cl_committed c)) else None)"
      using client_apply_first [of ?r c] False True arg_cong [OF app, of fst] by (simp add: Let_def)
    show ?thesis
    proof (cases "cs = []")
      case False
      then have "ap_first_changed ap = Some (length (cl_committed c))"
        using first by (auto simp: floor_min_def)
      then show ?thesis using z False by (simp add: changed_ok_def client_view_def)
    next
      case nil: True
      then have "ap_first_changed ap = Some (length (cl_committed c) + ?pf)"
        using first False by (auto simp: floor_min_def is_idle_def)
      then show ?thesis using z nil by (simp add: changed_ok_def client_view_def)
    qed
  qed
qed

subsection \<open>Claims\<close>

text \<open>
  The cursor's query form round-trips: parsing what was printed gives the cursor back, for
  every cursor whose four fields fit 64 bits; and text that is not four decimal numbers
  separated by dots parses to the default cursor, which the server answers with a resync.
\<close>

theorem cursor_query_roundtrip:
  assumes "cu_epoch c \<le> u64_max" and "cu_committed c \<le> u64_max" and "cu_gen c \<le> u64_max"
    and "cu_provisional c \<le> u64_max"
  shows "from_query (to_query c) = c
    \<and> (length (split_on (CHR ''.'') q) \<noteq> 4 \<longrightarrow> from_query q = cursor_default)"
proof
  have d: "CHR ''.'' \<notin> set (show_nat n)" for n by (rule show_nat_notin) simp
  have "split_on (CHR ''.'') (to_query c) =
      [show_nat (cu_epoch c), show_nat (cu_committed c), show_nat (cu_gen c), show_nat (cu_provisional c)]"
    using d by (simp add: to_query_def split_on_append split_on_none)
  then show "from_query (to_query c) = c"
    using assms by (simp add: from_query_def parse_u64_show)
  show "length (split_on (CHR ''.'') q) \<noteq> 4 \<longrightarrow> from_query q = cursor_default"
    by (auto simp: from_query_def split: list.split)
qed

theorem cursor_query_roundtrip_witness:
  "from_query (to_query \<lparr>cu_epoch = 3, cu_committed = 120, cu_gen = 7, cu_provisional = 0\<rparr>)
     = \<lparr>cu_epoch = 3, cu_committed = 120, cu_gen = 7, cu_provisional = 0\<rparr>"
  using cursor_query_roundtrip
    [of "\<lparr>cu_epoch = 3, cu_committed = 120, cu_gen = 7, cu_provisional = 0\<rparr>" "[]"]
  by (simp add: u64_max_def)

end
