(* ===== verification/Shared.thy ===== *)
theory Shared
  imports Follow Pull
begin

text \<open>
  The shared session (\<open>claude-replay-present/src/cache/shared.rs\<close>): a follower with the two
  protocol counters.  Every operation runs under one lock, so the operations are the steps of a
  state machine.  The durable writer is the log of the records its appends kept; whether an
  append succeeds is an argument, since the code ignores the error.
\<close>

subsection \<open>State\<close>

record ('p, 'm, 'st, 'bv) shared =
  sh_follower :: "('p, 'm, 'st, 'bv) follower"
  sh_epoch :: nat
  sh_gen :: nat
  sh_n_provisional :: nat
  sh_prev_provisional :: "block list"
  sh_writer :: "meta_record list option"
  sh_frozen :: bool

definition shared_with_store ::
  "('p, 'm) adapter \<Rightarrow> 'st \<Rightarrow> spawn_link list \<Rightarrow> ('p, 'm, 'st, 'bv) shared" where
  "shared_with_store ad store links =
     \<lparr>sh_follower = follow_with_store ad store links, sh_epoch = 1, sh_gen = 0, sh_n_provisional = 0,
      sh_prev_provisional = [], sh_writer = None, sh_frozen = False\<rparr>"

definition shared_resume ::
  "('p, 'm) adapter \<Rightarrow> 'st \<Rightarrow> 'bv list \<Rightarrow> materialized_meta \<Rightarrow> metrics_totals \<Rightarrow> resume
     \<Rightarrow> spawn_link list \<Rightarrow> ('p, 'm, 'st, 'bv) shared" where
  "shared_resume ad store committed mm totals rs links =
     \<lparr>sh_follower = follow_resume ad store committed mm totals rs links, sh_epoch = 1, sh_gen = 0,
      sh_n_provisional = 0, sh_prev_provisional = [], sh_writer = None, sh_frozen = False\<rparr>"

abbreviation sh_acc :: "('p, 'm, 'st, 'bv) shared \<Rightarrow> ('p, 'm, 'st, 'bv) acc" where
  "sh_acc sh \<equiv> fw_acc (sh_follower sh)"

text \<open>\<open>Inner::record\<close>: drain the authored records into the writer, when there is one.\<close>

definition record_meta ::
  "(meta_record \<Rightarrow> bool) \<Rightarrow> ('p, 'm, 'st, 'bv) shared \<Rightarrow> ('p, 'm, 'st, 'bv) shared" where
  "record_meta keeps sh =
     (case sh_writer sh of
        None \<Rightarrow> sh
      | Some lg \<Rightarrow>
          (let (rs, a) = drain_meta (sh_acc sh)
           in sh\<lparr>sh_follower := (sh_follower sh)\<lparr>fw_acc := a\<rparr>,
                 sh_writer := Some (lg @ filter keeps rs)\<rparr>))"

subsection \<open>Advancing\<close>

definition prefix_intact :: "block list \<Rightarrow> block list \<Rightarrow> bool" where
  "prefix_intact old new \<longleftrightarrow> length old \<le> length new \<and> list_all (\<lambda>(a, b). a = b) (zip old new)"

definition bump_counters ::
  "bool \<Rightarrow> bool \<Rightarrow> nat option \<Rightarrow> block list \<Rightarrow> ('p, 'm, 'st, 'bv) shared \<Rightarrow> ('p, 'm, 'st, 'bv) shared" where
  "bump_counters reset grew pf prov sh =
     (if reset then sh\<lparr>sh_epoch := sh_epoch sh + 1, sh_gen := sh_gen sh + 1\<rparr>
      else if grew \<or> pf \<noteq> None \<or> \<not> prefix_intact (sh_prev_provisional sh) prov
      then sh\<lparr>sh_gen := sh_gen sh + 1\<rparr>
      else sh)"

definition shared_advance ::
  "('p, 'm) adapter \<Rightarrow> ('st, 'bv) store_ops \<Rightarrow> (meta_record \<Rightarrow> bool) \<Rightarrow> source_view
     \<Rightarrow> ('p, 'm, 'st, 'bv) shared \<Rightarrow> (bool, ('p, 'm, 'st, 'bv) shared) ticked" where
  "shared_advance ad so keeps en sh =
     (if sh_frozen sh then Some (Inr False, sh)
      else do {
        let before = length (ac_committed (sh_acc sh));
        (res, fw) \<leftarrow> advance_stream ad so en (sh_follower sh);
        let sh1 = sh\<lparr>sh_follower := fw\<rparr>;
        case res of
          Inl e \<Rightarrow> Some (Inl e, sh1)
        | Inr None \<Rightarrow> Some (Inr False, sh1)
        | Inr (Some (reset, pf)) \<Rightarrow> do {
            (prov, _) \<leftarrow> acc_open_snapshot ad (fw_acc fw);
            let sh2 = bump_counters reset (before < length (ac_committed (fw_acc fw))) pf prov sh1;
            Some (Inr True,
                  record_meta keeps (sh2\<lparr>sh_n_provisional := length prov, sh_prev_provisional := prov\<rparr>))
          }
      })"

record view_delta =
  vd_reset :: bool
  vd_committed_delta :: "block list"
  vd_committed_len :: nat
  vd_provisional :: "block list"
  vd_changed_from :: nat
  vd_user_times :: "epoch_seconds option list"
  vd_tasks :: "task_item list"

text \<open>\<open>poll_view\<close>, for the store that shares its blocks by reference.\<close>

definition poll_view ::
  "('p, 'm) adapter \<Rightarrow> (meta_record \<Rightarrow> bool) \<Rightarrow> source_view \<Rightarrow> ('p, 'm, unit, block) shared
     \<Rightarrow> (view_delta option, ('p, 'm, unit, block) shared) ticked" where
  "poll_view ad keeps en sh =
     (if sh_frozen sh then Some (Inr None, sh)
      else do {
        let before = length (ac_committed (sh_acc sh));
        (res, fw) \<leftarrow> advance_stream ad in_memory_store en (sh_follower sh);
        let sh1 = sh\<lparr>sh_follower := fw\<rparr>;
        case res of
          Inl e \<Rightarrow> Some (Inl e, sh1)
        | Inr None \<Rightarrow> Some (Inr None, sh1)
        | Inr (Some (reset, pf)) \<Rightarrow> do {
            r \<leftarrow> open_read ad (fw_acc fw);
            let n = length (ac_committed (fw_acc fw));
            let delta = drop (min before n) (ac_committed (fw_acc fw));
            let sh2 = bump_counters reset (before < n) pf (sr_provisional r) sh1;
            let changed = (if reset then 0
                           else before + common_prefix_len (sh_prev_provisional sh)
                                           (delta @ sr_provisional r));
            Some (Inr (Some \<lparr>vd_reset = reset, vd_committed_delta = delta, vd_committed_len = n,
                    vd_provisional = sr_provisional r, vd_changed_from = changed,
                    vd_user_times = sr_user_times r, vd_tasks = sr_tasks r\<rparr>),
                  record_meta keeps (sh2\<lparr>sh_n_provisional := length (sr_provisional r),
                                        sh_prev_provisional := sr_provisional r\<rparr>))
          }
      })"

subsection \<open>Reading\<close>

definition shared_pull ::
  "('p, 'm) adapter \<Rightarrow> ('st, 'bv) store_ops \<Rightarrow> cursor \<Rightarrow> ('p, 'm, 'st, 'bv) shared
     \<Rightarrow> block pull_reply option" where
  "shared_pull ad so c sh = do {
     (prov, _) \<leftarrow> acc_open_snapshot ad (sh_acc sh);
     let (cf, pf) = pull_indices (sh_epoch sh) (length (ac_committed (sh_acc sh))) (length prov)
                      (sh_gen sh) c;
     ps \<leftarrow> slice_from prov pf;
     Some \<lparr>re_epoch = sh_epoch sh, re_committed_from = cf,
           re_committed = committed_tail so cf (sh_acc sh), re_gen = sh_gen sh,
           re_provisional_from = pf, re_provisional = ps\<rparr>
   }"

record pull_delta =
  pd_epoch :: nat
  pd_gen :: nat
  pd_reset :: bool
  pd_read :: stream_read

definition shared_pull_delta ::
  "('p, 'm) adapter \<Rightarrow> ('st, 'bv) store_ops \<Rightarrow> nat \<Rightarrow> nat \<Rightarrow> ('p, 'm, 'st, 'bv) shared
     \<Rightarrow> pull_delta option" where
  "shared_pull_delta ad so prev_epoch rendered sh = do {
     let reset = (prev_epoch \<noteq> sh_epoch sh);
     let from_idx = (if reset then 0 else min rendered (length (ac_committed (sh_acc sh))));
     r \<leftarrow> read_stream ad so from_idx (sh_acc sh);
     Some \<lparr>pd_epoch = sh_epoch sh, pd_gen = sh_gen sh, pd_reset = reset, pd_read = r\<rparr>
   }"

definition open_delta_with ::
  "('p, 'm) adapter \<Rightarrow> ('st \<Rightarrow> 'bv list \<Rightarrow> pull_delta \<Rightarrow> 'r) \<Rightarrow> ('p, 'm, 'st, 'bv) shared
     \<Rightarrow> (pull_delta \<times> 'r) option" where
  "open_delta_with ad f sh = do {
     r \<leftarrow> open_read ad (sh_acc sh);
     let d = \<lparr>pd_epoch = sh_epoch sh, pd_gen = sh_gen sh, pd_reset = False, pd_read = r\<rparr>;
     Some (d, f (ac_store (sh_acc sh)) (ac_committed (sh_acc sh)) d)
   }"

definition counters :: "('p, 'm, 'st, 'bv) shared \<Rightarrow> nat \<times> nat \<times> nat \<times> nat" where
  "counters sh = (sh_epoch sh, sh_gen sh, length (ac_committed (sh_acc sh)), sh_n_provisional sh)"

definition end_cursor :: "('p, 'm, 'st, 'bv) shared \<Rightarrow> cursor" where
  "end_cursor sh =
     (let (e, g, c, p) = counters sh
      in \<lparr>cu_epoch = e, cu_committed = c, cu_gen = g, cu_provisional = p\<rparr>)"

subsection \<open>Ownership\<close>

definition attach_writer ::
  "(meta_record \<Rightarrow> bool) \<Rightarrow> meta_record list \<Rightarrow> ('p, 'm, 'st, 'bv) shared \<Rightarrow> ('p, 'm, 'st, 'bv) shared" where
  "attach_writer keeps lg sh = record_meta keeps (sh\<lparr>sh_writer := Some lg, sh_frozen := False\<rparr>)"

definition quiesce ::
  "(meta_record \<Rightarrow> bool) \<Rightarrow> ('p, 'm, 'st, 'bv) shared \<Rightarrow> ('p, 'm, 'st, 'bv) shared" where
  "quiesce keeps sh = (record_meta keeps sh)\<lparr>sh_writer := None, sh_frozen := True\<rparr>"

definition thaw :: "('p, 'm, 'st, 'bv) shared \<Rightarrow> ('p, 'm, 'st, 'bv) shared" where
  "thaw sh = sh\<lparr>sh_frozen := False\<rparr>"

end
