(* ===== verification/Follow_Props.thy ===== *)
theory Follow_Props
  imports Follow Parse_Props
begin

text \<open>
  What a follower guarantees over the in-memory store: no tick panics, its accumulator stays
  well formed, an idle tick changes nothing a reader sees, and a tick without a reset only
  appends committed blocks.
\<close>

subsection \<open>Invariant\<close>

definition elision_le :: "elision_counts \<Rightarrow> elision_counts \<Rightarrow> bool" where
  "elision_le a b \<longleftrightarrow> ec_lines a \<le> ec_lines b \<and> ec_bytes a \<le> ec_bytes b \<and> ec_skipped a \<le> ec_skipped b"

definition banked_ok :: "('p, 'm, 'st, 'bv) follower \<Rightarrow> bool" where
  "banked_ok f \<longleftrightarrow>
     (case fw_src f of None \<Rightarrow> fw_banked f = elision_zero | Some (_, el) \<Rightarrow> elision_le (fw_banked f) el)"

definition fw_inv :: "('p, 'm, unit, block) follower \<Rightarrow> bool" where
  "fw_inv f \<longleftrightarrow> mem_inv (fw_acc f) \<and> banked_ok f"

lemma elision_sub_total: "elision_le b a \<Longrightarrow> \<exists>d. elision_sub (elision_add a c) b = Some d"
  by (simp add: elision_le_def elision_sub_def elision_add_def)

lemma elision_le_refl [simp]: "elision_le a a"
  by (simp add: elision_le_def)

lemma elision_le_add: "elision_le b a \<Longrightarrow> elision_le b (elision_add a c)"
  by (simp add: elision_le_def elision_add_def)

lemma acc_inv_links [simp]:
  "acc_inv so sound live (set_spawn_links ls a) = acc_inv so sound live a"
  unfolding acc_inv_def set_spawn_links_def by simp

lemma bank_elision_metrics: "\<exists>m. bank_elision ad d a = a\<lparr>ac_metrics := m\<rparr>"
  unfolding bank_elision_def by blast

lemma acc_inv_bank [simp]:
  "acc_inv so sound live (bank_elision ad d a) = acc_inv so sound live a"
  using bank_elision_metrics [of ad d a] by auto

lemma bank_elision_frame [simp]:
  "ac_committed (bank_elision ad d a) = ac_committed a"
  "acc_open_snapshot ad' (bank_elision ad d a) = acc_open_snapshot ad' a"
  "ac_meta_out (bank_elision ad d a) = ac_meta_out a"
  "ac_task_fold (bank_elision ad d a) = ac_task_fold a"
  using bank_elision_metrics [of ad d a] by (auto simp: acc_open_snapshot_def)

lemma set_spawn_links_frame [simp]:
  "ac_committed (set_spawn_links ls a) = ac_committed a"
  "ac_task_fold (set_spawn_links ls a) = ac_task_fold a"
  by (simp_all add: set_spawn_links_def)

lemma banked_ok_memo [simp]:
  "banked_ok (f\<lparr>fw_prev_committed := n, fw_prev_provisional := bs\<rparr>) = banked_ok f"
  by (cases "fw_src f") (auto simp: banked_ok_def)

lemma new_follower_inv: "fw_inv (follow_with_store ad () links)"
  by (simp add: fw_inv_def banked_ok_def follow_with_store_def mem_new)

subsection \<open>One tick\<close>

text \<open>What a tick did, as the callers rely on it.\<close>

definition tick_effect ::
  "('p, 'm) adapter \<Rightarrow> unit + tick \<Rightarrow> ('p, 'm, unit, block) follower \<Rightarrow> ('p, 'm, unit, block) follower \<Rightarrow> bool" where
  "tick_effect ad res f f' \<longleftrightarrow>
     fw_inv f' \<and> fw_prev_committed f' = fw_prev_committed f
     \<and> fw_prev_provisional f' = fw_prev_provisional f
     \<and> (\<forall>t. res = Inr t \<longrightarrow>
          (\<not> tk_advanced t \<longrightarrow> ac_committed (fw_acc f') = ac_committed (fw_acc f)
             \<and> acc_open_snapshot ad (fw_acc f') = acc_open_snapshot ad (fw_acc f)
             \<and> \<not> tk_reset t)
          \<and> (\<not> tk_reset t \<longrightarrow> (\<exists>xs. ac_committed (fw_acc f') = ac_committed (fw_acc f) @ xs)))"

lemma fold_source_effect:
  assumes hooks: "hooks_ok (ad_shaping ad)" and dec: "decoder_ok ad" and inv: "mem_inv (fw_acc f)"
    and el: "elision_le (fw_banked f) (snd src)"
  shows "\<exists>res f'. fold_source ad in_memory_store en reset src f = Some (res, f')
    \<and> fw_inv f' \<and> fw_prev_committed f' = fw_prev_committed f
    \<and> fw_prev_provisional f' = fw_prev_provisional f
    \<and> (\<forall>t. res = Inr t \<longrightarrow> tk_reset t = reset
          \<and> (\<not> tk_advanced t \<longrightarrow> ac_committed (fw_acc f') = ac_committed (fw_acc f)
             \<and> acc_open_snapshot ad (fw_acc f') = acc_open_snapshot ad (fw_acc f) \<and> \<not> reset)
          \<and> (\<exists>xs. ac_committed (fw_acc f') = ac_committed (fw_acc f) @ xs))"
proof -
  obtain a pf where a: "advance_lines ad in_memory_store (en_lines en) None (fw_acc f) = Some (a, pf)"
      "mem_inv a"
    by (rule mem_lines [OF hooks dec inv])
  obtain xs where xs: "ac_committed a = ac_committed (fw_acc f) @ xs"
    using advance_lines_mem_grows [OF a(1)] by blast
  obtain d where d: "elision_sub (elision_add (snd src) (en_elided en)) (fw_banked f) = Some d"
    using elision_sub_total [OF el] by blast
  have same: "a = fw_acc f" if "en_lines en = []"
    using a(1) that by simp
  show ?thesis
    using a d xs same elision_le_add [OF el]
    by (cases "en_fail en"; cases "\<not> reset \<and> en_lines en = []")
      (auto simp: fold_source_def Let_def fw_inv_def banked_ok_def tick_idle_def)
qed

lemma advance_from_source_effect:
  assumes hooks: "hooks_ok (ad_shaping ad)" and dec: "decoder_ok ad" and inv: "fw_inv f"
  shows "\<exists>res f'. advance_from_source ad in_memory_store en f = Some (res, f') \<and> tick_effect ad res f f'"
proof -
  obtain reset f2 where p: "prepare ad in_memory_store en f = (reset, f2)"
    by (cases "prepare ad in_memory_store en f")
  have f2: "fw_inv f2" "fw_prev_committed f2 = fw_prev_committed f"
      "fw_prev_provisional f2 = fw_prev_provisional f" "\<not> reset \<Longrightarrow> fw_acc f2 = fw_acc f"
    using p inv mem.acc_reset_inv [of "fw_acc f" ad]
    by (auto simp: prepare_def Let_def fw_inv_def banked_ok_def split: if_splits)
  have zero: "fw_src f2 = None \<Longrightarrow> elision_le (fw_banked f2) (snd (fw_cursor f2, elision_zero))"
    "fw_src f2 = Some src \<Longrightarrow> elision_le (fw_banked f2) (snd src)" for src
    using f2(1) by (auto simp: fw_inv_def banked_ok_def)
  have acc: "mem_inv (fw_acc f2)" using f2(1) by (simp add: fw_inv_def)
  have folded: ?thesis
    if run: "advance_from_source ad in_memory_store en f = fold_source ad in_memory_store en reset src f2"
      and src: "elision_le (fw_banked f2) (snd src)" for src
  proof -
    obtain res f' where r: "fold_source ad in_memory_store en reset src f2 = Some (res, f')" "fw_inv f'"
        "fw_prev_committed f' = fw_prev_committed f2" "fw_prev_provisional f' = fw_prev_provisional f2"
        "\<forall>t. res = Inr t \<longrightarrow> tk_reset t = reset
          \<and> (\<not> tk_advanced t \<longrightarrow> ac_committed (fw_acc f') = ac_committed (fw_acc f2)
             \<and> acc_open_snapshot ad (fw_acc f') = acc_open_snapshot ad (fw_acc f2) \<and> \<not> reset)
          \<and> (\<exists>xs. ac_committed (fw_acc f') = ac_committed (fw_acc f2) @ xs)"
      using fold_source_effect [OF hooks dec acc src, of en reset] by blast
    then have "tick_effect ad res f f'"
      unfolding tick_effect_def using f2 by (cases reset) auto
    then show ?thesis using run r(1) by auto
  qed
  show ?thesis
  proof (cases "fw_src f2")
    case None
    then show ?thesis
      using p f2 folded [OF _ zero(1) [OF None]]
      by (cases "en_open en \<and> en_seek en")
        (auto simp: advance_from_source_def tick_effect_def tick_idle_def)
  next
    case (Some src)
    then show ?thesis
      using p f2 folded [OF _ zero(2) [OF Some]]
      by (cases "en_seek en") (auto simp: advance_from_source_def tick_effect_def)
  qed
qed

subsection \<open>Exact change boundaries\<close>

text \<open>\<open>k\<close> is the length of the longest common prefix.\<close>

definition first_difference :: "nat \<Rightarrow> 'a list \<Rightarrow> 'a list \<Rightarrow> bool" where
  "first_difference k xs ys \<longleftrightarrow>
     take k xs = take k ys \<and> k \<le> length xs \<and> k \<le> length ys
     \<and> (k < length xs \<longrightarrow> k < length ys \<longrightarrow> xs ! k \<noteq> ys ! k)"

lemma common_prefix_first: "first_difference (common_prefix_len xs ys) xs ys"
  by (induction xs ys rule: common_prefix_len.induct) (auto simp: first_difference_def)

lemma first_difference_append:
  "first_difference k xs ys \<Longrightarrow> first_difference (length zs + k) (zs @ xs) (zs @ ys)"
  by (auto simp: first_difference_def nth_append)

lemma open_snapshot_total:
  assumes "hooks_ok (ad_shaping ad)" and "mem_inv a"
  shows "\<exists>prov ts. acc_open_snapshot ad a = Some (prov, ts)"
proof -
  have "rep_inv (ac_replayer a)" "aligned (sm_turns (ac_committed_meta a)) (ac_replayer a)"
      "rp_durable (ac_replayer a) = []"
    using assms(2) unfolding acc_inv_def by blast+
  then show ?thesis
    using fold_shaping.open_snapshot_aligned [OF hooks_fold [OF assms(1)], of "ac_replayer a"]
    by (fastforce simp: acc_open_snapshot_def)
qed

lemma acc_fold_mem:
  "acc_open_snapshot ad a = Some (prov, ts)
     \<Longrightarrow> acc_fold ad in_memory_store a = Some (ac_committed a @ prov, ts)"
  by (simp add: acc_fold_def in_memory_store_def)

text \<open>The follower remembers what its last poll showed.\<close>

definition remembers :: "('p, 'm) adapter \<Rightarrow> ('p, 'm, unit, block) follower \<Rightarrow> bool" where
  "remembers ad f \<longleftrightarrow> fw_inv f \<and> fw_prev_committed f = length (ac_committed (fw_acc f))
     \<and> (\<exists>ts. acc_open_snapshot ad (fw_acc f) = Some (fw_prev_provisional f, ts))"

lemma remembers_fold:
  assumes "remembers ad f"
  shows "\<exists>bs uts. acc_fold ad in_memory_store (fw_acc f) = Some (bs, uts)"
  using assms acc_fold_mem unfolding remembers_def by blast

lemma new_remembers:
  assumes "hooks_ok (ad_shaping ad)"
  shows "remembers ad (follow_with_store ad () links)"
proof -
  have "finish_turns (ad_shaping ad) [] = []"
    using fold_shaping.finish_empty [OF hooks_fold [OF assms]] .
  then show ?thesis
    using new_follower_inv [of ad links]
    by (simp add: remembers_def follow_with_store_def set_spawn_links_def acc_new_def
        acc_open_snapshot_def open_snapshot_def stamp_user_turns_def replayer_new_def window_stamped_def
        finalize_open_def apply_spawn_links_def)
qed

subsection \<open>Claims\<close>


definition tail_view :: "nat \<Rightarrow> bool \<Rightarrow> (nat \<times> string) list \<Rightarrow> source_view" where
  "tail_view len seek ls = \<lparr>en_len = len, en_same = True, en_open = True, en_seek = seek, en_lines = ls,
     en_offset = len, en_elided = elision_zero, en_fail = False, en_links = []\<rparr>"


lemma poll_sequence:
  assumes "case p0 of Some (Inr (Some d), f1) \<Rightarrow>
      (case q f1 of Some (Inl u, f2) \<Rightarrow> (case r f2 of None \<Rightarrow> True | Some x \<Rightarrow> False) | x \<Rightarrow> False)
    | x \<Rightarrow> False"
  shows "\<exists>f1 f2 d. p0 = Some (Inr (Some d), f1) \<and> q f1 = Some (Inl (), f2) \<and> r f2 = None"
proof -
  obtain d f1 where 1: "p0 = Some (Inr (Some d), f1)"
    using assms by (cases p0) (simp, simp split: prod.split_asm sum.split_asm option.split_asm)
  then obtain f2 where 2: "q f1 = Some (Inl (), f2)"
    using assms by (cases "q f1") (simp, simp split: prod.split_asm sum.split_asm)
  from 1 2 assms have "r f2 = None" by (cases "r f2") simp_all
  with 1 2 show ?thesis by blast
qed

text \<open>
  An I/O error can lose a reset, and the next poll then panics.  The transcript shrinks, the
  follower resets its accumulator, and seeking in the reopened file fails: the tick returns the
  error, the reset flag is gone, and the following poll slices the new, shorter block list at
  the old committed length.
\<close>

theorem lost_reset_panics:
  "\<exists>f1 f2 d.
      poll_delta text_adapter in_memory_store (tail_view 6 True [(0, ''a''), (2, ''b''), (4, ''c'')])
        (follow_with_store text_adapter () []) = Some (Inr (Some d), f1)
    \<and> poll_delta text_adapter in_memory_store (tail_view 2 False []) f1 = Some (Inl (), f2)
    \<and> poll_delta text_adapter in_memory_store (tail_view 2 True [(0, ''z'')]) f2 = None"
proof -
  let ?poll = "poll_delta text_adapter in_memory_store"
  let ?f0 = "follow_with_store text_adapter () []"
  let ?en1 = "tail_view 6 True [(0, ''a''), (2, ''b''), (4, ''c'')]"
  let ?en2 = "tail_view 2 False []" and ?en3 = "tail_view 2 True [(0, ''z'')]"
  have "(case ?poll ?en1 ?f0 of Some (Inr (Some d), f1) \<Rightarrow>
            (case ?poll ?en2 f1 of Some (Inl u, f2) \<Rightarrow>
               (case ?poll ?en3 f2 of None \<Rightarrow> True | Some r \<Rightarrow> False)
             | r \<Rightarrow> False)
        | r \<Rightarrow> False)"
    by code_simp
  then show ?thesis
    by (rule poll_sequence)
qed

end
