(* ===== verification/Shared_Props.thy ===== *)
theory Shared_Props
  imports Shared Follow_Props
begin

text \<open>
  The shared session keeps the contract of its counters, so every client that pulls from it is
  caught up after one poll, except when the open turn was withdrawn; and the in-process view
  delta names exactly the first block that changed.
\<close>

subsection \<open>The session as a server\<close>

definition shared_inv :: "('p, 'm) adapter \<Rightarrow> ('p, 'm, unit, block) shared \<Rightarrow> bool" where
  "shared_inv ad sh \<longleftrightarrow>
     fw_inv (sh_follower sh) \<and> 0 < sh_epoch sh
     \<and> (\<exists>ts. acc_open_snapshot ad (sh_acc sh) = Some (sh_prev_provisional sh, ts))
     \<and> sh_n_provisional sh = length (sh_prev_provisional sh)"

definition snap_of :: "('p, 'm, unit, block) shared \<Rightarrow> block snap" where
  "snap_of sh = \<lparr>sn_epoch = sh_epoch sh, sn_gen = sh_gen sh, sn_committed = ac_committed (sh_acc sh),
     sn_provisional = sh_prev_provisional sh\<rparr>"

lemma open_shared_inv:
  assumes "hooks_ok (ad_shaping ad)"
  shows "shared_inv ad (shared_with_store ad () links)"
proof -
  have "finish_turns (ad_shaping ad) [] = []"
    using fold_shaping.finish_empty [OF hooks_fold [OF assms]] .
  then show ?thesis
    using new_follower_inv [of ad links]
    by (simp add: shared_inv_def shared_with_store_def follow_with_store_def set_spawn_links_def acc_new_def
        acc_open_snapshot_def open_snapshot_def stamp_user_turns_def replayer_new_def window_stamped_def
        finalize_open_def apply_spawn_links_def)
qed

lemma prefix_intact_append: "prefix_intact old new \<longleftrightarrow> (\<exists>xs. new = old @ xs)"
proof
  assume p: "prefix_intact old new"
  then have "old = take (length old) new"
    unfolding prefix_intact_def list_all_length
    by (intro nth_equalityI) auto
  then show "\<exists>xs. new = old @ xs" by (metis append_take_drop_id)
next
  assume "\<exists>xs. new = old @ xs"
  then show "prefix_intact old new"
    by (auto simp: prefix_intact_def list_all_length nth_append)
qed

lemma drain_meta_frame [simp]:
  "ac_committed (snd (drain_meta a)) = ac_committed a"
  "acc_open_snapshot ad (snd (drain_meta a)) = acc_open_snapshot ad a"
  "mem_inv (snd (drain_meta b)) = mem_inv b"
  "ac_task_fold (snd (drain_meta a)) = ac_task_fold a"
proof -
  show "mem_inv (snd (drain_meta b)) = mem_inv b"
    unfolding acc_inv_def drain_meta_def by simp
qed (simp_all add: drain_meta_def acc_open_snapshot_def)

lemma record_meta_frame [simp]:
  "sh_epoch (record_meta keeps sh) = sh_epoch sh" "sh_gen (record_meta keeps sh) = sh_gen sh"
  "sh_prev_provisional (record_meta keeps sh) = sh_prev_provisional sh"
  "sh_n_provisional (record_meta keeps sh) = sh_n_provisional sh"
  "sh_frozen (record_meta keeps sh) = sh_frozen sh"
  "ac_committed (sh_acc (record_meta keeps sh)) = ac_committed (sh_acc sh)"
  "acc_open_snapshot ad (sh_acc (record_meta keeps sh)) = acc_open_snapshot ad (sh_acc sh)"
  by (simp_all add: record_meta_def drain_meta_def acc_open_snapshot_def split: option.split)

lemma record_meta_inv [simp]: "fw_inv (sh_follower (record_meta keeps sh)) = fw_inv (sh_follower sh)"
  by (cases "sh_writer sh")
    (simp_all add: record_meta_def fw_inv_def banked_ok_def Let_def case_prod_beta
      split: option.split)

lemma bump_counters_frame [simp]:
  "sh_follower (bump_counters r g pf prov sh) = sh_follower sh"
  "0 < sh_epoch sh \<Longrightarrow> 0 < sh_epoch (bump_counters r g pf prov sh)"
  by (simp_all add: bump_counters_def)

text \<open>A tick's new zones and counters are a step of the contract.\<close>

lemma bump_serves:
  assumes grow: "\<not> reset \<Longrightarrow> \<exists>xs. ac_committed (sh_acc sh1) = ac_committed (sh_acc sh) @ xs"
    and same: "sh_epoch sh1 = sh_epoch sh" "sh_gen sh1 = sh_gen sh"
      "sh_prev_provisional sh1 = sh_prev_provisional sh"
    and g: "g \<longleftrightarrow> length (ac_committed (sh_acc sh)) < length (ac_committed (sh_acc sh1))"
  shows "serves (snap_of sh)
    (snap_of ((bump_counters reset g pf prov sh1)\<lparr>sh_n_provisional := n, sh_prev_provisional := prov\<rparr>))"
proof (cases reset)
  case True
  then show ?thesis
    using serves.reset [of "snap_of sh", where cs = "ac_committed (sh_acc sh1)" and ps = prov] same
    by (simp add: snap_of_def bump_counters_def)
next
  case False
  then obtain xs where xs: "ac_committed (sh_acc sh1) = ac_committed (sh_acc sh) @ xs"
    using grow by blast
  show ?thesis
  proof (cases "g \<or> pf \<noteq> None \<or> \<not> prefix_intact (sh_prev_provisional sh) prov")
    case True
    then show ?thesis
      using serves.rewrite [of "snap_of sh", where cs = xs and ps = prov] False xs same
      by (auto simp: snap_of_def bump_counters_def)
  next
    case stay: False
    then obtain ps where "prov = sh_prev_provisional sh @ ps"
      by (auto simp: prefix_intact_append)
    moreover have "xs = []" using stay g xs by simp
    ultimately show ?thesis
      using serves.append [of "snap_of sh" ps] False stay xs same
      by (auto simp: snap_of_def bump_counters_def)
  qed
qed

lemma stream_effect:
  assumes "hooks_ok (ad_shaping ad)" and "decoder_ok ad" and "fw_inv f"
  shows "\<exists>res f'. advance_stream ad in_memory_store en f = Some (res, f') \<and> fw_inv f'
    \<and> (res = Inr None \<longrightarrow> ac_committed (fw_acc f') = ac_committed (fw_acc f)
         \<and> acc_open_snapshot ad (fw_acc f') = acc_open_snapshot ad (fw_acc f))
    \<and> (\<forall>pf. res = Inr (Some (False, pf)) \<longrightarrow> (\<exists>xs. ac_committed (fw_acc f') = ac_committed (fw_acc f) @ xs))"
proof -
  obtain res f' where "advance_from_source ad in_memory_store en f = Some (res, f')" "tick_effect ad res f f'"
    using advance_from_source_effect [OF assms, of en] by blast
  then show ?thesis
    by (cases res) (auto simp: advance_stream_def tick_effect_def)
qed

lemma stream_cases:
  obtains "res = Inl ()" | "res = Inr None" | reset pf where "res = Inr (Some (reset, pf))"
proof (cases res)
  case (Inr b)
  then show ?thesis using that(2,3) by (cases b) auto
qed (use that(1) in simp)

lemma shared_advance_step:
  assumes hooks: "hooks_ok (ad_shaping ad)" and dec: "decoder_ok ad" and inv: "shared_inv ad sh"
  shows "\<exists>res sh'. shared_advance ad in_memory_store keeps en sh = Some (res, sh')
    \<and> (res \<noteq> Inl () \<longrightarrow> shared_inv ad sh' \<and> serves (snap_of sh) (snap_of sh'))"
proof (cases "sh_frozen sh")
  case True
  then show ?thesis using inv by (simp add: shared_advance_def serves.same)
next
  case False
  have fw: "fw_inv (sh_follower sh)" using inv by (simp add: shared_inv_def)
  obtain res f' where r: "advance_stream ad in_memory_store en (sh_follower sh) = Some (res, f')" "fw_inv f'"
      "res = Inr None \<longrightarrow> ac_committed (fw_acc f') = ac_committed (sh_acc sh)
         \<and> acc_open_snapshot ad (fw_acc f') = acc_open_snapshot ad (sh_acc sh)"
      "\<forall>pf. res = Inr (Some (False, pf)) \<longrightarrow> (\<exists>xs. ac_committed (fw_acc f') = ac_committed (sh_acc sh) @ xs)"
    using stream_effect [OF hooks dec fw] by blast
  show ?thesis
  proof (cases res rule: stream_cases)
    case 1
    then show ?thesis using False r(1) by (simp add: shared_advance_def)
  next
    case 2
    then show ?thesis
      using False r inv serves.same [of "snap_of sh"]
      by (auto simp: shared_advance_def shared_inv_def snap_of_def)
  next
    case (3 reset pf)
    obtain prov ts where p: "acc_open_snapshot ad (fw_acc f') = Some (prov, ts)"
      using open_snapshot_total [OF hooks, of "fw_acc f'"] r(2) by (auto simp: fw_inv_def)
    let ?sh1 = "sh\<lparr>sh_follower := f'\<rparr>" and ?g = "length (ac_committed (sh_acc sh)) < length (ac_committed (fw_acc f'))"
    let ?sh2 = "(bump_counters reset ?g pf prov ?sh1)\<lparr>sh_n_provisional := length prov, sh_prev_provisional := prov\<rparr>"
    have "shared_advance ad in_memory_store keeps en sh = Some (Inr True, record_meta keeps ?sh2)"
      using False r(1) 3 p by (simp add: shared_advance_def Let_def)
    moreover have "shared_inv ad (record_meta keeps ?sh2)"
      using inv r(2) p by (simp add: shared_inv_def)
    moreover have "serves (snap_of sh) (snap_of ?sh2)"
      by (rule bump_serves) (use r(4) 3 in auto)
    then have "serves (snap_of sh) (snap_of (record_meta keeps ?sh2))"
      by (simp add: snap_of_def)
    ultimately show ?thesis by blast
  qed
qed

lemma shared_pull_snap:
  assumes "shared_inv ad sh"
  shows "shared_pull ad in_memory_store c sh = snap_pull (snap_of sh) c"
proof -
  obtain ts where "acc_open_snapshot ad (sh_acc sh) = Some (sh_prev_provisional sh, ts)"
    using assms by (auto simp: shared_inv_def)
  moreover obtain cf pf where "pull_indices (sh_epoch sh) (length (ac_committed (sh_acc sh)))
      (length (sh_prev_provisional sh)) (sh_gen sh) c = (cf, pf)" by fastforce
  ultimately show ?thesis
    using pull_indices_bounds
    by (fastforce simp: shared_pull_def snap_pull_def pull_def snap_of_def slice_from_def committed_tail_def
        in_memory_store_def)
qed

subsection \<open>A session and its clients\<close>

text \<open>
  The states a session with one client can be in: it was opened, its ticks ended without an I/O
  error, it was frozen and thawed, the client polled.  Other clients only read.
\<close>

inductive net ::
  "('p, 'm) adapter \<Rightarrow> ('p, 'm, unit, block) shared \<Rightarrow> block pull_client \<Rightarrow> bool" for ad where
  opened: "net ad (shared_with_store ad () links) client_new"
| advanced: "net ad sh c \<Longrightarrow> shared_advance ad in_memory_store keeps en sh = Some (Inr b, sh')
    \<Longrightarrow> net ad sh' c"
| attached: "net ad sh c \<Longrightarrow> net ad (attach_writer keeps lg sh) c"
| frozen: "net ad sh c \<Longrightarrow> net ad (quiesce keeps sh) c"
| thawed: "net ad sh c \<Longrightarrow> net ad (thaw sh) c"
| polled: "net ad sh c \<Longrightarrow> shared_pull ad in_memory_store (cl_cursor c) sh = Some r
    \<Longrightarrow> client_apply r c = (ap, c') \<Longrightarrow> net ad sh c'"

lemma ownership_snap [simp]:
  "snap_of (attach_writer keeps lg sh) = snap_of sh" "snap_of (quiesce keeps sh) = snap_of sh"
  "snap_of (thaw sh) = snap_of sh"
  by (simp_all add: snap_of_def attach_writer_def quiesce_def thaw_def)

lemma ownership_inv [simp]:
  "shared_inv ad (attach_writer keeps lg sh) = shared_inv ad sh"
  "shared_inv ad (quiesce keeps sh) = shared_inv ad sh"
  "shared_inv ad (thaw sh) = shared_inv ad sh"
  by (simp_all add: shared_inv_def attach_writer_def quiesce_def thaw_def)

lemma poll_once_shared:
  assumes "shared_inv ad sh" and "shared_pull ad in_memory_store (cl_cursor c) sh = Some r"
  shows "poll_once (snap_of sh) c = Some (client_apply r c)"
  using assms by (simp add: poll_once_def shared_pull_snap)

lemma net_inv:
  assumes hooks: "hooks_ok (ad_shaping ad)" and dec: "decoder_ok ad"
  shows "net ad sh c \<Longrightarrow> shared_inv ad sh \<and> in_step (snap_of sh) c"
proof (induction rule: net.induct)
  case (opened links)
  then show ?case
    using open_shared_inv [OF hooks, of links] by (simp add: in_step_new snap_of_def shared_inv_def)
next
  case (advanced sh c keeps en b sh')
  then show ?case
    using shared_advance_step [OF hooks dec, of sh keeps en] in_step_serves by fastforce
next
  case (polled sh c r ap c')
  then show ?case
    using poll_once_shared [of ad sh c r] poll_result [of "snap_of sh" c ap c'] by simp
qed simp_all

lemma shared_fold:
  assumes "shared_inv ad sh"
  shows "\<exists>bs uts. acc_fold ad in_memory_store (sh_acc sh) = Some (bs, uts)"
  using assms acc_fold_mem unfolding shared_inv_def by blast

subsection \<open>Claims\<close>


lemma text_adapter_advance:
  assumes "shared_inv text_adapter sh"
    and "\<not> sh_frozen sh" and "read_offset (sh_follower sh) \<le> 100"
  shows "\<exists>b sh'. shared_advance text_adapter in_memory_store keeps (tail_view 100 True ls) sh = Some (Inr b, sh')"
proof -
  obtain res sh' where s: "shared_advance text_adapter in_memory_store keeps (tail_view 100 True ls) sh = Some (res, sh')"
    using shared_advance_step [OF text_adapter_ok assms(1)] by blast
  have "res \<noteq> Inl ()"
    using s assms(2,3)
    by (auto simp: shared_advance_def advance_stream_def advance_from_source_def prepare_def fold_source_def
        tail_view_def Let_def split: bind_splits if_splits option.splits prod.splits)
  then show ?thesis using s by (cases res) auto
qed


text \<open>
  The splice of the terminal viewer (\<open>View::apply_view\<close>, the \<open>blocks\<close> field): keep the blocks below
  the delta's frontier, then append the committed delta and the open turn.
\<close>

definition apply_view :: "view_delta \<Rightarrow> block list \<Rightarrow> block list" where
  "apply_view d bs =
     (let prev = min (vd_committed_len d - length (vd_committed_delta d)) (length bs)
      in take prev bs @ vd_committed_delta d @ vd_provisional d)"

lemma poll_view_cases:
  assumes hooks: "hooks_ok (ad_shaping ad)" and dec: "decoder_ok ad" and inv: "shared_inv ad sh"
    and live: "\<not> sh_frozen sh"
    and r: "advance_stream ad in_memory_store en (sh_follower sh) = Some (Inr (Some (reset, pf)), f')"
    and fw: "fw_inv f'"
    and grow: "\<not> reset \<Longrightarrow> ac_committed (fw_acc f') = ac_committed (sh_acc sh) @ xs"
  shows "\<exists>d sh'. poll_view ad keeps en sh = Some (Inr (Some d), sh') \<and> shared_inv ad sh' \<and> vd_reset d = reset
    \<and> (\<not> reset \<longrightarrow> apply_view d (ac_committed (sh_acc sh) @ sh_prev_provisional sh)
            = ac_committed (sh_acc sh) @ xs @ vd_provisional d
          \<and> acc_fold ad in_memory_store (sh_acc sh')
              = Some (ac_committed (sh_acc sh) @ xs @ vd_provisional d, vd_user_times d)
          \<and> vd_changed_from d = length (ac_committed (sh_acc sh))
              + common_prefix_len (sh_prev_provisional sh) (xs @ vd_provisional d))"
proof -
  obtain prov ts where p: "acc_open_snapshot ad (fw_acc f') = Some (prov, ts)"
    using open_snapshot_total [OF hooks, of "fw_acc f'"] fw by (auto simp: fw_inv_def)
  obtain sr where o: "open_read ad (fw_acc f') = Some sr" "sr_provisional sr = prov" "sr_user_times sr = ts"
    using p by (simp add: open_read_def)
  let ?n = "length (ac_committed (fw_acc f'))" and ?b = "length (ac_committed (sh_acc sh))"
  let ?delta = "drop (min ?b ?n) (ac_committed (fw_acc f'))"
  let ?d = "\<lparr>vd_reset = reset, vd_committed_delta = ?delta, vd_committed_len = ?n, vd_provisional = prov,
    vd_changed_from = (if reset then 0 else ?b + common_prefix_len (sh_prev_provisional sh) (?delta @ prov)),
    vd_user_times = ts, vd_tasks = sr_tasks sr\<rparr>"
  let ?sh2 = "(bump_counters reset (?b < ?n) pf prov (sh\<lparr>sh_follower := f'\<rparr>))
    \<lparr>sh_n_provisional := length prov, sh_prev_provisional := prov\<rparr>"
  have "poll_view ad keeps en sh = Some (Inr (Some ?d), record_meta keeps ?sh2)"
    using live r o by (simp add: poll_view_def Let_def)
  moreover have "shared_inv ad (record_meta keeps ?sh2)"
    using inv fw p by (simp add: shared_inv_def)
  moreover have "acc_fold ad in_memory_store (sh_acc (record_meta keeps ?sh2))
      = Some (ac_committed (fw_acc f') @ prov, ts)"
    using p by (intro acc_fold_mem [THEN trans]) simp_all
  ultimately show ?thesis
    using grow by (fastforce simp: apply_view_def)
qed

text \<open>
  The in-process view delta is exact.  A poll of a session never panics; an idle poll leaves
  the blocks as they were; and when the transcript was not reset, a viewer that holds the old
  blocks and splices the delta shows exactly the new ones, with the reported index the length of
  their longest common prefix.
\<close>

theorem view_delta_exact:
  assumes "hooks_ok (ad_shaping ad)" and "decoder_ok ad" and "shared_inv ad sh"
    and "acc_fold ad in_memory_store (sh_acc sh) = Some (old, old_uts)"
  shows "\<exists>res sh'. poll_view ad keeps en sh = Some (res, sh')
    \<and> (\<forall>d. res = Inr d \<longrightarrow> shared_inv ad sh'
        \<and> (case d of
             None \<Rightarrow> acc_fold ad in_memory_store (sh_acc sh') = Some (old, old_uts)
           | Some v \<Rightarrow> vd_reset v
               \<or> acc_fold ad in_memory_store (sh_acc sh') = Some (apply_view v old, vd_user_times v)
                 \<and> first_difference (vd_changed_from v) old (apply_view v old)))"
proof (cases "sh_frozen sh")
  case True
  then show ?thesis using assms(3,4) by (simp add: poll_view_def)
next
  case False
  have fw: "fw_inv (sh_follower sh)" using assms(3) by (simp add: shared_inv_def)
  obtain ts where o: "acc_open_snapshot ad (sh_acc sh) = Some (sh_prev_provisional sh, ts)"
    using assms(3) by (auto simp: shared_inv_def)
  have old: "old = ac_committed (sh_acc sh) @ sh_prev_provisional sh" "old_uts = ts"
    using assms(4) acc_fold_mem [OF o] by simp_all
  obtain res f' where r: "advance_stream ad in_memory_store en (sh_follower sh) = Some (res, f')" "fw_inv f'"
      "res = Inr None \<longrightarrow> ac_committed (fw_acc f') = ac_committed (sh_acc sh)
         \<and> acc_open_snapshot ad (fw_acc f') = acc_open_snapshot ad (sh_acc sh)"
      "\<forall>pf. res = Inr (Some (False, pf)) \<longrightarrow> (\<exists>xs. ac_committed (fw_acc f') = ac_committed (sh_acc sh) @ xs)"
    using stream_effect [OF assms(1,2) fw] by blast
  show ?thesis
  proof (cases res rule: stream_cases)
    case 1
    then show ?thesis using False r(1) by (simp add: poll_view_def)
  next
    case 2
    then have "acc_fold ad in_memory_store (fw_acc f') = Some (old, old_uts)"
      using r(3) o old acc_fold_mem [of ad "fw_acc f'"] by simp
    then show ?thesis
      using False r 2 assms(3) by (auto simp: poll_view_def shared_inv_def)
  next
    case (3 reset pf)
    obtain xs where xs: "\<not> reset \<Longrightarrow> ac_committed (fw_acc f') = ac_committed (sh_acc sh) @ xs"
      using r(4) 3 by (cases reset) auto
    have r': "advance_stream ad in_memory_store en (sh_follower sh) = Some (Inr (Some (reset, pf)), f')"
      using r(1) 3 by simp
    from poll_view_cases [OF assms(1-3) False r' r(2) xs]
    obtain d sh' where v: "poll_view ad keeps en sh = Some (Inr (Some d), sh')" "shared_inv ad sh'" "vd_reset d = reset"
      "\<not> reset \<longrightarrow> apply_view d old = ac_committed (sh_acc sh) @ xs @ vd_provisional d
          \<and> acc_fold ad in_memory_store (sh_acc sh')
              = Some (ac_committed (sh_acc sh) @ xs @ vd_provisional d, vd_user_times d)
          \<and> vd_changed_from d = length (ac_committed (sh_acc sh))
              + common_prefix_len (sh_prev_provisional sh) (xs @ vd_provisional d)"
      unfolding old by blast
    have "first_difference (vd_changed_from d) old (apply_view d old)" if "\<not> reset"
      using v(4) that old(1) first_difference_append [OF common_prefix_first] by simp
    then show ?thesis using v by auto
  qed
qed

theorem view_delta_exact_witness:
  "\<exists>res sh'. poll_view text_adapter (\<lambda>_. True) (tail_view 4 True [(0, ''a''), (2, ''b'')])
      (shared_with_store text_adapter () []) = Some (res, sh') \<and> (\<forall>d. res = Inr d \<longrightarrow> shared_inv text_adapter sh')"
proof -
  have inv: "shared_inv text_adapter (shared_with_store text_adapter () [])"
    by (rule open_shared_inv [OF text_adapter_ok(1)])
  show ?thesis
    using view_delta_exact [OF text_adapter_ok inv] shared_fold [OF inv] by blast
qed

text \<open>
  After a reset the same splice is wrong.  The delta of a rewritten transcript still starts
  at the old committed length, so the viewer keeps blocks of the old transcript: here the new
  transcript \<open>x\<close>, \<open>y\<close> is shown as \<open>a\<close>, \<open>y\<close>.
\<close>

theorem reset_view_stale:
  "case poll_view text_adapter (\<lambda>_. True) (tail_view 6 True [(0, ''a''), (2, ''b''), (4, ''c'')])
        (shared_with_store text_adapter () []) of
     Some (Inr (Some d1), sh1) \<Rightarrow>
       (case poll_view text_adapter (\<lambda>_. True) (tail_view 4 True [(0, ''x''), (2, ''y'')]) sh1 of
          Some (Inr (Some d2), sh2) \<Rightarrow>
            map_option fst (acc_fold text_adapter in_memory_store (sh_acc sh2))
              = Some [UserText ''x'', UserText ''y'']
            \<and> apply_view d2 (apply_view d1 []) = [UserText ''a'', UserText ''y'']
        | _ \<Rightarrow> False)
   | _ \<Rightarrow> False"
  by code_simp

text \<open>
  The exception of the catch-up property happens.  A queued prompt is shown as the open turn
  and then taken back; the session shows nothing, and the client that polls keeps the prompt.
\<close>

definition queue_adapter :: "(unit, nat) adapter" where
  "queue_adapter = text_adapter\<lparr>ad_decode := (\<lambda>line cwd.
     ([LineStart None,
       (if line = ''-'' then MQueueOp QDequeue None False None else MQueueOp QEnqueue (Some line) True None)],
      cwd))\<rparr>"

definition poll_after ::
  "source_view \<Rightarrow> (unit, nat, unit, block) shared \<times> block pull_client
     \<Rightarrow> ((unit, nat, unit, block) shared \<times> block pull_client) option" where
  "poll_after en sc =
     (case shared_advance queue_adapter in_memory_store (\<lambda>_. True) en (fst sc) of
        Some (Inr b, sh) \<Rightarrow>
          map_option (\<lambda>r. (sh, snd (client_apply r (snd sc))))
            (shared_pull queue_adapter in_memory_store (cl_cursor (snd sc)) sh)
      | _ \<Rightarrow> None)"

theorem withdrawn_turn_stays:
  "case poll_after (tail_view 4 True [(0, ''hi'')]) (shared_with_store queue_adapter () [], client_new) of
     Some sc1 \<Rightarrow>
       (case poll_after (tail_view 6 True [(4, ''-'')]) sc1 of
          Some (sh2, c2) \<Rightarrow>
            map_option fst (acc_fold queue_adapter in_memory_store (sh_acc sh2)) = Some []
            \<and> client_view c2 = [QueueEvent ''hi'']
        | _ \<Rightarrow> False)
   | _ \<Rightarrow> False"
  by code_simp

end
