(* ===== verification/Elide.thy ===== *)
theory Elide
  imports Base
begin

text \<open>
  The bounded line reader (\<open>claude-replay-engine/src/engine/elide.rs\<close>): a streaming JSON filter
  that replaces the middle of an oversized string value by a marker naming the dropped bytes of
  the file, and the reader that feeds it one buffer at a time.  A byte is a \<open>char\<close>; the stacks of
  the code (pushed at the end of a vector) have their top at the head here.
\<close>

subsection \<open>Constants and policies\<close>

definition elide_string_bytes :: nat where "elide_string_bytes = 65536"
definition scan_threshold :: nat where "scan_threshold = 262144"
definition elide_ceiling :: nat where "elide_ceiling = 67108864"
definition prefix_keep :: nat where "prefix_keep = 64"
definition postfix_keep :: nat where "postfix_keep = 64"
definition key_cap :: nat where "key_cap = 48"
definition depth_cap :: nat where "depth_cap = 8"
definition ring_cap :: nat where "ring_cap = postfix_keep + 6"

lemmas elide_consts = elide_string_bytes_def prefix_keep_def postfix_keep_def ring_cap_def

abbreviation quote_char :: char where "quote_char \<equiv> CHR 0x22"
abbreviation backslash_char :: char where "backslash_char \<equiv> CHR 0x5C"
abbreviation newline_char :: char where "newline_char \<equiv> CHR 0x0A"

datatype elision = ElideNone | ElideAggressive | ElideKeys "string list list"

datatype json_ctx = CtxObject | CtxArray

datatype tracked_key = KeyBytes string | KeyUnmatchable

subsection \<open>The filter\<close>

record elider =
  ed_policy :: elision
  ed_line_start :: nat
  ed_pos :: nat
  ed_ctx :: "json_ctx list"
  ed_expecting_value :: bool
  ed_in_string :: bool
  ed_escaped :: bool
  ed_esc_unit :: nat
  ed_string_is_value :: bool
  ed_content_start :: nat
  ed_pending :: string
  ed_passthrough :: bool
  ed_eliding :: bool
  ed_prefix :: string
  ed_drop_off :: nat
  ed_ring :: "(char \<times> bool) list"
  ed_content_len :: nat
  ed_key_stack :: "tracked_key list"
  ed_depth_overflow :: nat
  ed_last_key :: "tracked_key option"
  ed_key_capture :: string
  ed_key_oversized :: bool
  ed_removed :: nat

definition elider_new :: "nat \<Rightarrow> elision \<Rightarrow> elider" where
  "elider_new line_start policy =
     \<lparr>ed_policy = policy, ed_line_start = line_start, ed_pos = 0, ed_ctx = [],
      ed_expecting_value = True, ed_in_string = False, ed_escaped = False, ed_esc_unit = 0,
      ed_string_is_value = False, ed_content_start = 0, ed_pending = [], ed_passthrough = False,
      ed_eliding = False, ed_prefix = [], ed_drop_off = 0, ed_ring = [], ed_content_len = 0,
      ed_key_stack = [], ed_depth_overflow = 0, ed_last_key = None, ed_key_capture = [],
      ed_key_oversized = False, ed_removed = 0\<rparr>"

text \<open>May the value being buffered be elided: the key-suffix rule.\<close>

fun known_keys :: "tracked_key list \<Rightarrow> string list" where
  "known_keys (KeyBytes k # ks) = k # known_keys ks"
| "known_keys _ = []"

definition policy_allows :: "elider \<Rightarrow> bool" where
  "policy_allows e =
     (case ed_policy e of
        ElideNone \<Rightarrow> False
      | ElideAggressive \<Rightarrow> True
      | ElideKeys pats \<Rightarrow>
          if 0 < ed_depth_overflow e then False
          else (case ed_last_key e of
                  Some KeyUnmatchable \<Rightarrow> False
                | k \<Rightarrow>
                    (let chain = (case k of Some (KeyBytes b) \<Rightarrow> [b] | _ \<Rightarrow> []) @ known_keys (ed_key_stack e)
                     in list_ex (\<lambda>pat. length pat \<le> length chain
                                  \<and> list_all (\<lambda>(want, have). have = want) (zip (rev pat) chain)) pats)))"

text \<open>
  The walk of \<open>begin_eliding\<close> over the buffered content: which bytes start an escape unit, and the
  last such position that is at most \<open>PREFIX_KEEP\<close>.
\<close>

definition esc_step :: "nat \<Rightarrow> char \<Rightarrow> nat" where
  "esc_step esc c =
     (if esc = 0 then (if c = backslash_char then 1 else 0)
      else if esc = 1 then (if c = CHR ''u'' then 4 else 0)
      else esc - 1)"

fun unit_flags :: "nat \<Rightarrow> string \<Rightarrow> bool list" where
  "unit_flags esc [] = []"
| "unit_flags esc (c # cs) = (esc = 0) # unit_flags (esc_step esc c) cs"

fun prefix_cut :: "nat \<Rightarrow> nat \<Rightarrow> bool list \<Rightarrow> nat" where
  "prefix_cut best i [] = best"
| "prefix_cut best i (f # fs) = prefix_cut (if f \<and> i \<le> prefix_keep then i else best) (Suc i) fs"

definition begin_eliding :: "elider \<Rightarrow> elider" where
  "begin_eliding e =
     (let content = tl (ed_pending e);
          flags = unit_flags 0 content;
          prefix_len = prefix_cut 0 0 flags;
          tail_from = length content - ring_cap
      in e\<lparr>ed_prefix := take prefix_len content,
           ed_drop_off := ed_line_start e + ed_content_start e + prefix_len,
           ed_ring := drop tail_from (zip content flags),
           ed_content_len := length content,
           ed_eliding := True,
           ed_pending := []\<rparr>)"

text \<open>One content byte of the current string.\<close>

definition take_string_byte :: "char \<Rightarrow> bool \<Rightarrow> elider \<times> string \<Rightarrow> elider \<times> string" where
  "take_string_byte b starts_unit eo =
     (let (e, out) = eo in
      if ed_passthrough e then (e, out @ [b])
      else if ed_eliding e then
        (e\<lparr>ed_content_len := ed_content_len e + 1,
           ed_ring := (if length (ed_ring e) = ring_cap then tl (ed_ring e) else ed_ring e)
                        @ [(b, starts_unit)]\<rparr>, out)
      else
        (let e1 = e\<lparr>ed_pending := ed_pending e @ [b]\<rparr>;
             e2 = (if ed_string_is_value e1 then e1
                   else if length (ed_key_capture e1) < key_cap
                   then e1\<lparr>ed_key_capture := ed_key_capture e1 @ [b]\<rparr>
                   else e1\<lparr>ed_key_oversized := True\<rparr>)
         in if elide_string_bytes < length (ed_pending e2) - 1 then
              (if ed_string_is_value e2 \<and> policy_allows e2 then (begin_eliding e2, out)
               else (e2\<lparr>ed_pending := [], ed_passthrough := True\<rparr>, out @ ed_pending e2))
            else (e2, out)))"

definition elision_marker :: "nat \<Rightarrow> nat \<Rightarrow> string" where
  "elision_marker off len = ''<elided:'' @ show_nat off @ '','' @ show_nat len @ ''>''"

text \<open>Closing an elided value.\<close>

definition emit_elided :: "elider \<times> string \<Rightarrow> elider \<times> string" where
  "emit_elided eo =
     (let (e, out) = eo;
          ring = dropWhile (\<lambda>(b, starts_unit). \<not> starts_unit) (ed_ring e);
          dropped = ed_content_len e - length (ed_prefix e) - length ring
      in (e\<lparr>ed_removed := ed_removed e + dropped, ed_eliding := False, ed_ring := [], ed_prefix := []\<rparr>,
          out @ [quote_char] @ ed_prefix e @ elision_marker (ed_drop_off e) dropped
            @ map fst ring @ [quote_char]))"

definition close_string :: "char \<Rightarrow> elider \<times> string \<Rightarrow> elider \<times> string" where
  "close_string b eo =
     (let (e0, out) = eo;
          e = e0\<lparr>ed_in_string := False\<rparr>;
          (e1, out1) =
            (if ed_eliding e then emit_elided (e, out)
             else if ed_passthrough e then (e, out @ [b])
             else (if ed_string_is_value e then e
                   else e\<lparr>ed_last_key := Some (if ed_key_oversized e then KeyUnmatchable
                                               else KeyBytes (ed_key_capture e)),
                          ed_key_capture := (if ed_key_oversized e then ed_key_capture e else [])\<rparr>,
                   out @ ed_pending e @ [b]))
      in (e1\<lparr>ed_pending := [], ed_expecting_value := False\<rparr>, out1))"

definition in_string_byte :: "char \<Rightarrow> elider \<times> string \<Rightarrow> elider \<times> string" where
  "in_string_byte b eo =
     (let (e, out) = eo; starts_unit = (ed_esc_unit e = 0) in
      if ed_escaped e then
        take_string_byte b starts_unit
          (e\<lparr>ed_escaped := False, ed_esc_unit := (if b = CHR ''u'' then 4 else 0)\<rparr>, out)
      else if 0 < ed_esc_unit e then
        take_string_byte b starts_unit (e\<lparr>ed_esc_unit := ed_esc_unit e - 1\<rparr>, out)
      else if b = backslash_char then
        take_string_byte b starts_unit (e\<lparr>ed_escaped := True, ed_esc_unit := 1\<rparr>, out)
      else if b = quote_char then close_string b (e, out)
      else take_string_byte b starts_unit (e, out))"

definition open_string :: "nat \<Rightarrow> elider \<Rightarrow> elider" where
  "open_string p e =
     e\<lparr>ed_in_string := True, ed_escaped := False, ed_esc_unit := 0,
       ed_string_is_value := ed_expecting_value e, ed_eliding := False, ed_passthrough := False,
       ed_content_start := p + 1, ed_content_len := 0, ed_pending := [quote_char],
       ed_key_capture := [], ed_key_oversized := False\<rparr>"

definition open_container :: "char \<Rightarrow> elider \<Rightarrow> elider" where
  "open_container b e =
     (let e1 = e\<lparr>ed_ctx := (if b = CHR ''{'' then CtxObject else CtxArray) # ed_ctx e,
                 ed_expecting_value := (b = CHR ''[''), ed_last_key := None\<rparr>;
          opener = (case ed_last_key e of Some k \<Rightarrow> k | None \<Rightarrow> KeyUnmatchable)
      in if length (ed_key_stack e) < depth_cap then e1\<lparr>ed_key_stack := opener # ed_key_stack e\<rparr>
         else e1\<lparr>ed_depth_overflow := ed_depth_overflow e + 1\<rparr>)"

definition close_container :: "elider \<Rightarrow> elider" where
  "close_container e =
     (let e1 = e\<lparr>ed_ctx := tl (ed_ctx e), ed_expecting_value := False, ed_last_key := None\<rparr>
      in if 0 < ed_depth_overflow e then e1\<lparr>ed_depth_overflow := ed_depth_overflow e - 1\<rparr>
         else e1\<lparr>ed_key_stack := tl (ed_key_stack e)\<rparr>)"

definition after_comma :: "elider \<Rightarrow> bool" where
  "after_comma e = (case ed_ctx e of CtxObject # _ \<Rightarrow> False | _ \<Rightarrow> True)"

definition elider_push :: "char \<Rightarrow> elider \<times> string \<Rightarrow> elider \<times> string" where
  "elider_push b eo =
     (let (e0, out) = eo; p = ed_pos e0; e = e0\<lparr>ed_pos := p + 1\<rparr> in
      if ed_in_string e then in_string_byte b (e, out)
      else if b = quote_char then (open_string p e, out)
      else if b = CHR ''{'' \<or> b = CHR ''['' then (open_container b e, out @ [b])
      else if b = CHR ''}'' \<or> b = CHR '']'' then (close_container e, out @ [b])
      else if b = CHR '':'' then (e\<lparr>ed_expecting_value := True\<rparr>, out @ [b])
      else if b = CHR '','' then (e\<lparr>ed_expecting_value := after_comma e\<rparr>, out @ [b])
      else (e, out @ [b]))"

definition elider_run :: "string \<Rightarrow> elider \<times> string \<Rightarrow> elider \<times> string" where
  "elider_run bs eo = fold elider_push bs eo"

text \<open>A string still open at the end of the input: a preview without a marker.\<close>

definition elider_finish :: "elider \<times> string \<Rightarrow> elider \<times> string" where
  "elider_finish eo =
     (let (e, out) = eo
      in (e\<lparr>ed_pending := []\<rparr>,
          if ed_in_string e then
            (if ed_eliding e then out @ [quote_char] @ ed_prefix e
             else if \<not> ed_passthrough e then out @ ed_pending e else out)
          else out))"

subsection \<open>Reading one line\<close>

datatype line_outcome =
    LineEof
  | LineTorn nat
  | LineComplete nat nat bool

text \<open>
  A buffered reader is the buffers \<open>fill_buf\<close> will show, and whether it fails rather than ending
  after them.  An empty buffer is the end of the input.
\<close>

type_synonym buffered = "string list \<times> bool"

record line_state =
  lr_out :: string
  lr_raw :: nat
  lr_elider :: "elider option"
  lr_skipped :: bool

definition line_state_new :: line_state where
  "line_state_new = \<lparr>lr_out = [], lr_raw = 0, lr_elider = None, lr_skipped = False\<rparr>"

definition line_at_eof :: "line_state \<Rightarrow> line_outcome \<times> string" where
  "line_at_eof s =
     (if lr_raw s = 0 then (LineEof, lr_out s)
      else (LineTorn (lr_raw s),
            case lr_elider s of Some e \<Rightarrow> snd (elider_finish (e, lr_out s)) | None \<Rightarrow> lr_out s))"

definition take_chunk :: "nat \<Rightarrow> elision \<Rightarrow> string \<Rightarrow> line_state \<Rightarrow> line_state" where
  "take_chunk line_start policy chunk s =
     (let s1 = (if lr_skipped s then s
                else case lr_elider s of
                       Some e \<Rightarrow> (let (e', o') = elider_run chunk (e, lr_out s)
                                  in s\<lparr>lr_elider := Some e', lr_out := o'\<rparr>)
                     | None \<Rightarrow>
                         if scan_threshold < lr_raw s + length chunk then
                           (let (e', o') = elider_run (lr_out s @ chunk) (elider_new line_start policy, [])
                            in s\<lparr>lr_elider := Some e', lr_out := o'\<rparr>)
                         else s\<lparr>lr_out := lr_out s @ chunk\<rparr>);
          s2 = s1\<lparr>lr_raw := lr_raw s + length chunk\<rparr>
      in if \<not> lr_skipped s2 \<and> elide_ceiling < length (lr_out s2)
         then s2\<lparr>lr_out := [], lr_skipped := True\<rparr> else s2)"

text \<open>The chunk up to the newline, the newline included, and what stays in the buffer.\<close>

definition split_line :: "string \<Rightarrow> (string \<times> string) option" where
  "split_line buf =
     (if newline_char \<in> set buf
      then Some (takeWhile (\<lambda>c. c \<noteq> newline_char) buf @ [newline_char],
                 tl (dropWhile (\<lambda>c. c \<noteq> newline_char) buf))
      else None)"

fun read_loop :: "nat \<Rightarrow> elision \<Rightarrow> bool \<Rightarrow> string list \<Rightarrow> line_state
    \<Rightarrow> (unit + line_outcome \<times> string) \<times> string list" where
  "read_loop line_start policy fails [] s =
     (if fails then Inl () else Inr (line_at_eof s), [])"
| "read_loop line_start policy fails (buf # bufs) s =
     (if buf = [] then (Inr (line_at_eof s), buf # bufs)
      else case split_line buf of
             Some (chunk, rest) \<Rightarrow>
               (let s' = take_chunk line_start policy chunk s
                in (Inr (LineComplete (lr_raw s')
                           (case lr_elider s' of Some e \<Rightarrow> ed_removed e | None \<Rightarrow> 0) (lr_skipped s'),
                         lr_out s'),
                    if rest = [] then bufs else rest # bufs))
           | None \<Rightarrow> read_loop line_start policy fails bufs (take_chunk line_start policy buf s))"

definition read_line_elided ::
  "nat \<Rightarrow> elision \<Rightarrow> buffered \<Rightarrow> (unit + line_outcome \<times> string) \<times> buffered" where
  "read_line_elided line_start policy rd =
     (let (res, bufs) = read_loop line_start policy (snd rd) (fst rd) line_state_new
      in (res, (bufs, snd rd)))"

end
