(* ===== verification/Elide_Props.thy ===== *)
theory Elide_Props
  imports Elide
begin

text \<open>
  Elision is invertible: putting the named file bytes in place of the markers gives the line
  back.  And what a line reads as does not depend on how the input was cut into buffers.
\<close>

subsection \<open>Pieces\<close>

text \<open>An elided line is kept text and gaps; a gap stands for bytes of the file.\<close>

datatype piece = Kept string | Gap nat nat

fun rendered :: "piece \<Rightarrow> string" where
  "rendered (Kept s) = s"
| "rendered (Gap off len) = elision_marker off len"

fun original :: "string \<Rightarrow> piece \<Rightarrow> string" where
  "original file (Kept s) = s"
| "original file (Gap off len) = take len (drop off file)"

fun gap_len :: "piece \<Rightarrow> nat" where
  "gap_len (Kept s) = 0"
| "gap_len (Gap off len) = len"

abbreviation render_all :: "piece list \<Rightarrow> string" where
  "render_all ps \<equiv> concat (map rendered ps)"

abbreviation original_all :: "string \<Rightarrow> piece list \<Rightarrow> string" where
  "original_all file ps \<equiv> concat (map (original file) ps)"

definition min_gap :: nat where
  "min_gap = Suc elide_string_bytes - prefix_keep - ring_cap"

definition gaps_ok :: "nat \<Rightarrow> nat \<Rightarrow> piece \<Rightarrow> bool" where
  "gaps_ok lo hi p = (case p of Kept s \<Rightarrow> True | Gap off len \<Rightarrow> min_gap \<le> len \<and> lo \<le> off \<and> off + len \<le> hi)"

lemma gaps_ok_simps [simp]:
  "gaps_ok lo hi (Kept s)"
  "gaps_ok lo hi (Gap off len) \<longleftrightarrow> min_gap \<le> len \<and> lo \<le> off \<and> off + len \<le> hi"
  by (simp_all add: gaps_ok_def)

lemma gaps_ok_grow: "gaps_ok lo hi p \<Longrightarrow> hi \<le> hi' \<Longrightarrow> gaps_ok lo hi' p"
  by (cases p) auto

lemma gaps_ok_Suc [intro]: "list_all (gaps_ok lo hi) ps \<Longrightarrow> list_all (gaps_ok lo (Suc hi)) ps"
  using gaps_ok_grow [of lo hi _ "Suc hi"] by (auto simp: list_all_iff)

lemma no_gaps_verbatim:
  "list_all (gaps_ok lo hi) ps \<Longrightarrow> sum_list (map gap_len ps) = 0 \<Longrightarrow> render_all ps = original_all file ps"
proof (induction ps)
  case (Cons p ps)
  then show ?case by (cases p) (auto simp: min_gap_def elide_consts)
qed simp

subsection \<open>The prefix cut and the ring\<close>

lemma prefix_cut_bound: "best \<le> prefix_keep \<Longrightarrow> prefix_cut best i fs \<le> prefix_keep"
  by (induction fs arbitrary: best i) auto

lemma unit_flags_length [simp]: "length (unit_flags esc s) = length s"
  by (induction s arbitrary: esc) auto

text \<open>The string being read: \<open>n\<close> bytes of the line came before it, \<open>body\<close> is what it has so far.\<close>

definition eliding_ok :: "nat \<Rightarrow> string \<Rightarrow> elider \<Rightarrow> bool" where
  "eliding_ok n content e \<longleftrightarrow>
     ed_content_len e = length content \<and> elide_string_bytes < length content
     \<and> ed_prefix e = take (length (ed_prefix e)) content \<and> length (ed_prefix e) \<le> prefix_keep
     \<and> map fst (ed_ring e) = drop (length content - length (ed_ring e)) content
     \<and> length (ed_ring e) \<le> ring_cap
     \<and> ed_drop_off e = ed_line_start e + n + 1 + length (ed_prefix e)"

definition string_ok :: "nat \<Rightarrow> string \<Rightarrow> elider \<Rightarrow> bool" where
  "string_ok n body e \<longleftrightarrow>
     (if ed_eliding e then (\<exists>content. body = quote_char # content \<and> eliding_ok n content e)
      else body = ed_pending e \<and> (\<exists>content. body = quote_char # content) \<and> ed_content_start e = n + 1)"

definition elider_core :: "string \<Rightarrow> nat \<Rightarrow> string \<Rightarrow> elider \<Rightarrow> string \<Rightarrow> bool" where
  "elider_core file ls fed e out \<longleftrightarrow> ed_line_start e = ls \<and> (ed_passthrough e \<longrightarrow> \<not> ed_eliding e)
     \<and> (\<exists>ps body. out = render_all ps \<and> fed = original_all file ps @ body
          \<and> ed_removed e = sum_list (map gap_len ps) \<and> list_all (gaps_ok ls (ls + length fed)) ps
          \<and> (if ed_in_string e \<and> \<not> ed_passthrough e then string_ok (length (original_all file ps)) body e
             else body = []))"

lemma elider_coreI:
  assumes "ed_line_start e = ls" "ed_passthrough e \<longrightarrow> \<not> ed_eliding e"
    "out = render_all ps" "fed = original_all file ps @ body"
    "ed_removed e = sum_list (map gap_len ps)" "list_all (gaps_ok ls (ls + length fed)) ps"
    "if ed_in_string e \<and> \<not> ed_passthrough e then string_ok (length (original_all file ps)) body e else body = []"
  shows "elider_core file ls fed e out"
  unfolding elider_core_def using assms by blast

lemma elider_coreE:
  assumes "elider_core file ls fed e out"
  obtains ps body where "out = render_all ps" "fed = original_all file ps @ body"
    "ed_removed e = sum_list (map gap_len ps)" "list_all (gaps_ok ls (ls + length fed)) ps"
    "if ed_in_string e \<and> \<not> ed_passthrough e then string_ok (length (original_all file ps)) body e else body = []"
    "ed_line_start e = ls" "ed_passthrough e \<longrightarrow> \<not> ed_eliding e"
  using assms unfolding elider_core_def by blast

lemma core_frame [simp]:
  "elider_core file ls fed (e\<lparr>ed_pos := x\<rparr>) out = elider_core file ls fed e out"
  "elider_core file ls fed (e\<lparr>ed_escaped := b\<rparr>) out = elider_core file ls fed e out"
  "elider_core file ls fed (e\<lparr>ed_esc_unit := x\<rparr>) out = elider_core file ls fed e out"
  "elider_core file ls fed (e\<lparr>ed_expecting_value := b\<rparr>) out = elider_core file ls fed e out"
  "elider_core file ls fed (e\<lparr>ed_key_capture := s\<rparr>) out = elider_core file ls fed e out"
  "elider_core file ls fed (e\<lparr>ed_key_oversized := b\<rparr>) out = elider_core file ls fed e out"
  "elider_core file ls fed (e\<lparr>ed_last_key := k\<rparr>) out = elider_core file ls fed e out"
  "elider_core file ls fed (e\<lparr>ed_ctx := c\<rparr>) out = elider_core file ls fed e out"
  "elider_core file ls fed (e\<lparr>ed_key_stack := ks\<rparr>) out = elider_core file ls fed e out"
  "elider_core file ls fed (e\<lparr>ed_depth_overflow := x\<rparr>) out = elider_core file ls fed e out"
  by (simp_all add: elider_core_def string_ok_def eliding_ok_def)

lemma core_new: "elider_core file ls [] (elider_new ls policy) []"
  by (rule elider_coreI [where ps = "[]" and body = "[]"]) (simp_all add: elider_new_def)

text \<open>A byte copied to the output outside a string, or inside one that is passed through.\<close>

lemma core_copy:
  assumes c: "elider_core file ls fed e out" and s: "\<not> ed_in_string e \<or> ed_passthrough e"
  shows "elider_core file ls (fed @ [b]) e (out @ [b])"
  using c
proof (cases rule: elider_coreE)
  case (1 ps body)
  show ?thesis
    by (rule elider_coreI [where ps = "ps @ [Kept [b]]" and body = "[]"])
      (use 1 s in \<open>auto simp: gaps_ok_Suc split: if_splits\<close>)
qed

lemma core_open:
  assumes c: "elider_core file ls fed e out" and s: "\<not> ed_in_string e"
  shows "elider_core file ls (fed @ [quote_char]) (open_string (length fed) e) out"
  using c
proof (cases rule: elider_coreE)
  case (1 ps body)
  show ?thesis
    by (rule elider_coreI [where ps = ps and body = "[quote_char]"])
      (use 1 s in \<open>auto simp: open_string_def string_ok_def split: if_splits\<close>)
qed

text \<open>One content byte.\<close>

lemma ring_push:
  fixes ring :: "(char \<times> bool) list" and b :: char and u :: bool
  assumes "map fst ring = drop (length content - length ring) content" "length ring \<le> ring_cap"
    "length ring \<le> length content"
  defines "ring' \<equiv> (if length ring = ring_cap then tl ring else ring) @ [(b, u)]"
  shows "map fst ring' = drop (length (content @ [b]) - length ring') (content @ [b])"
    and "length ring' \<le> ring_cap" and "length ring' \<le> length (content @ [b])"
proof -
  have cap: "0 < ring_cap" by (simp add: elide_consts)
  have "map fst (tl ring) = drop (Suc (length content - length ring)) content"
    using assms(1) by (simp add: map_tl drop_Suc tl_drop)
  moreover have "length ring = ring_cap \<Longrightarrow> Suc (length content - length ring) = length content - (length ring - 1)"
    using assms(3) cap by linarith
  ultimately show "map fst ring' = drop (length (content @ [b]) - length ring') (content @ [b])"
    using assms(1,3) cap by (auto simp: ring'_def)
  show "length ring' \<le> ring_cap" "length ring' \<le> length (content @ [b])"
    using assms(2,3) cap by (auto simp: ring'_def)
qed

lemma eliding_step:
  assumes "eliding_ok n content e"
  shows "eliding_ok n (content @ [b]) (e\<lparr>ed_content_len := Suc (ed_content_len e),
     ed_ring := (if length (ed_ring e) = ring_cap then tl (ed_ring e) else ed_ring e) @ [(b, u)]\<rparr>)"
proof -
  have e: "map fst (ed_ring e) = drop (length content - length (ed_ring e)) content"
      "length (ed_ring e) \<le> ring_cap" "elide_string_bytes < length content"
      "ed_prefix e = take (length (ed_prefix e)) content" "length (ed_prefix e) \<le> prefix_keep"
    using assms by (simp_all add: eliding_ok_def)
  have "length (ed_ring e) \<le> length content" "length (ed_prefix e) \<le> length content"
    using e by (simp_all add: elide_consts)
  note ring = ring_push [OF e(1,2) this(1), of b u] and this(2)
  then show ?thesis
    using assms e(4) unfolding eliding_ok_def by simp
qed

lemma begin_eliding_ok:
  assumes "elide_string_bytes < length content" and "ed_pending e = quote_char # content"
    and "ed_content_start e = n + 1"
  shows "eliding_ok n content (begin_eliding e)"
proof -
  let ?k = "prefix_cut 0 0 (unit_flags 0 content)"
  have k: "?k \<le> prefix_keep" by (simp add: prefix_cut_bound)
  then have "?k \<le> length content" using assms(1) by (simp add: elide_consts)
  then show ?thesis
    using assms k by (simp add: eliding_ok_def begin_eliding_def Let_def elide_consts drop_zip)
qed

lemma begin_eliding_frame [simp]:
  "ed_eliding (begin_eliding e)" "ed_in_string (begin_eliding e) = ed_in_string e"
  "ed_passthrough (begin_eliding e) = ed_passthrough e" "ed_line_start (begin_eliding e) = ed_line_start e"
  "ed_removed (begin_eliding e) = ed_removed e" "ed_policy (begin_eliding e) = ed_policy e"
  by (simp_all add: begin_eliding_def Let_def)

lemma core_take:
  assumes c: "elider_core file ls fed e out" and s: "ed_in_string e"
  shows "case take_string_byte b u (e, out) of (e', out') \<Rightarrow> elider_core file ls (fed @ [b]) e' out'"
proof (cases "ed_passthrough e")
  case True
  then show ?thesis using core_copy [OF c] by (simp add: take_string_byte_def)
next
  case pass: False
  from c show ?thesis
  proof (cases rule: elider_coreE)
    case (1 ps body)
    let ?n = "length (original_all file ps)"
    have ok: "string_ok ?n body e" using 1(5) s pass by simp
    show ?thesis
    proof (cases "ed_eliding e")
      case True
      then obtain content where "body = quote_char # content" "eliding_ok ?n content e"
        using ok by (auto simp: string_ok_def)
      then show ?thesis
        using True pass s 1 eliding_step [of ?n content e b u]
        by (auto simp: take_string_byte_def string_ok_def
            intro!: elider_coreI [where ps = ps and body = "body @ [b]"])
    next
      case False
      then obtain content where body: "ed_pending e = quote_char # content" "body = quote_char # content"
          "ed_content_start e = ?n + 1"
        using ok by (auto simp: string_ok_def)
      let ?e = "e\<lparr>ed_pending := ed_pending e @ [b]\<rparr>"
      obtain e2 where e2: "e2 = (if ed_string_is_value ?e then ?e
            else if length (ed_key_capture ?e) < key_cap
            then ?e\<lparr>ed_key_capture := ed_key_capture ?e @ [b]\<rparr> else ?e\<lparr>ed_key_oversized := True\<rparr>)"
        by blast
      have f: "ed_pending e2 = quote_char # content @ [b]" "ed_content_start e2 = ?n + 1"
          "ed_in_string e2" "\<not> ed_passthrough e2" "\<not> ed_eliding e2" "ed_line_start e2 = ls"
          "ed_removed e2 = sum_list (map gap_len ps)"
        using e2 body s pass False 1 by simp_all
      have t: "take_string_byte b u (e, out) =
          (if elide_string_bytes < length (ed_pending e2) - 1 then
             (if ed_string_is_value e2 \<and> policy_allows e2 then (begin_eliding e2, out)
              else (e2\<lparr>ed_pending := [], ed_passthrough := True\<rparr>, out @ ed_pending e2))
           else (e2, out))"
        using pass False e2 by (simp add: take_string_byte_def Let_def)
      have "elider_core file ls (fed @ [b]) (begin_eliding e2) out"
        if "elide_string_bytes < length (content @ [b])"
        by (rule elider_coreI [where ps = ps and body = "body @ [b]"])
          (use 1 f body that begin_eliding_ok [OF that f(1,2)] in \<open>auto simp: string_ok_def\<close>)
      moreover have "elider_core file ls (fed @ [b]) (e2\<lparr>ed_pending := [], ed_passthrough := True\<rparr>)
          (out @ ed_pending e2)"
        by (rule elider_coreI [where ps = "ps @ [Kept (body @ [b])]" and body = "[]"])
          (use 1 f body in auto)
      moreover have "elider_core file ls (fed @ [b]) e2 out"
        by (rule elider_coreI [where ps = ps and body = "body @ [b]"])
          (use 1 f body in \<open>auto simp: string_ok_def\<close>)
      ultimately show ?thesis using t f(1) by simp
    qed
  qed
qed

lemma core_take':
  "elider_core file ls fed e out \<Longrightarrow> ed_in_string e \<Longrightarrow>
    elider_core file ls (fed @ [b]) (fst (take_string_byte b u (e, out))) (snd (take_string_byte b u (e, out)))"
  using core_take [of "file" ls fed e out b u] by (simp add: case_prod_beta)

text \<open>Closing a string.\<close>

lemma middle_split:
  "length a + length c \<le> length xs \<Longrightarrow> a = take (length a) xs \<Longrightarrow> c = drop (length xs - length c) xs
     \<Longrightarrow> xs = a @ take (length xs - length a - length c) (drop (length a) xs) @ c"
proof -
  assume len: "length a + length c \<le> length xs" and a: "a = take (length a) xs"
    and c: "c = drop (length xs - length c) xs"
  let ?m = "length xs - length a - length c"
  have "xs = take (length a) xs @ take ?m (drop (length a) xs) @ drop ?m (drop (length a) xs)"
    by (simp only: append_take_drop_id)
  moreover have "drop ?m (drop (length a) xs) = drop (length xs - length c) xs"
    using len by (simp add: drop_drop)
  ultimately show ?thesis using a c by simp
qed

lemma file_slice:
  assumes "take (length fed) (drop ls file) = fed" and "fed = pre @ mid @ post"
  shows "take (length mid) (drop (ls + length pre) file) = mid"
proof -
  have "mid = take (length mid) (drop (length pre) fed)" using assms(2) by simp
  also have "\<dots> = take (length mid) (drop (length pre) (take (length fed) (drop ls file)))"
    using assms(1) by simp
  also have "\<dots> = take (length mid) (drop (ls + length pre) file)"
    using assms(2) by (simp add: drop_take add.commute)
  finally show ?thesis by simp
qed

lemma dropWhile_suffix: "dropWhile P xs = drop (length xs - length (dropWhile P xs)) xs"
proof -
  have "length xs - length (dropWhile P xs) = length (takeWhile P xs)"
    by (metis add_diff_cancel_right' length_append takeWhile_dropWhile_id)
  then show ?thesis by (simp add: dropWhile_eq_drop)
qed

lemma ring_trim:
  assumes "map fst ring = drop (length content - length ring) content"
  shows "map fst (dropWhile P ring) = drop (length content - length (dropWhile P ring)) content"
proof -
  let ?r = "dropWhile P ring"
  have len: "length ring \<le> length content" using arg_cong [OF assms, of length] by simp
  have "map fst ?r = drop (length ring - length ?r) (map fst ring)"
    by (subst dropWhile_suffix) (simp add: drop_map)
  also have "\<dots> = drop (length ring - length ?r + (length content - length ring)) content"
    by (simp only: assms drop_drop)
  also have "length ring - length ?r + (length content - length ring) = length content - length ?r"
    using len length_dropWhile_le [of P ring] by simp
  finally show ?thesis .
qed

lemma core_emit:
  assumes c: "elider_core file ls fed e out" and s: "ed_in_string e" "ed_eliding e"
    and disk: "take (length fed) (drop ls file) = fed"
  shows "case emit_elided (e\<lparr>ed_in_string := False\<rparr>, out) of (e', out') \<Rightarrow>
    elider_core file ls (fed @ [quote_char]) e' out'"
  using c
proof (cases rule: elider_coreE)
  case (1 ps body)
  let ?n = "length (original_all file ps)"
  obtain content where body: "body = quote_char # content" and ok: "eliding_ok ?n content e"
    using 1(5,7) s by (auto simp: string_ok_def)
  let ?p = "length (ed_prefix e)"
  define trimmed where "trimmed = dropWhile (\<lambda>(b, u). \<not> u) (ed_ring e)"
  let ?d = "ed_content_len e - ?p - length trimmed"
  have e: "ed_content_len e = length content" "elide_string_bytes < length content"
      "ed_prefix e = take ?p content" "?p \<le> prefix_keep"
      "map fst (ed_ring e) = drop (length content - length (ed_ring e)) content"
      "length (ed_ring e) \<le> ring_cap" "ed_drop_off e = ls + ?n + 1 + ?p"
    using ok 1(6) by (simp_all add: eliding_ok_def)
  have short: "length trimmed \<le> ring_cap" "length trimmed \<le> length content" "?p + length trimmed \<le> length content"
    using e(2,4,6) length_dropWhile_le [of "\<lambda>(b, u). \<not> u" "ed_ring e", folded trimmed_def] by (simp_all add: elide_consts)
  have ring: "map fst trimmed = drop (length content - length trimmed) content"
    unfolding trimmed_def by (rule ring_trim [OF e(5)])
  have fed: "fed = original_all file ps @ quote_char # content" using 1(2) body by simp
  define mid where "mid = take ?d (drop ?p content)"
  have mid: "length mid = ?d" using e(1) short(3) by (simp add: mid_def)
  have cut: "content = ed_prefix e @ mid @ map fst trimmed"
    using middle_split [of "ed_prefix e" "map fst trimmed" content] e(1,3) short(3) ring
    by (simp add: mid_def)
  have split: "fed = (original_all file ps @ quote_char # ed_prefix e) @ mid @ map fst trimmed"
    unfolding fed by (subst cut) simp
  have gap: "take ?d (drop (ed_drop_off e) file) = mid"
    using file_slice [OF disk split] mid e(7) by (simp add: add.assoc)
  have size: "min_gap \<le> ?d" "ls \<le> ed_drop_off e" "ed_drop_off e + ?d \<le> ls + length fed"
    using e(1,2,4,7) short fed by (simp_all add: min_gap_def elide_consts)
  let ?ps = "ps @ [Kept (quote_char # ed_prefix e), Gap (ed_drop_off e) ?d, Kept (map fst trimmed @ [quote_char])]"
  have bytes: "fed @ [quote_char] = original_all file ?ps @ []"
    using split gap by simp
  have gaps: "list_all (gaps_ok ls (ls + length (fed @ [quote_char]))) ?ps"
    using 1(4) size by (simp add: gaps_ok_Suc)
  show ?thesis
    unfolding emit_elided_def Let_def prod.case
    by (rule elider_coreI [OF _ _ _ bytes _ gaps]) (use 1 in \<open>simp_all add: trimmed_def\<close>)
qed

lemma core_close:
  assumes c: "elider_core file ls fed e out" and s: "ed_in_string e"
    and disk: "take (length fed) (drop ls file) = fed"
  shows "case close_string quote_char (e, out) of (e', out') \<Rightarrow>
    elider_core file ls (fed @ [quote_char]) e' out' \<and> \<not> ed_in_string e'"
proof (cases "ed_eliding e")
  case True
  then show ?thesis
    using core_emit [OF c s True disk] by (auto simp: close_string_def emit_elided_def Let_def elider_core_def)
next
  case eliding: False
  show ?thesis
    using c
  proof (cases rule: elider_coreE)
    case (1 ps body)
    define e1 where "e1 = (if ed_string_is_value e then e\<lparr>ed_in_string := False\<rparr>
      else e\<lparr>ed_in_string := False, ed_last_key := Some (if ed_key_oversized e then KeyUnmatchable
                else KeyBytes (ed_key_capture e)),
             ed_key_capture := (if ed_key_oversized e then ed_key_capture e else [])\<rparr>)"
    have e1: "\<not> ed_in_string e1" "\<not> ed_eliding e1" "ed_line_start e1 = ls"
        "ed_removed e1 = sum_list (map gap_len ps)"
      using 1 eliding by (simp_all add: e1_def)
    show ?thesis
    proof (cases "ed_passthrough e")
      case True
      have "elider_core file ls (fed @ [quote_char])
          (e\<lparr>ed_in_string := False, ed_pending := [], ed_expecting_value := False\<rparr>) (out @ [quote_char])"
        by (rule elider_coreI [where ps = "ps @ [Kept [quote_char]]" and body = "[]"])
          (use 1 True in auto)
      then show ?thesis using True eliding by (simp add: close_string_def)
    next
      case False
      have body: "body = ed_pending e" using 1(5) s False eliding by (auto simp: string_ok_def)
      have "elider_core file ls (fed @ [quote_char]) (e1\<lparr>ed_pending := [], ed_expecting_value := False\<rparr>)
          (out @ ed_pending e @ [quote_char])"
        by (rule elider_coreI [where ps = "ps @ [Kept (body @ [quote_char])]" and body = "[]"])
          (use 1 e1 body in auto)
      moreover have "close_string quote_char (e, out)
          = (e1\<lparr>ed_pending := [], ed_expecting_value := False\<rparr>, out @ ed_pending e @ [quote_char])"
        using False eliding by (simp add: close_string_def e1_def)
      ultimately show ?thesis using e1(1) by simp
    qed
  qed
qed

lemma core_in_string:
  assumes c: "elider_core file ls fed e out" and s: "ed_in_string e"
    and disk: "take (length fed) (drop ls file) = fed"
  shows "case in_string_byte b (e, out) of (e', out') \<Rightarrow> elider_core file ls (fed @ [b]) e' out'"
  using c s core_close [OF c s disk]
  by (simp add: in_string_byte_def Let_def case_prod_beta core_take')

lemma elider_frame [simp]:
  "ed_pos (begin_eliding e) = ed_pos e"
  "ed_pos (open_string p e) = ed_pos e"
  "ed_pos (fst (take_string_byte b u (e, out))) = ed_pos e"
  "ed_pos (fst (close_string b (e, out))) = ed_pos e"
  "ed_pos (fst (in_string_byte b (e, out))) = ed_pos e"
  by (simp_all add: begin_eliding_def open_string_def take_string_byte_def close_string_def emit_elided_def in_string_byte_def
      Let_def)

lemma core_push:
  assumes c: "elider_core file ls fed e out" and pos: "ed_pos e = length fed"
    and disk: "take (length fed) (drop ls file) = fed"
  shows "case elider_push b (e, out) of (e', out') \<Rightarrow>
    elider_core file ls (fed @ [b]) e' out' \<and> ed_pos e' = length (fed @ [b])"
proof (cases "ed_in_string e")
  case True
  then show ?thesis
    using core_in_string [of "file" ls fed "e\<lparr>ed_pos := ed_pos e + 1\<rparr>" out] c pos disk
    by (simp add: elider_push_def Let_def case_prod_beta)
next
  case False
  then show ?thesis
    using core_open [of "file" ls fed "e\<lparr>ed_pos := ed_pos e + 1\<rparr>" out] c pos
    by (simp add: elider_push_def Let_def open_container_def close_container_def
        core_copy [OF c disjI1 [OF False]])
qed

lemma core_run:
  assumes "take (length line) (drop ls file) = line"
  shows "case elider_run line (elider_new ls policy, []) of (e, out) \<Rightarrow>
    elider_core file ls line e out \<and> ed_pos e = length line"
  using assms
proof (induction line rule: rev_induct)
  case Nil
  then show ?case using core_new by (simp add: elider_run_def) (simp add: elider_new_def)
next
  case (snoc b line)
  have pre: "take (length line) (drop ls file) = line"
    using arg_cong [OF snoc.prems, of "take (length line)"] by simp
  obtain e out where r: "elider_run line (elider_new ls policy, []) = (e, out)" by fastforce
  then show ?case
    using snoc.IH [OF pre] core_push [of "file" ls line e out] pre by (simp add: elider_run_def)
qed

subsection \<open>Claims\<close>

text \<open>
  C10: elision is invertible.  Whatever the policy, when the filter has read a line of a file and
  no string is left open, its output is kept text and markers, such that putting the file bytes
  each marker names in its place gives the line back byte for byte; every gap lies inside the
  line and is at least 65403 bytes long, and the reported count is their sum.
\<close>

theorem elision_invertible:
  assumes "take (length line) (drop ls file) = line"
    and "elider_run line (elider_new ls policy, []) = (e, out)" and "\<not> ed_in_string e"
  shows "\<exists>ps. out = render_all ps \<and> line = original_all file ps
    \<and> ed_removed e = sum_list (map gap_len ps)
    \<and> list_all (gaps_ok ls (ls + length line)) ps"
proof -
  have "elider_core file ls line e out" using core_run [OF assms(1), of policy] assms(2) by simp
  then show ?thesis using assms(3) by (auto elim!: elider_coreE)
qed

lemma small_line_run:
  "elider_run ''{\"a\":\"b\"}'' (elider_new 0 ElideAggressive, []) = (e, out) \<Longrightarrow> \<not> ed_in_string e"
  by (simp add: elider_run_def elider_push_def elider_new_def in_string_byte_def take_string_byte_def
      close_string_def open_string_def open_container_def close_container_def elide_string_bytes_def
      depth_cap_def key_cap_def) auto

theorem elision_invertible_witness:
  "\<exists>ps. snd (elider_run ''{\"a\":\"b\"}'' (elider_new 0 ElideAggressive, [])) = render_all ps
    \<and> ''{\"a\":\"b\"}'' = original_all ''{\"a\":\"b\"}'' ps"
proof -
  obtain e out where r: "elider_run ''{\"a\":\"b\"}'' (elider_new 0 ElideAggressive, []) = (e, out)"
    by fastforce
  show ?thesis
    using elision_invertible [OF _ r small_line_run [OF r], of "''{\"a\":\"b\"}''"] r by auto
qed

end
