(* ===== verification/Read_Line.thy ===== *)
theory Read_Line
  imports Elide_Props
begin

text \<open>
  What \<open>read_line_elided\<close> returns is a function of the bytes, not of the buffers they come in.
\<close>

subsection \<open>The reference reader\<close>

text \<open>What a line's bytes are turned into: verbatim up to the threshold, filtered past it.\<close>

definition filtered :: "nat \<Rightarrow> elision \<Rightarrow> string \<Rightarrow> elider option \<times> string" where
  "filtered ls pol bs =
     (if scan_threshold < length bs
      then (case elider_run bs (elider_new ls pol, []) of (e, out) \<Rightarrow> (Some e, out)) else (None, bs))"

definition too_long :: "nat \<Rightarrow> elision \<Rightarrow> string \<Rightarrow> bool" where
  "too_long ls pol bs \<longleftrightarrow> elide_ceiling < length (snd (filtered ls pol bs))"

definition line_spec :: "nat \<Rightarrow> elision \<Rightarrow> string \<Rightarrow> line_outcome \<times> string" where
  "line_spec ls pol bs =
     (case split_line bs of
        Some (line, rest) \<Rightarrow>
          (if too_long ls pol line then (LineComplete (length line) 0 True, [])
           else (LineComplete (length line)
                   (case fst (filtered ls pol line) of Some e \<Rightarrow> ed_removed e | None \<Rightarrow> 0) False,
                 snd (filtered ls pol line)))
      | None \<Rightarrow>
          (if bs = [] then (LineEof, [])
           else (LineTorn (length bs),
                 case filtered ls pol bs of (Some e, out) \<Rightarrow> snd (elider_finish (e, out)) | (None, out) \<Rightarrow> out)))"

text \<open>The bytes after the first line; all of them are consumed when there is no newline.\<close>

definition after_line :: "string \<Rightarrow> string" where
  "after_line bs = (case split_line bs of Some (line, rest) \<Rightarrow> rest | None \<Rightarrow> [])"

text \<open>A skipped line has nothing usable; its caller looks at neither the text nor the count.\<close>

fun observed :: "line_outcome \<times> string \<Rightarrow> line_outcome \<times> string" where
  "observed (LineComplete raw removed True, out) = (LineComplete raw 0 True, [])"
| "observed r = r"

subsection \<open>The output only grows\<close>

lemma take_string_byte_grows: "length out \<le> length (snd (take_string_byte b u (e, out)))"
  by (simp add: take_string_byte_def Let_def)

lemma elider_push_grows: "length out \<le> length (snd (elider_push b (e, out)))"
  using take_string_byte_grows [of out]
  by (simp add: elider_push_def in_string_byte_def close_string_def emit_elided_def Let_def)

lemma elider_run_append: "elider_run (xs @ ys) eo = elider_run ys (elider_run xs eo)"
  by (simp add: elider_run_def)

lemma elider_run_grows: "length (snd eo) \<le> length (snd (elider_run bs eo))"
proof (induction bs arbitrary: eo)
  case (Cons b bs)
  have "length (snd eo) \<le> length (snd (elider_push b eo))"
    using elider_push_grows [of "snd eo" b "fst eo"] by simp
  then show ?case using Cons.IH [of "elider_push b eo"] by (simp add: elider_run_def)
qed (simp add: elider_run_def)

lemma threshold_below_ceiling: "scan_threshold \<le> elide_ceiling"
  by (simp add: scan_threshold_def elide_ceiling_def)

lemma too_long_append:
  assumes "too_long ls pol xs"
  shows "too_long ls pol (xs @ ys)"
proof -
  have "scan_threshold < length xs"
    using assms threshold_below_ceiling by (auto simp: too_long_def filtered_def split: if_splits)
  then show ?thesis
    using assms elider_run_grows [of "elider_run xs (elider_new ls pol, [])" ys]
    by (auto simp: too_long_def filtered_def elider_run_append case_prod_beta)
qed

lemma filtered_append:
  assumes "filtered ls pol xs = (eo, out)"
  shows "filtered ls pol (xs @ ys) =
    (case eo of
       Some e \<Rightarrow> (case elider_run ys (e, out) of (e', out') \<Rightarrow> (Some e', out'))
     | None \<Rightarrow> if scan_threshold < length xs + length ys
              then (case elider_run (out @ ys) (elider_new ls pol, []) of (e', out') \<Rightarrow> (Some e', out'))
              else (None, out @ ys))"
  using assms by (auto simp: filtered_def elider_run_append split: if_splits prod.splits)

subsection \<open>One buffer after another\<close>

definition line_state_ok :: "nat \<Rightarrow> elision \<Rightarrow> string \<Rightarrow> line_state \<Rightarrow> bool" where
  "line_state_ok ls pol fed s \<longleftrightarrow> lr_raw s = length fed \<and> lr_skipped s = too_long ls pol fed
     \<and> (\<not> lr_skipped s \<longrightarrow> (lr_elider s, lr_out s) = filtered ls pol fed)"

lemma line_state_new_ok: "line_state_ok ls pol [] line_state_new"
  by (simp add: line_state_ok_def line_state_new_def filtered_def too_long_def scan_threshold_def)

lemma take_chunk_ok:
  assumes "line_state_ok ls pol fed s"
  shows "line_state_ok ls pol (fed @ chunk) (take_chunk ls pol chunk s)"
proof (cases "lr_skipped s")
  case True
  then show ?thesis
    using assms too_long_append [of ls pol fed chunk] by (simp add: line_state_ok_def take_chunk_def Let_def)
next
  case False
  then have s: "filtered ls pol fed = (lr_elider s, lr_out s)" "lr_raw s = length fed"
    using assms by (simp_all add: line_state_ok_def)
  show ?thesis
    using False s filtered_append [OF s(1), of chunk]
    by (cases "lr_elider s")
      (simp_all add: line_state_ok_def take_chunk_def Let_def too_long_def case_prod_beta)
qed

lemma split_line_append:
  "newline_char \<notin> set xs \<Longrightarrow> split_line (xs @ ys) =
     (case split_line ys of Some (line, rest) \<Rightarrow> Some (xs @ line, rest) | None \<Rightarrow> None)"
proof -
  assume n: "newline_char \<notin> set xs"
  then have "takeWhile (\<lambda>c. c \<noteq> newline_char) (xs @ ys) = xs @ takeWhile (\<lambda>c. c \<noteq> newline_char) ys"
      "dropWhile (\<lambda>c. c \<noteq> newline_char) (xs @ ys) = dropWhile (\<lambda>c. c \<noteq> newline_char) ys"
    by (auto intro!: takeWhile_append2 dropWhile_append2)
  then show ?thesis using n by (simp add: split_line_def)
qed

lemma split_line_NoneD: "split_line bs = None \<Longrightarrow> newline_char \<notin> set bs"
  by (simp add: split_line_def split: if_splits)

lemma split_line_SomeD:
  assumes "split_line bs = Some (line, rest)"
  shows "bs = line @ rest" and "line \<noteq> []"
proof -
  let ?P = "\<lambda>c. c \<noteq> newline_char"
  have n: "newline_char \<in> set bs" and l: "line = takeWhile ?P bs @ [newline_char]"
      and r: "rest = tl (dropWhile ?P bs)"
    using assms by (auto simp: split_line_def split: if_splits)
  obtain x xs where d: "dropWhile ?P bs = x # xs"
    using n by (cases "dropWhile ?P bs") (auto simp: dropWhile_eq_Nil_conv)
  then have "x = newline_char" using hd_dropWhile [of ?P bs] by simp
  then show "bs = line @ rest" using l r d takeWhile_dropWhile_id [of ?P bs] by simp
  show "line \<noteq> []" using l by simp
qed

lemma split_line_mid:
  "split_line buf = Some (chunk, rest) \<Longrightarrow> split_line (buf @ ys) = Some (chunk, rest @ ys)"
proof -
  let ?P = "\<lambda>c. c \<noteq> newline_char"
  assume c: "split_line buf = Some (chunk, rest)"
  then have n: "newline_char \<in> set buf" by (auto simp: split_line_def split: if_splits)
  then have "takeWhile ?P (buf @ ys) = takeWhile ?P buf" "dropWhile ?P (buf @ ys) = dropWhile ?P buf @ ys"
    by (auto intro: takeWhile_append1 dropWhile_append1)
  moreover have "dropWhile ?P buf \<noteq> []" using n by (auto simp: dropWhile_eq_Nil_conv)
  ultimately show ?thesis using c n by (auto simp: split_line_def)
qed

lemma read_loop_spec:
  assumes "[] \<notin> set bufs" and "line_state_ok ls pol fed s" and "newline_char \<notin> set fed"
  shows "case read_loop ls pol fails bufs s of (res, bufs') \<Rightarrow>
     [] \<notin> set bufs' \<and> concat bufs' = after_line (concat bufs)
     \<and> (if split_line (concat bufs) = None \<and> fails then res = Inl ()
        else \<exists>r. res = Inr r
          \<and> (split_line (concat bufs) = None \<longrightarrow> \<not> too_long ls pol (fed @ concat bufs)
               \<longrightarrow> observed r = line_spec ls pol (fed @ concat bufs))
          \<and> (split_line (concat bufs) \<noteq> None \<longrightarrow> observed r = line_spec ls pol (fed @ concat bufs))
          \<and> fst (observed r) = fst (line_spec ls pol (fed @ concat bufs)))"
  using assms
proof (induction bufs arbitrary: fed s)
  case Nil
  have n: "split_line fed = None" using Nil.prems(3) by (simp add: split_line_def)
  have e: "split_line [] = None" by (simp add: split_line_def)
  have t: "\<not> too_long ls pol []" by (simp add: too_long_def filtered_def)
  have "fst (line_at_eof s) = fst (line_spec ls pol fed)"
    using n Nil.prems(2) by (auto simp: line_at_eof_def line_spec_def line_state_ok_def)
  moreover have "line_at_eof s = line_spec ls pol fed" if "\<not> too_long ls pol fed"
    using n Nil.prems(2) that
    by (auto simp: line_at_eof_def line_spec_def line_state_ok_def filtered_def split: option.splits prod.splits)
  moreover have "observed (line_at_eof s) = line_at_eof s"
    by (simp add: line_at_eof_def)
  ultimately show ?case using e by (auto simp: after_line_def)
next
  case (Cons buf bufs)
  show ?case
  proof (cases "split_line buf")
    case None
    then have n: "newline_char \<notin> set buf" by (rule split_line_NoneD)
    have ih: "line_state_ok ls pol (fed @ buf) (take_chunk ls pol buf s)" "newline_char \<notin> set (fed @ buf)"
      using take_chunk_ok [OF Cons.prems(2)] Cons.prems(3) n by simp_all
    show ?thesis
      using Cons.IH [OF _ ih] Cons.prems(1) None
      by (auto simp: split_line_append [OF n] after_line_def split: option.splits prod.splits)
  next
    case (Some cr)
    obtain chunk rest where c: "split_line buf = Some (chunk, rest)" using Some by (cases cr) auto
    let ?s = "take_chunk ls pol chunk s"
    have ok: "line_state_ok ls pol (fed @ chunk) ?s" using take_chunk_ok [OF Cons.prems(2)] .
    have spec: "split_line (fed @ concat (buf # bufs)) = Some (fed @ chunk, rest @ concat bufs)"
      using split_line_append [OF Cons.prems(3)] split_line_mid [OF c] by simp
    have "observed (LineComplete (lr_raw ?s) (case lr_elider ?s of Some e \<Rightarrow> ed_removed e | None \<Rightarrow> 0)
        (lr_skipped ?s), lr_out ?s) = line_spec ls pol (fed @ concat (buf # bufs))"
    proof (cases "lr_skipped ?s")
      case True
      then show ?thesis
        using ok unfolding line_spec_def spec by (simp add: line_state_ok_def)
    next
      case False
      then have "filtered ls pol (fed @ chunk) = (lr_elider ?s, lr_out ?s)" "\<not> too_long ls pol (fed @ chunk)"
          "lr_raw ?s = length (fed @ chunk)"
        using ok by (simp_all add: line_state_ok_def)
      then show ?thesis
        using False unfolding line_spec_def spec by simp
    qed
    then show ?thesis
      using c Cons.prems(1) split_line_mid [OF c, of "concat bufs"]
      by (auto simp: Let_def after_line_def)
  qed
qed

lemma read_line_cases:
  assumes "[] \<notin> set bufs" and "read_line_elided ls pol (bufs, fails) = (res, bufs', fails')"
  shows "[] \<notin> set bufs'" and "concat bufs' = after_line (concat bufs)" and "fails' = fails"
    and "split_line (concat bufs) = None \<Longrightarrow> fails \<Longrightarrow> res = Inl ()"
    and "split_line (concat bufs) \<noteq> None \<or> \<not> fails \<Longrightarrow>
      \<exists>r. res = Inr r \<and> fst (observed r) = fst (line_spec ls pol (concat bufs))
        \<and> (split_line (concat bufs) \<noteq> None \<or> \<not> too_long ls pol (concat bufs)
             \<longrightarrow> observed r = line_spec ls pol (concat bufs))"
  using read_loop_spec [OF assms(1) line_state_new_ok, where ls = ls and pol = pol and fails = fails] assms(2)
  by (auto simp: read_line_elided_def split: prod.splits if_splits)

subsection \<open>Claims\<close>

text \<open>
  C11: what a line reads as depends on the bytes, not on the buffers.  However a reader cuts its
  bytes into non-empty buffers, and unless it ends in an incomplete line that alone outgrows the
  ceiling, one read returns the reference result of the bytes (verbatim up to the scan threshold,
  filtered past it, dropped past the ceiling, with the exact raw length) and leaves exactly the
  bytes after the line.
\<close>

theorem read_line_exact:
  assumes "[] \<notin> set bufs"
    and "split_line (concat bufs) = None \<longrightarrow> \<not> too_long ls pol (concat bufs)"
  shows "\<exists>r bufs'. read_line_elided ls pol (bufs, False) = (Inr r, (bufs', False))
    \<and> observed r = line_spec ls pol (concat bufs)
    \<and> concat bufs' = after_line (concat bufs) \<and> [] \<notin> set bufs'"
proof -
  obtain res bufs' fails' where r: "read_line_elided ls pol (bufs, False) = (res, bufs', fails')"
    by (metis prod_cases3)
  note c = read_line_cases [OF assms(1) r]
  show ?thesis using r c(1,2,3,5) assms(2) by auto
qed

theorem read_line_exact_witness:
  "\<exists>r bufs'. read_line_elided 7 ElideAggressive ([''{}'', newline_char # ''x'', ''y''], False)
      = (Inr r, (bufs', False))
    \<and> observed r = (LineComplete 3 0 False, ''{}'' @ [newline_char]) \<and> concat bufs' = ''xy''"
proof -
  have s: "split_line (concat [''{}'', newline_char # ''x'', ''y'']) = Some (''{}'' @ [newline_char], ''xy'')"
    by (simp add: split_line_def)
  have "\<not> too_long 7 ElideAggressive (''{}'' @ [newline_char])"
    by (simp add: too_long_def filtered_def scan_threshold_def elide_ceiling_def)
  then show ?thesis
    using read_line_exact [of "[''{}'', newline_char # ''x'', ''y'']" 7 ElideAggressive] s
    by (auto simp: line_spec_def after_line_def filtered_def scan_threshold_def numeral_3_eq_3)
qed

subsection \<open>A line left inside a string\<close>

lemma copy_run:
  "\<not> ed_in_string e \<Longrightarrow> elider_run (replicate n (CHR '' '')) (e, out)
     = (e\<lparr>ed_pos := ed_pos e + n\<rparr>, out @ replicate n (CHR '' ''))"
proof (induction n arbitrary: e out)
  case (Suc n)
  show ?case
    using Suc.IH [of "e\<lparr>ed_pos := Suc (ed_pos e)\<rparr>" "out @ '' ''"] Suc.prems
    by (simp add: elider_run_def elider_push_def)
qed (simp add: elider_run_def)

lemma observed_kept: "observed r = (LineComplete n k False, out) \<Longrightarrow> r = (LineComplete n k False, out)"
  by (cases r rule: observed.cases) auto

text \<open>
  A long line that ends inside a string loses the bytes held back, its newline among them,
  although nothing is reported as elided: the filter is only finished at the end of the input.
\<close>

theorem unterminated_string_lost:
  assumes "bs = replicate scan_threshold (CHR '' '') @ [quote_char, CHR ''a'', newline_char]"
  shows "\<exists>bufs. read_line_elided 0 ElideAggressive ([bs], False)
    = (Inr (LineComplete (scan_threshold + 3) 0 False, replicate scan_threshold (CHR '' '')), bufs)"
proof -
  let ?eo = "elider_run bs (elider_new 0 ElideAggressive, [])"
  have run: "ed_removed (fst ?eo) = 0" "snd ?eo = replicate scan_threshold (CHR '' '')"
    unfolding assms elider_run_append
    by (simp_all add: copy_run elider_new_def)
      (simp_all add: elider_run_def elider_push_def open_string_def in_string_byte_def take_string_byte_def
        elide_string_bytes_def key_cap_def)
  have len: "length bs = scan_threshold + 3" by (simp add: assms)
  have line: "split_line (concat [bs]) = Some (bs, [])"
  proof -
    have "split_line (replicate scan_threshold (CHR '' '') @ [quote_char, CHR ''a'', newline_char])
        = Some (replicate scan_threshold (CHR '' '') @ [quote_char, CHR ''a'', newline_char], [])"
      by (subst split_line_append) (auto simp: split_line_def)
    then show ?thesis by (simp add: assms)
  qed
  have f: "filtered 0 ElideAggressive bs = (Some (fst ?eo), replicate scan_threshold (CHR '' ''))"
    using run len by (simp add: filtered_def case_prod_beta)
  then have "\<not> too_long 0 ElideAggressive bs"
    using threshold_below_ceiling by (simp add: too_long_def)
  then have spec: "line_spec 0 ElideAggressive (concat [bs])
      = (LineComplete (scan_threshold + 3) 0 False, replicate scan_threshold (CHR '' ''))"
    using f run len unfolding line_spec_def line by simp
  obtain res bufs' fails' where r: "read_line_elided 0 ElideAggressive ([bs], False) = (res, bufs', fails')"
    by (metis prod_cases3)
  have "[] \<notin> set [bs]" by (simp add: assms)
  then show ?thesis
    using read_line_cases(5) [OF _ r] line spec observed_kept r by fastforce
qed

end
