(* ===== verification/Lines.thy ===== *)
theory Lines
  imports Builder Read_Line
begin

text \<open>
  The line source (\<open>claude-replay-engine/src/engine/reader.rs\<close>): raw offsets, the torn-tail policy,
  blank skipping and the elision gauges over \<open>read_line_elided\<close>.
\<close>

subsection \<open>Bodies\<close>

text \<open>
  \<open>String::from_utf8_lossy\<close>: the length of the valid sequence at the head, or of the invalid bytes
  that one replacement character stands for.
\<close>

definition in_range :: "nat \<Rightarrow> nat \<Rightarrow> string \<Rightarrow> nat \<Rightarrow> bool" where
  "in_range lo hi s i \<longleftrightarrow> i < length s \<and> lo \<le> byte (s ! i) \<and> byte (s ! i) \<le> hi"

definition second_ok :: "string \<Rightarrow> bool" where
  "second_ok s =
     (let b = byte (hd s) in
      if b = 224 then in_range 160 191 s 1
      else if b = 237 then in_range 128 159 s 1
      else if b = 240 then in_range 144 191 s 1
      else if b = 244 then in_range 128 143 s 1
      else in_range 128 191 s 1)"

definition lossy_width :: "nat \<Rightarrow> nat" where
  "lossy_width b =
     (if b < 128 then 1 else if 194 \<le> b \<and> b \<le> 223 then 2
      else if 224 \<le> b \<and> b \<le> 239 then 3 else if 240 \<le> b \<and> b \<le> 244 then 4 else 0)"

definition lossy_chunk :: "string \<Rightarrow> bool \<times> nat" where
  "lossy_chunk s =
     (let width = lossy_width (byte (hd s))
      in if width = 0 then (False, 1)
         else if width = 1 then (True, 1)
         else if \<not> second_ok s then (False, 1)
         else if width = 2 then (True, 2)
         else if \<not> in_range 128 191 s 2 then (False, 2)
         else if width = 3 then (True, 3)
         else if \<not> in_range 128 191 s 3 then (False, 3)
         else (True, 4))"

definition replacement_char :: string where
  "replacement_char = [char_of (239::nat), char_of (191::nat), char_of (189::nat)]"

lemma lossy_chunk_pos: "0 < snd (lossy_chunk s)"
  by (simp add: lossy_chunk_def Let_def)

function utf8_lossy :: "string \<Rightarrow> string" where
  "utf8_lossy s =
     (if s = [] then []
      else (if fst (lossy_chunk s) then take (snd (lossy_chunk s)) s else replacement_char)
             @ utf8_lossy (drop (snd (lossy_chunk s)) s))"
  by pat_completeness auto
termination
  by (relation "measure length") (use lossy_chunk_pos in \<open>auto simp: diff_less\<close>)

declare utf8_lossy.simps [simp del]

definition strip_last :: "char \<Rightarrow> string \<Rightarrow> string" where
  "strip_last c s = (if s \<noteq> [] \<and> last s = c then butlast s else s)"

definition bare_line :: "string \<Rightarrow> string" where
  "bare_line out = strip_last (CHR 0x0D) (strip_last newline_char out)"

definition is_ascii_whitespace :: "char \<Rightarrow> bool" where
  "is_ascii_whitespace c \<longleftrightarrow> c \<in> {CHR '' '', CHR 0x09, CHR 0x0A, CHR 0x0C, CHR 0x0D}"

definition trimmed_len :: "string \<Rightarrow> nat" where
  "trimmed_len out = length (filter (\<lambda>c. \<not> is_ascii_whitespace c) (bare_line out))"

definition line_body :: "string \<Rightarrow> string" where
  "line_body out = utf8_lossy (bare_line out)"

subsection \<open>The source\<close>

datatype torn_tail = TornStop | TornYield

record line_source =
  ln_reader :: buffered
  ln_offset :: nat
  ln_tail :: torn_tail
  ln_policy :: elision
  ln_last_torn :: bool
  ln_elided :: elision_counts

definition line_source_new :: "buffered \<Rightarrow> nat \<Rightarrow> torn_tail \<Rightarrow> elision \<Rightarrow> line_source" where
  "line_source_new reader at_off tail policy =
     \<lparr>ln_reader = reader, ln_offset = at_off, ln_tail = tail, ln_policy = policy,
      ln_last_torn = False, ln_elided = elision_zero\<rparr>"

text \<open>Every byte \<open>read_line_elided\<close> takes from the buffers is counted.\<close>

fun outcome_raw :: "line_outcome \<Rightarrow> nat" where
  "outcome_raw LineEof = 0"
| "outcome_raw (LineTorn raw) = raw"
| "outcome_raw (LineComplete raw _ _) = raw"

lemma take_chunk_raw [simp]: "lr_raw (take_chunk ls pol chunk s) = lr_raw s + length chunk"
  by (simp add: take_chunk_def Let_def split: option.split prod.split)

lemma read_loop_raw:
  "read_loop ls pol fails bufs s = (Inr (oc, out), bufs') \<Longrightarrow>
     outcome_raw oc + length (concat bufs') = lr_raw s + length (concat bufs)
     \<and> (\<forall>raw removed skipped. oc = LineComplete raw removed skipped \<longrightarrow> lr_raw s < raw)
     \<and> (\<forall>raw. oc = LineTorn raw \<longrightarrow> 0 < raw)"
proof (induction bufs arbitrary: s)
  case Nil
  then show ?case by (auto simp: line_at_eof_def split: if_splits)
next
  case (Cons buf bufs)
  show ?case
  proof (cases "buf = []")
    case True
    then show ?thesis using Cons.prems by (auto simp: line_at_eof_def split: if_splits)
  next
    case False
    show ?thesis
    proof (cases "split_line buf")
      case None
      then show ?thesis using False Cons.IH [of "take_chunk ls pol buf s"] Cons.prems by fastforce
    next
      case (Some cr)
      then show ?thesis
        using False Cons.prems split_line_SomeD [of buf]
        by (cases cr) (auto simp: Let_def split: if_splits)
    qed
  qed
qed

lemma read_line_raw:
  "read_line_elided ls pol rd = (Inr (oc, out), rd') \<Longrightarrow>
     outcome_raw oc + length (concat (fst rd')) = length (concat (fst rd))
     \<and> (\<forall>raw removed skipped. oc = LineComplete raw removed skipped \<longrightarrow> 0 < raw)
     \<and> (\<forall>raw. oc = LineTorn raw \<longrightarrow> 0 < raw)"
  using read_loop_raw [of ls pol "snd rd" "fst rd" line_state_new oc out "fst rd'"]
  by (auto simp: read_line_elided_def line_state_new_def split: prod.splits)

lemma complete_consumes:
  "(Inr (LineComplete raw removed skipped, out), rd') = read_line_elided ls pol rd \<Longrightarrow>
     length (concat (fst rd')) < length (concat (fst rd))"
  by (drule sym, drule read_line_raw) auto

text \<open>\<open>LineSource::next\<close>: blank and skipped lines are consumed, counted and not yielded.\<close>

definition bank_line :: "nat \<Rightarrow> bool \<Rightarrow> elision_counts \<Rightarrow> elision_counts" where
  "bank_line removed skipped ec =
     (if skipped then ec\<lparr>ec_skipped := ec_skipped ec + 1\<rparr>
      else if 0 < removed then ec\<lparr>ec_lines := ec_lines ec + 1, ec_bytes := ec_bytes ec + removed\<rparr>
      else ec)"

function next_line :: "line_source \<Rightarrow> (unit + (nat \<times> string) option) \<times> line_source" where
  "next_line s =
     (case read_line_elided (ln_offset s) (ln_policy s) (ln_reader s) of
        (Inl e, rd) \<Rightarrow> (Inl e, s\<lparr>ln_reader := rd, ln_last_torn := False\<rparr>)
      | (Inr (LineEof, out), rd) \<Rightarrow> (Inr None, s\<lparr>ln_reader := rd, ln_last_torn := False\<rparr>)
      | (Inr (LineTorn raw, out), rd) \<Rightarrow>
          (case ln_tail s of
             TornStop \<Rightarrow> (Inr None, s\<lparr>ln_reader := rd, ln_last_torn := False\<rparr>)
           | TornYield \<Rightarrow> (Inr (Some (ln_offset s, line_body out)),
                          s\<lparr>ln_reader := rd, ln_last_torn := True, ln_offset := ln_offset s + raw\<rparr>))
      | (Inr (LineComplete raw removed skipped, out), rd) \<Rightarrow>
          (let s' = s\<lparr>ln_reader := rd, ln_last_torn := False, ln_offset := ln_offset s + raw,
                     ln_elided := bank_line removed skipped (ln_elided s)\<rparr>
           in if skipped \<or> trimmed_len out = 0 then next_line s'
              else (Inr (Some (ln_offset s, line_body out)), s')))"
  by pat_completeness auto
termination
  by (relation "measure (\<lambda>s. length (concat (fst (ln_reader s))))")
    (auto dest!: complete_consumes)

declare next_line.simps [simp del]

text \<open>\<open>rewind_to_cursor\<close>: the reader shows the bytes of the file from the offset again.\<close>

definition rewind_to_cursor :: "(nat \<Rightarrow> buffered) \<Rightarrow> line_source \<Rightarrow> line_source" where
  "rewind_to_cursor seek s = s\<lparr>ln_reader := seek (ln_offset s)\<rparr>"

text \<open>The loop of every consumer: \<open>while let Some(line) = src.next()?\<close>.\<close>

lemma next_line_consumes:
  "next_line s = (Inr (Some l), s') \<Longrightarrow>
     length (concat (fst (ln_reader s'))) < length (concat (fst (ln_reader s)))"
proof (induction s rule: next_line.induct)
  case (1 s)
  show ?case
    using "1.prems" "1.IH" read_line_raw [of "ln_offset s" "ln_policy s" "ln_reader s"]
    by (subst (asm) next_line.simps)
      (fastforce simp: Let_def split: prod.splits sum.splits line_outcome.splits torn_tail.splits if_splits)
qed

function drain_lines :: "line_source \<Rightarrow> (nat \<times> string) list \<times> bool \<times> line_source" where
  "drain_lines s =
     (case next_line s of
        (Inl e, s') \<Rightarrow> ([], True, s')
      | (Inr None, s') \<Rightarrow> ([], False, s')
      | (Inr (Some l), s') \<Rightarrow> (let (ls, fail, t) = drain_lines s' in (l # ls, fail, t)))"
  by pat_completeness auto
termination
  by (relation "measure (\<lambda>s. length (concat (fst (ln_reader s))))") (auto dest!: next_line_consumes [OF sym])

declare drain_lines.simps [simp del]

end
