(* ===== verification/Lines_Props.thy ===== *)
theory Lines_Props
  imports Lines
begin

text \<open>
  Draining a line source that stops at a torn tail yields the complete lines of the file, each
  with its own offset, and leaves the cursor after the last of them; so a file that only grows
  can be read in portions.
\<close>

subsection \<open>The lines of a text\<close>

lemma split_line_shrinks: "split_line bs = Some (line, rest) \<Longrightarrow> length rest < length bs"
  using split_line_SomeD [of bs line rest] by simp

definition yielded :: "elision \<Rightarrow> nat \<Rightarrow> string \<Rightarrow> bool" where
  "yielded pol off line \<longleftrightarrow>
     \<not> too_long off pol line \<and> trimmed_len (snd (filtered off pol line)) \<noteq> 0"

definition line_entry :: "elision \<Rightarrow> nat \<Rightarrow> string \<Rightarrow> (nat \<times> string) list" where
  "line_entry pol off line =
     (if yielded pol off line then [(off, line_body (snd (filtered off pol line)))] else [])"

function line_list :: "elision \<Rightarrow> nat \<Rightarrow> string \<Rightarrow> (nat \<times> string) list" where
  "line_list pol off bs =
     (case split_line bs of
        None \<Rightarrow> []
      | Some (line, rest) \<Rightarrow> line_entry pol off line @ line_list pol (off + length line) rest)"
  by pat_completeness auto
termination
  by (relation "measure (\<lambda>(pol, off, bs). length bs)") (auto dest!: split_line_shrinks)

declare line_list.simps [simp del]

text \<open>How many bytes the complete lines have.\<close>

function complete_len :: "string \<Rightarrow> nat" where
  "complete_len bs =
     (case split_line bs of None \<Rightarrow> 0 | Some (line, rest) \<Rightarrow> length line + complete_len rest)"
  by pat_completeness auto
termination
  by (relation "measure length") (auto dest!: split_line_shrinks)

declare complete_len.simps [simp del]

lemma lines_None: "split_line bs = None \<Longrightarrow> line_list pol off bs = []" "split_line bs = None \<Longrightarrow> complete_len bs = 0"
  by (simp_all add: line_list.simps complete_len.simps)

lemma lines_Some:
  assumes "split_line bs = Some (line, rest)"
  shows "line_list pol off bs = line_entry pol off line @ line_list pol (off + length line) rest"
    and "complete_len bs = length line + complete_len rest"
    and "drop (length line + n) bs = drop n rest" and "length bs = length line + length rest"
proof -
  show "line_list pol off bs = line_entry pol off line @ line_list pol (off + length line) rest"
    by (subst line_list.simps) (simp add: assms)
  show "complete_len bs = length line + complete_len rest"
    by (subst complete_len.simps) (simp add: assms)
qed (use split_line_SomeD(1) [OF assms] in simp_all)

lemma complete_len_le: "complete_len bs \<le> length bs"
proof (induction bs rule: complete_len.induct)
  case (1 bs)
  then show ?case
    by (cases "split_line bs") (auto simp: lines_None lines_Some)
qed

lemma lines_append:
  "line_list pol off (xs @ ys)
     = line_list pol off xs @ line_list pol (off + complete_len xs) (drop (complete_len xs) xs @ ys)
   \<and> complete_len (xs @ ys) = complete_len xs + complete_len (drop (complete_len xs) xs @ ys)"
proof (induction xs arbitrary: off rule: complete_len.induct)
  case (1 xs)
  show ?case
  proof (cases "split_line xs")
    case None
    then show ?thesis by (simp add: lines_None)
  next
    case (Some lr)
    then obtain line rest where l: "split_line xs = Some (line, rest)" by (cases lr) auto
    show ?thesis
      using "1.IH" [OF l refl, of "off + length line"]
      unfolding lines_Some [OF l] lines_Some [OF split_line_mid [OF l]] by (simp add: add.assoc)
  qed
qed

subsection \<open>One line\<close>

definition bytes_left :: "line_source \<Rightarrow> string" where
  "bytes_left s = concat (fst (ln_reader s))"

definition stopping :: "line_source \<Rightarrow> bool" where
  "stopping s \<longleftrightarrow> ln_tail s = TornStop \<and> [] \<notin> set (fst (ln_reader s))"

definition same_source :: "line_source \<Rightarrow> line_source \<Rightarrow> bool" where
  "same_source s t \<longleftrightarrow> ln_tail t = ln_tail s \<and> ln_policy t = ln_policy s
     \<and> snd (ln_reader t) = snd (ln_reader s)"

lemma observed_skip: "observed r = (LineComplete n k True, out) \<Longrightarrow> \<exists>k' out'. r = (LineComplete n k' True, out')"
  by (cases r rule: observed.cases) auto

lemma observed_fst_torn: "fst (observed r) = LineTorn n \<Longrightarrow> \<exists>out. r = (LineTorn n, out)"
  by (cases r rule: observed.cases) auto

lemma observed_fst_eof: "fst (observed r) = LineEof \<Longrightarrow> \<exists>out. r = (LineEof, out)"
  by (cases r rule: observed.cases) auto

text \<open>What one call of \<open>next\<close> does to the lines still to come.\<close>

definition lines_left :: "line_source \<Rightarrow> (nat \<times> string) list" where
  "lines_left s = line_list (ln_policy s) (ln_offset s) (bytes_left s)"

definition final_offset :: "line_source \<Rightarrow> nat" where
  "final_offset s = ln_offset s + complete_len (bytes_left s)"

definition next_ok :: "line_source \<Rightarrow> (unit + (nat \<times> string) option) \<Rightarrow> line_source \<Rightarrow> bool" where
  "next_ok s res t \<longleftrightarrow> stopping t \<and> same_source s t \<and> final_offset t = final_offset s
     \<and> (case res of
          Inl e \<Rightarrow> snd (ln_reader s) \<and> lines_left s = [] \<and> ln_offset t = final_offset s
        | Inr None \<Rightarrow> \<not> snd (ln_reader s) \<and> lines_left s = [] \<and> ln_offset t = final_offset s
        | Inr (Some l) \<Rightarrow> lines_left s = l # lines_left t)"

lemma next_ok_skip:
  assumes "next_ok t0 res t" and "same_source s t0" and "lines_left s = lines_left t0"
    and "final_offset s = final_offset t0"
  shows "next_ok s res t"
  using assms by (auto simp: next_ok_def same_source_def split: sum.split option.split)

lemma next_line_spec: "stopping s \<Longrightarrow> case next_line s of (res, t) \<Rightarrow> next_ok s res t"
proof (induction s rule: next_line.induct)
  case (1 s)
  let ?bs = "bytes_left s" and ?pol = "ln_policy s" and ?off = "ln_offset s"
  obtain res bufs' f' where r: "read_line_elided ?off ?pol (ln_reader s) = (res, (bufs', f'))"
    by (metis prod_cases3)
  have stop: "[] \<notin> set (fst (ln_reader s))" "ln_tail s = TornStop"
    using "1.prems" by (simp_all add: stopping_def)
  have r': "read_line_elided ?off ?pol (fst (ln_reader s), snd (ln_reader s)) = (res, (bufs', f'))"
    using r by simp
  note c = read_line_cases [OF stop(1) r', folded bytes_left_def]
  show ?case
  proof (cases "split_line ?bs")
    case None
    have rest: "bufs' = []"
      using c(1,2) None by (simp add: after_line_def) (metis concat_eq_Nil_conv list.set_intros(1) neq_Nil_conv)
    have ok: "next_ok s e (s\<lparr>ln_reader := (bufs', f'), ln_last_torn := False\<rparr>)"
      if "e = Inl () \<and> snd (ln_reader s) \<or> e = Inr None \<and> \<not> snd (ln_reader s)" for e
      using that None stop c(3) rest
      by (auto simp: next_ok_def stopping_def same_source_def lines_left_def final_offset_def bytes_left_def
          lines_None split_line_def)
    show ?thesis
    proof (cases "snd (ln_reader s)")
      case True
      then show ?thesis
        using c(4) None r ok [of "Inl ()"] by (subst next_line.simps) simp
    next
      case False
      then obtain rr where rr: "res = Inr rr" "fst (observed rr) = fst (line_spec ?off ?pol ?bs)"
        using c(5) by blast
      have "fst (line_spec ?off ?pol ?bs) = LineEof \<or> (\<exists>n. fst (line_spec ?off ?pol ?bs) = LineTorn n)"
        using None by (simp add: line_spec_def)
      then consider out where "rr = (LineEof, out)" | n out where "rr = (LineTorn n, out)"
        using rr(2) observed_fst_eof observed_fst_torn by metis
      then show ?thesis
        using r rr(1) False ok [of "Inr None"] stop(2)
        by cases (subst next_line.simps, simp)+
    qed
  next
    case (Some lr)
    then obtain line rest where l: "split_line ?bs = Some (line, rest)" by (cases lr) auto
    obtain rr where rr: "res = Inr rr" "observed rr = line_spec ?off ?pol ?bs"
      using c(5) l by auto
    obtain k sk out where out: "rr = (LineComplete (length line) k sk, out)"
        "sk = too_long ?off ?pol line" "\<not> sk \<Longrightarrow> out = snd (filtered ?off ?pol line)"
      using rr(2) l observed_kept [of rr] observed_skip [of rr]
      by (cases "too_long ?off ?pol line") (auto simp: line_spec_def)
    let ?t = "s\<lparr>ln_reader := (bufs', f'), ln_last_torn := False, ln_offset := ?off + length line,
      ln_elided := bank_line k sk (ln_elided s)\<rparr>"
    have t: "stopping ?t" "same_source s ?t"
      using stop c(1,3) by (simp_all add: stopping_def same_source_def)
    have left: "lines_left s = line_entry ?pol ?off line @ lines_left ?t" "final_offset s = final_offset ?t"
      using c(2) l lines_Some [OF l]
      by (simp_all add: lines_left_def final_offset_def bytes_left_def after_line_def)
    show ?thesis
    proof (cases "sk \<or> trimmed_len out = 0")
      case True
      then have "line_entry ?pol ?off line = []"
        using out(2,3) by (auto simp: line_entry_def yielded_def)
      moreover have "case next_line ?t of (res, t') \<Rightarrow> next_ok ?t res t'"
        by (rule "1.IH" [OF _ _ _ _ _ _ t(1)]) (use r rr(1) out(1) True in simp_all)
      ultimately show ?thesis
        using r rr(1) out(1) True left t(2) next_ok_skip [of ?t _ _ s]
        by (subst next_line.simps) (auto split: prod.splits)
    next
      case False
      then have "line_entry ?pol ?off line = [(?off, line_body out)]"
        using out(2,3) by (auto simp: line_entry_def yielded_def)
      then show ?thesis
        using r rr(1) out(1) False left t
        by (subst next_line.simps) (simp add: next_ok_def)
    qed
  qed
qed

subsection \<open>All the lines\<close>

lemma drain_lines_spec:
  "stopping s \<Longrightarrow> case drain_lines s of (ls, fail, t) \<Rightarrow>
     ls = lines_left s \<and> fail = snd (ln_reader s) \<and> ln_offset t = final_offset s \<and> same_source s t \<and> stopping t"
proof (induction s rule: drain_lines.induct)
  case (1 s)
  obtain res t where n: "next_line s = (res, t)" by fastforce
  have ok: "next_ok s res t" using next_line_spec [OF "1.prems"] n by simp
  show ?case
  proof (cases res)
    case (Inl e)
    then show ?thesis using n ok by (subst drain_lines.simps) (simp add: next_ok_def)
  next
    case (Inr o1)
    show ?thesis
    proof (cases o1)
      case None
      then show ?thesis using n ok Inr by (subst drain_lines.simps) (simp add: next_ok_def)
    next
      case (Some l)
      have t: "stopping t" "same_source s t" "lines_left s = l # lines_left t" "final_offset t = final_offset s"
        using ok Inr Some by (simp_all add: next_ok_def)
      have "case drain_lines t of (ls, fail, u) \<Rightarrow>
          ls = lines_left t \<and> fail = snd (ln_reader t) \<and> ln_offset u = final_offset t \<and> same_source t u \<and> stopping u"
        using "1.IH" [of res t o1 l] n Inr Some t(1) by simp
      then show ?thesis
        using n Inr Some t by (subst drain_lines.simps) (auto simp: same_source_def split: prod.splits)
    qed
  qed
qed

text \<open>A file as a seekable reader shows it: any non-empty buffers with the bytes from the offset on.\<close>

definition shows_file :: "(nat \<Rightarrow> buffered) \<Rightarrow> string \<Rightarrow> bool" where
  "shows_file seek file \<longleftrightarrow> (\<forall>off. [] \<notin> set (fst (seek off)) \<and> concat (fst (seek off)) = drop off file
     \<and> \<not> snd (seek off))"

lemma drain_file:
  assumes "shows_file seek file" and "ln_tail s = TornStop" and "drain_lines (rewind_to_cursor seek s) = (ls, fail, t)"
  shows "ls = line_list (ln_policy s) (ln_offset s) (drop (ln_offset s) file)" and "\<not> fail"
    and "ln_offset t = ln_offset s + complete_len (drop (ln_offset s) file)"
    and "ln_tail t = TornStop" and "ln_policy t = ln_policy s"
proof -
  have "stopping (rewind_to_cursor seek s)"
    using assms(1,2) by (simp add: stopping_def rewind_to_cursor_def shows_file_def)
  from drain_lines_spec [OF this]
  show "ls = line_list (ln_policy s) (ln_offset s) (drop (ln_offset s) file)" "\<not> fail"
    "ln_offset t = ln_offset s + complete_len (drop (ln_offset s) file)" "ln_tail t = TornStop"
    "ln_policy t = ln_policy s"
    using assms by (simp_all add: rewind_to_cursor_def shows_file_def lines_left_def final_offset_def bytes_left_def
        same_source_def)
qed

text \<open>Polling: rewind and drain, once per state of the file.\<close>

fun poll_lines :: "(nat \<Rightarrow> buffered) list \<Rightarrow> line_source \<Rightarrow> (nat \<times> string) list \<times> line_source" where
  "poll_lines [] s = ([], s)"
| "poll_lines (seek # seeks) s =
     (let (ls, fail, t) = drain_lines (rewind_to_cursor seek s); (ms, u) = poll_lines seeks t in (ls @ ms, u))"

fun growing :: "string \<Rightarrow> (nat \<Rightarrow> buffered) list \<Rightarrow> string \<Rightarrow> bool" where
  "growing file [] final \<longleftrightarrow> final = file"
| "growing file (seek # seeks) final \<longleftrightarrow> (\<exists>ext. shows_file seek (file @ ext) \<and> growing (file @ ext) seeks final)"

lemma lines_from_cursor:
  "line_list pol 0 (file @ ext) = line_list pol 0 file
     @ line_list pol (complete_len file) (drop (complete_len file) (file @ ext))"
  "complete_len (file @ ext) = complete_len file + complete_len (drop (complete_len file) (file @ ext))"
  using lines_append [of pol 0 "file" ext] complete_len_le [of "file"] by simp_all

lemma poll_lines_spec:
  assumes "growing file seeks final" and "ln_tail s = TornStop" and "ln_offset s = complete_len file"
    and "poll_lines seeks s = (ls, t)" and "seeks \<noteq> []"
  shows "line_list (ln_policy s) 0 final = line_list (ln_policy s) 0 file @ ls \<and> ln_offset t = complete_len final"
  using assms
proof (induction seeks arbitrary: "file" s ls t)
  case (Cons seek seeks)
  obtain ext where g: "shows_file seek (file @ ext)" "growing (file @ ext) seeks final"
    using Cons.prems(1) by auto
  obtain l1 fail s1 where d: "drain_lines (rewind_to_cursor seek s) = (l1, fail, s1)" by (metis prod_cases3)
  note f = drain_file [OF g(1) Cons.prems(2) d]
  have off: "ln_offset s1 = complete_len (file @ ext)"
    using f(3) Cons.prems(3) lines_from_cursor(2) [of "file" ext] by simp
  have l1: "line_list (ln_policy s) 0 (file @ ext) = line_list (ln_policy s) 0 file @ l1"
    using f(1) Cons.prems(3) lines_from_cursor(1) [of _ "file" ext] by simp
  show ?case
  proof (cases "seeks = []")
    case True
    then show ?thesis using Cons.prems(4) d g(2) off l1 by simp
  next
    case False
    obtain l2 u where p: "poll_lines seeks s1 = (l2, u)" by fastforce
    show ?thesis
      using Cons.IH [OF g(2) f(4) off p False] Cons.prems(4) d p f(5) l1 by simp
  qed
qed simp

subsection \<open>Claims\<close>

text \<open>
  C12: a growing file is read line by line exactly once.  However the file grows between polls and
  however its bytes are buffered, a source that stops at a torn tail and is rewound before every
  poll yields, over all polls together, exactly the complete non-blank lines of the file as it is
  at the last poll, each with its own byte offset, and its cursor is the end of the last complete
  line: no line is lost, split or repeated, and a line is read as soon as its newline is there.
\<close>

theorem polling_reads_file:
  assumes "growing [] seeks file" and "seeks \<noteq> []"
    and "poll_lines seeks (line_source_new rd 0 TornStop pol) = (ls, t)"
  shows "ls = line_list pol 0 file \<and> ln_offset t = complete_len file"
  using poll_lines_spec [OF assms(1) _ _ assms(3,2)]
  by (simp add: line_source_new_def lines_None split_line_def)

text \<open>Two states of a file: a torn line, completed later.\<close>

definition one_buffer :: "string \<Rightarrow> nat \<Rightarrow> buffered" where
  "one_buffer file off = (if off < length file then [drop off file] else [], False)"

lemma one_buffer_shows: "shows_file (one_buffer file) file"
  by (simp add: shows_file_def one_buffer_def)

theorem polling_reads_file_witness:
  "\<exists>t. poll_lines [one_buffer ''{}'', one_buffer (''{}'' @ [newline_char])]
      (line_source_new ([], False) 0 TornStop ElideAggressive) = (line_list ElideAggressive 0 (''{}'' @ [newline_char]), t)
    \<and> ln_offset t = 3"
proof -
  have g: "growing [] [one_buffer ''{}'', one_buffer (''{}'' @ [newline_char])] (''{}'' @ [newline_char])"
    using one_buffer_shows by (simp; metis append_Cons append_Nil)
  obtain ls t where p: "poll_lines [one_buffer ''{}'', one_buffer (''{}'' @ [newline_char])]
      (line_source_new ([], False) 0 TornStop ElideAggressive) = (ls, t)" by fastforce
  have "complete_len (''{}'' @ [newline_char]) = 3"
    by (simp add: complete_len.simps split_line_def)
  then show ?thesis using polling_reads_file [OF g _ p] p by simp
qed

end
