(* ===== verification/Tail.thy ===== *)
theory Tail
  imports Follow_Props Lines_Props
begin

text \<open>
  The follower over the line source: however a transcript grows, and whatever reads fail on the
  way, a tick that reads to the end shows what a batch parse of the file's complete lines shows.
\<close>

subsection \<open>Reading part of a file\<close>

lemma lines_of_complete:
  "line_list pol off (take (complete_len bs) bs) = line_list pol off bs
   \<and> complete_len (take (complete_len bs) bs) = complete_len bs"
proof (induction bs arbitrary: off rule: complete_len.induct)
  case (1 bs)
  show ?case
  proof (cases "split_line bs")
    case None
    then show ?thesis using lines_None [of "[]"] by (simp add: lines_None split_line_def)
  next
    case (Some lr)
    then obtain line rest where l: "split_line bs = Some (line, rest)" by (cases lr) auto
    have bs: "bs = line @ rest" by (rule split_line_SomeD(1) [OF l])
    have "split_line (line @ []) = Some (line, [])"
    proof -
      have "line = takeWhile (\<lambda>c. c \<noteq> newline_char) bs @ [newline_char]"
        using l by (auto simp: split_line_def split: if_splits)
      moreover have "newline_char \<notin> set (takeWhile (\<lambda>c. c \<noteq> newline_char) bs)"
        by (auto dest: set_takeWhileD)
      ultimately show ?thesis using split_line_append [of _ "[newline_char]"] by (simp add: split_line_def)
    qed
    from split_line_mid [OF this, of "take (complete_len rest) rest"]
    have cut: "split_line (take (length line + complete_len rest) bs) = Some (line, take (complete_len rest) rest)"
      by (simp add: bs)
    show ?thesis
      using "1.IH" [OF l refl, of "off + length line"]
      unfolding lines_Some(1,2) [OF l] lines_Some(1,2) [OF cut] by simp
  qed
qed

text \<open>
  What a seekable reader may show of a file: some of the bytes from the offset on, and all of
  them unless it ends in an error.
\<close>

definition may_show :: "(nat \<Rightarrow> buffered) \<Rightarrow> string \<Rightarrow> bool" where
  "may_show seek file \<longleftrightarrow> (\<forall>off. [] \<notin> set (fst (seek off))
     \<and> (\<exists>n. concat (fst (seek off)) = take n (drop off file))
     \<and> (\<not> snd (seek off) \<longrightarrow> concat (fst (seek off)) = drop off file))"

definition file_view ::
  "elision \<Rightarrow> (nat \<Rightarrow> buffered) \<Rightarrow> string \<Rightarrow> spawn_link list \<Rightarrow> bool \<Rightarrow> bool \<Rightarrow> bool \<Rightarrow> nat \<Rightarrow> source_view" where
  "file_view pol seek file links same opened seekable off =
     (let (ls, fail, t) = drain_lines (line_source_new (seek off) off TornStop pol)
      in \<lparr>en_len = length file, en_same = same, en_open = opened, en_seek = seekable, en_lines = ls,
          en_offset = ln_offset t, en_elided = ln_elided t, en_fail = fail, en_links = links\<rparr>)"

lemma file_view_spec:
  assumes "may_show seek file" and "off \<le> length file" and "complete_len (take off file) = off"
    and view: "en = file_view pol seek file links same opened seekable off"
  shows "line_list pol 0 (take (en_offset en) file) = line_list pol 0 (take off file) @ en_lines en"
    and "complete_len (take (en_offset en) file) = en_offset en" and "en_offset en \<le> length file"
    and "\<not> en_fail en \<Longrightarrow> en_offset en = complete_len file"
    and "en_fail en = snd (seek off)" and "off \<le> en_offset en"
proof -
  let ?bs = "concat (fst (seek off))"
  have "stopping (line_source_new (seek off) off TornStop pol)"
    using assms(1) by (simp add: stopping_def line_source_new_def may_show_def)
  from drain_lines_spec [OF this]
  have en: "en_lines en = line_list pol off ?bs" "en_fail en = snd (seek off)"
      "en_offset en = off + complete_len ?bs"
    by (auto simp: view file_view_def line_source_new_def lines_left_def final_offset_def bytes_left_def
        split: prod.splits)
  obtain n where n: "?bs = take n (drop off file)" using assms(1) unfolding may_show_def by blast
  have le: "complete_len ?bs \<le> length ?bs" by (rule complete_len_le)
  have "length ?bs \<le> n" by (simp add: n)
  with le have short: "complete_len ?bs \<le> n" by (rule le_trans)
  have "take (complete_len ?bs) ?bs = take (complete_len ?bs) (drop off file)"
    using short by (simp add: n min_def)
  then have cut: "take (en_offset en) file = take off file @ take (complete_len ?bs) ?bs"
    unfolding en(3) by (simp add: take_add)
  have len: "length (take off file) = off" using assms(2) by simp
  note app = lines_append [of pol 0 "take off file" "take (complete_len ?bs) ?bs", folded cut]
  show "line_list pol 0 (take (en_offset en) file) = line_list pol 0 (take off file) @ en_lines en"
    "complete_len (take (en_offset en) file) = en_offset en"
    using app lines_of_complete [of pol off ?bs] assms(3) len en by simp_all
  have "complete_len ?bs \<le> length file - off" using le by (simp add: n)
  then show "en_offset en \<le> length file" using assms(2) unfolding en(3) by linarith
  show "en_fail en = snd (seek off)" "off \<le> en_offset en" using en by simp_all
  show "en_offset en = complete_len file" if "\<not> en_fail en"
  proof -
    have all: "?bs = drop off file" using assms(1) that en(2) unfolding may_show_def by simp
    have "complete_len (take off file @ drop off file) = off + complete_len (drop off file)"
      using lines_append [of pol 0 "take off file" "drop off file"] assms(3) len by simp
    then show ?thesis by (simp add: en(3) all)
  qed
qed

subsection \<open>Following\<close>

inductive following ::
  "('p, 'm) adapter \<Rightarrow> elision \<Rightarrow> spawn_link list \<Rightarrow> string \<Rightarrow> ('p, 'm, unit, block) follower \<Rightarrow> bool"
  for ad pol links where
  started: "following ad pol links [] (follow_with_store ad () links)"
| ticked: "following ad pol links file f \<Longrightarrow> may_show seek (file @ ext)
    \<Longrightarrow> advance_from_source ad in_memory_store
          (file_view pol seek (file @ ext) links same opened seekable (read_offset f)) f = Some (res, f')
    \<Longrightarrow> following ad pol links (file @ ext) f'"

definition batch ::
  "('p, 'm) adapter \<Rightarrow> spawn_link list \<Rightarrow> (nat \<times> string) list \<Rightarrow> ('p, 'm, unit, block) acc option" where
  "batch ad links ls =
     map_option fst (advance_lines ad in_memory_store ls None (set_spawn_links links (acc_new ad ())))"

text \<open>The follower has folded the lines below its cursor, up to the metrics.\<close>

definition caught_up_to ::
  "('p, 'm) adapter \<Rightarrow> elision \<Rightarrow> spawn_link list \<Rightarrow> string \<Rightarrow> ('p, 'm, unit, block) follower \<Rightarrow> bool" where
  "caught_up_to ad pol links file f \<longleftrightarrow> fw_inv f \<and> read_offset f \<le> length file
     \<and> complete_len (take (read_offset f) file) = read_offset f
     \<and> map_option seen (batch ad links (line_list pol 0 (take (read_offset f) file))) = Some (seen (fw_acc f))"

lemma advance_lines_floor:
  "advance_lines ad so ls pf a = Some (b, q) \<Longrightarrow> \<exists>q'. advance_lines ad so ls pf' a = Some (b, q')"
proof (induction ls arbitrary: pf pf' a)
  case (Cons l ls)
  then show ?case by (cases l) (fastforce split: bind_splits)
qed simp

lemma batch_more:
  assumes "map_option seen (batch ad links xs) = Some (seen a)"
    and "advance_lines ad in_memory_store ys None a = Some (b, q)"
  shows "map_option seen (batch ad links (xs @ ys)) = Some (seen b)"
proof -
  obtain c p where c: "advance_lines ad in_memory_store xs None (set_spawn_links links (acc_new ad ())) = Some (c, p)"
      "seen a = seen c"
    using assms(1) by (auto simp: batch_def)
  obtain d where d: "advance_lines ad in_memory_store ys None c = Some (d, q)" "seen b = seen d"
    using advance_lines_shown [OF metric_proj_simps(2) c(2) assms(2)] by blast
  obtain q' where "advance_lines ad in_memory_store ys p c = Some (d, q')"
    using advance_lines_floor [OF d(1)] by blast
  then show ?thesis using c(1) d(2) by (simp add: batch_def advance_lines_append)
qed

lemma seen_bank [simp]: "seen (bank_elision ad d a) = seen a"
  using bank_elision_metrics [of ad d a] by (auto simp: shown_eq_iff)

lemma seen_links: "ac_links a = links \<Longrightarrow> seen (set_spawn_links links a) = seen a"
  by (simp add: set_spawn_links_def shown_eq_iff)

lemma links_frame [simp]:
  "ac_links (bank_elision ad d a) = ac_links a" "ac_links (set_spawn_links ls a) = ls"
  using bank_elision_metrics [of ad d a] by (auto simp: set_spawn_links_def)

lemma read_offset_src: "fw_src f = Some (off, el) \<Longrightarrow> read_offset f = off"
  by (simp add: read_offset_def)

lemma read_offset_none: "fw_src f = None \<Longrightarrow> read_offset f = fw_cursor f"
  by (simp add: read_offset_def)

text \<open>The fold of the lines of one view.\<close>

lemma fold_source_follows:
  assumes hooks: "hooks_ok (ad_shaping ad)" and dec: "decoder_ok ad"
    and c: "caught_up_to ad pol links file f" and disk: "may_show seek (file @ ext)"
    and view: "en = file_view pol seek (file @ ext) links same opened seekable (read_offset f)"
    and links: "ac_links (fw_acc f) = links" and el: "elision_le (fw_banked f) (snd src)"
    and run: "fold_source ad in_memory_store en False src f = Some (res, f')"
  shows "caught_up_to ad pol links (file @ ext) f' \<and> ac_links (fw_acc f') = links
    \<and> (\<not> snd (seek (read_offset f)) \<longrightarrow> (\<exists>t. res = Inr t) \<and> read_offset f' = complete_len (file @ ext))"
proof -
  let ?c = "read_offset f"
  have inv: "mem_inv (fw_acc f)" "?c \<le> length file" "complete_len (take ?c file) = ?c"
      "map_option seen (batch ad links (line_list pol 0 (take ?c file))) = Some (seen (fw_acc f))"
    using c by (simp_all add: caught_up_to_def fw_inv_def)
  have pre: "take ?c (file @ ext) = take ?c file" "?c \<le> length (file @ ext)" using inv(2) by simp_all
  note v = file_view_spec [OF disk pre(2) _ view, unfolded pre(1), OF inv(3)]
  obtain a pf where a: "advance_lines ad in_memory_store (en_lines en) None (fw_acc f) = Some (a, pf)" "mem_inv a"
    by (rule mem_lines [OF hooks dec inv(1)])
  have seen: "map_option seen (batch ad links (line_list pol 0 (take (en_offset en) (file @ ext)))) = Some (seen a)"
    unfolding v(1) by (rule batch_more [OF inv(4) a(1)])
  have la: "ac_links a = links" using advance_lines_links [OF a(1)] links by simp
  have en: "en_links en = links" using view by (simp add: file_view_def case_prod_beta)
  obtain res' f'' where e: "fold_source ad in_memory_store en False src f = Some (res', f'')" "fw_inv f''"
    using fold_source_effect [OF hooks dec inv(1) el, of en False] by blast
  have "fw_inv f'" using e run by simp
  moreover have "read_offset f' = en_offset en" "seen (fw_acc f') = seen a" "ac_links (fw_acc f') = links"
      "\<not> en_fail en \<longrightarrow> (\<exists>t. res = Inr t)"
    using run a(1) la en
    by (auto simp: fold_source_def Let_def read_offset_def seen_links split: if_splits bind_splits)
  ultimately show ?thesis
    using seen v(2-5) unfolding caught_up_to_def by simp
qed

lemma tick_follows:
  assumes hooks: "hooks_ok (ad_shaping ad)" and dec: "decoder_ok ad"
    and c: "caught_up_to ad pol links file f" and disk: "may_show seek (file @ ext)"
    and links: "ac_links (fw_acc f) = links"
    and run: "advance_from_source ad in_memory_store
          (file_view pol seek (file @ ext) links same opened seekable (read_offset f)) f = Some (res, f')"
  shows "caught_up_to ad pol links (file @ ext) f' \<and> ac_links (fw_acc f') = links
    \<and> (opened \<and> seekable \<and> \<not> snd (seek (read_offset f)) \<longrightarrow>
         (\<exists>t. res = Inr t) \<and> read_offset f' = complete_len (file @ ext))"
proof -
  define en where "en = file_view pol seek (file @ ext) links same opened seekable (read_offset f)"
  have flags: "en_len en = length (file @ ext)" "en_open en = opened" "en_seek en = seekable" "en_same en = same"
    by (simp_all add: en_def file_view_def case_prod_beta)
  obtain f2 where p: "prepare ad in_memory_store en f = (False, f2)" "fw_acc f2 = fw_acc f"
      "read_offset f2 = read_offset f" "fw_inv f2"
    using c flags(1) by (auto simp: caught_up_to_def prepare_def Let_def read_offset_def fw_inv_def banked_ok_def
        split: if_splits option.splits)
  have c2: "caught_up_to ad pol links file f2"
    using c p by (simp add: caught_up_to_def)
  have idle: "caught_up_to ad pol links (file @ ext) f2"
    using c2 by (simp add: caught_up_to_def)
  have view: "en = file_view pol seek (file @ ext) links same opened seekable (read_offset f2)"
    by (simp add: en_def p(3))
  have links2: "ac_links (fw_acc f2) = links" using links p(2) by simp
  have fold: ?thesis
    if "elision_le (fw_banked f2) (snd src)" "fold_source ad in_memory_store en False src f2 = Some (res, f')" for src
    using fold_source_follows [OF hooks dec c2 disk view links2 that] by (simp add: p(3))
  have zero: "fw_src f2 = None \<Longrightarrow> elision_le (fw_banked f2) (snd (fw_cursor f2, elision_zero))"
    "fw_src f2 = Some src \<Longrightarrow> elision_le (fw_banked f2) (snd src)" for src
    using p(4) by (auto simp: fw_inv_def banked_ok_def)
  have step: "advance_from_source ad in_memory_store en f = Some (res, f')" using run by (simp add: en_def)
  show ?thesis
  proof (cases "fw_src f2")
    case None
    then show ?thesis
      using step p(1) flags idle links2 fold [OF zero(1) [OF None]]
      by (cases "opened \<and> seekable") (auto simp: advance_from_source_def)
  next
    case (Some src)
    then show ?thesis
      using step p(1) flags idle links2 fold [OF zero(2) [OF Some]]
      by (cases seekable) (auto simp: advance_from_source_def)
  qed
qed

lemma following_inv:
  assumes hooks: "hooks_ok (ad_shaping ad)" and dec: "decoder_ok ad"
  shows "following ad pol links file f \<Longrightarrow> caught_up_to ad pol links file f \<and> ac_links (fw_acc f) = links"
proof (induction rule: following.induct)
  case started
  show ?case
    using new_follower_inv [of ad links]
    by (simp add: caught_up_to_def follow_with_store_def read_offset_def batch_def lines_None split_line_def)
next
  case (ticked "file" f seek ext same opened seekable res f')
  then show ?case using tick_follows [OF hooks dec _ ticked.hyps(2) _ ticked.hyps(3)] by simp
qed

lemma seen_fold:
  assumes "seen a = seen b"
  shows "acc_fold ad in_memory_store a = acc_fold ad in_memory_store b"
    and "acc_session_meta ad a = acc_session_meta ad b" and "tf_list (ac_task_fold a) = tf_list (ac_task_fold b)"
  using assms by (auto simp: shown_eq_iff acc_fold_def acc_session_meta_def acc_open_snapshot_def)

subsection \<open>Claims\<close>

text \<open>
  C9: following a transcript live shows what parsing it at once shows.  Start from an empty file,
  let it grow in any portions, poll it at any moments, reopen it, let opens, seeks and reads fail
  on the way: the next poll that can read to the end of the file does not panic, and afterwards
  the blocks, the turn times, the header and the task list are exactly those of a batch parse of
  the complete lines of the file.
\<close>

theorem live_is_batch:
  assumes "hooks_ok (ad_shaping ad)" and "decoder_ok ad" and "following ad pol links file f"
    and "may_show seek (file @ ext)" and "\<not> snd (seek (read_offset f))"
  shows "\<exists>t f' b.
      advance_from_source ad in_memory_store
        (file_view pol seek (file @ ext) links same True True (read_offset f)) f = Some (Inr t, f')
    \<and> batch ad links (line_list pol 0 (file @ ext)) = Some b
    \<and> acc_fold ad in_memory_store (fw_acc f') = acc_fold ad in_memory_store b
    \<and> acc_fold ad in_memory_store b \<noteq> None
    \<and> acc_session_meta ad (fw_acc f') = acc_session_meta ad b
    \<and> tf_list (ac_task_fold (fw_acc f')) = tf_list (ac_task_fold b)"
proof -
  let ?en = "file_view pol seek (file @ ext) links same True True (read_offset f)"
  have inv: "caught_up_to ad pol links file f" "ac_links (fw_acc f) = links"
    using following_inv [OF assms(1-3)] by blast+
  have fw: "fw_inv f" using inv(1) by (simp add: caught_up_to_def)
  obtain res f' where r: "advance_from_source ad in_memory_store ?en f = Some (res, f')"
    using advance_from_source_effect [OF assms(1,2) fw] by blast
  have n: "caught_up_to ad pol links (file @ ext) f'" "\<exists>t. res = Inr t"
      "read_offset f' = complete_len (file @ ext)"
    using tick_follows [OF assms(1,2) inv(1) assms(4) inv(2) r] assms(5) by simp_all
  then obtain b where b: "batch ad links (line_list pol 0 (file @ ext)) = Some b" "seen b = seen (fw_acc f')"
    using lines_of_complete [of pol 0 "file @ ext"] by (auto simp: caught_up_to_def)
  have "fw_inv f'" using n(1) by (simp add: caught_up_to_def)
  then obtain prov ts where "acc_open_snapshot ad (fw_acc f') = Some (prov, ts)"
    using open_snapshot_total [OF assms(1), of "fw_acc f'"] by (auto simp: fw_inv_def)
  then have "acc_fold ad in_memory_store (fw_acc f') \<noteq> None" by (simp add: acc_fold_mem)
  then show ?thesis
    using r n(2) b seen_fold [OF b(2)] by fastforce
qed

theorem live_is_batch_witness:
  "\<exists>t f' b.
      advance_from_source text_adapter in_memory_store
        (file_view ElideAggressive (one_buffer ''ab'') ''ab'' [] True True True 0)
        (follow_with_store text_adapter () []) = Some (Inr t, f')
    \<and> batch text_adapter [] (line_list ElideAggressive 0 ''ab'') = Some b
    \<and> acc_fold text_adapter in_memory_store (fw_acc f') = acc_fold text_adapter in_memory_store b"
proof -
  have disk: "may_show (one_buffer ''ab'') ([] @ ''ab'')" "\<not> snd (one_buffer ''ab'' n)" for n
    by (auto simp: may_show_def one_buffer_def intro: exI [of _ 2])
  have zero: "read_offset (follow_with_store text_adapter () []) = 0"
    by (simp add: read_offset_def follow_with_store_def)
  show ?thesis
    using live_is_batch [OF text_adapter_ok following.started disk(1) disk(2), of ElideAggressive "[]" True]
    unfolding zero by auto
qed

end
