(* ===== verification/Utf8.thy ===== *)
theory Utf8
  imports Lines
begin

text \<open>
  Every line a source hands out is valid UTF-8: the \<open>expect\<close> of \<open>LineSource::body\<close> cannot fail.
\<close>

text \<open>\<open>std::str::from_utf8\<close> accepts the bytes.\<close>

function is_utf8 :: "string \<Rightarrow> bool" where
  "is_utf8 s =
     (if s = [] then True else fst (lossy_chunk s) \<and> is_utf8 (drop (snd (lossy_chunk s)) s))"
  by pat_completeness auto
termination
  by (relation "measure length") (use lossy_chunk_pos in \<open>auto simp: diff_less\<close>)

declare is_utf8.simps [simp del]

lemma in_range_length: "in_range lo hi s i \<Longrightarrow> i < length s"
  by (simp add: in_range_def)

lemma second_ok_length: "second_ok s \<Longrightarrow> 2 \<le> length s"
  by (auto simp: second_ok_def Let_def dest!: in_range_length split: if_splits)

lemma lossy_chunk_length:
  "s \<noteq> [] \<Longrightarrow> fst (lossy_chunk s) \<Longrightarrow> snd (lossy_chunk s) \<le> length s"
  by (cases s) (auto simp: lossy_chunk_def Let_def dest!: second_ok_length in_range_length split: if_splits)

lemma in_range_prefix: "i < length p \<Longrightarrow> in_range lo hi (p @ t) i = in_range lo hi p i"
  by (simp add: in_range_def nth_append)

text \<open>A valid sequence is recognized by its own bytes.\<close>

lemma lossy_chunk_take:
  assumes "s \<noteq> []" and "lossy_chunk s = (True, n)"
  shows "lossy_chunk (take n s @ t) = (True, n)"
proof -
  have n: "0 < n" "n \<le> length s"
    using lossy_chunk_pos [of s] lossy_chunk_length [OF assms(1)] assms(2) by simp_all
  have head: "hd (take n s @ t) = hd s" using n assms(1) by (cases s; cases n) auto
  have rng: "in_range lo hi (take n s @ t) i = in_range lo hi s i" if "i < n" for lo hi i
    using that n(2) in_range_prefix [of i "take n s" lo hi t] in_range_prefix [of i "take n s" lo hi "drop n s"]
    by simp
  have "second_ok (take n s @ t) = second_ok s" if "1 < n"
    using rng [OF that] by (simp add: second_ok_def head Let_def)
  then show ?thesis
    using assms(2) rng [of 1] rng [of 2] rng [of 3] unfolding lossy_chunk_def head Let_def
    by (simp split: if_splits)
qed

lemma is_utf8_seq:
  assumes "s \<noteq> []" and "lossy_chunk s = (True, n)" and "is_utf8 t"
  shows "is_utf8 (take n s @ t)"
proof -
  have "length (take n s) = n" using lossy_chunk_length [OF assms(1)] assms(2) by simp
  then show ?thesis
    using lossy_chunk_take [OF assms(1,2), of t] assms(3) by (subst is_utf8.simps) simp
qed

lemma valid_replacement: "is_utf8 t \<Longrightarrow> is_utf8 (replacement_char @ t)"
  using is_utf8_seq [of replacement_char 3 t]
  by (simp add: replacement_char_def lossy_chunk_def lossy_width_def second_ok_def in_range_def byte_def Let_def)

lemma is_utf8_lossy: "is_utf8 (utf8_lossy s)"
proof (induction s rule: utf8_lossy.induct)
  case (1 s)
  show ?case
  proof (cases "s = []")
    case True
    then show ?thesis by (simp add: utf8_lossy.simps is_utf8.simps)
  next
    case False
    obtain ok n where c: "lossy_chunk s = (ok, n)" by fastforce
    have "is_utf8 (utf8_lossy (drop n s))" using "1.IH" [OF False] c by simp
    then show ?thesis
      using False c is_utf8_seq [OF False, of n] valid_replacement
      by (subst utf8_lossy.simps) (cases ok; simp)
  qed
qed

lemma utf8_lossy_valid: "is_utf8 s \<Longrightarrow> utf8_lossy s = s"
proof (induction s rule: utf8_lossy.induct)
  case (1 s)
  show ?case
  proof (cases "s = []")
    case True
    then show ?thesis by (simp add: utf8_lossy.simps)
  next
    case False
    then have c: "fst (lossy_chunk s)" "is_utf8 (drop (snd (lossy_chunk s)) s)"
      using "1.prems" by (subst (asm) is_utf8.simps, simp)+
    then show ?thesis
      using "1.IH" [OF False c(2)] False by (subst utf8_lossy.simps) simp
  qed
qed



end
