(* ===== verification/Lock.thy ===== *)
theory Lock
  imports Base
begin

text \<open>
  The single-writer lock of a cache entry (\<open>claude-replay-present/src/cache/lock.rs\<close>): a file that
  names its holder.  First the operations, each as one step on the file; then processes whose
  acquisition is, as in the code, a read of the file and a later write.
\<close>

subsection \<open>Operations\<close>

record 'n holder =
  ho_pid :: nat
  ho_dir :: string
  ho_note :: "'n option"

datatype 'n taken = TakenOwned | TakenHeld "'n holder"

text \<open>
  The lock file, \<open>None\<close> when it is absent or does not parse; \<open>pid\<close> is this process.  An I/O error
  of a write is \<open>Inl\<close>.
\<close>

type_synonym 'n lock_file = "'n holder option"

definition lock_acquire ::
  "nat \<Rightarrow> string \<Rightarrow> ('n holder \<Rightarrow> bool) \<Rightarrow> bool \<Rightarrow> 'n lock_file \<Rightarrow> (unit + 'n taken) \<times> 'n lock_file" where
  "lock_acquire pid dir alive writable f =
     (case f of
        Some h \<Rightarrow>
          if ho_pid h \<noteq> pid \<and> alive h then (Inr (TakenHeld h), f)
          else if writable then (Inr TakenOwned, Some \<lparr>ho_pid = pid, ho_dir = dir, ho_note = None\<rparr>)
          else (Inl (), f)
      | None \<Rightarrow>
          if writable then (Inr TakenOwned, Some \<lparr>ho_pid = pid, ho_dir = dir, ho_note = None\<rparr>)
          else (Inl (), f))"

definition lock_publish ::
  "nat \<Rightarrow> string \<Rightarrow> 'n \<Rightarrow> bool \<Rightarrow> 'n lock_file \<Rightarrow> (unit + unit) \<times> 'n lock_file" where
  "lock_publish pid dir note writable f =
     (let h = (case f of Some h \<Rightarrow> h | None \<Rightarrow> \<lparr>ho_pid = pid, ho_dir = dir, ho_note = None\<rparr>)
      in if writable then (Inr (), Some (h\<lparr>ho_pid := pid, ho_note := Some note\<rparr>)) else (Inl (), f))"

definition lock_release :: "nat \<Rightarrow> 'n lock_file \<Rightarrow> 'n lock_file" where
  "lock_release pid f = (case f of Some h \<Rightarrow> if ho_pid h = pid then None else f | None \<Rightarrow> None)"

definition held_by_us :: "nat \<Rightarrow> 'n lock_file \<Rightarrow> bool" where
  "held_by_us pid f = (case f of Some h \<Rightarrow> ho_pid h = pid | None \<Rightarrow> False)"

text \<open>\<open>Drop for Lease\<close> releases.\<close>

definition lease_drop :: "nat \<Rightarrow> 'n lock_file \<Rightarrow> 'n lock_file" where
  "lease_drop pid f = lock_release pid f"

lemma release_not_ours: "\<not> held_by_us pid f \<Longrightarrow> lock_release pid f = f"
  by (cases f) (simp_all add: held_by_us_def lock_release_def)

lemma release_ours: "held_by_us pid f \<Longrightarrow> lock_release pid f = None"
  by (cases f) (simp_all add: held_by_us_def lock_release_def)

lemma acquire_held:
  "lock_acquire pid dir alive w f = (Inr (TakenHeld h), f') \<Longrightarrow> f' = f \<and> f = Some h \<and> ho_pid h \<noteq> pid \<and> alive h"
  by (auto simp: lock_acquire_def split: option.splits if_splits)

lemma acquire_owned:
  "lock_acquire pid dir alive w f = (Inr TakenOwned, f') \<Longrightarrow> held_by_us pid f' \<and> (\<forall>h. f = Some h \<longrightarrow> ho_pid h = pid \<or> \<not> alive h)"
  by (auto simp: lock_acquire_def held_by_us_def split: option.splits if_splits)

lemma acquire_error: "lock_acquire pid dir alive w f = (Inl e, f') \<Longrightarrow> f' = f \<and> \<not> w"
  by (auto simp: lock_acquire_def split: option.splits if_splits)

subsection \<open>Processes\<close>

datatype lock_phase = LockIdle | LockClear | LockOwner

record lock_world =
  lw_file :: "nat option"
  lw_alive :: "nat set"
  lw_phase :: "nat \<Rightarrow> lock_phase"

definition lock_world_new :: "nat set \<Rightarrow> lock_world" where
  "lock_world_new ps = \<lparr>lw_file = None, lw_alive = ps, lw_phase = (\<lambda>_. LockIdle)\<rparr>"

definition lock_clear :: "nat \<Rightarrow> lock_world \<Rightarrow> bool" where
  "lock_clear p w = (case lw_file w of None \<Rightarrow> True | Some q \<Rightarrow> q = p \<or> q \<notin> lw_alive w)"

definition set_phase :: "nat \<Rightarrow> lock_phase \<Rightarrow> lock_world \<Rightarrow> lock_world" where
  "set_phase p ph w = w\<lparr>lw_phase := (lw_phase w)(p := ph)\<rparr>"

text \<open>\<open>acquire\<close> as the code runs it: the read that finds the lock clear, then the write.\<close>

inductive lock_step :: "lock_world \<Rightarrow> lock_world \<Rightarrow> bool" where
  look: "p \<in> lw_alive w \<Longrightarrow> lw_phase w p = LockIdle \<Longrightarrow> lock_clear p w
    \<Longrightarrow> lock_step w (set_phase p LockClear w)"
| take_it: "p \<in> lw_alive w \<Longrightarrow> lw_phase w p = LockClear
    \<Longrightarrow> lock_step w (set_phase p LockOwner (w\<lparr>lw_file := Some p\<rparr>))"
| release: "p \<in> lw_alive w \<Longrightarrow> lw_phase w p = LockOwner
    \<Longrightarrow> lock_step w (set_phase p LockIdle (w\<lparr>lw_file := if lw_file w = Some p then None else lw_file w\<rparr>))"
| die: "p \<in> lw_alive w \<Longrightarrow> lock_step w (w\<lparr>lw_alive := lw_alive w - {p}\<rparr>)"

definition lock_owners :: "lock_world \<Rightarrow> nat set" where
  "lock_owners w = {p \<in> lw_alive w. lw_phase w p = LockOwner}"

lemma set_phase_simps [simp]:
  "lw_file (set_phase p ph w) = lw_file w" "lw_alive (set_phase p ph w) = lw_alive w"
  "lw_phase (set_phase p ph w) = (lw_phase w)(p := ph)"
  by (simp_all add: set_phase_def)

definition lock_acquirers :: "lock_world \<Rightarrow> nat set" where
  "lock_acquirers w = {p \<in> lw_alive w. lw_phase w p = LockClear}"

text \<open>Acquisitions do not overlap: never two living processes between their read and their write.\<close>

definition serial_step :: "lock_world \<Rightarrow> lock_world \<Rightarrow> bool" where
  "serial_step w w' \<longleftrightarrow> lock_step w w' \<and> (\<forall>p\<in>lock_acquirers w'. \<forall>q\<in>lock_acquirers w'. p = q)"

text \<open>Every live owner is the one the file names, and while one acquires there is none.\<close>

definition lock_inv :: "lock_world \<Rightarrow> bool" where
  "lock_inv w \<longleftrightarrow> (\<forall>p\<in>lock_owners w. lw_file w = Some p)
     \<and> (\<forall>p\<in>lock_acquirers w. \<forall>q\<in>lock_acquirers w. p = q)
     \<and> (lock_acquirers w \<noteq> {} \<longrightarrow> lock_owners w = {})"

lemmas lock_inv_defs = lock_inv_def lock_owners_def lock_acquirers_def lock_clear_def

lemma lock_inv_unique: "lock_inv w \<Longrightarrow> p \<in> lock_owners w \<Longrightarrow> q \<in> lock_owners w \<Longrightarrow> p = q"
  unfolding lock_inv_def by (metis option.inject)

lemma lock_inv_step:
  assumes step: "serial_step w w'" and inv: "lock_inv w"
  shows "lock_inv w'"
proof -
  have serial: "\<forall>p\<in>lock_acquirers w'. \<forall>q\<in>lock_acquirers w'. p = q" and "lock_step w w'"
    using step by (simp_all add: serial_step_def)
  from this(2) show ?thesis
  proof (cases rule: lock_step.cases)
    case (look p)
    have none: "lock_owners w = {}"
    proof (rule ccontr)
      assume "lock_owners w \<noteq> {}"
      then obtain q where q: "q \<in> lock_owners w" by blast
      then have "lw_file w = Some q" using inv by (simp add: lock_inv_def)
      then have "q = p" using look q by (auto simp: lock_clear_def lock_owners_def)
      then show False using look q by (simp add: lock_owners_def)
    qed
    then have "lock_owners w' = {}" using look by (auto simp: lock_owners_def)
    then show ?thesis using serial by (simp add: lock_inv_def)
  next
    case (take_it p)
    then have p: "p \<in> lock_acquirers w" by (simp add: lock_acquirers_def)
    then have none: "lock_owners w = {}" and only: "\<forall>q\<in>lock_acquirers w. q = p"
      using inv unfolding lock_inv_def by blast+
    have "q \<in> lw_alive w \<Longrightarrow> lw_phase w q \<noteq> LockOwner" "q \<in> lw_alive w \<Longrightarrow> q \<noteq> p \<Longrightarrow> lw_phase w q \<noteq> LockClear" for q
      using none only by (auto simp: lock_owners_def lock_acquirers_def)
    then have "q \<in> lock_owners w' \<longleftrightarrow> q = p" "q \<notin> lock_acquirers w'" for q
      using take_it(2) unfolding take_it(1) by (auto simp: lock_owners_def lock_acquirers_def)
    then have "lock_owners w' = {p}" "lock_acquirers w' = {}" by blast+
    then show ?thesis unfolding lock_inv_def by (simp add: take_it(1))
  next
    case (release p)
    then have p: "p \<in> lock_owners w" by (simp add: lock_owners_def)
    then have "lock_owners w = {p}" using inv lock_inv_unique by blast
    then have "lock_owners w' = {}" using release by (auto simp: lock_owners_def split: if_splits)
    then show ?thesis using serial by (simp add: lock_inv_def)
  next
    case (die p)
    have "lock_owners w' \<subseteq> lock_owners w" "lock_acquirers w' \<subseteq> lock_acquirers w" "lw_file w' = lw_file w"
      unfolding die(1) by (auto simp: lock_owners_def lock_acquirers_def)
    then show ?thesis using inv serial unfolding lock_inv_def by (metis subset_empty subset_iff)
  qed
qed

lemma lock_inv_reach: "serial_step\<^sup>*\<^sup>* w w' \<Longrightarrow> lock_inv w \<Longrightarrow> lock_inv w'"
  by (induction rule: rtranclp_induct) (auto dest: lock_inv_step)

subsection \<open>Claims\<close>

text \<open>
  With acquisitions that do not overlap, an entry has at most one living writer, and the lock
  file names it, whatever processes acquire, release and die.
\<close>

theorem one_writer:
  assumes "serial_step\<^sup>*\<^sup>* (lock_world_new ps) w" and "p \<in> lock_owners w"
  shows "lock_owners w = {p} \<and> lw_file w = Some p"
proof -
  have "lock_inv (lock_world_new ps)" by (simp add: lock_inv_defs lock_world_new_def)
  then have "lock_inv w" by (rule lock_inv_reach [OF assms(1)])
  then show ?thesis using assms(2) lock_inv_unique unfolding lock_inv_def by blast
qed

theorem one_writer_witness:
  "\<exists>w. serial_step\<^sup>*\<^sup>* (lock_world_new {1, 2}) w \<and> lock_owners w = {1} \<and> lw_file w = Some 1"
proof -
  let ?w0 = "lock_world_new {1, 2}"
  let ?w1 = "set_phase 1 LockClear ?w0"
  let ?w2 = "set_phase 1 LockOwner (?w1\<lparr>lw_file := Some 1\<rparr>)"
  have "lock_step ?w0 ?w1" by (rule lock_step.look; simp add: lock_world_new_def lock_clear_def)
  then have 1: "serial_step ?w0 ?w1"
    by (auto simp: serial_step_def lock_acquirers_def lock_world_new_def split: if_splits)
  have "lock_step ?w1 ?w2" by (rule lock_step.take_it; simp add: lock_world_new_def)
  then have 2: "serial_step ?w1 ?w2"
    by (auto simp: serial_step_def lock_acquirers_def lock_world_new_def split: if_splits)
  have r: "serial_step\<^sup>*\<^sup>* ?w0 ?w2" using 1 2 by (meson rtranclp.rtrancl_into_rtrancl rtranclp.rtrancl_refl)
  have "1 \<in> lock_owners ?w2" by (simp add: lock_owners_def lock_world_new_def)
  from one_writer [OF r this] r show ?thesis by blast
qed

text \<open>
  The acquisition of the code does overlap: two processes that both read the file before
  either writes it both own the entry.
\<close>

theorem two_writers:
  "\<exists>w. lock_step\<^sup>*\<^sup>* (lock_world_new {1, 2}) w \<and> 1 \<in> lock_owners w \<and> 2 \<in> lock_owners w"
proof -
  let ?w0 = "lock_world_new {1, 2}"
  let ?w1 = "set_phase 1 LockClear ?w0"
  let ?w2 = "set_phase 2 LockClear ?w1"
  let ?w3 = "set_phase 1 LockOwner (?w2\<lparr>lw_file := Some 1\<rparr>)"
  let ?w4 = "set_phase 2 LockOwner (?w3\<lparr>lw_file := Some 2\<rparr>)"
  have "lock_step ?w0 ?w1" "lock_step ?w1 ?w2"
    by (rule lock_step.look; simp add: lock_world_new_def lock_clear_def)+
  moreover have "lock_step ?w2 ?w3" "lock_step ?w3 ?w4"
    by (rule lock_step.take_it; simp add: lock_world_new_def)+
  ultimately have "lock_step\<^sup>*\<^sup>* ?w0 ?w4"
    by (meson rtranclp.rtrancl_into_rtrancl rtranclp.rtrancl_refl)
  then show ?thesis
    by (intro exI [of _ ?w4]) (simp add: lock_owners_def lock_world_new_def)
qed

end
