(* ===== verification/Durable.thy ===== *)
theory Durable
  imports Meta Utf8
begin

text \<open>
  The durable record stream (\<open>claude-replay-present/src/cache/stream.rs\<close>): one JSON line per
  record after a header line.  Serialization (\<open>serde_json\<close>) is a pair of functions; a file is its
  bytes.
\<close>

subsection \<open>Reading\<close>

lemma split_line_less: "Some (line, rest) = split_line bs \<Longrightarrow> length rest < length bs"
  "split_line bs = Some (line, rest) \<Longrightarrow> length rest < length bs"
  using split_line_SomeD [of bs line rest] by simp_all

text \<open>\<open>BufRead::lines\<close>.\<close>

function std_lines :: "string \<Rightarrow> string list" where
  "std_lines bs =
     (if bs = [] then []
      else case split_line bs of
             None \<Rightarrow> [bs]
           | Some (line, rest) \<Rightarrow> strip_last (CHR 0x0D) (butlast line) # std_lines rest)"
  by pat_completeness auto
termination
  by (relation "measure length") (auto dest!: split_line_less)

declare std_lines.simps [simp del]

text \<open>A line that is not UTF-8 or does not parse ends the stream.\<close>

fun parse_while :: "(string \<Rightarrow> 'r option) \<Rightarrow> string list \<Rightarrow> 'r list" where
  "parse_while dec [] = []"
| "parse_while dec (l # ls) =
     (if is_utf8 l then (case dec l of None \<Rightarrow> [] | Some r \<Rightarrow> r # parse_while dec ls) else [])"

definition meta_open ::
  "(string \<Rightarrow> 'h option) \<Rightarrow> (string \<Rightarrow> 'r option) \<Rightarrow> string \<Rightarrow> ('h \<times> 'r list) option" where
  "meta_open dech dec bs =
     (case std_lines bs of
        [] \<Rightarrow> None
      | l # ls \<Rightarrow>
          if is_utf8 l then map_option (\<lambda>h. (h, parse_while dec ls)) (dech l) else None)"

subsection \<open>Writing\<close>

definition meta_create :: "('h \<Rightarrow> string) \<Rightarrow> 'h \<Rightarrow> string" where
  "meta_create ench h = ench h @ [newline_char]"

definition meta_append :: "('r \<Rightarrow> string) \<Rightarrow> string \<Rightarrow> 'r \<Rightarrow> string" where
  "meta_append enc bs r = bs @ enc r @ [newline_char]"

text \<open>\<open>open_append\<close>: the file cut to the header and the first \<open>keep\<close> records, counted in newlines.\<close>

fun keep_lines :: "nat \<Rightarrow> string \<Rightarrow> string" where
  "keep_lines 0 bs = []"
| "keep_lines (Suc n) bs =
     (case split_line bs of None \<Rightarrow> bs | Some (line, rest) \<Rightarrow> line @ keep_lines n rest)"

definition meta_open_append :: "string \<Rightarrow> nat \<Rightarrow> string" where
  "meta_open_append bs keep = keep_lines (Suc keep) bs"

subsection \<open>Compaction\<close>

definition corroborated :: "nat \<Rightarrow> meta_record \<Rightarrow> bool" where
  "corroborated committed r \<longleftrightarrow> mr_checkpoint r \<noteq> None
     \<and> (case mr_resume r of Some res \<Rightarrow> rs_id res \<le> committed | None \<Rightarrow> False)"

text \<open>\<open>Iterator::rposition\<close>.\<close>

fun last_index :: "('a \<Rightarrow> bool) \<Rightarrow> 'a list \<Rightarrow> nat option" where
  "last_index P [] = None"
| "last_index P (x # xs) =
     (case last_index P xs of Some i \<Rightarrow> Some (Suc i) | None \<Rightarrow> if P x then Some 0 else None)"

text \<open>The number of records dropped and the new file; the rename makes it one step.\<close>

definition meta_compact ::
  "(string \<Rightarrow> 'h option) \<Rightarrow> (string \<Rightarrow> meta_record option) \<Rightarrow> ('h \<Rightarrow> string) \<Rightarrow> (meta_record \<Rightarrow> string)
     \<Rightarrow> nat \<Rightarrow> nat \<Rightarrow> string \<Rightarrow> nat \<times> string" where
  "meta_compact dech dec ench enc committed compact_after bs =
     (case meta_open dech dec bs of
        None \<Rightarrow> (0, bs)
      | Some (h, records) \<Rightarrow>
          (case last_index (corroborated committed) records of
             None \<Rightarrow> (0, bs)
           | Some at_idx \<Rightarrow>
               if at_idx < compact_after then (0, bs)
               else (at_idx, foldl (meta_append enc) (meta_create ench h) (drop at_idx records))))"

end
