(* ===== verification/Claim.thy ===== *)
theory Claim
  imports Lock Durable Meta_Sync Elide
begin

text \<open>
  Claiming a durable entry (\<open>claude-replay-present/src/cache/admit.rs\<close>): the lock, the frontend's
  backing, the validation of the record stream, and the decision to resume or to rebuild.  The
  entry is its lock file, its record stream and the frontend's own store; the transcript is what
  opening it gives and its length.
\<close>

subsection \<open>Versions and identity\<close>

record versions =
  vs_format :: nat
  vs_fold :: nat
  vs_flavor :: "nat option"

record stream_header =
  sh_anchor :: "32 word"
  sh_versions :: versions

record transcript =
  ts_stream :: "buffered option"
  ts_len :: "nat option"

definition trim_end :: "string \<Rightarrow> string" where
  "trim_end s = rev (trim_end_rev (rev s))"

text \<open>\<open>None\<close> is an I/O error, a first line that is not UTF-8 included.\<close>

definition anchor_of :: "transcript \<Rightarrow> 32 word option" where
  "anchor_of src =
     (case ts_stream src of
        None \<Rightarrow> None
      | Some rd \<Rightarrow>
          (case fst (read_line_elided 0 ElideNone rd) of
             Inl e \<Rightarrow> None
           | Inr (_, out) \<Rightarrow> if is_utf8 out then Some (crc32 (trim_end out)) else None))"

subsection \<open>The entry\<close>

datatype backing_state = BackingRetained | BackingCommitted nat | BackingUnusable

datatype unavailable = UnwritableRoot | UnknownSession

datatype 'n denial = DenialHeld "'n holder" | DenialUnavailable unavailable

datatype cold_reason = NoPriorCache | SourceRewritten | VersionChanged | TornStream | CheckpointMismatch

datatype origin = OriginResumed nat nat | OriginRetained nat | OriginCold cold_reason

datatype 'n claimed = ClaimOurs origin "aligned_meta option" | ClaimRetained | ClaimDenied "'n denial"

record ('n, 'c) cache_entry =
  ce_lock :: "'n lock_file"
  ce_meta :: "string option"
  ce_store :: 'c

record codec =
  cd_header :: "string \<Rightarrow> stream_header option"
  cd_record :: "string \<Rightarrow> meta_record option"

definition open_stream :: "codec \<Rightarrow> string option \<Rightarrow> (stream_header \<times> meta_record list) option" where
  "open_stream cd m = (case m of None \<Rightarrow> None | Some bs \<Rightarrow> meta_open (cd_header cd) (cd_record cd) bs)"

definition recover ::
  "codec \<Rightarrow> transcript \<Rightarrow> versions \<Rightarrow> nat \<Rightarrow> string option \<Rightarrow> cold_reason + aligned_meta option" where
  "recover cd src vs committed_len m =
     (case open_stream cd m of
        None \<Rightarrow> Inl NoPriorCache
      | Some (header, records) \<Rightarrow>
          if sh_versions header \<noteq> vs then Inl VersionChanged
          else (case anchor_of src of
                  None \<Rightarrow> Inl SourceRewritten
                | Some anchor \<Rightarrow>
                    if anchor \<noteq> sh_anchor header then Inl SourceRewritten
                    else (case align records committed_len of
                            Inl e \<Rightarrow> Inl CheckpointMismatch
                          | Inr None \<Rightarrow> Inr None
                          | Inr (Some a) \<Rightarrow>
                              (case ts_len src of
                                 None \<Rightarrow> Inl SourceRewritten
                               | Some len \<Rightarrow>
                                   if len < rs_replay_from (al_resume a) then Inl SourceRewritten
                                   else Inr (Some a)))))"

definition stream_unchanged :: "codec \<Rightarrow> transcript \<Rightarrow> versions \<Rightarrow> string option \<Rightarrow> bool" where
  "stream_unchanged cd src vs m =
     (case open_stream cd m of
        None \<Rightarrow> False
      | Some (header, _) \<Rightarrow> sh_versions header = vs \<and> anchor_of src = Some (sh_anchor header))"

subsection \<open>The claim\<close>

text \<open>
  \<open>made\<close> and \<open>writable\<close> are the outcomes of creating the directory and writing the lock; \<open>opening\<close>
  is the frontend's callback, which sees the stream and may change its own store.
\<close>

record 'n claimer =
  cl_pid :: nat
  cl_dir :: string
  cl_decidable :: bool
  cl_alive :: "'n holder \<Rightarrow> bool"
  cl_made :: bool
  cl_writable :: bool

definition resume_origin :: "cold_reason + aligned_meta option \<Rightarrow> origin \<times> aligned_meta option" where
  "resume_origin r =
     (case r of
        Inr (Some a) \<Rightarrow> (OriginResumed (al_committed a) (rs_replay_from (al_resume a)), Some a)
      | Inr None \<Rightarrow> (OriginCold TornStream, None)
      | Inl e \<Rightarrow> (OriginCold e, None))"

definition claim_entry ::
  "codec \<Rightarrow> 'n claimer \<Rightarrow> transcript \<Rightarrow> versions \<Rightarrow> (string option \<Rightarrow> 'c \<Rightarrow> backing_state \<times> 'c)
     \<Rightarrow> ('n, 'c) cache_entry \<Rightarrow> 'n claimed \<times> ('n, 'c) cache_entry" where
  "claim_entry cd cl src vs opening e =
     (if \<not> cl_made cl then (ClaimDenied (DenialUnavailable UnwritableRoot), e)
      else
        (case lock_acquire (cl_pid cl) (cl_dir cl) (\<lambda>h. \<not> cl_decidable cl \<or> cl_alive cl h)
                (cl_writable cl) (ce_lock e) of
           (Inr (TakenHeld h), _) \<Rightarrow> (ClaimDenied (DenialHeld h), e)
         | (Inl _, _) \<Rightarrow> (ClaimDenied (DenialUnavailable UnwritableRoot), e)
         | (Inr TakenOwned, l) \<Rightarrow>
             (let (b, c) = opening (ce_meta e) (ce_store e); e' = e\<lparr>ce_lock := l, ce_store := c\<rparr>
              in case b of
                   BackingRetained \<Rightarrow> (ClaimRetained, e')
                 | BackingUnusable \<Rightarrow>
                     (ClaimDenied (DenialUnavailable UnwritableRoot),
                      e'\<lparr>ce_lock := lock_release (cl_pid cl) l\<rparr>)
                 | BackingCommitted n \<Rightarrow>
                     (case resume_origin (recover cd src vs n (ce_meta e')) of
                        (o', a) \<Rightarrow> (ClaimOurs o' a, e')))))"

datatype rewind = RewindFresh | RewindKeep nat | RewindAll

text \<open>
  Whether the writer of a granted claim could be opened, and the stream it leaves; \<open>ok\<close> is whether
  the file operations succeed.  A fresh stream is truncated before the transcript's anchor is read.
\<close>

definition writer_for ::
  "(stream_header \<Rightarrow> string) \<Rightarrow> bool \<Rightarrow> transcript \<Rightarrow> versions \<Rightarrow> rewind \<Rightarrow> string option \<Rightarrow> bool \<times> string option" where
  "writer_for ench ok src vs how m =
     (if \<not> ok then (False, m)
      else case how of
        RewindFresh \<Rightarrow>
          (case anchor_of src of
             None \<Rightarrow> (False, Some [])
           | Some an \<Rightarrow> (True, Some (meta_create ench \<lparr>sh_anchor = an, sh_versions = vs\<rparr>)))
      | RewindKeep keep \<Rightarrow> (case m of None \<Rightarrow> (False, None) | Some bs \<Rightarrow> (True, Some (meta_open_append bs keep)))
      | RewindAll \<Rightarrow> (m \<noteq> None, m))"

subsection \<open>Lemmas\<close>

lemma align_from_below:
  assumes "align_from k mm best rs n = Inr (Some a)"
    and "\<And>b. best = Some b \<Longrightarrow> al_committed b \<le> n \<and> rs_id (al_resume b) = al_committed b
      \<and> al_records b \<le> k"
  shows "al_committed a \<le> n \<and> rs_id (al_resume a) = al_committed a \<and> al_records a \<le> k + length rs"
  using assms
proof (induction rs arbitrary: k mm best)
  case (Cons r rs)
  let ?best = "case mr_resume r of None \<Rightarrow> best
     | Some res \<Rightarrow> Some \<lparr>al_committed = rs_id res, al_meta = materialized_push mm r, al_resume = res, al_records = Suc k\<rparr>"
  show ?case
  proof (cases "case mr_resume r of Some res \<Rightarrow> n < rs_id res | None \<Rightarrow> False")
    case True
    then show ?thesis using Cons.prems by force
  next
    case False
    then have "align_from (Suc k) (materialized_push mm r) ?best rs n = Inr (Some a)"
      using Cons.prems(1) by (simp add: Let_def split: if_splits)
    then show ?thesis
      using Cons.IH [of "Suc k" _ ?best] Cons.prems(2) False by (force split: option.splits)
  qed
qed force

lemma align_below:
  "align rs n = Inr (Some a) \<Longrightarrow> al_committed a \<le> n \<and> rs_id (al_resume a) = al_committed a \<and> al_records a \<le> length rs"
  using align_from_below [of 0 materialized_default None rs n a] by (simp add: align_def)

lemma recover_Some:
  "recover cd src vs n m = Inr (Some a) \<longleftrightarrow>
     (\<exists>h rs len. open_stream cd m = Some (h, rs) \<and> sh_versions h = vs \<and> anchor_of src = Some (sh_anchor h)
        \<and> align rs n = Inr (Some a) \<and> ts_len src = Some len \<and> rs_replay_from (al_resume a) \<le> len)"
  by (auto simp: recover_def split: option.splits sum.splits if_splits)

lemma claim_unfold:
  "claim_entry cd cl src vs opening e = (out, e') \<Longrightarrow>
     (out = ClaimDenied (DenialUnavailable UnwritableRoot) \<and> e' = e \<and> (\<not> cl_made cl \<or> \<not> cl_writable cl))
     \<or> (\<exists>h. out = ClaimDenied (DenialHeld h) \<and> e' = e \<and> ce_lock e = Some h \<and> ho_pid h \<noteq> cl_pid cl
          \<and> (cl_decidable cl \<longrightarrow> cl_alive cl h))
     \<or> (\<exists>c. opening (ce_meta e) (ce_store e) = (BackingUnusable, c)
          \<and> out = ClaimDenied (DenialUnavailable UnwritableRoot) \<and> e' = e\<lparr>ce_lock := None, ce_store := c\<rparr>)
     \<or> (\<exists>b l c. opening (ce_meta e) (ce_store e) = (b, c) \<and> e' = e\<lparr>ce_lock := l, ce_store := c\<rparr>
          \<and> held_by_us (cl_pid cl) l
          \<and> (\<forall>h. ce_lock e = Some h \<longrightarrow> ho_pid h = cl_pid cl \<or> (cl_decidable cl \<and> \<not> cl_alive cl h))
          \<and> (case b of BackingRetained \<Rightarrow> out = ClaimRetained | BackingUnusable \<Rightarrow> False
              | BackingCommitted n \<Rightarrow> (case resume_origin (recover cd src vs n (ce_meta e)) of
                        (o', a) \<Rightarrow> out = ClaimOurs o' a)))"
  by (cases "opening (ce_meta e) (ce_store e)")
    (auto simp: claim_entry_def lock_acquire_def held_by_us_def lock_release_def Let_def
      split: if_splits option.splits backing_state.splits prod.splits)

end
