(* ===== verification/Durable_Props.thy ===== *)
theory Durable_Props
  imports Durable Lines_Props
begin

text \<open>
  Every crash of the writer leaves a readable prefix of the stream, a resumed writer continues it,
  and compaction does not change what an admission recovers.
\<close>

subsection \<open>The serializer\<close>

text \<open>
  What the stream relies on, for the values it holds: a value parses back; its text is one non-empty line of UTF-8; no
  proper prefix of it is a value (a JSON object ends at its last brace).
\<close>

definition codec_ok :: "'r set \<Rightarrow> ('r \<Rightarrow> string) \<Rightarrow> (string \<Rightarrow> 'r option) \<Rightarrow> bool" where
  "codec_ok S enc dec \<longleftrightarrow> (\<forall>r\<in>S. dec (enc r) = Some r \<and> newline_char \<notin> set (enc r) \<and> enc r \<noteq> []
     \<and> last (enc r) \<noteq> CHR 0x0D \<and> is_utf8 (enc r)
     \<and> (\<forall>p q. enc r = p @ q \<longrightarrow> q \<noteq> [] \<longrightarrow> dec p = None))"

lemma codec_okD:
  assumes "codec_ok S enc dec" and "r \<in> S"
  shows "dec (enc r) = Some r" and "newline_char \<notin> set (enc r)" and "enc r \<noteq> []"
    and "last (enc r) \<noteq> CHR 0x0D" and "is_utf8 (enc r)"
    and "enc r = p @ q \<Longrightarrow> q \<noteq> [] \<Longrightarrow> dec p = None"
  using assms unfolding codec_ok_def by blast+

text \<open>The stream of a header and some records.\<close>

definition stream_text :: "('h \<Rightarrow> string) \<Rightarrow> ('r \<Rightarrow> string) \<Rightarrow> 'h \<Rightarrow> 'r list \<Rightarrow> string" where
  "stream_text ench enc h rs = foldl (meta_append enc) (meta_create ench h) rs"

definition record_lines :: "('r \<Rightarrow> string) \<Rightarrow> 'r list \<Rightarrow> string" where
  "record_lines enc rs = concat (map (\<lambda>r. enc r @ [newline_char]) rs)"

lemma append_all: "foldl (meta_append enc) bs rs = bs @ record_lines enc rs"
  by (induction rs arbitrary: bs) (simp_all add: meta_append_def record_lines_def)

lemma record_lines_simps [simp]:
  "record_lines enc [] = []" "record_lines enc (r # rs) = enc r @ newline_char # record_lines enc rs"
  "record_lines enc (xs @ ys) = record_lines enc xs @ record_lines enc ys"
  by (simp_all add: record_lines_def)

lemma stream_text_eq: "stream_text ench enc h rs = ench h @ newline_char # record_lines enc rs"
  by (simp add: stream_text_def append_all meta_create_def)

lemma split_line_nl: "newline_char \<notin> set s \<Longrightarrow> split_line (s @ newline_char # t) = Some (s @ [newline_char], t)"
  by (subst split_line_append) (simp_all add: split_line_def)

lemma std_lines_nl:
  assumes "newline_char \<notin> set s"
  shows "std_lines (s @ newline_char # t) = strip_last (CHR 0x0D) s # std_lines t"
  using split_line_nl [OF assms, of t] by (subst std_lines.simps) (simp add: butlast_append)

lemma std_lines_torn:
  assumes "newline_char \<notin> set s" and "s \<noteq> []"
  shows "std_lines s = [s]"
  using assms by (subst std_lines.simps) (simp add: split_line_def)

lemma std_lines_nil [simp]: "std_lines [] = []"
  by (simp add: std_lines.simps)

lemma strip_enc: "codec_ok S enc dec \<Longrightarrow> r \<in> S \<Longrightarrow> strip_last (CHR 0x0D) (enc r) = enc r"
  using codec_okD(4) [of S enc dec r] by (simp add: strip_last_def)

subsection \<open>Crashes\<close>

text \<open>A prefix of the record lines parses to a prefix of the records.\<close>

lemma parse_prefix:
  assumes ok: "codec_ok S enc dec" and "set rs \<subseteq> S" and "k \<le> length (record_lines enc rs)"
  shows "\<exists>m\<le>length rs. parse_while dec (std_lines (take k (record_lines enc rs))) = take m rs
    \<and> length (record_lines enc (take m rs)) \<le> Suc k
    \<and> (m < length rs \<longrightarrow> Suc k < length (record_lines enc (take (Suc m) rs)))"
  using assms(2,3)
proof (induction rs arbitrary: k)
  case Nil
  then show ?case by simp
next
  case (Cons r rs)
  have r: "r \<in> S" "set rs \<subseteq> S" using Cons.prems(1) by simp_all
  note c = codec_okD [OF ok r(1)]
  show ?case
  proof (cases "k \<le> length (enc r)")
    case True
    then have t: "take k (record_lines enc (r # rs)) = take k (enc r)" by simp
    show ?thesis
    proof (cases "k = length (enc r)")
      case True
      then show ?thesis
        using t c std_lines_torn [OF c(2,3)] by (cases rs) (intro exI [of _ 1], auto)+
    next
      case False
      with True have lt: "k < length (enc r)" by simp
      have none: "dec (take k (enc r)) = None"
        using c(6) [of "take k (enc r)" "drop k (enc r)"] lt by simp
      have "newline_char \<notin> set (take k (enc r))" using c(2) by (auto dest: in_set_takeD)
      then have "parse_while dec (std_lines (take k (enc r))) = []"
        using none by (cases "k = 0") (simp_all add: std_lines_torn c(3))
      then show ?thesis using t lt by (intro exI [of _ 0]) auto
    qed
  next
    case False
    define j where "j = k - Suc (length (enc r))"
    have k: "k = Suc (length (enc r)) + j" using False by (simp add: j_def)
    have j: "j \<le> length (record_lines enc rs)" using Cons.prems(2) k by simp
    have t: "take k (record_lines enc (r # rs)) = enc r @ newline_char # take j (record_lines enc rs)"
      by (simp add: k)
    obtain m where m: "m \<le> length rs" "parse_while dec (std_lines (take j (record_lines enc rs))) = take m rs"
        "length (record_lines enc (take m rs)) \<le> Suc j"
        "m < length rs \<longrightarrow> Suc j < length (record_lines enc (take (Suc m) rs))"
      using Cons.IH [OF r(2) j] by blast
    show ?thesis
      using m t c by (intro exI [of _ "Suc m"]) (simp add: std_lines_nl strip_enc [OF ok r(1)] k)
  qed
qed

lemma meta_open_text:
  assumes "codec_ok {h} ench dech"
  shows "meta_open dech dec (ench h @ newline_char # t) = Some (h, parse_while dec (std_lines t))"
  using codec_okD [OF assms, of h] by (simp add: meta_open_def std_lines_nl strip_enc [OF assms])

lemma parse_records:
  "codec_ok S enc dec \<Longrightarrow> set rs \<subseteq> S \<Longrightarrow> parse_while dec (std_lines (record_lines enc rs @ t)) = rs @ parse_while dec (std_lines t)"
proof (induction rs)
  case (Cons r rs)
  then show ?case
    using codec_okD [OF Cons.prems(1), of r] by (simp add: std_lines_nl strip_enc [OF Cons.prems(1)])
qed simp

lemma parse_all: "codec_ok S enc dec \<Longrightarrow> set rs \<subseteq> S \<Longrightarrow> parse_while dec (std_lines (record_lines enc rs)) = rs"
  using parse_records [of S enc dec rs "[]"] by simp

lemma keep_records:
  "codec_ok S enc dec \<Longrightarrow> set rs \<subseteq> S \<Longrightarrow> keep_lines (length rs + n) (record_lines enc rs @ t) = record_lines enc rs @ keep_lines n t"
proof (induction rs)
  case (Cons r rs)
  then have "r \<in> S" by simp
  then show ?case
    using split_line_nl [OF codec_okD(2) [OF Cons.prems(1)], of r] Cons by simp
qed simp

lemma keep_stream:
  assumes "codec_ok {h} ench dech" and "codec_ok S enc dec" and "set rs \<subseteq> S"
  shows "meta_open_append (ench h @ newline_char # record_lines enc rs @ t) (length rs + n)
    = ench h @ newline_char # record_lines enc rs @ keep_lines n t"
  using split_line_nl [OF codec_okD(2) [OF assms(1)], of h] keep_records [OF assms(2,3)]
  by (simp add: meta_open_append_def)

lemma record_lines_take: "record_lines enc rs = record_lines enc (take n rs) @ record_lines enc (drop n rs)"
  by (metis append_take_drop_id record_lines_simps(3))

text \<open>
  C18: a crash of the cache writer costs at most the record it was writing.  Cut the stream at any
  byte after its header line: what a reader then finds is the header and a prefix of the records,
  namely exactly those whose text was written completely (the last one possibly without its
  newline); and a writer that reopens the stream keeping some of the records that were terminated
  continues it as if the others had never been written.
\<close>

theorem crash_leaves_prefix:
  assumes "codec_ok {h} ench dech" and "codec_ok S enc dec" and "set rs \<subseteq> S"
    and "length (ench h) < k" and "k \<le> length (stream_text ench enc h rs)"
  shows "\<exists>m\<le>length rs. meta_open dech dec (take k (stream_text ench enc h rs)) = Some (h, take m rs)
    \<and> length (stream_text ench enc h (take m rs)) \<le> Suc k
    \<and> (m < length rs \<longrightarrow> Suc k < length (stream_text ench enc h (take (Suc m) rs)))
    \<and> (\<forall>keep news. length (stream_text ench enc h (take keep rs)) \<le> k \<longrightarrow> keep \<le> length rs \<longrightarrow> set news \<subseteq> S \<longrightarrow>
         meta_open dech dec (foldl (meta_append enc)
             (meta_open_append (take k (stream_text ench enc h rs)) keep) news)
           = Some (h, take keep rs @ news))"
proof -
  let ?R = "record_lines enc"
  obtain j where k: "k = Suc (length (ench h)) + j" using assms(4) by (metis less_iff_Suc_add add_Suc)
  have j: "j \<le> length (?R rs)" using assms(5) k by (simp add: stream_text_eq)
  have cut: "take k (stream_text ench enc h rs) = ench h @ newline_char # take j (?R rs)"
    by (simp add: stream_text_eq k)
  obtain m where m: "m \<le> length rs" "parse_while dec (std_lines (take j (?R rs))) = take m rs"
      "length (?R (take m rs)) \<le> Suc j" "m < length rs \<longrightarrow> Suc j < length (?R (take (Suc m) rs))"
    using parse_prefix [OF assms(2,3) j] by blast
  have keep: "meta_open dech dec (foldl (meta_append enc) (meta_open_append (take k (stream_text ench enc h rs)) keep) news)
      = Some (h, take keep rs @ news)"
    if "length (stream_text ench enc h (take keep rs)) \<le> k" "keep \<le> length rs" "set news \<subseteq> S" for keep news
  proof -
    have sub: "set (take keep rs) \<subseteq> S" "set (take keep rs @ news) \<subseteq> S"
      using assms(3) that(3) set_take_subset [of keep rs] by auto
    have "length (?R (take keep rs)) \<le> j" using that(1) k by (simp add: stream_text_eq)
    then have "take j (?R rs) = ?R (take keep rs) @ take (j - length (?R (take keep rs))) (?R (drop keep rs))"
      by (subst record_lines_take [of _ _ keep]) simp
    then have "meta_open_append (take k (stream_text ench enc h rs)) keep = ench h @ newline_char # ?R (take keep rs)"
      using keep_stream [OF assms(1,2) sub(1), of _ 0] that(2) cut by simp
    then have "foldl (meta_append enc) (meta_open_append (take k (stream_text ench enc h rs)) keep) news
        = ench h @ newline_char # ?R (take keep rs @ news)"
      by (simp add: append_all)
    then show ?thesis
      using meta_open_text [OF assms(1), of dec "?R (take keep rs @ news)"]
        parse_all [OF assms(2) sub(2)] by simp
  qed
  show ?thesis
    using m keep meta_open_text [OF assms(1), of dec] cut by (intro exI [of _ m]) (simp add: stream_text_eq k)
qed

lemma ascii_valid: "list_all (\<lambda>c. byte c < 128) s \<Longrightarrow> is_utf8 s"
proof (induction s)
  case (Cons c s)
  then show ?case by (subst is_utf8.simps) (simp add: lossy_chunk_def lossy_width_def)
qed (simp add: is_utf8.simps)

text \<open>A codec of one-digit objects.\<close>

definition digit_enc :: "bool \<Rightarrow> string" where
  "digit_enc b = (if b then ''{1}'' else ''{0}'')"

definition digit_dec :: "string \<Rightarrow> bool option" where
  "digit_dec s = (if s = ''{1}'' then Some True else if s = ''{0}'' then Some False else None)"

lemma digit_codec: "codec_ok S digit_enc digit_dec"
proof -
  have v: "is_utf8 (digit_enc r)" for r
    by (rule ascii_valid) (simp add: digit_enc_def byte_def)
  have p: "digit_dec p = None" if "digit_enc r = p @ q" "q \<noteq> []" for r p q
  proof -
    have "length (digit_enc r) = 3" by (simp add: digit_enc_def)
    moreover have "0 < length q" using that(2) by simp
    moreover have "length (digit_enc r) = length p + length q" by (simp add: that(1))
    ultimately have "length p < 3" by linarith
    then show ?thesis by (auto simp: digit_dec_def)
  qed
  show ?thesis
    using v p unfolding codec_ok_def by (auto simp: digit_enc_def digit_dec_def)
qed

theorem crash_leaves_prefix_witness:
  "\<exists>m\<le>2. meta_open digit_dec digit_dec (take 9 (stream_text digit_enc digit_enc True [False, True]))
    = Some (True, take m [False, True])"
proof -
  have "length (digit_enc True) < 9" "9 \<le> length (stream_text digit_enc digit_enc True [False, True])"
    by (simp_all add: digit_enc_def stream_text_eq)
  then obtain m where "m \<le> length [False, True]"
      "meta_open digit_dec digit_dec (take 9 (stream_text digit_enc digit_enc True [False, True]))
        = Some (True, take m [False, True])"
    using crash_leaves_prefix [OF digit_codec digit_codec subset_UNIV] by blast
  then show ?thesis by (intro exI [of _ m]) (simp add: numeral_2_eq_2)
qed

text \<open>
  When the crash falls between the text of a record and its newline, the reader counts the record
  and the resumed writer keeps it, and the next record is appended to the same line: from then
  on everything the resumed writer adds is unreadable, and that record with it.
\<close>

theorem unterminated_record_loses_all:
  assumes "codec_ok {h} ench dech" and "codec_ok S enc dec" and "set (rs @ [r, new]) \<subseteq> S"
    and "dec (enc r @ enc new) = None"
    and "file = stream_text ench enc h rs @ enc r"
  shows "meta_open dech dec file = Some (h, rs @ [r])"
    and "meta_open dech dec (foldl (meta_append enc) (meta_open_append file (Suc (length rs))) (new # news))
      = Some (h, rs)"
proof -
  let ?R = "record_lines enc"
  have sub: "set rs \<subseteq> S" "r \<in> S" "new \<in> S" using assms(3) by simp_all
  have f: "file = ench h @ newline_char # ?R rs @ enc r"
    using assms(5) by (simp add: stream_text_eq)
  have torn: "std_lines (enc r) = [enc r]"
    by (rule std_lines_torn [OF codec_okD(2,3) [OF assms(2) sub(2)]])
  show "meta_open dech dec file = Some (h, rs @ [r])"
    unfolding f using codec_okD(1,5) [OF assms(2) sub(2)]
    by (simp add: meta_open_text [OF assms(1)] parse_records [OF assms(2) sub(1)] torn)
  have "split_line (enc r) = None"
    using codec_okD(2) [OF assms(2) sub(2)] by (simp add: split_line_def)
  then have cut: "meta_open_append file (Suc (length rs)) = file"
    unfolding f using keep_stream [OF assms(1,2) sub(1), of "enc r" 1] by simp
  have nl: "newline_char \<notin> set (enc r @ enc new)"
    using codec_okD(2) [OF assms(2)] sub by simp
  have "strip_last (CHR 0x0D) (enc r @ enc new) = enc r @ enc new"
    using codec_okD(3,4) [OF assms(2) sub(3)] by (simp add: strip_last_def)
  then have "parse_while dec (std_lines ((enc r @ enc new) @ newline_char # ?R news)) = []"
    using assms(4) unfolding std_lines_nl [OF nl] by simp
  moreover have "foldl (meta_append enc) file (new # news)
      = ench h @ newline_char # ?R rs @ ((enc r @ enc new) @ newline_char # ?R news)"
    unfolding append_all f by simp
  ultimately show "meta_open dech dec (foldl (meta_append enc) (meta_open_append file (Suc (length rs))) (new # news))
      = Some (h, rs)"
    unfolding cut by (simp add: meta_open_text [OF assms(1)] parse_records [OF assms(2) sub(1)] del: append_assoc)
qed

subsection \<open>Compaction\<close>

definition shift_records :: "nat \<Rightarrow> aligned_meta option \<Rightarrow> aligned_meta option" where
  "shift_records n = map_option (\<lambda>a. a\<lparr>al_records := al_records a + n\<rparr>)"

definition shift_result :: "nat \<Rightarrow> unit + aligned_meta option \<Rightarrow> unit + aligned_meta option" where
  "shift_result n x = (case x of Inl e \<Rightarrow> Inl e | Inr b \<Rightarrow> Inr (shift_records n b))"

lemma align_from_shift:
  "align_from (Suc k + n) mm (shift_records n best) rs committed
     = shift_result n (align_from (Suc k) mm best rs committed)"
proof (induction rs arbitrary: k mm best)
  case (Cons r rs)
  have step: "align_from (Suc (Suc k) + n) mm' (shift_records n b) rs committed
      = shift_result n (align_from (Suc (Suc k)) mm' b rs committed)" for mm' b
    by (rule Cons.IH)
  show ?case
    using step [of "materialized_push mm r" best]
      step [of "materialized_push mm r" "Some \<lparr>al_committed = rs_id x, al_meta = materialized_push mm r,
        al_resume = x, al_records = Suc (Suc k)\<rparr>" for x]
    by (auto simp: Let_def shift_records_def shift_result_def split: option.splits)
qed (simp add: shift_result_def)

definition resume_ids :: "meta_record list \<Rightarrow> nat list" where
  "resume_ids rs = List.map_filter (\<lambda>r. map_option rs_id (mr_resume r)) rs"

lemma align_from_prefix:
  assumes "\<forall>i\<in>set (resume_ids pre). i \<le> committed"
    and "align_from k mm best (pre @ rest) committed = Inr a"
  shows "\<exists>mm' best'. align_from (length pre + k) mm' best' rest committed = Inr a"
  using assms
proof (induction pre arbitrary: k mm best)
  case (Cons r pre)
  have "\<forall>i\<in>set (resume_ids pre). i \<le> committed" "\<not> (case mr_resume r of Some res \<Rightarrow> committed < rs_id res | None \<Rightarrow> False)"
    using Cons.prems(1) by (auto simp: resume_ids_def map_filter_simps split: option.splits)
  moreover obtain mm' best' where "align_from (Suc k) mm' best' (pre @ rest) committed = Inr a"
    using Cons.prems(2) calculation(2) by (auto simp: Let_def split: if_splits)
  ultimately show ?case using Cons.IH [of "Suc k"] by auto
qed auto

lemma last_index_Some:
  "last_index P xs = Some i \<Longrightarrow> i < length xs \<and> P (xs ! i)"
  by (induction xs arbitrary: i) (auto split: option.splits if_splits)

lemma align_drop:
  assumes "sorted (resume_ids rs)" and "last_index (corroborated n) rs = Some k" and "n \<le> m"
    and "align rs m = Inr b"
  shows "align rs m = shift_result k (align (drop k rs) m)"
proof -
  have k: "k < length rs" "corroborated n (rs ! k)" using last_index_Some [OF assms(2)] by simp_all
  obtain c x where r: "mr_checkpoint (rs ! k) = Some c" "mr_resume (rs ! k) = Some x" "rs_id x \<le> n"
    using k(2) by (auto simp: corroborated_def split: option.splits)
  have rs: "rs = take k rs @ rs ! k # drop (Suc k) rs" by (rule id_take_nth_drop [OF k(1)])
  have "sorted (resume_ids (take k rs) @ rs_id x # resume_ids (drop (Suc k) rs))"
    using assms(1) r(2) by (subst (asm) rs) (simp add: resume_ids_def map_filter_def)
  then have below: "\<forall>i\<in>set (resume_ids (take k rs)). i \<le> m"
    using r(3) assms(3) by (auto simp: sorted_append)
  obtain mm best where a: "align_from (length (take k rs) + 0) mm best (rs ! k # drop (Suc k) rs) m = Inr b"
    using align_from_prefix [OF below, of 0 materialized_default None "rs ! k # drop (Suc k) rs" b] assms(4) rs
    by (auto simp: align_def)
  have le: "\<not> m < rs_id x" using r(3) assms(3) by simp
  let ?best = "\<lambda>i. Some \<lparr>al_committed = rs_id x, al_meta = c, al_resume = x, al_records = Suc i\<rparr>"
  have c: "materialized_push mm' (rs ! k) = c" for mm' using r(1) by (simp add: materialized_push_def)
  have "align_from (Suc k) c (?best k) (drop (Suc k) rs) m = Inr b"
    using a k(1) r le by (auto simp: c Let_def split: if_splits)
  then have "align_from (Suc 0 + k) c (shift_records k (?best 0)) (drop (Suc k) rs) m = Inr b"
    by (simp add: shift_records_def)
  moreover have "align (drop k rs) m = align_from (Suc 0) c (?best 0) (drop (Suc k) rs) m"
    using r le by (simp add: align_def Cons_nth_drop_Suc [OF k(1), symmetric] c)
  ultimately show ?thesis
    using align_from_shift [of 0 k c "?best 0" "drop (Suc k) rs" m] assms(4) by simp
qed

text \<open>
  C19: compacting a stream does not change what an admission recovers.  For a stream whose resume
  ids ascend and that an admission accepts, compacting at a committed length not above the
  admission's leaves a stream that reads as the header and a suffix of the records, and from which
  the same committed length, the same materialized state and the same resume point are recovered;
  the record count to keep is smaller by what was dropped.
\<close>

theorem compaction_transparent:
  assumes "codec_ok {h} ench dech" and "codec_ok (set rs) enc dec" and "sorted (resume_ids rs)" and "n \<le> m"
    and "meta_compact dech dec ench enc n after (stream_text ench enc h rs) = (k, file')"
    and "align rs m = Inr b"
  shows "meta_open dech dec file' = Some (h, drop k rs)
    \<and> b = shift_records k (case align (drop k rs) m of Inr b' \<Rightarrow> b' | Inl e \<Rightarrow> None)
    \<and> align (drop k rs) m \<noteq> Inl ()"
proof -
  have reads: "meta_open dech dec (stream_text ench enc h xs) = Some (h, xs)" if "set xs \<subseteq> set rs" for xs
    using parse_all [OF assms(2) that] by (simp add: stream_text_eq meta_open_text [OF assms(1)])
  have zero: "shift_records 0 b = b" by (cases b) (simp_all add: shift_records_def)
  consider "k = 0" "file' = stream_text ench enc h rs"
    | "last_index (corroborated n) rs = Some k" "file' = stream_text ench enc h (drop k rs)"
    using assms(5) reads [of rs]
    by (auto simp: meta_compact_def stream_text_def split: option.splits if_splits)
  then show ?thesis
  proof cases
    case 1
    then show ?thesis using reads assms(6) zero by simp
  next
    case 2
    then show ?thesis
      using reads [OF set_drop_subset] align_drop [OF assms(3) 2(1) assms(4,6)] assms(6)
      by (simp add: shift_result_def split: sum.splits)
  qed
qed

text \<open>A record that carries a checkpoint, and a codec for it.\<close>

definition empty_checkpoint :: meta_record where
  "empty_checkpoint = record_default\<lparr>mr_checkpoint := Some materialized_default,
     mr_resume := Some \<lparr>rs_id = 0, rs_replay_from = 0, rs_prev_ts = None, rs_pending_ts = None, rs_pre = JNull,
       rs_metrics_state = JNull\<rparr>\<rparr>"

definition one_enc :: "meta_record \<Rightarrow> string" where
  "one_enc r = ''{1}''"

definition one_dec :: "string \<Rightarrow> meta_record option" where
  "one_dec s = (if s = ''{1}'' then Some empty_checkpoint else None)"

lemma one_codec: "codec_ok {empty_checkpoint} one_enc one_dec"
  using digit_codec [of "{True}"]
  by (auto simp: codec_ok_def one_enc_def one_dec_def digit_enc_def digit_dec_def split: if_splits)

theorem compaction_transparent_witness:
  "meta_open digit_dec one_dec (snd (meta_compact digit_dec one_dec digit_enc one_enc 0 0
     (stream_text digit_enc one_enc True [empty_checkpoint, empty_checkpoint])))
     = Some (True, [empty_checkpoint])"
proof -
  let ?rs = "[empty_checkpoint, empty_checkpoint]"
  have s: "sorted (resume_ids ?rs)" by (simp add: resume_ids_def map_filter_def empty_checkpoint_def)
  have c: "codec_ok (set ?rs) one_enc one_dec" using one_codec by simp
  have d: "codec_ok {True} digit_enc digit_dec" by (rule digit_codec)
  have read: "meta_open digit_dec one_dec (stream_text digit_enc one_enc True ?rs) = Some (True, ?rs)"
    using parse_all [OF c, of ?rs] by (simp add: stream_text_eq meta_open_text [OF d])
  have last: "last_index (corroborated 0) ?rs = Some 1"
    by (simp add: corroborated_def empty_checkpoint_def)
  obtain file' where m: "meta_compact digit_dec one_dec digit_enc one_enc 0 0
      (stream_text digit_enc one_enc True ?rs) = (1, file')"
    using read last by (simp add: meta_compact_def)
  have same: "push_delta materialized_default empty_checkpoint = materialized_default"
    by (simp add: push_delta_def empty_checkpoint_def record_default_def materialized_default_def or_zero_def
        with_default_def session_meta_default_def resize_def Let_def)
  have "\<exists>b. align ?rs 0 = Inr b"
    using same by (simp add: align_def empty_checkpoint_def mm_eq_def materialized_push_def Let_def)
  then obtain b where a: "align ?rs 0 = Inr b" by blast
  show ?thesis
    using compaction_transparent [OF d c s _ m a] m by simp
qed

end
