(* ===== verification/Claim_Props.thy ===== *)
theory Claim_Props
  imports Claim Durable_Props
begin

text \<open>
  What a claim's outcome means for the entry, and that an entry this tool wrote is never rejected
  as corrupt, wherever a crash cut its stream.
\<close>

subsection \<open>What alignment recovers\<close>

text \<open>A recovered state is the fold of a prefix of the records that ends at its resume point.\<close>

definition folds_prefix :: "meta_record list \<Rightarrow> aligned_meta \<Rightarrow> bool" where
  "folds_prefix rs a \<longleftrightarrow> 0 < al_records a \<and> al_records a \<le> length rs
     \<and> al_meta a = flat (take (al_records a) rs)
     \<and> mr_resume (rs ! (al_records a - 1)) = Some (al_resume a) \<and> al_committed a = rs_id (al_resume a)"

lemma folds_prefix_append: "folds_prefix rs a \<Longrightarrow> folds_prefix (rs @ t) a"
  by (auto simp: folds_prefix_def nth_append)

lemma folds_prefix_take: "folds_prefix (take m rs) a \<Longrightarrow> folds_prefix rs a \<and> al_records a \<le> m"
  by (auto simp: folds_prefix_def min_def split: if_splits)

lemma checks_ok_take: "checks_ok old rs \<Longrightarrow> checks_ok old (take m rs)"
  by (induction old rs arbitrary: m rule: checks_ok.induct) (auto simp: take_Cons' split: option.splits)

lemma align_from_folds:
  assumes "checks_ok old rs" and "align_from (length old) (flat old) best rs n = Inr (Some a)"
    and "\<And>b. best = Some b \<Longrightarrow> folds_prefix old b"
  shows "folds_prefix (old @ rs) a"
  using assms
proof (induction rs arbitrary: old best)
  case (Cons r rs)
  have c: "case mr_checkpoint r of None \<Rightarrow> True | Some c \<Rightarrow> c = flat (old @ [r])" "checks_ok (old @ [r]) rs"
    using Cons.prems(1) by simp_all
  let ?best = "case mr_resume r of None \<Rightarrow> best
     | Some x \<Rightarrow> Some \<lparr>al_committed = rs_id x, al_meta = flat (old @ [r]), al_resume = x,
         al_records = Suc (length old)\<rparr>"
  show ?case
  proof (cases "case mr_resume r of Some x \<Rightarrow> n < rs_id x | None \<Rightarrow> False")
    case True
    then show ?thesis using Cons.prems folds_prefix_append by force
  next
    case False
    then have step: "align_from (length (old @ [r])) (flat (old @ [r])) ?best rs n = Inr (Some a)"
      using Cons.prems(2) by (simp add: push_checked [OF c(1)] Let_def split: if_splits)
    have "folds_prefix (old @ [r]) b" if "?best = Some b" for b
      using that Cons.prems(3) folds_prefix_append by (auto simp: folds_prefix_def split: option.splits)
    then show ?thesis using Cons.IH [OF c(2) step] by simp
  qed
qed force

text \<open>Alignment finds nothing only when every resume point is behind one above the backing.\<close>

lemma align_from_keeps_best: "align_from k mm (Some b) rs n \<noteq> Inr None"
  by (induction rs arbitrary: k mm b) (auto simp: Let_def split: option.splits)

lemma align_from_None:
  assumes "align_from k mm best rs n = Inr None" and "i < length rs" and "mr_resume (rs ! i) = Some x"
  shows "\<exists>j\<le>i. \<exists>y. mr_resume (rs ! j) = Some y \<and> n < rs_id y"
  using assms
proof (induction rs arbitrary: k mm best i)
  case (Cons r rs)
  show ?case
  proof (cases "mr_resume r")
    case None
    with Cons.prems obtain i' where i: "i = Suc i'" by (cases i) auto
    have "align_from (Suc k) (materialized_push mm r) best rs n = Inr None"
      using Cons.prems(1) None by (auto simp: Let_def split: if_splits)
    then obtain j y where "j \<le> i'" "mr_resume (rs ! j) = Some y" "n < rs_id y"
      using Cons.IH [of "Suc k" "materialized_push mm r" best i'] Cons.prems(2,3) i by auto
    then show ?thesis using i by (intro exI [of _ "Suc j"]) auto
  next
    case (Some y)
    then have "n < rs_id y"
      using Cons.prems(1) align_from_keeps_best by (auto simp: Let_def split: if_splits)
    then show ?thesis using Some by (intro exI [of _ 0]) simp
  qed
qed simp

lemma own_checks:
  assumes "hooks_ok (ad_shaping ad)" and "decoder_ok ad" and "metrics_grow ad"
    and "parse_lines ad in_memory_store () lines = Some a"
    and "\<forall>b\<in>set (ac_committed a). plain_spawn b"
  shows "checks_ok [] (ac_meta_out a)"
proof -
  obtain pf where run: "advance_lines ad in_memory_store lines None (acc_new ad ()) = Some (a, pf)"
    using assms(4) by (auto simp: parse_lines_def)
  show ?thesis
    using advance_lines_meta_inv [OF assms(1-3) mem_new meta_inv_new [OF assms(3)] run assms(5)]
    by (simp add: meta_inv_def)
qed

lemma recover_checked:
  assumes "checks_ok [] rs" and "open_stream cd m = Some (h, rs)" and "anchor_of src = Some (sh_anchor h)"
    and "ts_len src = Some len" and "\<forall>r\<in>set rs. \<forall>x. mr_resume r = Some x \<longrightarrow> rs_replay_from x \<le> len"
  shows "\<exists>res. recover cd src (sh_versions h) n m = Inr res \<and> align rs n = Inr res
    \<and> (case res of None \<Rightarrow> True | Some a \<Rightarrow> folds_prefix rs a \<and> al_committed a \<le> n)"
proof -
  have nil: "materialized_default = flat []" by (simp add: flat_def)
  obtain res where res: "align rs n = Inr res"
    using align_no_mismatch [OF assms(1), of 0 None n] by (auto simp: align_def nil)
  show ?thesis
  proof (cases res)
    case None
    then show ?thesis using res assms(2-4) by (simp add: recover_def)
  next
    case (Some a)
    have f: "folds_prefix rs a"
      using align_from_folds [of "[]" rs None n a] assms(1) res Some by (simp add: align_def nil)
    then have "rs ! (al_records a - 1) \<in> set rs" by (auto simp: folds_prefix_def)
    then have "rs_replay_from (al_resume a) \<le> len" using assms(5) f by (auto simp: folds_prefix_def)
    then show ?thesis
      using f res Some assms(2-4) align_below [of rs n a] by (simp add: recover_def)
  qed
qed

subsection \<open>Claims\<close>



definition entry_of :: "'n lock_file \<Rightarrow> string option \<Rightarrow> 'c \<Rightarrow> ('n, 'c) cache_entry" where
  "entry_of l m c = \<lparr>ce_lock = l, ce_meta = m, ce_store = c\<rparr>"


text \<open>
  C17: a cache this tool wrote is never thrown away as corrupt.  Take the stream a parse of a
  transcript authors and cut it at any byte after its header; whoever claims the entry later, with
  the same build, a transcript that still has its first line and has not shrunk below a recorded
  resume point, and a content store of any length, resumes from the fold of a prefix of the
  records that were written, at a committed count the store holds; or it rebuilds because every
  readable resume point is behind one the store does not hold.  No other rejection is possible.
\<close>

theorem own_crash_recovers:
  assumes "hooks_ok (ad_shaping ad)" and "decoder_ok ad" and "metrics_grow ad"
    and "parse_lines ad in_memory_store () lines = Some a"
    and "\<forall>b\<in>set (ac_committed a). plain_spawn b"
    and "codec_ok {h} ench (cd_header cd)" and "codec_ok (set (ac_meta_out a)) enc (cd_record cd)"
    and "length (ench h) < k" and "k \<le> length (stream_text ench enc h (ac_meta_out a))"
    and "ce_meta e = Some (take k (stream_text ench enc h (ac_meta_out a)))"
    and "anchor_of src = Some (sh_anchor h)" and "ts_len src = Some len"
    and "\<forall>r\<in>set (ac_meta_out a). \<forall>x. mr_resume r = Some x \<longrightarrow> rs_replay_from x \<le> len"
    and "opening (ce_meta e) (ce_store e) = (BackingCommitted n, c)"
    and "claim_entry cd cl src (sh_versions h) opening e = (ClaimOurs orig res, e')"
  shows "\<exists>m\<le>length (ac_meta_out a).
      length (stream_text ench enc h (take m (ac_meta_out a))) \<le> Suc k
    \<and> (m < length (ac_meta_out a) \<longrightarrow> Suc k < length (stream_text ench enc h (take (Suc m) (ac_meta_out a))))
    \<and> (case res of
         Some b \<Rightarrow> orig = OriginResumed (al_committed b) (rs_replay_from (al_resume b))
           \<and> folds_prefix (ac_meta_out a) b \<and> al_records b \<le> m \<and> al_committed b \<le> n
       | None \<Rightarrow> orig = OriginCold TornStream
           \<and> (\<forall>i<m. mr_resume (ac_meta_out a ! i) \<noteq> None \<longrightarrow>
                (\<exists>j\<le>i. \<exists>y. mr_resume (ac_meta_out a ! j) = Some y \<and> n < rs_id y)))"
proof -
  let ?rs = "ac_meta_out a"
  obtain j where k: "k = Suc (length (ench h)) + j" using assms(8) by (metis less_iff_Suc_add add_Suc)
  have j: "j \<le> length (record_lines enc ?rs)" using assms(9) k by (simp add: stream_text_eq)
  obtain m where m: "m \<le> length ?rs"
      "parse_while (cd_record cd) (std_lines (take j (record_lines enc ?rs))) = take m ?rs"
      "length (record_lines enc (take m ?rs)) \<le> Suc j"
      "m < length ?rs \<longrightarrow> Suc j < length (record_lines enc (take (Suc m) ?rs))"
    using parse_prefix [OF assms(7) subset_refl j] by blast
  have o: "open_stream cd (ce_meta e) = Some (h, take m ?rs)"
    using m(2) by (simp add: assms(10) open_stream_def stream_text_eq k meta_open_text [OF assms(6)])
  have l: "\<forall>r\<in>set (take m ?rs). \<forall>x. mr_resume r = Some x \<longrightarrow> rs_replay_from x \<le> len"
    using assms(13) by (auto dest: in_set_takeD)
  have c: "checks_ok [] (take m ?rs)" by (rule checks_ok_take [OF own_checks [OF assms(1-5)]])
  obtain r where r: "recover cd src (sh_versions h) n (ce_meta e) = Inr r" "align (take m ?rs) n = Inr r"
      "case r of None \<Rightarrow> True | Some b \<Rightarrow> folds_prefix (take m ?rs) b \<and> al_committed b \<le> n"
    using recover_checked [OF c o assms(11,12) l] by blast
  have out: "resume_origin (Inr r) = (orig, res)"
    using claim_unfold [OF assms(15)] assms(14) r(1) by (auto split: prod.splits)
  have fin: "case res of
         Some b \<Rightarrow> orig = OriginResumed (al_committed b) (rs_replay_from (al_resume b))
           \<and> folds_prefix ?rs b \<and> al_records b \<le> m \<and> al_committed b \<le> n
       | None \<Rightarrow> orig = OriginCold TornStream
           \<and> (\<forall>i<m. mr_resume (?rs ! i) \<noteq> None \<longrightarrow>
                (\<exists>j\<le>i. \<exists>y. mr_resume (?rs ! j) = Some y \<and> n < rs_id y))"
  proof (cases r)
    case None
    have "\<exists>j\<le>i. \<exists>y. mr_resume (?rs ! j) = Some y \<and> n < rs_id y" if "i < m" "mr_resume (?rs ! i) = Some x" for i x
      using align_from_None [of 0 materialized_default None "take m ?rs" n i x] r(2) None that m(1)
      by (force simp: align_def)
    then show ?thesis using out None by (auto simp: resume_origin_def)
  next
    case (Some b)
    then show ?thesis using out r(3) folds_prefix_take [of m ?rs b] by (auto simp: resume_origin_def)
  qed
  show ?thesis
    using m(1,3,4) fin by (intro exI [of _ m]) (simp add: stream_text_eq k)
qed

text \<open>A codec of one value.\<close>

lemma single_codec: "codec_ok {r} (\<lambda>_. ''{1}'') (\<lambda>s. if s = ''{1}'' then Some r else None)"
  using digit_codec [of "{True}"]
  by (auto simp: codec_ok_def digit_enc_def digit_dec_def split: if_splits)

theorem own_crash_recovers_witness:
  "\<exists>a cd src vs orig res e' :: (unit, unit) cache_entry.
      parse_lines text_adapter in_memory_store () [(0, ''a''), (2, ''b'')] = Some a
    \<and> claim_entry cd \<lparr>cl_pid = 7, cl_dir = [], cl_decidable = True, cl_alive = \<lambda>h. True, cl_made = True, cl_writable = True\<rparr>
        src vs (\<lambda>m c. (BackingCommitted 1, c)) (entry_of None (Some ''{1}\<newline>{1}\<newline>'') ()) = (ClaimOurs orig res, e')
    \<and> (case res of Some b \<Rightarrow> folds_prefix (ac_meta_out a) b \<and> al_committed b \<le> 1 | None \<Rightarrow> orig = OriginCold TornStream)"
proof -
  have "map_option (\<lambda>a. (ac_committed a, length (ac_meta_out a), map_option rs_replay_from (mr_resume (last (ac_meta_out a)))))
      (parse_lines text_adapter in_memory_store () [(0, ''a''), (2, ''b'')])
      = Some ([UserText ''a''], 1, Some 2)"
    by code_simp
  then obtain a r x where a: "parse_lines text_adapter in_memory_store () [(0, ''a''), (2, ''b'')] = Some a"
      "ac_committed a = [UserText ''a'']" "ac_meta_out a = [r]" "mr_resume r = Some x" "rs_replay_from x = 2"
    by (auto simp: length_Suc_conv)
  define src where "src = \<lparr>ts_stream = Some ([''a\<newline>'', ''b''], False), ts_len = Some 3\<rparr>"
  have "fst (read_line_elided 0 ElideNone ([''a\<newline>'', ''b''], False)) = Inr (LineComplete 2 0 False, ''a\<newline>'')"
    by (simp add: read_line_elided_def take_chunk_def line_state_new_def scan_threshold_def split_line_def
        elide_ceiling_def Let_def)
  moreover have "is_utf8 ''a\<newline>''" by (rule ascii_valid) (simp add: byte_def)
  ultimately obtain an where an: "anchor_of src = Some an" by (simp add: anchor_of_def src_def)
  define h where "h = \<lparr>sh_anchor = an, sh_versions = \<lparr>vs_format = 1, vs_fold = 1, vs_flavor = None\<rparr>\<rparr>"
  define cd where "cd = \<lparr>cd_header = \<lambda>s. if s = ''{1}'' then Some h else None, cd_record = \<lambda>s. if s = ''{1}'' then Some r else None\<rparr>"
  let ?e = "entry_of None (Some ''{1}\<newline>{1}\<newline>'') () :: (unit, unit) cache_entry"
  let ?cl = "\<lparr>cl_pid = 7, cl_dir = [], cl_decidable = True, cl_alive = \<lambda>h. True, cl_made = True, cl_writable = True\<rparr>"
  obtain orig res e' where c: "claim_entry cd ?cl src (sh_versions h) (\<lambda>m c. (BackingCommitted 1, c)) ?e = (ClaimOurs orig res, e')"
    by (cases "resume_origin (recover cd src (sh_versions h) 1 (ce_meta ?e))")
      (simp add: claim_entry_def lock_acquire_def entry_of_def)
  have st: "stream_text (\<lambda>_. ''{1}'') (\<lambda>_. ''{1}'') h (ac_meta_out a) = ''{1}\<newline>{1}\<newline>''"
    by (simp add: stream_text_eq a(3))
  have codecs: "codec_ok {h} (\<lambda>_. ''{1}'') (cd_header cd)" "codec_ok (set (ac_meta_out a)) (\<lambda>_. ''{1}'') (cd_record cd)"
    using single_codec [of h] single_codec [of r] by (simp_all add: cd_def a(3))
  have sp: "\<forall>b\<in>set (ac_committed a). plain_spawn b" by (simp add: a(2) plain_spawn_def)
  have k: "length ''{1}'' < 8" "8 \<le> length (stream_text (\<lambda>_. ''{1}'') (\<lambda>_. ''{1}'') h (ac_meta_out a))"
      "ce_meta ?e = Some (take 8 (stream_text (\<lambda>_. ''{1}'') (\<lambda>_. ''{1}'') h (ac_meta_out a)))"
    by (simp_all add: st entry_of_def)
  have s: "anchor_of src = Some (sh_anchor h)" "ts_len src = Some 3"
      "\<forall>r\<in>set (ac_meta_out a). \<forall>x. mr_resume r = Some x \<longrightarrow> rs_replay_from x \<le> 3"
    by (simp_all add: an h_def a) (simp add: src_def)
  have "case res of Some b \<Rightarrow> folds_prefix (ac_meta_out a) b \<and> al_committed b \<le> 1 | None \<Rightarrow> orig = OriginCold TornStream"
    using own_crash_recovers [OF text_adapter_ok text_adapter_metrics a(1) sp codecs k s refl c]
    by (auto split: option.splits)
  then show ?thesis using a(1) c by blast
qed

end
