(* ===== verification/Block_Log.thy ===== *)
theory Block_Log
  imports Durable
begin

text \<open>
  The two durable block stores, logs of one record per line: the terminal viewer's
  (\<open>claude-replay-tui/src/store.rs\<close>) holds serialized blocks, the HTML server's
  (\<open>claude-replay-html/src/html_export/record_store.rs\<close>) rendered records.  A file is its bytes;
  whether reading it and cutting it succeed are arguments, and a write says how many bytes
  landed.  A failed cut changes nothing.
\<close>

record log_io =
  io_read :: bool
  io_cut :: bool

subsection \<open>Walking the lines\<close>

text \<open>
  The loop of both \<open>load_from\<close>s: the values of the complete lines up to the first that is not
  accepted, and the offset after them.
\<close>

function log_walk :: "(nat \<Rightarrow> string \<Rightarrow> 'v option) \<Rightarrow> nat \<Rightarrow> string \<Rightarrow> 'v list \<times> nat" where
  "log_walk accept at_off buf =
     (case split_line buf of
        None \<Rightarrow> ([], at_off)
      | Some (line, rest) \<Rightarrow>
          (case accept at_off (butlast line) of
             None \<Rightarrow> ([], at_off)
           | Some v \<Rightarrow> (let (vs, e) = log_walk accept (at_off + length line) rest in (v # vs, e))))"
  by pat_completeness auto
termination
  by (relation "measure (\<lambda>(_, _, buf). length buf)") (auto dest: split_line_less)

declare log_walk.simps [simp del]

definition ends_a_record :: "string \<Rightarrow> nat \<Rightarrow> bool" where
  "ends_a_record bytes at_off \<longleftrightarrow> at_off = 0 \<or> bytes ! (at_off - 1) = newline_char"

text \<open>\<open>File::set_len\<close>.\<close>

definition set_len :: "nat \<Rightarrow> string \<Rightarrow> string" where
  "set_len n bytes = take n bytes @ replicate (n - length bytes) (char_of (0::nat))"

subsection \<open>The terminal viewer's log (\<open>ArcLog\<close>)\<close>

record arc_log =
  lo_content :: "string option"
  lo_handle :: bool
  lo_len :: nat

definition arc_memory :: arc_log where
  "arc_memory = \<lparr>lo_content = None, lo_handle = False, lo_len = 0\<rparr>"

definition arc_create :: arc_log where
  "arc_create = \<lparr>lo_content = Some [], lo_handle = True, lo_len = 0\<rparr>"

definition arc_open_append :: "string option \<Rightarrow> arc_log" where
  "arc_open_append content =
     (let bytes = (case content of Some bs \<Rightarrow> bs | None \<Rightarrow> [])
      in \<lparr>lo_content = Some bytes, lo_handle = True, lo_len = length bytes\<rparr>)"

definition arc_cut_to :: "log_io \<Rightarrow> nat \<Rightarrow> arc_log \<Rightarrow> (unit + unit) \<times> arc_log" where
  "arc_cut_to io n s =
     (if lo_handle s then
        (if io_cut io then (Inr (), s\<lparr>lo_content := map_option (set_len n) (lo_content s), lo_len := n\<rparr>)
         else (Inl (), s))
      else (Inr (), s\<lparr>lo_len := n\<rparr>))"

definition arc_load_from ::
  "(string \<Rightarrow> block option) \<Rightarrow> log_io \<Rightarrow> nat \<Rightarrow> arc_log \<Rightarrow> (unit + block list) \<times> arc_log" where
  "arc_load_from dec io at_off s =
     (case lo_content s of
        None \<Rightarrow> (Inr [], s)
      | Some bytes \<Rightarrow>
          (let start = min at_off (length bytes)
           in if \<not> io_read io \<or> \<not> ends_a_record bytes start then (Inl (), s)
              else
                (let buf = drop start bytes; (out, good) = log_walk (\<lambda>_. dec) start buf
                 in if good \<noteq> lo_len s \<or> good \<noteq> start + length buf then
                      (case arc_cut_to io good s of (Inl e, s') \<Rightarrow> (Inl e, s') | (Inr _, s') \<Rightarrow> (Inr out, s'))
                    else (Inr out, s))))"

definition arc_truncate_to :: "log_io \<Rightarrow> nat \<Rightarrow> arc_log \<Rightarrow> (unit + unit) \<times> arc_log" where
  "arc_truncate_to io n s =
     (case lo_content s of
        None \<Rightarrow> (Inr (), s)
      | Some bytes \<Rightarrow> if io_read io then arc_cut_to io (length (keep_lines n bytes)) s else (Inl (), s))"

text \<open>A write that fails after \<open>k\<close> bytes leaves them in the file and the length behind.\<close>

definition arc_put :: "(block \<Rightarrow> string) \<Rightarrow> nat option \<Rightarrow> arc_log \<Rightarrow> block \<Rightarrow> block \<times> arc_log" where
  "arc_put enc failed s b =
     (b, if lo_handle s then
           (let rec = enc b @ [newline_char]
            in case failed of
                 None \<Rightarrow> s\<lparr>lo_content := map_option (\<lambda>bs. bs @ rec) (lo_content s), lo_len := lo_len s + length rec\<rparr>
               | Some k \<Rightarrow> s\<lparr>lo_content := map_option (\<lambda>bs. bs @ take k rec) (lo_content s)\<rparr>)
         else s)"

definition arc_reset :: "log_io \<Rightarrow> arc_log \<Rightarrow> arc_log" where
  "arc_reset io s = snd (arc_cut_to io 0 s)"

definition arc_adopt :: "log_io \<Rightarrow> nat \<Rightarrow> session_meta \<Rightarrow> arc_log \<Rightarrow> (unit + unit) \<times> arc_log" where
  "arc_adopt io n meta s = arc_truncate_to io n s"

subsection \<open>The server's log (\<open>RecordStore\<close>)\<close>

record record_locator =
  rl_offset :: nat
  rl_len :: nat

text \<open>The render continuation; the sidebar rows, which the log never reads, are left out.\<close>

record emit_state =
  es_next_block :: nat
  es_turn :: nat
  es_seen_turns :: nat

definition emit_default :: emit_state where
  "emit_default = \<lparr>es_next_block = 0, es_turn = 0, es_seen_turns = 0\<rparr>"

definition emit_resumed :: "nat \<Rightarrow> nat \<Rightarrow> emit_state" where
  "emit_resumed blocks turns = \<lparr>es_next_block = blocks, es_turn = turns, es_seen_turns = turns\<rparr>"

text \<open>\<open>Emitter::block_id\<close>.\<close>

definition block_id :: "emit_state \<Rightarrow> nat \<times> emit_state" where
  "block_id st = (es_next_block st + 1, st\<lparr>es_next_block := es_next_block st + 1\<rparr>)"

record record_store =
  rc_content :: string
  rc_len :: nat
  rc_emit :: emit_state

definition record_open_append :: "string \<Rightarrow> record_store" where
  "record_open_append content = \<lparr>rc_content = content, rc_len = length content, rc_emit = emit_default\<rparr>"

definition record_cut_to :: "log_io \<Rightarrow> nat \<Rightarrow> record_store \<Rightarrow> (unit + unit) \<times> record_store" where
  "record_cut_to io n s =
     (if io_cut io then (Inr (), s\<lparr>rc_content := set_len n (rc_content s), rc_len := n\<rparr>) else (Inl (), s))"

text \<open>Whether a line holds exactly one JSON value: depth, inside a string, after a backslash, closed.\<close>

fun one_record_loop :: "int \<Rightarrow> bool \<Rightarrow> bool \<Rightarrow> bool \<Rightarrow> string \<Rightarrow> bool" where
  "one_record_loop depth in_str escaped done_one [] = (done_one \<and> depth = 0 \<and> \<not> in_str \<and> \<not> escaped)"
| "one_record_loop depth in_str escaped done_one (b # bs) =
     (if escaped then one_record_loop depth in_str False done_one bs
      else if in_str then
        (if b = CHR 0x5C then one_record_loop depth in_str True done_one bs
         else if b = CHR 0x22 then one_record_loop depth False escaped done_one bs
         else one_record_loop depth in_str escaped done_one bs)
      else if b = CHR 0x22 then one_record_loop depth True escaped done_one bs
      else if b = CHR ''{'' \<or> b = CHR ''['' then
        (if done_one then False else one_record_loop (depth + 1) in_str escaped done_one bs)
      else if b = CHR ''}'' \<or> b = CHR '']'' then
        one_record_loop (depth - 1) in_str escaped (done_one \<or> depth - 1 \<le> 0) bs
      else one_record_loop depth in_str escaped done_one bs)"

definition one_record :: "string \<Rightarrow> bool" where
  "one_record line = one_record_loop 0 False False False line"

definition locator_at :: "nat \<Rightarrow> string \<Rightarrow> record_locator option" where
  "locator_at at_off body =
     (if one_record body then Some \<lparr>rl_offset = at_off, rl_len = Suc (length body) mod 2 ^ 32 - 1\<rparr> else None)"

definition record_load_from ::
  "log_io \<Rightarrow> nat \<Rightarrow> record_store \<Rightarrow> (unit + record_locator list) \<times> record_store" where
  "record_load_from io at_off s =
     (let start = min at_off (length (rc_content s))
      in if \<not> io_read io \<or> \<not> ends_a_record (rc_content s) start then (Inl (), s)
         else
           (let buf = drop start (rc_content s); (out, good) = log_walk locator_at start buf
            in if good \<noteq> rc_len s \<or> good \<noteq> start + length buf then
                 (case record_cut_to io good s of (Inl e, s') \<Rightarrow> (Inl e, s') | (Inr _, s') \<Rightarrow> (Inr out, s'))
               else (Inr out, s)))"

text \<open>
  A put: the record is rendered (an argument), then written with its newline; the length advances
  whatever the writes did.  \<open>wrote\<close> is how many bytes of the record and whether the newline landed.
\<close>

definition record_put ::
  "(emit_state \<Rightarrow> block \<Rightarrow> string \<times> emit_state) \<Rightarrow> (nat \<times> bool) option \<Rightarrow> record_store \<Rightarrow> block
     \<Rightarrow> record_locator \<times> record_store" where
  "record_put render wrote s b =
     (let (rec, em) = render (rc_emit s) b;
          landed = (case wrote of None \<Rightarrow> rec @ [newline_char]
                    | Some (k, nl) \<Rightarrow> take k rec @ (if nl then [newline_char] else []))
      in (\<lparr>rl_offset = rc_len s, rl_len = length rec mod 2 ^ 32\<rparr>,
          s\<lparr>rc_content := rc_content s @ landed, rc_len := rc_len s + length rec + 1, rc_emit := em\<rparr>))"

definition record_reset :: "log_io \<Rightarrow> record_store \<Rightarrow> record_store" where
  "record_reset io s = (snd (record_cut_to io 0 s))\<lparr>rc_emit := emit_default\<rparr>"

subsubsection \<open>Anchors\<close>

definition anchor_mark :: string where
  "anchor_mark = [CHR 0x22, CHR ''i'', CHR ''d'', CHR 0x22, CHR '':'', CHR 0x22, CHR ''b'']"

text \<open>What follows the first occurrence of the needle.\<close>

fun after_first :: "string \<Rightarrow> string \<Rightarrow> string option" where
  "after_first needle [] = None"
| "after_first needle (c # cs) =
     (if starts_with (c # cs) needle then Some (drop (length needle) (c # cs)) else after_first needle cs)"

definition is_digit :: "char \<Rightarrow> bool" where
  "is_digit c \<longleftrightarrow> 48 \<le> byte c \<and> byte c \<le> 57"

definition anchor_value :: "string \<Rightarrow> nat" where
  "anchor_value ds = foldl (\<lambda>v c. (v * 10 + (byte c - 48)) mod 2 ^ 64) 0 ds"

lemma after_first_less: "after_first needle s = Some t \<Longrightarrow> length t \<le> length s - length needle \<and> s \<noteq> []"
  by (induction s) (auto split: if_splits)

function anchor_loop :: "nat \<Rightarrow> string \<Rightarrow> nat" where
  "anchor_loop high s =
     (case after_first anchor_mark s of
        None \<Rightarrow> high
      | Some t \<Rightarrow>
          (let ds = takeWhile is_digit t; rest = dropWhile is_digit t
           in anchor_loop (if ds \<noteq> [] \<and> rest \<noteq> [] \<and> hd rest = CHR 0x22 then max high (anchor_value ds) else high)
                rest))"
  by pat_completeness auto
termination
proof (relation "measure (\<lambda>(_, s). length s)")
  fix high s t ds rest
  assume t: "after_first anchor_mark s = Some t" and r: "rest = dropWhile is_digit t"
  have "length rest \<le> length t" by (simp add: r length_dropWhile_le)
  moreover have "length t < length s"
    using after_first_less [OF t] by (cases s) (auto simp: anchor_mark_def)
  ultimately show "(((if ds \<noteq> [] \<and> rest \<noteq> [] \<and> hd rest = CHR 0x22 then max high (anchor_value ds) else high), rest), high, s)
      \<in> measure (\<lambda>(_, s). length s)"
    by simp
qed simp

declare anchor_loop.simps [simp del]

definition highest_anchor_in :: "string \<Rightarrow> nat" where
  "highest_anchor_in line = anchor_loop 0 line"

function log_lines :: "string \<Rightarrow> string list" where
  "log_lines bs = (if bs = [] then [] else case split_line bs of None \<Rightarrow> [bs] | Some (line, rest) \<Rightarrow> line # log_lines rest)"
  by pat_completeness auto
termination
  by (relation "measure length") (auto dest: split_line_less)

declare log_lines.simps [simp del]

definition highest_block_anchor :: "record_store \<Rightarrow> nat" where
  "highest_block_anchor s = foldl (\<lambda>high line. max high (highest_anchor_in line)) 0 (log_lines (take (rc_len s) (rc_content s)))"

definition record_adopt :: "log_io \<Rightarrow> nat \<Rightarrow> session_meta \<Rightarrow> record_store \<Rightarrow> (unit + unit) \<times> record_store" where
  "record_adopt io n meta s =
     (case record_load_from io 0 s of
        (Inl e, s1) \<Rightarrow> (Inl e, s1)
      | (Inr ls, s1) \<Rightarrow>
          (let (cut, s2) = (if n < length ls then record_cut_to io (rl_offset (ls ! n)) s1 else (Inr (), s1))
           in case cut of
                Inl e \<Rightarrow> (Inl e, s2)
              | Inr _ \<Rightarrow>
                  if io_read io then (Inr (), s2\<lparr>rc_emit := emit_resumed (max (highest_block_anchor s2) n) (sm_turns meta)\<rparr>)
                  else (Inl (), s2)))"

definition read_range :: "nat \<Rightarrow> nat \<Rightarrow> record_store \<Rightarrow> string" where
  "read_range start stop s =
     (let e = min stop (rc_len s)
      in if e \<le> start \<or> length (rc_content s) < e then [] else take (e - start) (drop start (rc_content s)))"

text \<open>\<open>None\<close> when the start is not a record boundary; an end inside a record is carried to its end.\<close>

definition read_records :: "nat \<Rightarrow> nat \<Rightarrow> record_store \<Rightarrow> string option" where
  "read_records start stop s =
     (if 0 < start \<and> (length (rc_content s) < start \<or> rc_content s ! (start - 1) \<noteq> newline_char) then None
      else
        (let bytes = read_range start stop s; e = start + length bytes
         in if e < rc_len s \<and> bytes \<noteq> [] \<and> last bytes \<noteq> newline_char
            then Some (bytes @ keep_lines 1 (take (rc_len s - e) (drop e (rc_content s))))
            else Some bytes))"

subsection \<open>The interface the cache uses (\<open>trait DurableStore\<close>)\<close>

record ('s, 'bv) durable_ops =
  do_load_from :: "log_io \<Rightarrow> nat \<Rightarrow> 's \<Rightarrow> (unit + 'bv list) \<times> 's"
  do_adopt :: "log_io \<Rightarrow> nat \<Rightarrow> session_meta \<Rightarrow> 's \<Rightarrow> (unit + unit) \<times> 's"
  do_reset :: "log_io \<Rightarrow> 's \<Rightarrow> 's"
  do_backing_len :: "'s \<Rightarrow> nat"

definition arc_ops :: "(string \<Rightarrow> block option) \<Rightarrow> (arc_log, block) durable_ops" where
  "arc_ops dec = \<lparr>do_load_from = arc_load_from dec, do_adopt = arc_adopt, do_reset = arc_reset, do_backing_len = lo_len\<rparr>"

definition record_ops :: "(record_store, record_locator) durable_ops" where
  "record_ops = \<lparr>do_load_from = record_load_from, do_adopt = record_adopt, do_reset = record_reset,
     do_backing_len = rc_len\<rparr>"

end
