(* ===== verification/Block_Log_Props.thy ===== *)
theory Block_Log_Props
  imports Block_Log Durable_Props
begin

text \<open>
  The laws of the line logs: what walking a log finds stays found when the log is cut at a
  boundary or extended; from them the recovery of a crashed log, and that anchors of a resumed
  log are new.
\<close>

subsection \<open>Walking\<close>

lemma walk_simps:
  "log_walk acc p [] = ([], p)"
  "split_line buf = None \<Longrightarrow> log_walk acc p buf = ([], p)"
  "split_line buf = Some (line, rest) \<Longrightarrow> acc p (butlast line) = None \<Longrightarrow> log_walk acc p buf = ([], p)"
  "split_line buf = Some (line, rest) \<Longrightarrow> acc p (butlast line) = Some v \<Longrightarrow>
     log_walk acc p buf = (v # fst (log_walk acc (p + length line) rest), snd (log_walk acc (p + length line) rest))"
  by (subst log_walk.simps; simp add: split_line_def split: prod.splits)+

lemma split_line_nl2: "split_line buf = Some (line, rest) \<Longrightarrow>
    buf = line @ rest \<and> line \<noteq> [] \<and> last line = newline_char \<and> newline_char \<notin> set (butlast line)"
proof -
  assume s: "split_line buf = Some (line, rest)"
  then have "line = takeWhile (\<lambda>c. c \<noteq> newline_char) buf @ [newline_char]" by (simp add: split_line_def split: if_splits)
  moreover have "newline_char \<notin> set (takeWhile (\<lambda>c. c \<noteq> newline_char) buf)" by (auto dest: set_takeWhileD)
  ultimately have "line \<noteq> []" "last line = newline_char" "newline_char \<notin> set (butlast line)"
    by (metis append_is_Nil_conv not_Cons_self2, metis last_snoc, metis butlast_snoc)
  then show ?thesis using split_line_SomeD [OF s] by simp
qed

lemma split_line_ext: "split_line buf = Some (line, rest) \<Longrightarrow> split_line (buf @ t) = Some (line, rest @ t)"
  using split_line_nl2 [of buf line rest] split_line_nl [of "butlast line" "rest @ t"]
  by (metis append.assoc append_Cons append_Nil append_butlast_last_id)

definition is_line :: "string \<Rightarrow> bool" where
  "is_line line \<longleftrightarrow> line \<noteq> [] \<and> last line = newline_char \<and> newline_char \<notin> set (butlast line)"

lemma split_is_line: "is_line line \<Longrightarrow> split_line (line @ rest) = Some (line, rest)"
  using split_line_nl [of "butlast line" rest] unfolding is_line_def
  by (metis append.assoc append_Cons append_Nil append_butlast_last_id)

lemma walk_step:
  assumes "log_walk acc p buf = (vs, e)"
  obtains "vs = []" and "e = p"
  | line rest v ws where "buf = line @ rest" and "is_line line" and "acc p (butlast line) = Some v"
      and "vs = v # ws" and "log_walk acc (p + length line) rest = (ws, e)"
proof (cases "split_line buf")
  case None
  then show ?thesis using assms that(1) by (simp add: walk_simps)
next
  case (Some lr)
  obtain line rest where lr: "lr = (line, rest)" by fastforce
  note s = Some [unfolded lr]
  show ?thesis
  proof (cases "acc p (butlast line)")
    case None
    then show ?thesis using assms that(1) by (simp add: walk_simps(3) [OF s])
  next
    case (Some v)
    obtain ws e' where w: "log_walk acc (p + length line) rest = (ws, e')" by fastforce
    have "vs = v # ws" "e' = e" using assms walk_simps(4) [OF s, of acc p v] Some w by simp_all
    then show ?thesis
      using that(2) [of line rest v ws] w Some split_line_nl2 [OF s] by (simp add: is_line_def)
  qed
qed

lemma walk_Cons:
  "is_line line \<Longrightarrow> acc p (butlast line) = Some v \<Longrightarrow> log_walk acc (p + length line) rest = (ws, e)
     \<Longrightarrow> log_walk acc p (line @ rest) = (v # ws, e)"
  by (simp add: walk_simps(4) [OF split_is_line])

lemma walk_bounds: "log_walk acc p buf = (vs, e) \<Longrightarrow> p \<le> e \<and> e \<le> p + length buf"
proof (induction vs arbitrary: p buf)
  case Nil
  then show ?case by (cases rule: walk_step) simp_all
next
  case (Cons v vs)
  from Cons.prems show ?case
  proof (cases rule: walk_step)
    case (2 line rest v' ws')
    then show ?thesis using Cons.IH [of "p + length line" rest] by simp
  qed simp
qed

text \<open>A log that was walked to its end goes on with what follows.\<close>

lemma walk_append:
  "log_walk acc p a = (vs, p + length a) \<Longrightarrow> log_walk acc (p + length a) b = (ws, e)
     \<Longrightarrow> log_walk acc p (a @ b) = (vs @ ws, e)"
proof (induction vs arbitrary: p a)
  case Nil
  from Nil(1) have "a = []" by (cases rule: walk_step) simp_all
  then show ?case using Nil by simp
next
  case (Cons v vs)
  from Cons.prems(1) show ?case
  proof (cases rule: walk_step)
    case (2 line rest v' ws')
    then have "log_walk acc (p + length line) (rest @ b) = (vs @ ws, e)"
      using Cons.IH [of "p + length line" rest] Cons.prems(2) by (simp add: add.assoc)
    then show ?thesis using 2 walk_Cons [of line acc p v' "rest @ b"] by simp
  qed simp
qed

lemma walk_prefix: "log_walk acc p buf = (vs, e) \<Longrightarrow> log_walk acc p (take (e - p) buf) = (vs, e)"
proof (induction vs arbitrary: p buf)
  case Nil
  then show ?case by (cases rule: walk_step) (simp_all add: walk_simps)
next
  case (Cons v vs)
  from Cons.prems show ?case
  proof (cases rule: walk_step)
    case (2 line rest v' ws')
    then have "log_walk acc (p + length line) (take (e - (p + length line)) rest) = (vs, e)"
      using Cons.IH by simp
    moreover have "take (e - p) buf = line @ take (e - (p + length line)) rest"
      using 2(1) walk_bounds [OF 2(5)] by (auto simp: take_append)
    ultimately show ?thesis using 2 walk_Cons [of line acc p v'] by simp
  qed simp
qed

lemma walk_keep:
  "log_walk acc p buf = (vs, p + length buf) \<Longrightarrow>
     log_walk acc p (keep_lines n buf) = (take n vs, p + length (keep_lines n buf))"
proof (induction n arbitrary: p buf vs)
  case (Suc n)
  from Suc.prems show ?case
  proof (cases rule: walk_step)
    case 1
    then have "buf = []" by simp
    then show ?thesis using 1 by (simp add: walk_simps split_line_def)
  next
    case (2 line rest v ws)
    then have "log_walk acc (p + length line) (keep_lines n rest) = (take n ws, p + length line + length (keep_lines n rest))"
      using Suc.IH [of "p + length line" rest ws] by (simp add: add.assoc)
    then show ?thesis
      using 2 walk_Cons [of line acc p v "keep_lines n rest"] split_is_line [OF 2(2), of rest] by (simp add: add.assoc)
  qed
qed (simp add: walk_simps)

lemma walk_one:
  "newline_char \<notin> set body \<Longrightarrow> acc p body = Some v \<Longrightarrow> log_walk acc p (body @ [newline_char]) = ([v], Suc (p + length body))"
  using walk_simps(4) [OF split_line_nl [of body "[]"], of acc p v] by (simp add: walk_simps)

lemma walk_last: "log_walk acc p buf = (vs, p + length buf) \<Longrightarrow> buf \<noteq> [] \<Longrightarrow> last buf = newline_char"
proof (induction vs arbitrary: p buf)
  case Nil
  from Nil(1) have "buf = []" by (cases rule: walk_step) simp_all
  then show ?case using Nil by simp
next
  case (Cons v vs)
  from Cons.prems(1) show ?case
  proof (cases rule: walk_step)
    case (2 line rest v' ws')
    then show ?thesis
      using Cons.IH [of "p + length line" rest] by (cases "rest = []") (simp_all add: is_line_def add.assoc)
  qed simp
qed

lemma walk_boundary: "log_walk acc 0 bytes = (vs, length bytes) \<Longrightarrow> ends_a_record bytes (length bytes)"
  using walk_last [of acc 0 bytes vs] by (cases "bytes = []") (simp_all add: ends_a_record_def last_conv_nth)

lemma set_len_le: "n \<le> length bytes \<Longrightarrow> set_len n bytes = take n bytes"
  by (simp add: set_len_def)

lemma keep_lines_prefix: "\<exists>t. bs = keep_lines n bs @ t"
proof (induction n bs rule: keep_lines.induct)
  case (2 n bs)
  show ?case
  proof (cases "split_line bs")
    case (Some lr)
    obtain line rest where lr: "lr = (line, rest)" by fastforce
    then obtain t where t: "rest = keep_lines n rest @ t" using 2 [of lr line rest] Some by blast
    have "bs = line @ rest" using split_line_nl2 Some lr by blast
    then have "bs = (line @ keep_lines n rest) @ t" using t by (metis append.assoc)
    then show ?thesis using Some lr by auto
  qed simp
qed simp

lemma keep_lines_take: "take (length (keep_lines n bs)) bs = keep_lines n bs"
  using keep_lines_prefix [of bs n] by (metis append_eq_conv_conj)

lemma keep_lines_length: "length (keep_lines n bs) \<le> length bs"
  using keep_lines_prefix [of bs n] by (metis length_append le_add1)

subsection \<open>The contract of a durable store\<close>

text \<open>
  A store that is open has an honest length; it holds a list of values when its backing is exactly
  their records; its backing may start with the records of some values.
\<close>

locale durable_store =
  fixes ops :: "('s, 'bv) durable_ops"
    and opened :: "'s \<Rightarrow> bool"
    and holds :: "'s \<Rightarrow> 'bv list \<Rightarrow> bool"
    and starts :: "'s \<Rightarrow> nat \<Rightarrow> 'bv list \<Rightarrow> bool"
  assumes holds_opened: "holds s vs \<Longrightarrow> opened s"
    and load_tail: "opened s \<Longrightarrow> n \<le> do_backing_len ops s \<Longrightarrow> starts s n pre
      \<Longrightarrow> do_load_from ops io n s = (Inr vs, s') \<Longrightarrow> holds s' (pre @ vs)"
    and starts_nil: "starts s 0 []"
    and starts_all: "holds s vs \<Longrightarrow> starts s (do_backing_len ops s) vs"
    and load_fails: "opened s \<Longrightarrow> do_load_from ops io n s = (Inl e, s') \<Longrightarrow> s' = s"
    and adopt_ok: "holds s vs \<Longrightarrow> do_adopt ops io n meta s = (Inr u, s') \<Longrightarrow> holds s' (take n vs)"
    and adopt_fails: "holds s vs \<Longrightarrow> do_adopt ops io n meta s = (Inl e, s') \<Longrightarrow> opened s'"
    and reset_ok: "opened s \<Longrightarrow> io_cut io \<Longrightarrow> holds (do_reset ops io s) []"
begin

lemma load_all: "opened s \<Longrightarrow> do_load_from ops io 0 s = (Inr vs, s') \<Longrightarrow> holds s' vs"
  using load_tail [OF _ _ starts_nil] by simp

end

definition arc_opened :: "arc_log \<Rightarrow> bool" where
  "arc_opened s \<longleftrightarrow> lo_handle s \<and> (case lo_content s of None \<Rightarrow> False | Some bs \<Rightarrow> lo_len s = length bs)"

definition arc_holds :: "(string \<Rightarrow> block option) \<Rightarrow> arc_log \<Rightarrow> block list \<Rightarrow> bool" where
  "arc_holds dec s vs \<longleftrightarrow> lo_handle s \<and> (case lo_content s of None \<Rightarrow> False
     | Some bs \<Rightarrow> lo_len s = length bs \<and> log_walk (\<lambda>_. dec) 0 bs = (vs, length bs))"

definition arc_starts :: "(string \<Rightarrow> block option) \<Rightarrow> arc_log \<Rightarrow> nat \<Rightarrow> block list \<Rightarrow> bool" where
  "arc_starts dec s n vs \<longleftrightarrow> (case lo_content s of None \<Rightarrow> n = 0 \<and> vs = []
     | Some bs \<Rightarrow> log_walk (\<lambda>_. dec) 0 (take n bs) = (vs, n))"

definition record_holds :: "record_store \<Rightarrow> record_locator list \<Rightarrow> bool" where
  "record_holds s vs \<longleftrightarrow> rc_len s = length (rc_content s) \<and> log_walk locator_at 0 (rc_content s) = (vs, length (rc_content s))"

text \<open>Both loads find the tail of a log whose beginning is known, and leave exactly the records found.\<close>

lemma walk_from:
  assumes "log_walk acc 0 (take n bytes) = (pre, n)" and "log_walk acc n (drop n bytes) = (vs, good)" and "n \<le> length bytes"
  shows "good \<le> length bytes" and "log_walk acc 0 (take good bytes) = (pre @ vs, good)"
proof -
  note b = walk_bounds [OF assms(2)]
  then show "good \<le> length bytes" using assms(3) by simp
  have "take good bytes = take n bytes @ take (good - n) (drop n bytes)"
    using b take_add [of n "good - n" bytes] by simp
  then show "log_walk acc 0 (take good bytes) = (pre @ vs, good)"
    using walk_append [of acc 0 "take n bytes" pre "take (good - n) (drop n bytes)" vs good]
      walk_prefix [OF assms(2)] assms(1,3) by simp
qed

lemma arc_load_tail:
  assumes "arc_opened s" and "n \<le> lo_len s" and "arc_starts dec s n pre" and "arc_load_from dec io n s = (Inr vs, s')"
  shows "arc_holds dec s' (pre @ vs)"
proof -
  obtain bytes where c: "lo_content s = Some bytes" "lo_len s = length bytes" "lo_handle s"
    using assms(1) by (auto simp: arc_opened_def split: option.splits)
  obtain out good where w: "log_walk (\<lambda>_. dec) n (drop n bytes) = (out, good)" by fastforce
  have st: "log_walk (\<lambda>_. dec) 0 (take n bytes) = (pre, n)" "n \<le> length bytes"
    using assms(2,3) c by (simp_all add: arc_starts_def)
  note f = walk_from [OF st(1) w st(2)]
  have "vs = out \<and> lo_content s' = Some (take good bytes) \<and> lo_len s' = good \<and> lo_handle s'"
    using assms(4) c w st(2) f(1)
    by (auto simp: arc_load_from_def arc_cut_to_def Let_def set_len_le split: if_splits)
  then show ?thesis using f by (simp add: arc_holds_def)
qed

interpretation arc: durable_store "arc_ops dec" arc_opened "arc_holds dec" "arc_starts dec" for dec
proof unfold_locales
  fix s vs assume h: "arc_holds dec s vs"
  then show "arc_opened s" by (auto simp: arc_opened_def arc_holds_def split: option.splits)
  show "arc_starts dec s (do_backing_len (arc_ops dec) s) vs"
    using h by (auto simp: arc_ops_def arc_starts_def arc_holds_def split: option.splits)
  fix io n meta u s' assume a: "do_adopt (arc_ops dec) io n meta s = (Inr u, s')"
  obtain bytes where c: "lo_content s = Some bytes" "lo_len s = length bytes" "lo_handle s"
      "log_walk (\<lambda>_. dec) 0 bytes = (vs, length bytes)"
    using h by (auto simp: arc_holds_def split: option.splits)
  then have "lo_content s' = Some (keep_lines n bytes) \<and> lo_len s' = length (keep_lines n bytes) \<and> lo_handle s'"
    using a by (auto simp: arc_ops_def arc_adopt_def arc_truncate_to_def arc_cut_to_def
        set_len_le keep_lines_length keep_lines_take split: if_splits)
  then show "arc_holds dec s' (take n vs)"
    using walk_keep [of "\<lambda>_. dec" 0 bytes vs n] c by (simp add: arc_holds_def)
next
  fix s vs io n meta e s' assume "arc_holds dec s vs" "do_adopt (arc_ops dec) io n meta s = (Inl e, s')"
  then show "arc_opened s'"
    by (auto simp: arc_ops_def arc_adopt_def arc_truncate_to_def arc_cut_to_def arc_holds_def arc_opened_def
        split: option.splits if_splits)
next
  fix s n io e s' assume "arc_opened s" "do_load_from (arc_ops dec) io n s = (Inl e, s')"
  then show "s' = s"
    by (auto simp: arc_ops_def arc_load_from_def arc_cut_to_def Let_def split: option.splits if_splits prod.splits)
next
  fix s and io :: log_io assume "arc_opened s" "io_cut io"
  then show "arc_holds dec (do_reset (arc_ops dec) io s) []"
    by (auto simp: arc_ops_def arc_reset_def arc_cut_to_def arc_opened_def arc_holds_def set_len_def walk_simps
        split: option.splits)
next
  show "arc_starts dec s 0 []" for s by (simp add: arc_starts_def walk_simps split: option.splits)
qed (simp add: arc_ops_def arc_load_tail)

lemma locator_offset:
  "log_walk locator_at p buf = (vs, e) \<Longrightarrow> n < length vs \<Longrightarrow> rl_offset (vs ! n) = p + length (keep_lines n buf)"
proof (induction n arbitrary: p buf vs)
  case 0
  from 0(1) show ?case using 0(2) by (cases rule: walk_step) (auto simp: locator_at_def split: if_splits)
next
  case (Suc n)
  from Suc.prems(1) show ?case
  proof (cases rule: walk_step)
    case (2 line rest v ws)
    then show ?thesis
      using Suc.IH [of "p + length line" rest ws] Suc.prems(2) split_is_line [OF 2(2), of rest] by simp
  qed (use Suc.prems in simp)
qed

lemma record_load_tail:
  assumes "rc_len s = length (rc_content s)" and "n \<le> rc_len s" and "log_walk locator_at 0 (take n (rc_content s)) = (pre, n)"
    and "record_load_from io n s = (Inr vs, s')"
  shows "record_holds s' (pre @ vs)"
proof -
  obtain out good where w: "log_walk locator_at n (drop n (rc_content s)) = (out, good)" by fastforce
  note f = walk_from [OF assms(3) w]
  have "vs = out \<and> rc_content s' = take good (rc_content s) \<and> rc_len s' = good"
    using assms w f(1)
    by (auto simp: record_load_from_def record_cut_to_def Let_def set_len_le split: if_splits)
  then show ?thesis using f assms(1,2) by (simp add: record_holds_def)
qed

lemma record_load_held: "record_holds s vs \<Longrightarrow> io_read io \<Longrightarrow> record_load_from io 0 s = (Inr vs, s)"
  by (simp add: record_load_from_def record_holds_def ends_a_record_def)

interpretation rec: durable_store record_ops "\<lambda>s. rc_len s = length (rc_content s)" record_holds
  "\<lambda>s n vs. log_walk locator_at 0 (take n (rc_content s)) = (vs, n)"
proof unfold_locales
  fix s vs assume h: "record_holds s vs"
  then show "rc_len s = length (rc_content s)" by (simp add: record_holds_def)
  show "log_walk locator_at 0 (take (do_backing_len record_ops s) (rc_content s)) = (vs, do_backing_len record_ops s)"
    using h by (simp add: record_ops_def record_holds_def)
  fix io n meta u s' assume a: "do_adopt record_ops io n meta s = (Inr u, s')"
  have r: "io_read io" using a by (auto simp: record_ops_def record_adopt_def record_load_from_def split: if_splits)
  note l = record_load_held [OF h r]
  have w: "log_walk locator_at 0 (rc_content s) = (vs, length (rc_content s))" "rc_len s = length (rc_content s)"
    using h by (simp_all add: record_holds_def)
  show "record_holds s' (take n vs)"
  proof (cases "n < length vs")
    case True
    then have "rc_content s' = keep_lines n (rc_content s) \<and> rc_len s' = length (keep_lines n (rc_content s))"
      using a r locator_offset [OF w(1) True]
      by (auto simp: record_ops_def record_adopt_def l record_cut_to_def set_len_le keep_lines_length
          keep_lines_take Let_def split: if_splits)
    then show ?thesis using walk_keep [of locator_at 0 "rc_content s" vs n] w by (simp add: record_holds_def)
  next
    case False
    then show ?thesis using a r w by (auto simp: record_ops_def record_adopt_def l record_holds_def)
  qed
next
  fix s vs io n meta e s' assume h: "record_holds s vs" and a: "do_adopt record_ops io n meta s = (Inl e, s')"
  show "rc_len s' = length (rc_content s')"
  proof (cases "io_read io")
    case True
    then show ?thesis
      using a h by (auto simp: record_ops_def record_adopt_def record_load_held [OF h True] record_cut_to_def
          record_holds_def Let_def split: if_splits)
  next
    case False
    then show ?thesis using a h by (auto simp: record_ops_def record_adopt_def record_load_from_def record_holds_def)
  qed
next
  fix s :: record_store and n io e s' assume "rc_len s = length (rc_content s)" "do_load_from record_ops io n s = (Inl e, s')"
  then show "s' = s"
    by (auto simp: record_ops_def record_load_from_def record_cut_to_def Let_def split: if_splits prod.splits)
next
  fix s :: record_store and io :: log_io assume "rc_len s = length (rc_content s)" "io_cut io"
  then show "record_holds (do_reset record_ops io s) []"
    by (simp add: record_ops_def record_reset_def record_cut_to_def record_holds_def set_len_def walk_simps)
qed (auto simp: record_ops_def walk_simps intro: record_load_tail)

subsection \<open>A crashed log\<close>

text \<open>What the block log relies on: a block parses back, and its text has no newline.\<close>

definition block_codec :: "block set \<Rightarrow> (block \<Rightarrow> string) \<Rightarrow> (string \<Rightarrow> block option) \<Rightarrow> bool" where
  "block_codec S enc dec \<longleftrightarrow> (\<forall>b\<in>S. dec (enc b) = Some b \<and> newline_char \<notin> set (enc b))"

definition arc_puts :: "(block \<Rightarrow> string) \<Rightarrow> arc_log \<Rightarrow> block list \<Rightarrow> arc_log" where
  "arc_puts enc s bs = foldl (\<lambda>s b. snd (arc_put enc None s b)) s bs"

lemma arc_puts_content:
  "lo_handle s \<Longrightarrow> lo_content s = Some c \<Longrightarrow>
     lo_content (arc_puts enc s bs) = Some (c @ record_lines enc bs) \<and> lo_handle (arc_puts enc s bs)
     \<and> lo_len (arc_puts enc s bs) = lo_len s + length (record_lines enc bs)"
proof (induction bs arbitrary: s c)
  case (Cons b bs)
  then show ?case
    using Cons.IH [of "snd (arc_put enc None s b)" "c @ enc b @ [newline_char]"]
    by (simp add: arc_puts_def arc_put_def Let_def)
qed (simp add: arc_puts_def)

lemma walk_cut:
  assumes "block_codec S enc dec" and "set bs \<subseteq> S" and "k \<le> length (record_lines enc bs)"
  shows "\<exists>m\<le>length bs. log_walk (\<lambda>_. dec) p (take k (record_lines enc bs))
      = (take m bs, p + length (record_lines enc (take m bs)))
    \<and> length (record_lines enc (take m bs)) \<le> k
    \<and> (m < length bs \<longrightarrow> k < length (record_lines enc (take (Suc m) bs)))"
  using assms(2,3)
proof (induction bs arbitrary: k p)
  case (Cons b bs)
  have b: "dec (enc b) = Some b" "newline_char \<notin> set (enc b)"
    using assms(1) Cons.prems(1) by (simp_all add: block_codec_def)
  show ?case
  proof (cases "k \<le> length (enc b)")
    case True
    then have "take k (record_lines enc (b # bs)) = take k (enc b)" by simp
    moreover have "newline_char \<notin> set (take k (enc b))" using b(2) by (auto dest: in_set_takeD)
    ultimately have "log_walk (\<lambda>_. dec) p (take k (record_lines enc (b # bs))) = ([], p)"
      by (simp add: walk_simps(2) split_line_def)
    then show ?thesis using True by (intro exI [of _ 0]) simp
  next
    case False
    define j where "j = k - Suc (length (enc b))"
    have k: "k = Suc (length (enc b)) + j" using False by (simp add: j_def)
    obtain m where m: "m \<le> length bs" "log_walk (\<lambda>_. dec) (p + Suc (length (enc b))) (take j (record_lines enc bs))
          = (take m bs, p + Suc (length (enc b)) + length (record_lines enc (take m bs)))"
        "length (record_lines enc (take m bs)) \<le> j"
        "m < length bs \<longrightarrow> j < length (record_lines enc (take (Suc m) bs))"
      using Cons.IH [of j "p + Suc (length (enc b))"] Cons.prems k by auto
    have "is_line (enc b @ [newline_char])" using b(2) by (simp add: is_line_def)
    then have "log_walk (\<lambda>_. dec) p ((enc b @ [newline_char]) @ take j (record_lines enc bs))
        = (b # take m bs, p + Suc (length (enc b)) + length (record_lines enc (take m bs)))"
      using walk_Cons [of "enc b @ [newline_char]" "\<lambda>_. dec" p b] m(2) b(1) by simp
    then show ?thesis using m k by (intro exI [of _ "Suc m"]) simp
  qed
qed (simp add: walk_simps)

lemma walk_whole:
  assumes "block_codec S enc dec" and "set bs \<subseteq> S"
  shows "log_walk (\<lambda>_. dec) p (record_lines enc bs) = (bs, p + length (record_lines enc bs))"
proof -
  obtain m where m: "m \<le> length bs" "log_walk (\<lambda>_. dec) p (record_lines enc bs)
      = (take m bs, p + length (record_lines enc (take m bs)))"
      "m < length bs \<longrightarrow> length (record_lines enc bs) < length (record_lines enc (take (Suc m) bs))"
    using walk_cut [OF assms, of "length (record_lines enc bs)" p] by auto
  have "length (record_lines enc (take (Suc m) bs)) \<le> length (record_lines enc bs)"
    by (subst (2) record_lines_take [of _ _ "Suc m"]) simp
  then show ?thesis using m by (cases "m = length bs") simp_all
qed


definition user_enc :: "block \<Rightarrow> string" where
  "user_enc b = (case b of UserText t \<Rightarrow> t | _ \<Rightarrow> [])"


subsection \<open>Anchors\<close>

lemma append_split: "xs @ ys = us @ vs \<Longrightarrow> length xs \<le> length us \<Longrightarrow> \<exists>d. us = xs @ d \<and> ys = d @ vs"
proof -
  assume e: "xs @ ys = us @ vs" and l: "length xs \<le> length us"
  have "take (length xs) us = xs" using arg_cong [OF e, of "take (length xs)"] l by simp
  moreover have "ys = drop (length xs) us @ vs" using arg_cong [OF e, of "drop (length xs)"] l by simp
  ultimately show ?thesis by (metis append_take_drop_id)
qed

lemma foldl_max_ge: "h \<le> foldl (\<lambda>h x. max h (f x)) (h :: nat) xs"
  by (induction xs arbitrary: h) (simp, metis foldl_Cons max.boundedE)

lemma foldl_max_mem: "x \<in> set xs \<Longrightarrow> f x \<le> foldl (\<lambda>h x. max h (f x)) (h :: nat) xs"
proof (induction xs arbitrary: h)
  case (Cons y ys)
  then show ?case using foldl_max_ge [of "max h (f y)" f ys] by auto
qed simp

lemma after_first_Some:
  "after_first needle s = Some t \<Longrightarrow> \<exists>a. s = a @ needle @ t \<and> (\<forall>pre w. s = pre @ needle @ w \<longrightarrow> length a \<le> length pre)"
proof (induction s)
  case (Cons c cs)
  show ?case
  proof (cases "starts_with (c # cs) needle")
    case True
    then have "c # cs = needle @ t"
      using Cons.prems unfolding starts_with_def by (metis after_first.simps(2) append_take_drop_id option.inject starts_with_def)
    then show ?thesis by (intro exI [of _ "[]"]) simp
  next
    case False
    then obtain a where a: "cs = a @ needle @ t" "\<forall>pre w. cs = pre @ needle @ w \<longrightarrow> length a \<le> length pre"
      using Cons by auto
    have "Suc (length a) \<le> length pre" if "c # cs = pre @ needle @ w" for pre w
    proof (cases pre)
      case Nil
      then show ?thesis using that False by (simp add: starts_with_def)
    next
      case (Cons p ps)
      then show ?thesis using that a(2) by simp
    qed
    then show ?thesis using a(1) by (intro exI [of _ "c # a"]) simp
  qed
qed simp

lemma after_first_None: "after_first needle s = None \<Longrightarrow> needle \<noteq> [] \<Longrightarrow> s \<noteq> pre @ needle @ w"
proof (induction s arbitrary: pre)
  case (Cons c cs)
  show ?case
  proof (cases pre)
    case Nil
    then show ?thesis using Cons.prems by (auto simp: starts_with_def split: if_splits)
  next
    case (Cons p ps)
    then show ?thesis using Cons.IH [of ps] Cons.prems by (auto split: if_splits)
  qed
qed simp

text \<open>The mark does not overlap itself or a number.\<close>

lemma mark_no_overlap:
  assumes "anchor_mark @ ds @ rest = pre @ anchor_mark @ w" and "pre \<noteq> []" and "list_all is_digit ds"
  shows "\<exists>pre'. rest = pre' @ anchor_mark @ w"
proof -
  have "7 \<le> length pre"
  proof (rule ccontr)
    assume "\<not> 7 \<le> length pre"
    moreover have "0 < length pre" using assms(2) by simp
    ultimately have "length pre \<in> {1, 2, 3, 4, 5, 6}" unfolding insert_iff by linarith
    then show False using assms(1) by (auto simp: anchor_mark_def length_Suc_conv eval_nat_numeral)
  qed
  moreover have m7: "length anchor_mark = 7" by (simp add: anchor_mark_def)
  ultimately have "take 7 pre = anchor_mark" "ds @ rest = drop 7 pre @ anchor_mark @ w"
    using arg_cong [OF assms(1), of "take 7"] arg_cong [OF assms(1), of "drop 7"] by simp_all
  then obtain p where p: "pre = anchor_mark @ p" "ds @ rest = p @ anchor_mark @ w"
    by (metis append_take_drop_id)
  then consider us where "p = ds @ us" "rest = us @ anchor_mark @ w" | us where "ds = p @ us" "us @ rest = anchor_mark @ w"
    by (auto simp: append_eq_append_conv2)
  then show ?thesis
  proof cases
    case 1
    then show ?thesis by blast
  next
    case (2 us)
    then have "us = []" using assms(3) by (cases us) (auto simp: anchor_mark_def is_digit_def byte_def)
    then show ?thesis using 2 by (intro exI [of _ "[]"]) simp
  qed
qed

lemma anchor_loop_mono: "high \<le> anchor_loop high s"
proof (induction high s rule: anchor_loop.induct)
  case (1 high s)
  show ?case
  proof (cases "after_first anchor_mark s")
    case None
    then show ?thesis by (simp add: anchor_loop.simps)
  next
    case (Some t)
    show ?thesis
      using "1.IH" [OF Some refl refl] by (subst anchor_loop.simps) (auto simp: Some Let_def split: if_splits)
  qed
qed

lemma anchor_loop_finds:
  "s = pre @ anchor_mark @ ds @ CHR 0x22 # post \<Longrightarrow> ds \<noteq> [] \<Longrightarrow> list_all is_digit ds \<Longrightarrow> anchor_value ds \<le> anchor_loop high s"
proof (induction high s arbitrary: pre rule: anchor_loop.induct)
  case (1 high s)
  show ?case
  proof (cases "after_first anchor_mark s")
    case None
    then show ?thesis
      using after_first_None [OF None, of pre] "1.prems"(1) by (auto simp: anchor_mark_def)
  next
    case (Some t)
    obtain a where a: "s = a @ anchor_mark @ t" "length a \<le> length pre"
      using after_first_Some [OF Some] "1.prems"(1) by blast
    then obtain d where d: "pre = a @ d" "anchor_mark @ t = d @ anchor_mark @ ds @ CHR 0x22 # post"
      using append_split [of a "anchor_mark @ t" pre] "1.prems"(1) by metis
    let ?ds = "takeWhile is_digit t" and ?rest = "dropWhile is_digit t"
    let ?high = "if ?ds \<noteq> [] \<and> ?rest \<noteq> [] \<and> hd ?rest = CHR 0x22 then max high (anchor_value ?ds) else high"
    have step: "anchor_loop high s = anchor_loop ?high ?rest"
      by (subst anchor_loop.simps) (simp add: Some Let_def)
    show ?thesis
    proof (cases "d = []")
      case True
      then have t: "t = ds @ CHR 0x22 # post" using d(2) by simp
      have nd: "\<not> is_digit (CHR 0x22)" by (simp add: is_digit_def byte_def)
      have "?ds = ds" "?rest = CHR 0x22 # post"
        using "1.prems"(3) nd by (simp_all add: t takeWhile_append2 dropWhile_append2 list_all_iff)
      then show ?thesis
        using anchor_loop_mono [of ?high ?rest] "1.prems"(2) by (simp add: step)
    next
      case False
      have "anchor_mark @ ?ds @ ?rest = d @ anchor_mark @ ds @ CHR 0x22 # post" using d(2) by simp
      moreover have "list_all is_digit ?ds" by (auto simp: list_all_iff dest: set_takeWhileD)
      ultimately obtain pre' where "?rest = pre' @ anchor_mark @ ds @ CHR 0x22 # post"
        using mark_no_overlap [OF _ False] by blast
      then show ?thesis
        using "1.IH" [OF Some refl refl] "1.prems"(2,3) by (simp add: step)
    qed
  qed
qed

lemma log_lines_infix:
  "bs = pre @ x @ post \<Longrightarrow> x \<noteq> [] \<Longrightarrow> newline_char \<notin> set x \<Longrightarrow> \<exists>line\<in>set (log_lines bs). \<exists>p q. line = p @ x @ q"
proof (induction bs arbitrary: pre rule: log_lines.induct)
  case (1 bs)
  show ?case
  proof (cases "split_line bs")
    case None
    then show ?thesis using "1.prems" by (subst log_lines.simps) auto
  next
    case (Some lr)
    obtain line rest where lr: "lr = (line, rest)" by fastforce
    note s = Some [unfolded lr]
    note l = split_line_nl2 [OF s]
    have ll: "log_lines bs = line # log_lines rest" using s "1.prems"(1,2) by (subst log_lines.simps) (auto simp del: append_assoc)
    show ?thesis
    proof (cases "length line \<le> length pre")
      case True
      then obtain pre' where "rest = pre' @ x @ post"
        using append_split [of line rest pre "x @ post"] "1.prems"(1) l by metis
      then show ?thesis using "1.IH" [OF _ s refl] "1.prems" ll by auto
    next
      case False
      have e: "butlast line @ newline_char # rest = pre @ x @ post"
        using l "1.prems"(1) by (metis append.assoc append_Cons append_Nil append_butlast_last_id)
      have "length pre \<le> length (butlast line)" using False by simp
      then obtain u where u: "butlast line = pre @ u" "u @ newline_char # rest = x @ post"
        using append_split [of pre "x @ post" "butlast line"] e by metis
      then obtain v where "u = x @ v"
        using "1.prems"(3) by (auto simp: append_eq_append_conv2 Cons_eq_append_conv)
      then have "line = pre @ x @ (v @ [newline_char])"
        using u(1) l by (metis append.assoc append_butlast_last_id)
      then show ?thesis using ll by auto
    qed
  qed
qed

text \<open>
  C21: a resumed page never hands out an anchor that its log already uses.  After the server's
  store adopted a prefix of its log, every anchor number that occurs in the log, in a record or
  nested inside one, is below every anchor issued from then on.
\<close>

theorem anchors_not_reissued:
  assumes "record_holds s vs" and "record_adopt io n meta s = (Inr (), s')"
    and "rc_content s' = pre @ anchor_mark @ ds @ CHR 0x22 # post" and "ds \<noteq> []" and "list_all is_digit ds"
  shows "anchor_value ds < fst (block_id (((\<lambda>st. snd (block_id st)) ^^ j) (rc_emit s')))"
proof -
  have held: "rc_len s' = length (rc_content s')"
    using rec.adopt_ok [OF assms(1), of io n meta "()" s'] assms(2)
    by (simp add: record_ops_def record_holds_def)
  have "newline_char \<notin> set (anchor_mark @ ds @ [CHR 0x22])"
    using assms(5) by (auto simp: anchor_mark_def list_all_iff is_digit_def byte_def)
  then obtain line p q where line: "line \<in> set (log_lines (rc_content s'))"
      "line = p @ anchor_mark @ ds @ CHR 0x22 # q"
    using log_lines_infix [of "rc_content s'" pre "anchor_mark @ ds @ [CHR 0x22]" post] assms(3) by auto
  have "anchor_value ds \<le> highest_anchor_in line"
    using anchor_loop_finds [OF line(2) assms(4,5)] by (simp add: highest_anchor_in_def)
  also have "\<dots> \<le> highest_block_anchor s'"
    using foldl_max_mem [OF line(1)] by (simp add: highest_block_anchor_def held)
  finally have d: "anchor_value ds \<le> highest_block_anchor s'" .
  have e: "es_next_block (rc_emit s') = max (highest_block_anchor s') n"
    using assms(2) by (auto simp: record_adopt_def emit_resumed_def highest_block_anchor_def Let_def
        split: sum.splits prod.splits if_splits)
  have "es_next_block st \<le> es_next_block (((\<lambda>st. snd (block_id st)) ^^ j) st)" for st
    by (induction j) (auto simp: block_id_def)
  from this [of "rc_emit s'"] show ?thesis using d e by (simp add: block_id_def)
qed

theorem anchors_not_reissued_witness:
  "\<exists>s'. record_adopt \<lparr>io_read = True, io_cut = True\<rparr> 1 session_meta_default
      (record_open_append (''{'' @ anchor_mark @ ''41'' @ [CHR 0x22] @ ''}'' @ [newline_char])) = (Inr (), s')
    \<and> 41 < fst (block_id (rc_emit s'))"
proof -
  let ?c = "''{'' @ anchor_mark @ ''41'' @ [CHR 0x22] @ ''}'' @ [newline_char]"
  let ?s = "record_open_append ?c" and ?io = "\<lparr>io_read = True, io_cut = True\<rparr>"
  have one: "one_record (butlast ?c)" by (simp add: one_record_def anchor_mark_def)
  have "is_line ?c" by (simp add: is_line_def anchor_mark_def)
  then have "log_walk locator_at 0 ?c = ([the (locator_at 0 (butlast ?c))], length ?c)"
    using walk_Cons [of ?c locator_at 0 _ "[]"] one by (simp add: walk_simps locator_at_def del: butlast.simps)
  then have h: "record_holds ?s [the (locator_at 0 (butlast ?c))]"
    by (simp add: record_holds_def record_open_append_def)
  obtain s' where a: "record_adopt ?io 1 session_meta_default ?s = (Inr (), s')" "rc_content s' = ?c"
    using record_load_held [OF h, of ?io] by (simp add: record_adopt_def record_open_append_def)
  have v: "anchor_value ''41'' = 41" "list_all is_digit ''41''" "''41'' \<noteq> []"
    by (simp_all add: anchor_value_def is_digit_def byte_def)
  have "rc_content s' = ''{'' @ anchor_mark @ ''41'' @ CHR 0x22 # (''}'' @ [newline_char])" using a(2) by simp
  from anchors_not_reissued [OF h a(1) this v(3,2), of 0] show ?thesis using a(1) v(1) by auto
qed

end
