(* ===== verification/Entry.thy ===== *)
theory Entry
  imports Claim_Props Block_Log_Props
begin

text \<open>
  The entry providers (\<open>claude-replay-present/src/cache/fs.rs\<close>): opening a session's durable entry,
  over any store with the durable interface.  The disk is the entry; \<open>make\<close> opens the frontend's
  store over what the disk holds; each use of the store has its own I/O outcomes (\<open>ios\<close>).
\<close>

record witness =
  wi_backing_len :: nat
  wi_committed :: nat

text \<open>The writer of an opened entry is \<open>True\<close> when it was armed.\<close>

datatype ('s, 'bv, 'n) opened =
    OpenedRetained bool
  | OpenedOwned 's "'bv list" bool origin "aligned_meta option" bool
  | OpenedDenied "'n denial"

record ('s, 'bv) provider =
  pv_codec :: codec
  pv_encode :: "stream_header \<Rightarrow> string"
  pv_versions :: versions
  pv_ops :: "('s, 'bv) durable_ops"
  pv_make :: "'s \<Rightarrow> 's option"
  pv_ios :: "nat \<Rightarrow> log_io"
  pv_writes :: bool

subsection \<open>Loading the backing\<close>

text \<open>
  The callback of the claim: the store as it was left, the values loaded and whether they follow
  the resident's own.
\<close>

definition reload_backing ::
  "('s, 'bv) provider \<Rightarrow> witness option \<Rightarrow> 's \<Rightarrow> ('bv list \<times> bool \<times> 's) option" where
  "reload_backing pv ours s =
     (let ops = pv_ops pv;
          whole = (case do_load_from ops (pv_ios pv 1) 0 s of
                     (Inr all, s') \<Rightarrow> Some (all, False, s') | (Inl e, s') \<Rightarrow> None)
      in case ours of
           Some w \<Rightarrow>
             if wi_backing_len w \<le> do_backing_len ops s then
               (case do_load_from ops (pv_ios pv 0) (wi_backing_len w) s of
                  (Inr tail, s') \<Rightarrow> Some (tail, True, s')
                | (Inl e, s') \<Rightarrow>
                    (case do_load_from ops (pv_ios pv 1) 0 s' of
                       (Inr all, s'') \<Rightarrow> Some (all, False, s'') | (Inl e, s'') \<Rightarrow> None))
             else whole
         | None \<Rightarrow> whole)"

definition still_ours :: "('s, 'bv) provider \<Rightarrow> transcript \<Rightarrow> witness option \<Rightarrow> string option \<Rightarrow> 's \<Rightarrow> bool" where
  "still_ours pv src ours m s \<longleftrightarrow>
     map_option wi_backing_len ours = Some (do_backing_len (pv_ops pv) s)
     \<and> stream_unchanged (pv_codec pv) src (pv_versions pv) m"

definition committed_count :: "witness option \<Rightarrow> bool \<Rightarrow> 'bv list \<Rightarrow> nat" where
  "committed_count ours reused loaded =
     (case ours of Some w \<Rightarrow> if reused then wi_committed w else 0 | None \<Rightarrow> 0) + length loaded"

definition open_backing ::
  "('s, 'bv) provider \<Rightarrow> transcript \<Rightarrow> witness option \<Rightarrow> string option \<Rightarrow> 's \<times> 'bv list \<times> bool
     \<Rightarrow> backing_state \<times> ('s \<times> 'bv list \<times> bool)" where
  "open_backing pv src ours m slots =
     (case pv_make pv (fst slots) of
        None \<Rightarrow> (BackingUnusable, slots)
      | Some s \<Rightarrow>
          if still_ours pv src ours m s then (BackingRetained, s, snd slots)
          else (case reload_backing pv ours s of
                  None \<Rightarrow> (BackingUnusable, s, snd slots)
                | Some (loaded, reused, s') \<Rightarrow>
                    (BackingCommitted (committed_count ours reused loaded), s', loaded, reused)))"

subsection \<open>Arming the writer\<close>

text \<open>\<open>armed_writer\<close> with a lease: a writer that cannot be opened drops it and with it the lock.\<close>

definition armed_writer ::
  "('s, 'bv) provider \<Rightarrow> transcript \<Rightarrow> rewind \<Rightarrow> nat option \<Rightarrow> ('n, 'c) cache_entry \<Rightarrow> bool \<times> ('n, 'c) cache_entry" where
  "armed_writer pv src how lease e =
     (let (ok, m) = writer_for (pv_encode pv) (pv_writes pv) src (pv_versions pv) how (ce_meta e);
          l = (case lease of Some pid \<Rightarrow> if ok then ce_lock e else lease_drop pid (ce_lock e) | None \<Rightarrow> ce_lock e)
      in (ok, e\<lparr>ce_meta := m, ce_lock := l\<rparr>))"

text \<open>The end of both \<open>open\<close>s: cut the store to what the records corroborate, or start afresh.\<close>

definition finish_open ::
  "('s, 'bv) provider \<Rightarrow> transcript \<Rightarrow> nat option \<Rightarrow> origin \<Rightarrow> aligned_meta option \<Rightarrow> 'bv list \<Rightarrow> bool
     \<Rightarrow> ('n, 's) cache_entry \<Rightarrow> ('s, 'bv, 'n) opened \<times> ('n, 's) cache_entry" where
  "finish_open pv src lease orig resumed loaded reused e =
     (case resumed of
        Some a \<Rightarrow>
          (case do_adopt (pv_ops pv) (pv_ios pv 2) (al_committed a) (mm_session_meta (al_meta a)) (ce_store e) of
             (Inl err, s) \<Rightarrow>
               (let s' = do_reset (pv_ops pv) (pv_ios pv 3) s;
                    (w, e') = armed_writer pv src RewindFresh lease (e\<lparr>ce_store := s'\<rparr>)
                in (OpenedOwned s' [] False (OriginCold TornStream) None w, e'))
           | (Inr _, s) \<Rightarrow>
               (let (w, e') = armed_writer pv src (RewindKeep (al_records a)) lease (e\<lparr>ce_store := s\<rparr>)
                in (OpenedOwned s loaded reused orig (Some a) w, e')))
      | None \<Rightarrow>
          (let s' = do_reset (pv_ops pv) (pv_ios pv 3) (ce_store e);
               (w, e') = armed_writer pv src RewindFresh lease (e\<lparr>ce_store := s'\<rparr>)
           in (OpenedOwned s' [] False orig None w, e')))"

subsection \<open>The providers\<close>

definition stamp_note :: "'n claimer \<Rightarrow> 'n option \<Rightarrow> bool \<Rightarrow> ('n, 'c) cache_entry \<Rightarrow> ('n, 'c) cache_entry" where
  "stamp_note cl note ok e =
     (case note of
        None \<Rightarrow> e
      | Some n \<Rightarrow> e\<lparr>ce_lock := snd (lock_publish (cl_pid cl) (cl_dir cl) n ok (ce_lock e))\<rparr>)"

definition with_store :: "('n, 'c) cache_entry \<Rightarrow> 'd \<Rightarrow> ('n, 'd) cache_entry" where
  "with_store e s = \<lparr>ce_lock = ce_lock e, ce_meta = ce_meta e, ce_store = s\<rparr>"

lemma with_store_simps [simp]:
  "ce_lock (with_store e s) = ce_lock e" "ce_meta (with_store e s) = ce_meta e" "ce_store (with_store e s) = s"
  by (simp_all add: with_store_def)

definition per_session_open ::
  "('s, 'bv) provider \<Rightarrow> 'n claimer \<Rightarrow> 'n option \<Rightarrow> bool \<Rightarrow> transcript \<Rightarrow> witness option
     \<Rightarrow> ('n, 's) cache_entry \<Rightarrow> ('s, 'bv, 'n) opened \<times> ('n, 's) cache_entry" where
  "per_session_open pv cl note noted src ours e =
     (case claim_entry (pv_codec pv) cl src (pv_versions pv) (open_backing pv src ours)
             (with_store e (ce_store e, [], False)) of
        (out, c) \<Rightarrow>
          (let (s, loaded, reused) = ce_store c; e' = with_store c s
           in case out of
                ClaimDenied x \<Rightarrow> (OpenedDenied x, e')
              | ClaimRetained \<Rightarrow>
                  (let (w, e'') = armed_writer pv src RewindAll (Some (cl_pid cl)) (stamp_note cl note noted e')
                   in (OpenedRetained w, e''))
              | ClaimOurs orig resumed \<Rightarrow>
                  finish_open pv src (Some (cl_pid cl)) orig resumed loaded reused (stamp_note cl note noted e')))"

definition per_session_publish :: "nat \<Rightarrow> string \<Rightarrow> 'n \<Rightarrow> bool \<Rightarrow> ('n, 's) cache_entry \<Rightarrow> bool \<times> ('n, 's) cache_entry" where
  "per_session_publish pid dir note ok e =
     (if \<not> held_by_us pid (ce_lock e) then (False, e)
      else case lock_publish pid dir note ok (ce_lock e) of
             (r, l) \<Rightarrow> (r = Inr (), e\<lparr>ce_lock := l\<rparr>))"

text \<open>The monitor's provider: no entry lock.\<close>

definition single_writer_open ::
  "('s, 'bv) provider \<Rightarrow> bool \<Rightarrow> transcript \<Rightarrow> witness option \<Rightarrow> ('n, 's) cache_entry
     \<Rightarrow> ('s, 'bv, 'n) opened \<times> ('n, 's) cache_entry" where
  "single_writer_open pv made src ours e =
     (if \<not> made then (OpenedDenied (DenialUnavailable UnwritableRoot), e)
      else case open_backing pv src ours (ce_meta e) (ce_store e, [], False) of
             (b, s, loaded, reused) \<Rightarrow>
               (let e' = e\<lparr>ce_store := s\<rparr>
                in case b of
                     BackingUnusable \<Rightarrow> (OpenedDenied (DenialUnavailable UnwritableRoot), e')
                   | BackingRetained \<Rightarrow>
                       (let (w, e'') = armed_writer pv src RewindAll None e' in (OpenedRetained w, e''))
                   | BackingCommitted n \<Rightarrow>
                       (case resume_origin (recover (pv_codec pv) src (pv_versions pv) n (ce_meta e')) of
                          (orig, resumed) \<Rightarrow> finish_open pv src None orig resumed loaded reused e')))"

text \<open>The provider without durability.\<close>

definition transient_open ::
  "('s, 'bv) provider \<Rightarrow> bool \<Rightarrow> ('n, 's) cache_entry \<Rightarrow> ('s, 'bv, 'n) opened \<times> ('n, 's) cache_entry" where
  "transient_open pv made e =
     (if \<not> made then (OpenedDenied (DenialUnavailable UnwritableRoot), e)
      else case pv_make pv (ce_store e) of
             None \<Rightarrow> (OpenedDenied (DenialUnavailable UnwritableRoot), e)
           | Some s \<Rightarrow>
               (let s' = do_reset (pv_ops pv) (pv_ios pv 3) s
                in (OpenedOwned s' [] False (OriginCold NoPriorCache) None False, e\<lparr>ce_store := s'\<rparr>)))"

end
