(* ===== verification/Entry_Props.thy ===== *)
theory Entry_Props
  imports Entry
begin

text \<open>
  An opened entry is consistent: the store holds exactly the blocks the session is built from, and
  the stream exactly the records that describe them.
\<close>

subsection \<open>Over any durable store\<close>

text \<open>What a caller's witness promises of the store that was opened.\<close>

definition witness_ok :: "('s \<Rightarrow> nat \<Rightarrow> 'bv list \<Rightarrow> bool) \<Rightarrow> witness option \<Rightarrow> 'bv list \<Rightarrow> 's \<Rightarrow> bool" where
  "witness_ok starts ours pre s \<longleftrightarrow> (\<forall>w. ours = Some w \<longrightarrow> starts s (wi_backing_len w) pre \<and> wi_committed w = length pre)"

definition joined :: "bool \<Rightarrow> 'bv list \<Rightarrow> 'bv list \<Rightarrow> 'bv list" where
  "joined reused pre loaded = (if reused then pre else []) @ loaded"

text \<open>What an opened entry's parts have to do with each other.\<close>

definition opened_ok ::
  "('s \<Rightarrow> 'bv list \<Rightarrow> bool) \<Rightarrow> ('s, 'bv) provider \<Rightarrow> transcript \<Rightarrow> 'bv list \<Rightarrow> string option
     \<Rightarrow> ('s, 'bv, 'n) opened \<times> ('n, 's) cache_entry \<Rightarrow> bool" where
  "opened_ok holds pv src pre m0 r \<longleftrightarrow>
     (case fst r of
        OpenedOwned s loaded reused orig resumed w \<Rightarrow>
          ce_store (snd r) = s
          \<and> (case resumed of
               None \<Rightarrow> loaded = [] \<and> \<not> reused \<and> (\<exists>reason. orig = OriginCold reason)
                 \<and> (io_cut (pv_ios pv 3) \<longrightarrow> holds s [])
                 \<and> (w \<longrightarrow> (\<exists>an. anchor_of src = Some an \<and> ce_meta (snd r)
                       = Some (meta_create (pv_encode pv) \<lparr>sh_anchor = an, sh_versions = pv_versions pv\<rparr>)))
             | Some a \<Rightarrow> orig = OriginResumed (al_committed a) (rs_replay_from (al_resume a))
                 \<and> al_committed a \<le> length (joined reused pre loaded)
                 \<and> holds s (take (al_committed a) (joined reused pre loaded))
                 \<and> recover (pv_codec pv) src (pv_versions pv) (length (joined reused pre loaded)) m0 = Inr (Some a)
                 \<and> (w \<longrightarrow> (\<exists>bs. m0 = Some bs \<and> ce_meta (snd r) = Some (meta_open_append bs (al_records a)))))
      | OpenedRetained w \<Rightarrow> w \<longrightarrow> ce_meta (snd r) = m0
      | OpenedDenied x \<Rightarrow> ce_meta (snd r) = m0)"

lemma armed_simps:
  assumes "armed_writer pv src how lease e = (w, e')"
  shows "ce_store e' = ce_store e" "(w, ce_meta e') = writer_for (pv_encode pv) (pv_writes pv) src (pv_versions pv) how (ce_meta e)"
    and "lease = Some pid \<Longrightarrow> held_by_us pid (ce_lock e) \<Longrightarrow> if w then ce_lock e' = ce_lock e else ce_lock e' = None"
  using assms by (auto simp: armed_writer_def lease_drop_def release_ours split: prod.splits)

context durable_store
begin

lemma reload_holds:
  assumes "pv_ops pv = ops" and "opened s" and "witness_ok starts ours pre s"
    and "reload_backing pv ours s = Some (loaded, reused, s')"
  shows "holds s' (joined reused pre loaded) \<and> committed_count ours reused loaded = length (joined reused pre loaded)"
proof (cases "\<exists>w tail s1. ours = Some w \<and> wi_backing_len w \<le> do_backing_len ops s
    \<and> do_load_from ops (pv_ios pv 0) (wi_backing_len w) s = (Inr tail, s1)")
  case True
  then obtain w tail s1 where w: "ours = Some w" "wi_backing_len w \<le> do_backing_len ops s"
      "do_load_from ops (pv_ios pv 0) (wi_backing_len w) s = (Inr tail, s1)" by blast
  then have "loaded = tail" "reused" "s' = s1"
    using assms(1,4) by (auto simp: reload_backing_def Let_def split: sum.splits prod.splits)
  moreover have "holds s1 (pre @ tail)"
    using load_tail [OF assms(2) w(2) _ w(3)] assms(3) w(1) by (simp add: witness_ok_def)
  ultimately show ?thesis
    using assms(3) w(1) by (simp add: joined_def committed_count_def witness_ok_def)
next
  case False
  have fails: "do_load_from (pv_ops pv) io n s = (Inl u, s1) \<Longrightarrow> s1 = s" for io n u s1
    using load_fails [OF assms(2)] assms(1) by simp
  have "do_load_from ops (pv_ios pv 1) 0 s = (Inr loaded, s') \<and> \<not> reused"
  proof (cases "\<exists>w. ours = Some w \<and> wi_backing_len w \<le> do_backing_len ops s")
    case True
    then obtain w where w: "ours = Some w" "wi_backing_len w \<le> do_backing_len ops s" by blast
    obtain r s1 where r: "do_load_from ops (pv_ios pv 0) (wi_backing_len w) s = (r, s1)" by fastforce
    then obtain u where "r = Inl u" using False w by (cases r) auto
    then have "do_load_from ops (pv_ios pv 0) (wi_backing_len w) s = (Inl u, s)" using r fails assms(1) by simp
    then show ?thesis
      using assms(1,4) w by (auto simp: reload_backing_def split: sum.splits prod.splits)
  next
    case False
    then show ?thesis
      using assms(1,4) by (auto simp: reload_backing_def Let_def split: option.splits sum.splits prod.splits if_splits)
  qed
  then show ?thesis
    using load_all [OF assms(2)] by (auto simp: joined_def committed_count_def split: option.splits)
qed

text \<open>The store the callback hands back, for each of its answers.\<close>

lemma open_backing_cases:
  assumes "pv_ops pv = ops" and "\<And>s. pv_make pv disk = Some s \<Longrightarrow> opened s \<and> witness_ok starts ours pre s"
    and "open_backing pv src ours m (disk, [], False) = (b, s, loaded, reused)"
  shows "case b of BackingCommitted n \<Rightarrow> holds s (joined reused pre loaded) \<and> n = length (joined reused pre loaded)
    | _ \<Rightarrow> True"
  using assms reload_holds [OF assms(1), of _ ours pre]
  by (auto simp: open_backing_def split: option.splits if_splits prod.splits)

lemma finish_ok:
  assumes "pv_ops pv = ops" and "holds (ce_store e) (joined reused pre loaded)" and "ce_meta e = m"
    and "resume_origin (recover (pv_codec pv) src (pv_versions pv) (length (joined reused pre loaded)) m) = (orig, resumed)"
  shows "opened_ok holds pv src pre m (finish_open pv src lease orig resumed loaded reused e)"
proof -
  have o: "opened (ce_store e)" by (rule holds_opened [OF assms(2)])
  have fresh: "opened_ok holds pv src pre m (OpenedOwned (do_reset ops (pv_ios pv 3) s) [] False (OriginCold r) None w, e')"
    if "opened s" "armed_writer pv src RewindFresh lease (e\<lparr>ce_store := do_reset ops (pv_ios pv 3) s\<rparr>) = (w, e')" for s r w e'
    using armed_simps(1,2) [OF that(2)] reset_ok [OF that(1), of "pv_ios pv 3"]
    by (auto simp: opened_ok_def writer_for_def split: if_splits option.splits)
  show ?thesis
  proof (cases resumed)
    case None
    then obtain r where r: "orig = OriginCold r"
      using assms(4) by (auto simp: resume_origin_def split: sum.splits option.splits)
    obtain w e' where "armed_writer pv src RewindFresh lease (e\<lparr>ce_store := do_reset ops (pv_ios pv 3) (ce_store e)\<rparr>) = (w, e')"
      by fastforce
    then show ?thesis using fresh [OF o] None r assms(1) by (simp add: finish_open_def)
  next
    case (Some a)
    then have rec: "recover (pv_codec pv) src (pv_versions pv) (length (joined reused pre loaded)) m = Inr (Some a)"
        and orig: "orig = OriginResumed (al_committed a) (rs_replay_from (al_resume a))"
      using assms(4) by (auto simp: resume_origin_def split: sum.splits option.splits)
    have le: "al_committed a \<le> length (joined reused pre loaded)"
      using rec align_below by (auto simp: recover_Some)
    obtain res s where ad: "do_adopt ops (pv_ios pv 2) (al_committed a) (mm_session_meta (al_meta a)) (ce_store e) = (res, s)"
      by fastforce
    show ?thesis
    proof (cases res)
      case (Inl u)
      obtain w e' where "armed_writer pv src RewindFresh lease (e\<lparr>ce_store := do_reset ops (pv_ios pv 3) s\<rparr>) = (w, e')"
        by fastforce
      then show ?thesis
        using fresh [OF adopt_fails [OF assms(2)]] ad Inl Some assms(1) by (simp add: finish_open_def)
    next
      case (Inr u)
      obtain w e' where w: "armed_writer pv src (RewindKeep (al_records a)) lease (e\<lparr>ce_store := s\<rparr>) = (w, e')"
        by fastforce
      have "holds s (take (al_committed a) (joined reused pre loaded))"
        using adopt_ok [OF assms(2)] ad Inr by simp
      then show ?thesis
        using armed_simps(1,2) [OF w] rec orig le ad Inr Some w assms(1,3)
        by (auto simp: finish_open_def opened_ok_def writer_for_def split: if_splits option.splits)
    qed
  qed
qed

lemma per_session_ok:
  assumes "pv_ops pv = ops" and "\<And>s. pv_make pv (ce_store e) = Some s \<Longrightarrow> opened s \<and> witness_ok starts ours pre s"
  shows "opened_ok holds pv src pre (ce_meta e) (per_session_open pv cl note noted src ours e)"
proof -
  let ?c0 = "with_store e (ce_store e, [], False)"
  obtain out c where cl: "claim_entry (pv_codec pv) cl src (pv_versions pv) (open_backing pv src ours) ?c0 = (out, c)"
    by fastforce
  obtain s loaded reused where st: "ce_store c = (s, loaded, reused)" by (metis prod_cases3)
  obtain b s1 l1 r1 where ob: "open_backing pv src ours (ce_meta e) (ce_store e, [], False) = (b, s1, l1, r1)"
    by (metis prod_cases4)
  have u: "ce_meta c = ce_meta e \<and> (case out of
       ClaimOurs orig resumed \<Rightarrow> (s, loaded, reused) = (s1, l1, r1) \<and> (\<exists>n. b = BackingCommitted n
         \<and> resume_origin (recover (pv_codec pv) src (pv_versions pv) n (ce_meta e)) = (orig, resumed))
     | _ \<Rightarrow> True)"
    using claim_unfold [OF cl] st ob
    by (auto split: backing_state.splits prod.splits claimed.splits)
  have stamped: "ce_meta (stamp_note cl note noted x) = ce_meta x" "ce_store (stamp_note cl note noted x) = ce_store x" for x
    by (simp_all add: stamp_note_def split: option.splits)
  show ?thesis
  proof (cases out)
    case (ClaimOurs orig resumed)
    then obtain n where n: "b = BackingCommitted n" "s = s1" "loaded = l1" "reused = r1"
        "resume_origin (recover (pv_codec pv) src (pv_versions pv) n (ce_meta e)) = (orig, resumed)"
      using u by auto
    have h: "holds s (joined reused pre loaded)" "n = length (joined reused pre loaded)"
      using open_backing_cases [OF assms ob] n by simp_all
    show ?thesis
      using finish_ok [OF assms(1), of "stamp_note cl note noted (with_store c s)" reused pre loaded "ce_meta e" src orig resumed]
        h n(5) u ClaimOurs
      by (simp add: per_session_open_def cl st stamped)
  next
    case ClaimRetained
    obtain w e2 where w: "armed_writer pv src RewindAll (Some (cl_pid cl)) (stamp_note cl note noted (with_store c s)) = (w, e2)"
      by fastforce
    then have "ce_meta e2 = ce_meta e"
      using armed_simps(2) [OF w] u by (auto simp: writer_for_def stamped split: if_splits)
    then show ?thesis using ClaimRetained w by (simp add: per_session_open_def cl st opened_ok_def)
  next
    case (ClaimDenied x)
    then show ?thesis using u by (simp add: per_session_open_def cl st opened_ok_def)
  qed
qed

lemma single_writer_ok:
  assumes "pv_ops pv = ops" and "\<And>s. pv_make pv (ce_store e) = Some s \<Longrightarrow> opened s \<and> witness_ok starts ours pre s"
  shows "opened_ok holds pv src pre (ce_meta e) (single_writer_open pv made src ours e)"
proof -
  obtain b s loaded reused where ob: "open_backing pv src ours (ce_meta e) (ce_store e, [], False) = (b, s, loaded, reused)"
    by (metis prod_cases4)
  show ?thesis
  proof (cases b)
    case (BackingCommitted n)
    obtain orig resumed where r: "resume_origin (recover (pv_codec pv) src (pv_versions pv) n (ce_meta e)) = (orig, resumed)"
      by fastforce
    have h: "holds s (joined reused pre loaded)" "n = length (joined reused pre loaded)"
      using open_backing_cases [OF assms ob] BackingCommitted by simp_all
    show ?thesis
      using finish_ok [OF assms(1), of "e\<lparr>ce_store := s\<rparr>" reused pre loaded "ce_meta e" src orig resumed] h r
      by (cases made) (simp_all add: single_writer_open_def ob BackingCommitted opened_ok_def)
  next
    case BackingRetained
    obtain w e2 where w: "armed_writer pv src RewindAll None (e\<lparr>ce_store := s\<rparr>) = (w, e2)" by fastforce
    then have "ce_meta e2 = ce_meta e"
      using armed_simps(2) [OF w] by (auto simp: writer_for_def split: if_splits)
    then show ?thesis
      using w by (cases made) (simp_all add: single_writer_open_def ob BackingRetained opened_ok_def)
  next
    case BackingUnusable
    then show ?thesis by (cases made) (simp_all add: single_writer_open_def ob opened_ok_def)
  qed
qed

end

subsection \<open>The lock of an opened entry\<close>

definition lease_ok :: "nat \<Rightarrow> ('s, 'bv, 'n) opened \<times> ('n, 's) cache_entry \<Rightarrow> bool" where
  "lease_ok pid r \<longleftrightarrow>
     (let kept = (\<lambda>w. if w then held_by_us pid (ce_lock (snd r)) else ce_lock (snd r) = None)
      in case fst r of
           OpenedOwned s loaded reused orig resumed w \<Rightarrow> kept w
         | OpenedRetained w \<Rightarrow> kept w
         | OpenedDenied x \<Rightarrow> True)"

lemma armed_lease:
  "held_by_us pid (ce_lock e) \<Longrightarrow> armed_writer pv src how (Some pid) e = (w, e') \<Longrightarrow>
     if w then held_by_us pid (ce_lock e') else ce_lock e' = None"
  using armed_simps(3) [of pv src how "Some pid" e w e' pid] by simp

lemma finish_lease:
  "held_by_us pid (ce_lock e) \<Longrightarrow> lease_ok pid (finish_open pv src (Some pid) orig resumed loaded reused e)"
proof -
  assume h: "held_by_us pid (ce_lock e)"
  have owned: "lease_ok pid (case armed_writer pv src how (Some pid) (e\<lparr>ce_store := s\<rparr>) of
      (w, e') \<Rightarrow> (OpenedOwned s l r o' a w, e'))" for how s l r o' a
    using armed_lease [of pid "e\<lparr>ce_store := s\<rparr>" pv src how] h
    by (cases "armed_writer pv src how (Some pid) (e\<lparr>ce_store := s\<rparr>)") (simp add: lease_ok_def)
  show ?thesis
    by (cases resumed) (simp_all add: finish_open_def Let_def owned split: prod.split sum.split)
qed

lemma stamp_held:
  "held_by_us (cl_pid cl) (ce_lock x) \<Longrightarrow> held_by_us (cl_pid cl) (ce_lock (stamp_note cl note noted x))"
  by (auto simp: stamp_note_def lock_publish_def held_by_us_def Let_def split: option.splits)

lemma per_session_lease: "lease_ok (cl_pid cl) (per_session_open pv cl note noted src ours e)"
proof -
  let ?c0 = "with_store e (ce_store e, [], False)"
  obtain out c where cl: "claim_entry (pv_codec pv) cl src (pv_versions pv) (open_backing pv src ours) ?c0 = (out, c)"
    by fastforce
  obtain s loaded reused where st: "ce_store c = (s, loaded, reused)" by (metis prod_cases3)
  have held: "(\<exists>x. out = ClaimDenied x) \<or> held_by_us (cl_pid cl) (ce_lock c)"
    using claim_unfold [OF cl] by auto
  show ?thesis
  proof (cases out)
    case (ClaimOurs orig resumed)
    then have "held_by_us (cl_pid cl) (ce_lock (stamp_note cl note noted (with_store c s)))"
      using held stamp_held [of cl "with_store c s"] by simp
    then show ?thesis
      using finish_lease [of "cl_pid cl"] ClaimOurs by (simp add: per_session_open_def cl st)
  next
    case ClaimRetained
    then have h: "held_by_us (cl_pid cl) (ce_lock (stamp_note cl note noted (with_store c s)))"
      using held stamp_held [of cl "with_store c s"] by simp
    obtain w e2 where w: "armed_writer pv src RewindAll (Some (cl_pid cl)) (stamp_note cl note noted (with_store c s)) = (w, e2)"
      by fastforce
    show ?thesis
      using armed_lease [OF h w] ClaimRetained w by (simp add: per_session_open_def cl st lease_ok_def)
  next
    case (ClaimDenied x)
    then show ?thesis by (simp add: per_session_open_def cl st lease_ok_def)
  qed
qed

subsection \<open>Claims\<close>

text \<open>
  C22: the terminal viewer opens its entry consistently.  Whatever the disk holds, whichever I/O
  operations fail and whoever holds the lock: after a resume the block log holds exactly the
  blocks the session is rebuilt from, as many as the recovered records corroborate, the records
  above the recovered ones are cut, and otherwise the session starts from nothing with an empty log
  and a fresh header; the entry's lock is this process's if the stream can be written and free if
  it cannot.  The blocks a caller kept in memory may be reused when the log still begins with them.
\<close>

theorem tui_entry_consistent:
  assumes "pv_ops pv = arc_ops dec"
    and "pv_make pv (ce_store e) \<noteq> None \<longrightarrow> arc_opened (the (pv_make pv (ce_store e)))
      \<and> witness_ok (arc_starts dec) ours pre (the (pv_make pv (ce_store e)))"
  shows "opened_ok (arc_holds dec) pv src pre (ce_meta e) (per_session_open pv cl note noted src ours e)
    \<and> lease_ok (cl_pid cl) (per_session_open pv cl note noted src ours e)"
proof -
  have "arc_opened s \<and> witness_ok (arc_starts dec) ours pre s" if "pv_make pv (ce_store e) = Some s" for s
    using assms(2) that by simp
  then show ?thesis using arc.per_session_ok [OF assms(1)] per_session_lease by blast
qed

definition empty_provider :: "(arc_log, block) provider" where
  "empty_provider = \<lparr>pv_codec = \<lparr>cd_header = \<lambda>_. None, cd_record = \<lambda>_. None\<rparr>, pv_encode = (\<lambda>_. ''{1}''),
     pv_versions = \<lparr>vs_format = 1, vs_fold = 1, vs_flavor = None\<rparr>, pv_ops = arc_ops (\<lambda>t. Some (UserText t)),
     pv_make = (\<lambda>s. Some (arc_open_append (lo_content s))), pv_ios = (\<lambda>_. \<lparr>io_read = True, io_cut = True\<rparr>),
     pv_writes = True\<rparr>"

theorem tui_entry_consistent_witness:
  "opened_ok (arc_holds (\<lambda>t. Some (UserText t))) empty_provider \<lparr>ts_stream = Some ([''a''], False), ts_len = Some 1\<rparr> [] None
     (per_session_open empty_provider
        \<lparr>cl_pid = 7, cl_dir = [], cl_decidable = True, cl_alive = \<lambda>h. True, cl_made = True, cl_writable = True\<rparr>
        (Some ()) True \<lparr>ts_stream = Some ([''a''], False), ts_len = Some 1\<rparr> None (entry_of (None :: unit lock_file) None arc_create))"
proof -
  have "pv_ops empty_provider = arc_ops (\<lambda>t. Some (UserText t))"
      "pv_make empty_provider (ce_store (entry_of (None :: unit lock_file) None arc_create)) \<noteq> None \<longrightarrow>
        arc_opened (the (pv_make empty_provider (ce_store (entry_of (None :: unit lock_file) None arc_create))))
        \<and> witness_ok (arc_starts (\<lambda>t. Some (UserText t))) None [] (the (pv_make empty_provider (ce_store (entry_of (None :: unit lock_file) None arc_create))))"
    by (simp_all add: empty_provider_def entry_of_def arc_opened_def arc_open_append_def witness_ok_def arc_create_def)
  from tui_entry_consistent [OF this] show ?thesis by (simp add: entry_of_def)
qed

text \<open>
  The monitor opens its entries consistently, and an opening never denies except when the
  entry cannot be created or read.
\<close>

theorem monitor_entry_consistent:
  assumes "pv_ops pv = record_ops"
    and "pv_make pv (ce_store e) \<noteq> None \<longrightarrow> (let s = the (pv_make pv (ce_store e)) in
        rc_len s = length (rc_content s)
        \<and> witness_ok (\<lambda>s n vs. log_walk locator_at 0 (take n (rc_content s)) = (vs, n)) ours pre s)"
  shows "opened_ok record_holds pv src pre (ce_meta e) (single_writer_open pv made src ours e)
    \<and> (\<forall>h. fst (single_writer_open pv made src ours e) \<noteq> OpenedDenied (DenialHeld h))"
proof -
  have "opened_ok record_holds pv src pre (ce_meta e) (single_writer_open pv made src ours e)"
    by (rule rec.single_writer_ok [OF assms(1)]) (use assms(2) in \<open>simp add: Let_def\<close>)
  moreover have "fst (single_writer_open pv made src ours e) \<noteq> OpenedDenied (DenialHeld h)" for h
    by (auto simp: single_writer_open_def finish_open_def Let_def
        split: prod.splits backing_state.splits option.splits sum.splits if_splits)
  ultimately show ?thesis by blast
qed

definition record_provider :: "(record_store, record_locator) provider" where
  "record_provider = \<lparr>pv_codec = \<lparr>cd_header = \<lambda>_. None, cd_record = \<lambda>_. None\<rparr>, pv_encode = (\<lambda>_. ''{1}''),
     pv_versions = \<lparr>vs_format = 1, vs_fold = 1, vs_flavor = None\<rparr>, pv_ops = record_ops,
     pv_make = (\<lambda>s. Some (record_open_append (rc_content s))), pv_ios = (\<lambda>_. \<lparr>io_read = True, io_cut = True\<rparr>),
     pv_writes = True\<rparr>"

theorem monitor_entry_consistent_witness:
  "opened_ok record_holds record_provider \<lparr>ts_stream = Some ([''a''], False), ts_len = Some 1\<rparr> [] None
     (single_writer_open record_provider True \<lparr>ts_stream = Some ([''a''], False), ts_len = Some 1\<rparr> None
        (entry_of (None :: unit lock_file) None (record_open_append ''{}\<newline>{'')))"
proof -
  have "pv_ops record_provider = record_ops"
      "pv_make record_provider (ce_store (entry_of (None :: unit lock_file) None (record_open_append ''{}\<newline>{''))) \<noteq> None \<longrightarrow>
        (let s = the (pv_make record_provider (ce_store (entry_of (None :: unit lock_file) None (record_open_append ''{}\<newline>{'')))) in
        rc_len s = length (rc_content s)
        \<and> witness_ok (\<lambda>s n vs. log_walk locator_at 0 (take n (rc_content s)) = (vs, n)) None [] s)"
    by (simp_all add: record_provider_def entry_of_def record_open_append_def witness_ok_def)
  from monitor_entry_consistent [OF this] show ?thesis by (simp add: entry_of_def)
qed

end
