(* ===== verification/Mask.thy ===== *)
theory Mask
  imports Base
begin

text \<open>
  Secret masking (\<open>claude-replay-html/src/html_export/mask.rs\<close>): what leaves the machine has its
  known secret shapes replaced in place by stars.  Byte slices are char lists, indices are
  \<open>nat\<close>; every index the code reads is below the length it has just compared with.
\<close>

subsection \<open>Bytes\<close>

definition is_upper :: "char \<Rightarrow> bool" where
  "is_upper c \<longleftrightarrow> 65 \<le> byte c \<and> byte c \<le> 90"

definition is_lower :: "char \<Rightarrow> bool" where
  "is_lower c \<longleftrightarrow> 97 \<le> byte c \<and> byte c \<le> 122"

definition is_num :: "char \<Rightarrow> bool" where
  "is_num c \<longleftrightarrow> 48 \<le> byte c \<and> byte c \<le> 57"

definition is_hex :: "char \<Rightarrow> bool" where
  "is_hex c \<longleftrightarrow> is_num c \<or> (65 \<le> byte c \<and> byte c \<le> 70) \<or> (97 \<le> byte c \<and> byte c \<le> 102)"

definition alnum :: "char \<Rightarrow> bool" where
  "alnum c \<longleftrightarrow> is_upper c \<or> is_lower c \<or> is_num c"

definition key_char :: "char \<Rightarrow> bool" where
  "key_char c \<longleftrightarrow> alnum c \<or> c = CHR ''_'' \<or> c = CHR ''-''"

definition upper_digit :: "char \<Rightarrow> bool" where
  "upper_digit c \<longleftrightarrow> is_upper c \<or> is_num c"

definition alnum_underscore :: "char \<Rightarrow> bool" where
  "alnum_underscore c \<longleftrightarrow> alnum c \<or> c = CHR ''_''"

definition lower :: "char \<Rightarrow> char" where
  "lower c = (if is_upper c then char_of (byte c + 32) else c)"

definition eq_nocase :: "string \<Rightarrow> string \<Rightarrow> bool" where
  "eq_nocase a b \<longleftrightarrow> map lower a = map lower b"

text \<open>\<open>bytes[i..j]\<close>.\<close>

definition slice :: "nat \<Rightarrow> nat \<Rightarrow> string \<Rightarrow> string" where
  "slice i j s = take (j - i) (drop i s)"

text \<open>The end of the run of bytes with a property that starts at an index.\<close>

definition run_end :: "(char \<Rightarrow> bool) \<Rightarrow> string \<Rightarrow> nat \<Rightarrow> nat" where
  "run_end P s i = i + length (takeWhile P (drop i s))"

subsection \<open>Policy\<close>

datatype mask_policy = MaskOff | MaskRemote | MaskAlways

text \<open>\<open>MaskPolicy::parse\<close>, over the parsed file; an unreadable one is \<open>Null\<close>.\<close>

definition policy_parse :: "json \<Rightarrow> mask_policy" where
  "policy_parse v =
     (case json_get v ''mode'' of
        Some (JStr m) \<Rightarrow> if m = ''remote'' then MaskRemote else if m = ''always'' then MaskAlways else MaskOff
      | _ \<Rightarrow> MaskOff)"

fun masks :: "mask_policy \<Rightarrow> bool \<Rightarrow> bool" where
  "masks MaskOff local_client = False"
| "masks MaskRemote local_client = (\<not> local_client)"
| "masks MaskAlways local_client = True"

subsection \<open>Word boundaries\<close>

abbreviation backslash :: char where "backslash \<equiv> CHR 0x5C"

definition unicode_escape_at :: "string \<Rightarrow> nat \<Rightarrow> bool" where
  "unicode_escape_at s k \<longleftrightarrow> k + 6 \<le> length s \<and> s ! k = backslash \<and> s ! (k + 1) = CHR ''u''
     \<and> list_all is_hex (slice (k + 2) (k + 6) s)"

definition after_escape :: "string \<Rightarrow> nat \<Rightarrow> bool" where
  "after_escape s i \<longleftrightarrow>
     (2 \<le> i \<and> s ! (i - 2) = backslash \<and> s ! (i - 1) \<in> set ''ntrbf'') \<or> (6 \<le> i \<and> unicode_escape_at s (i - 6))"

text \<open>An ESC ends right before \<open>e\<close>, in any of its spellings.\<close>

definition esc_ends_at :: "string \<Rightarrow> nat \<Rightarrow> bool" where
  "esc_ends_at s e \<longleftrightarrow>
     (1 \<le> e \<and> s ! (e - 1) = CHR 0x1B)
     \<or> (6 \<le> e \<and> unicode_escape_at s (e - 6) \<and> eq_nocase (slice (e - 4) e s) ''001b'')
     \<or> (4 \<le> e \<and> s ! (e - 4) = backslash \<and> (eq_nocase (slice (e - 3) e s) ''x1b'' \<or> slice (e - 3) e s = ''033''))
     \<or> (5 \<le> e \<and> s ! (e - 5) = backslash \<and> slice (e - 4) e s = ''0033'')
     \<or> (2 \<le> e \<and> s ! (e - 2) = backslash \<and> s ! (e - 1) \<in> set ''eE'')"

text \<open>Walk back from \<open>k\<close> over bytes with a property.\<close>

fun walk_back :: "(char \<Rightarrow> bool) \<Rightarrow> string \<Rightarrow> nat \<Rightarrow> nat" where
  "walk_back P s 0 = 0"
| "walk_back P s (Suc k) = (if P (s ! k) then walk_back P s k else Suc k)"

definition after_terminal_code :: "string \<Rightarrow> nat \<Rightarrow> bool" where
  "after_terminal_code s i =
     (if i < 3 \<or> s ! (i - 1) = backslash then False
      else
        (let b = byte (s ! (i - 1));
             k = walk_back (\<lambda>c. 32 \<le> byte c \<and> byte c \<le> 63) s (i - 1)
         in if 64 \<le> b \<and> b \<le> 126 \<and> 0 < k \<and> s ! (k - 1) = CHR ''['' \<and> esc_ends_at s (k - 1) then True
            else if 48 \<le> b \<and> b \<le> 126 \<and> s ! (i - 1) \<noteq> CHR ''[''
            then esc_ends_at s (walk_back (\<lambda>c. 32 \<le> byte c \<and> byte c \<le> 47) s (i - 1))
            else False))"

definition word_boundary :: "string \<Rightarrow> nat \<Rightarrow> bool" where
  "word_boundary s p \<longleftrightarrow> p = 0 \<or> \<not> key_char (s ! (p - 1)) \<or> after_escape s p \<or> after_terminal_code s p"

definition starts_word :: "string \<Rightarrow> nat \<Rightarrow> bool" where
  "starts_word s i \<longleftrightarrow> word_boundary s i
     \<or> (let p = walk_back (\<lambda>c. c = CHR ''-'') s i in p < i \<and> word_boundary s p)"

subsection \<open>Shapes\<close>

record token =
  tk_prefix :: string
  tk_body :: "char \<Rightarrow> bool"
  tk_min :: nat
  tk_max :: "nat option"

definition tokens :: "token list" where
  "tokens =
     [\<lparr>tk_prefix = ''sk-ant-'', tk_body = key_char, tk_min = 20, tk_max = None\<rparr>,
      \<lparr>tk_prefix = ''sk-proj-'', tk_body = key_char, tk_min = 20, tk_max = None\<rparr>,
      \<lparr>tk_prefix = ''sk-'', tk_body = key_char, tk_min = 20, tk_max = None\<rparr>,
      \<lparr>tk_prefix = ''github_pat_'', tk_body = alnum_underscore, tk_min = 40, tk_max = None\<rparr>,
      \<lparr>tk_prefix = ''ghp_'', tk_body = alnum, tk_min = 30, tk_max = None\<rparr>,
      \<lparr>tk_prefix = ''gho_'', tk_body = alnum, tk_min = 30, tk_max = None\<rparr>,
      \<lparr>tk_prefix = ''ghu_'', tk_body = alnum, tk_min = 30, tk_max = None\<rparr>,
      \<lparr>tk_prefix = ''ghs_'', tk_body = alnum, tk_min = 30, tk_max = None\<rparr>,
      \<lparr>tk_prefix = ''ghr_'', tk_body = alnum, tk_min = 30, tk_max = None\<rparr>,
      \<lparr>tk_prefix = ''glpat-'', tk_body = key_char, tk_min = 20, tk_max = None\<rparr>,
      \<lparr>tk_prefix = ''xoxb-'', tk_body = key_char, tk_min = 10, tk_max = None\<rparr>,
      \<lparr>tk_prefix = ''xoxp-'', tk_body = key_char, tk_min = 10, tk_max = None\<rparr>,
      \<lparr>tk_prefix = ''xoxa-'', tk_body = key_char, tk_min = 10, tk_max = None\<rparr>,
      \<lparr>tk_prefix = ''xoxs-'', tk_body = key_char, tk_min = 10, tk_max = None\<rparr>,
      \<lparr>tk_prefix = ''AKIA'', tk_body = upper_digit, tk_min = 16, tk_max = Some 16\<rparr>,
      \<lparr>tk_prefix = ''ASIA'', tk_body = upper_digit, tk_min = 16, tk_max = Some 16\<rparr>,
      \<lparr>tk_prefix = ''AIza'', tk_body = key_char, tk_min = 35, tk_max = Some 35\<rparr>]"

definition token_end :: "token \<Rightarrow> string \<Rightarrow> nat \<Rightarrow> nat option" where
  "token_end t s i =
     (if \<not> starts_with (drop i s) (tk_prefix t) \<or> \<not> starts_word s i then None
      else
        (let from_p = i + length (tk_prefix t); full = run_end (tk_body t) s from_p;
             stop = (case tk_max t of None \<Rightarrow> full | Some m \<Rightarrow> min full (from_p + m));
             runs_on = (tk_max t \<noteq> None \<and> stop < length s \<and> tk_body t (s ! stop))
         in if tk_min t \<le> stop - from_p \<and> \<not> runs_on then Some stop else None))"

fun first_token :: "token list \<Rightarrow> string \<Rightarrow> nat \<Rightarrow> nat option" where
  "first_token [] s i = None"
| "first_token (t # ts) s i = (case token_end t s i of Some e \<Rightarrow> Some e | None \<Rightarrow> first_token ts s i)"

definition token_at :: "string \<Rightarrow> nat \<Rightarrow> nat option" where
  "token_at s i = first_token tokens s i"

definition char_at :: "string \<Rightarrow> nat \<Rightarrow> char \<Rightarrow> bool" where
  "char_at s i c \<longleftrightarrow> i < length s \<and> s ! i = c"

definition jwt_at :: "string \<Rightarrow> nat \<Rightarrow> nat option" where
  "jwt_at s i =
     (if \<not> starts_with (drop i s) ''eyJ'' \<or> \<not> starts_word s i then None
      else
        (let a = run_end key_char s i
         in if a - i < 10 \<or> \<not> char_at s a (CHR ''.'') then None
            else
              (let b = run_end key_char s (a + 1)
               in if b - a - 1 < 10 \<or> \<not> char_at s b (CHR ''.'') then None
                  else (let c = run_end key_char s (b + 1) in if 10 < c - b then Some c else None))))"

definition bearer_char :: "char \<Rightarrow> bool" where
  "bearer_char c \<longleftrightarrow> alnum c \<or> c \<in> set ''._~+/=-''"

definition bearer_at :: "string \<Rightarrow> nat \<Rightarrow> (nat \<times> nat) option" where
  "bearer_at s i =
     (if length s < i + 7 \<or> \<not> eq_nocase (slice i (i + 7) s) ''bearer '' \<or> \<not> starts_word s i then None
      else (let e = run_end bearer_char s (i + 7) in if 20 \<le> e - (i + 7) then Some (i + 7, e) else None))"

text \<open>How far the scan to a stop byte goes, at most \<open>n\<close> bytes; \<open>None\<close> at a byte that ends the search.\<close>

fun scan_to :: "char \<Rightarrow> char list \<Rightarrow> nat \<Rightarrow> string \<Rightarrow> nat option" where
  "scan_to stop bads 0 s = Some 0"
| "scan_to stop bads (Suc n) [] = Some 0"
| "scan_to stop bads (Suc n) (c # cs) =
     (if c = stop then Some 0 else if c \<in> set bads then None else map_option Suc (scan_to stop bads n cs))"

definition url_password_at :: "string \<Rightarrow> nat \<Rightarrow> (nat \<times> nat) option" where
  "url_password_at s i =
     (if \<not> starts_with (drop i s) ''://'' then None
      else case scan_to (CHR '':'') (''/@'' @ [CHR 0x22, backslash, CHR '' '', CHR 0x0A]) 65 (drop (i + 3) s) of
             None \<Rightarrow> None
           | Some u \<Rightarrow>
               (let colon = i + 3 + u
                in if u = 0 \<or> \<not> char_at s colon (CHR '':'') then None
                   else case scan_to (CHR ''@'') ([CHR ''/'', CHR 0x22, backslash, CHR '' '', CHR 0x0A]) 129
                               (drop (colon + 1) s) of
                          None \<Rightarrow> None
                        | Some p \<Rightarrow>
                            (let e = colon + 1 + p
                             in if 0 < p \<and> char_at s e (CHR ''@'') then Some (colon + 1, e) else None)))"

subsection \<open>Masking\<close>

function star :: "string \<Rightarrow> nat \<Rightarrow> nat \<Rightarrow> string" where
  "star s k to_p =
     (if k < to_p then
        (if s ! k = backslash then star s (k + (if unicode_escape_at s k then 6 else 2)) to_p
         else if 128 \<le> byte (s ! k) then star s (k + 1) to_p
         else star (s[k := CHR ''*'']) (k + 1) to_p)
      else s)"
  by pat_completeness auto
termination
  by (relation "measure (\<lambda>(s, k, to_p). to_p - k)") auto

declare star.simps [simp del]

lemma star_length [simp]: "length (star s k e) = length s"
  by (induction s k e rule: star.induct) (subst star.simps, simp)

text \<open>The first index at or after \<open>from_p\<close> where the needle stands.\<close>

fun sub_index :: "string \<Rightarrow> string \<Rightarrow> nat option" where
  "sub_index needle [] = (if needle = [] then Some 0 else None)"
| "sub_index needle (c # cs) =
     (if starts_with (c # cs) needle then Some 0 else map_option Suc (sub_index needle cs))"

definition find_from :: "string \<Rightarrow> string \<Rightarrow> nat \<Rightarrow> nat option" where
  "find_from hay needle from_p = map_option (\<lambda>p. p + from_p) (sub_index needle (drop from_p hay))"

definition begin_mark :: string where "begin_mark = ''-----BEGIN ''"
definition key_mark :: string where "key_mark = ''PRIVATE KEY-----''"
definition end_mark :: string where "end_mark = ''-----END ''"

lemma sub_index_bound: "sub_index needle s = Some p \<Longrightarrow> p + length needle \<le> length s"
proof (induction s arbitrary: p)
  case (Cons c cs)
  show ?case
  proof (cases "starts_with (c # cs) needle")
    case True
    then have "length needle \<le> Suc (length cs)" unfolding starts_with_def by (metis length_Cons length_take min.cobounded2 min.commute)
    then show ?thesis using Cons.prems True by simp
  next
    case False
    then show ?thesis using Cons by auto
  qed
qed (simp split: if_splits)

lemma find_from_bound: "find_from hay needle from_p = Some p \<Longrightarrow> needle \<noteq> [] \<Longrightarrow> from_p \<le> p \<and> p + length needle \<le> length hay"
proof -
  assume "find_from hay needle from_p = Some p" and n: "needle \<noteq> []"
  then obtain z where "p = z + from_p" "z + length needle \<le> length hay - from_p"
    by (auto simp: find_from_def dest!: sub_index_bound)
  moreover have "0 < length needle" using n by simp
  ultimately show ?thesis by linarith
qed

function mask_keys_loop :: "nat \<Rightarrow> nat \<Rightarrow> string \<Rightarrow> nat \<times> string" where
  "mask_keys_loop masked i s =
     (case find_from s begin_mark i of
        None \<Rightarrow> (masked, s)
      | Some b \<Rightarrow>
          (case find_from (slice b (min (length s) (b + 64 + length key_mark)) s) key_mark 0 of
             None \<Rightarrow> mask_keys_loop masked (b + length begin_mark) s
           | Some p \<Rightarrow>
               (let k = p + b
                in if CHR 0x0A \<in> set (slice b k s) then mask_keys_loop masked (b + length begin_mark) s
                   else
                     (let body = k + length key_mark
                      in case find_from s end_mark body of
                           None \<Rightarrow> (masked, s)
                         | Some e \<Rightarrow> mask_keys_loop (masked + 1) (e + length end_mark) (star s body e)))))"
  by pat_completeness auto
termination
proof (relation "measure (\<lambda>(masked, i, s). length s - i)")
  fix masked :: nat and i s b
  assume b: "find_from s begin_mark i = Some b"
  have n: "begin_mark \<noteq> []" by (simp add: begin_mark_def)
  note f = find_from_bound [OF b n]
  have l: "0 < length begin_mark" using n by simp
  then have less: "length s - (b + length begin_mark) < length s - i" using f by linarith
  show "((masked, b + length begin_mark, s), masked, i, s) \<in> measure (\<lambda>(masked, i, s). length s - i)"
    using less by simp
  then show "((masked, b + length begin_mark, s), masked, i, s) \<in> measure (\<lambda>(masked, i, s). length s - i)" .
  fix p k body e
  assume e: "find_from s end_mark body = Some e" and body: "body = k + length key_mark" and k: "k = p + b"
  have "end_mark \<noteq> []" by (simp add: end_mark_def)
  from find_from_bound [OF e this] have "body \<le> e" "e + length end_mark \<le> length s" by simp_all
  moreover have "0 < length end_mark" by (simp add: end_mark_def)
  ultimately have "length s - (e + length end_mark) < length s - i" using f body k by linarith
  then show "((masked + 1, e + length end_mark, star s body e), masked, i, s) \<in> measure (\<lambda>(masked, i, s). length s - i)"
    by simp
qed simp

declare mask_keys_loop.simps [simp del]

definition mask_private_keys :: "string \<Rightarrow> nat \<times> string" where
  "mask_private_keys s = mask_keys_loop 0 0 s"

definition may_start :: "char \<Rightarrow> bool" where
  "may_start c \<longleftrightarrow> c \<in> set (map (\<lambda>t. hd (tk_prefix t)) tokens @ ''ebB:'')"

text \<open>The two kinds of match: a whole token, or a part of what was found.\<close>

definition masked_span :: "string \<Rightarrow> nat \<Rightarrow> (nat \<times> nat) option" where
  "masked_span s i =
     (case token_at s i of
        Some e \<Rightarrow> Some (i, e)
      | None \<Rightarrow>
          (case jwt_at s i of
             Some e \<Rightarrow> Some (i, e)
           | None \<Rightarrow> (case bearer_at s i of Some r \<Rightarrow> Some r | None \<Rightarrow> url_password_at s i)))"

lemma run_end_bounds: "i \<le> run_end P s i" "i \<le> length s \<Longrightarrow> run_end P s i \<le> length s"
proof -
  show "i \<le> run_end P s i" by (simp add: run_end_def)
  have "length (takeWhile P (drop i s)) \<le> length s - i" using length_takeWhile_le [of P "drop i s"] by simp
  then show "i \<le> length s \<Longrightarrow> run_end P s i \<le> length s" unfolding run_end_def by linarith
qed

lemma starts_with_length: "starts_with (drop i s) p \<Longrightarrow> p \<noteq> [] \<Longrightarrow> i + length p \<le> length s"
proof -
  assume "starts_with (drop i s) p" and "p \<noteq> []"
  then have "length p \<le> length s - i" "0 < length p"
    unfolding starts_with_def by (metis length_drop length_take min.cobounded1, simp)
  then show ?thesis by linarith
qed

lemma scan_to_bound: "scan_to stop bads n s = Some m \<Longrightarrow> m \<le> length s"
  by (induction stop bads n s arbitrary: m rule: scan_to.induct) (auto split: if_splits)

lemma tokens_shape: "t \<in> set tokens \<Longrightarrow> tk_prefix t \<noteq> [] \<and> 0 < tk_min t"
  by (auto simp: tokens_def)

lemma token_end_bounds:
  assumes "token_end t s i = Some e" and "tk_prefix t \<noteq> []"
  shows "i < e \<and> e \<le> length s"
proof -
  define q where "q = i + length (tk_prefix t)"
  have q: "q \<le> length s" "i < q"
    using assms starts_with_length [of i s "tk_prefix t"] by (auto simp: token_end_def q_def split: if_splits)
  note r = run_end_bounds(1) [of q "tk_body t" s] run_end_bounds(2) [OF q(1), of "tk_body t"]
  have "e = run_end (tk_body t) s q \<or> (\<exists>m. e = min (run_end (tk_body t) s q) (q + m))"
    using assms(1) by (auto simp: token_end_def Let_def q_def split: if_splits option.splits)
  then show ?thesis using q r by auto
qed

lemma first_token_Some: "first_token ts s i = Some e \<Longrightarrow> \<exists>t\<in>set ts. token_end t s i = Some e"
  by (induction ts) (auto split: option.splits)

lemma token_at_bounds: "token_at s i = Some e \<Longrightarrow> i < e \<and> e \<le> length s"
  unfolding token_at_def using first_token_Some token_end_bounds tokens_shape by metis

lemma jwt_at_bounds:
  assumes "jwt_at s i = Some e"
  shows "i < e \<and> e \<le> length s"
proof -
  obtain a b where a: "a = run_end key_char s i" "a < length s" "10 \<le> a - i"
      and b: "b = run_end key_char s (a + 1)" "b < length s" and e: "e = run_end key_char s (b + 1)"
    using assms by (auto simp: jwt_at_def char_at_def Let_def not_less split: if_splits)
  have "e \<le> length s" using e b(2) run_end_bounds(2) [of "b + 1" s key_char] by simp
  moreover have "i \<le> a" "a + 1 \<le> b" "b + 1 \<le> e"
    using a(1) b(1) e run_end_bounds(1) by metis+
  ultimately show ?thesis by linarith
qed

lemma bearer_at_bounds: "bearer_at s i = Some (f, e) \<Longrightarrow> i < f \<and> f < e \<and> e \<le> length s"
  using run_end_bounds(2) [of "i + 7" s bearer_char] by (auto simp: bearer_at_def Let_def split: if_splits)

lemma url_password_bounds: "url_password_at s i = Some (f, e) \<Longrightarrow> i < f \<and> f < e \<and> e \<le> length s"
  by (auto simp: url_password_at_def char_at_def Let_def split: if_splits option.splits)

lemma masked_span_bounds: "masked_span s i = Some (f, e) \<Longrightarrow> i \<le> f \<and> f < e \<and> e \<le> length s"
  by (auto simp: masked_span_def split: option.splits
      dest!: token_at_bounds jwt_at_bounds bearer_at_bounds url_password_bounds)

function mask_text_loop :: "nat \<Rightarrow> nat \<Rightarrow> string \<Rightarrow> nat \<times> string" where
  "mask_text_loop masked i s =
     (if i < length s then
        (if \<not> may_start (s ! i) then mask_text_loop masked (i + 1) s
         else case masked_span s i of
                Some (f, e) \<Rightarrow> mask_text_loop (masked + 1) e (star s f e)
              | None \<Rightarrow> mask_text_loop masked (i + 1) s)
      else (masked, s))"
  by pat_completeness auto
termination
  by (relation "measure (\<lambda>(masked, i, s). length s - i)") (auto dest!: masked_span_bounds)

declare mask_text_loop.simps [simp del]

definition mask_text_bytes :: "string \<Rightarrow> nat \<times> string" where
  "mask_text_bytes s =
     (let (n, s1) = mask_private_keys s; (m, s2) = mask_text_loop 0 0 s1 in (n + m, s2))"

subsection \<open>JSON\<close>

definition is_blob :: "string \<Rightarrow> bool" where
  "is_blob s \<longleftrightarrow> starts_with s ''data:''
     \<or> (2048 < length s \<and> list_all (\<lambda>c. alnum c \<or> c \<in> set ''+/='') s)"

text \<open>The end of the string that starts at \<open>j\<close>: its quote, or past the end of the body.\<close>

function string_end :: "string \<Rightarrow> nat \<Rightarrow> nat" where
  "string_end s j =
     (if j < length s \<and> s ! j \<noteq> CHR 0x22 then string_end s (j + (if s ! j = backslash then 2 else 1)) else j)"
  by pat_completeness auto
termination
  by (relation "measure (\<lambda>(s, j). length s - j)") auto

declare string_end.simps [simp del]

lemma string_end_ge: "j \<le> string_end s j"
proof (induction s j rule: string_end.induct)
  case (1 s j)
  show ?case
  proof (cases "j < length s \<and> s ! j \<noteq> CHR 0x22")
    case True
    then show ?thesis using "1.IH" by (subst string_end.simps) simp
  next
    case False
    then show ?thesis by (subst string_end.simps) auto
  qed
qed

text \<open>Mask a part of the body in place.\<close>

definition mask_slice :: "nat \<Rightarrow> nat \<Rightarrow> string \<Rightarrow> nat \<times> string" where
  "mask_slice i j s = (let (n, t) = mask_text_bytes (slice i j s) in (n, take i s @ t @ drop j s))"

function mask_json_loop :: "nat \<Rightarrow> nat \<Rightarrow> string \<Rightarrow> nat \<times> string" where
  "mask_json_loop masked i s =
     (if i < length s then
        (if s ! i \<noteq> CHR 0x22 then mask_json_loop masked (i + 1) s
         else
           (let start = i + 1; e = min (string_end s start) (length s);
                (n, s') = (if is_blob (slice start e s) then (0, s) else mask_slice start e s)
            in mask_json_loop (masked + n) (e + 1) s'))
      else (masked, s))"
  by pat_completeness auto

lemma mask_text_loop_length [simp]: "length (snd (mask_text_loop m i s)) = length s"
  by (induction m i s rule: mask_text_loop.induct) (subst mask_text_loop.simps, simp split: option.splits prod.splits)

lemma mask_keys_loop_length [simp]: "length (snd (mask_keys_loop m i s)) = length s"
  by (induction m i s rule: mask_keys_loop.induct)
    (subst mask_keys_loop.simps, simp add: Let_def split: option.splits)

lemma mask_text_bytes_length [simp]: "length (snd (mask_text_bytes s)) = length s"
proof -
  obtain n s1 where a: "mask_private_keys s = (n, s1)" by fastforce
  obtain m s2 where b: "mask_text_loop 0 0 s1 = (m, s2)" by fastforce
  show ?thesis
    using mask_keys_loop_length [of 0 0 s] mask_text_loop_length [of 0 0 s1] a b
    by (simp add: mask_text_bytes_def mask_private_keys_def del: mask_keys_loop_length mask_text_loop_length)
qed

lemma mask_slice_length: "i \<le> length s \<Longrightarrow> j \<le> length s \<Longrightarrow> i \<le> j \<Longrightarrow> length (snd (mask_slice i j s)) = length s"
  using mask_text_bytes_length [of "slice i j s"]
  by (cases "mask_text_bytes (slice i j s)") (simp add: mask_slice_def slice_def del: mask_text_bytes_length)

termination mask_json_loop
proof (relation "measure (\<lambda>(masked, i, s). length s - i)")
  fix masked i :: nat and s start e y n s'
  assume i: "i < length s" "\<not> s ! i \<noteq> CHR 0x22" and st: "start = i + 1"
    and e: "e = min (string_end s start) (length s)"
    and y: "y = (if is_blob (slice start e s) then (0, s) else mask_slice start e s)" "(n, s') = y"
  have b: "start \<le> e" "e \<le> length s" using e st i string_end_ge [of start s] by simp_all
  have "length s' = length s"
    using y b mask_slice_length [of start s e] st i by (auto split: if_splits) (metis snd_conv)
  then show "((masked + n, e + 1, s'), masked, i, s) \<in> measure (\<lambda>(masked, i, s). length s - i)"
    using b st i by simp
qed simp_all

declare mask_json_loop.simps [simp del]

definition mask_json_bytes :: "string \<Rightarrow> nat \<times> string" where
  "mask_json_bytes s = mask_json_loop 0 0 s"

definition mask_body :: "string \<Rightarrow> string \<Rightarrow> nat \<times> string" where
  "mask_body content_type body =
     (if starts_with content_type ''application/json'' then mask_json_bytes body
      else if starts_with content_type ''text/plain'' then mask_text_bytes body
      else (0, body))"

end
