(* ===== verification/Agent_State.thy ===== *)
theory Agent_State
  imports Claim
begin

text \<open>
  Busy, waiting or idle (\<open>claude-replay-engine/src/state.rs\<close>): the decision over one tick's
  signals, and the reading of a transcript's tail through the adapter's own decoder.  The file is
  its bytes; an adapter gains its two vocabulary hooks \<open>turn_aside\<close> and \<open>turn_ended\<close>.
\<close>

subsection \<open>Verdicts\<close>

datatype agent_state = Busy | Wait | Idle

datatype state_reason =
    Exited | ExitedMidWork | Question | PlanApproval | QueuedPrompt | Tool | Thinking | Permission
  | EndedQuestion | ToolError | Failed | Done | Starting | Fleet | Stalled

fun reason_as_str :: "state_reason \<Rightarrow> string" where
  "reason_as_str Exited = ''exited''"
| "reason_as_str ExitedMidWork = ''exited-mid-work''"
| "reason_as_str Question = ''question''"
| "reason_as_str PlanApproval = ''plan-approval''"
| "reason_as_str QueuedPrompt = ''queued-prompt''"
| "reason_as_str Tool = ''tool''"
| "reason_as_str Thinking = ''thinking''"
| "reason_as_str Permission = ''permission''"
| "reason_as_str EndedQuestion = ''ended-question''"
| "reason_as_str ToolError = ''error''"
| "reason_as_str Failed = ''failed''"
| "reason_as_str Done = ''done''"
| "reason_as_str Starting = ''starting''"
| "reason_as_str Fleet = ''fleet''"
| "reason_as_str Stalled = ''stalled''"

datatype confidence = Observed | Inferred

record verdict =
  ve_state :: agent_state
  ve_reason :: state_reason
  ve_detail :: string
  ve_confidence :: confidence

definition observed_as :: "agent_state \<Rightarrow> state_reason \<Rightarrow> string \<Rightarrow> verdict" where
  "observed_as st r d = \<lparr>ve_state = st, ve_reason = r, ve_detail = d, ve_confidence = Observed\<rparr>"

record pending_tool =
  pt_id :: string
  pt_name :: string
  pt_interactive :: bool

datatype client_wait = WaitQuestion | WaitPermission | WaitPlan

datatype tail_last = LastUser | LastAssistantEnded | LastAssistantMid | LastUnknown

record state_signals =
  si_process_alive :: bool
  si_tool_children :: "bool option"
  si_grew_recently :: bool
  si_quiet_secs :: nat
  si_pending :: "pending_tool list"
  si_queued_prompt :: bool
  si_last :: tail_last
  si_ends_with_question :: bool
  si_final_line :: "string option"
  si_last_tool_error :: bool
  si_fleet_running :: bool
  si_last_failure :: bool
  si_client_wait :: "client_wait option"

definition permission_quiet_secs :: nat where "permission_quiet_secs = 20"
definition stall_after_secs :: nat where "stall_after_secs = 600"

definition tool_list :: "pending_tool list \<Rightarrow> string" where
  "tool_list pending = join_with '', '' (take 3 (map pt_name pending))"

definition or_empty :: "string option \<Rightarrow> string" where
  "or_empty x = (case x of Some s \<Rightarrow> s | None \<Rightarrow> [])"

text \<open>The rules in the code's order, by the number the code gives them.\<close>

definition exited_verdict :: "state_signals \<Rightarrow> verdict" where
  "exited_verdict s =
     (if si_pending s = [] then observed_as Idle Exited []
      else observed_as Idle ExitedMidWork (''exited with '' @ tool_list (si_pending s) @ '' pending''))"

definition modal_verdict :: "state_signals \<Rightarrow> pending_tool \<Rightarrow> verdict" where
  "modal_verdict s t =
     (if pt_name t = ''ExitPlanMode'' then observed_as Wait PlanApproval ''plan ready for approval''
      else observed_as Wait Question (case si_final_line s of Some l \<Rightarrow> l | None \<Rightarrow> pt_name t))"

definition client_verdict :: "state_signals \<Rightarrow> client_wait \<Rightarrow> verdict" where
  "client_verdict s w =
     (case w of
        WaitQuestion \<Rightarrow> observed_as Wait Question (or_empty (si_final_line s))
      | WaitPermission \<Rightarrow> observed_as Wait Permission []
      | WaitPlan \<Rightarrow> observed_as Wait PlanApproval ''plan ready for approval'')"

definition growing_verdict :: "state_signals \<Rightarrow> verdict" where
  "growing_verdict s =
     (case si_pending s of
        t # _ \<Rightarrow> observed_as Busy Tool (pt_name t)
      | [] \<Rightarrow> observed_as Busy Thinking [])"

definition quiet_tool_verdict :: "state_signals \<Rightarrow> pending_tool \<Rightarrow> verdict" where
  "quiet_tool_verdict s t =
     (if si_tool_children s = Some False \<and> permission_quiet_secs \<le> si_quiet_secs s
      then \<lparr>ve_state = Wait, ve_reason = Permission, ve_detail = pt_name t, ve_confidence = Inferred\<rparr>
      else observed_as Busy Tool (pt_name t))"

definition ended_verdict :: "state_signals \<Rightarrow> verdict" where
  "ended_verdict s =
     (let detail = or_empty (si_final_line s)
      in if si_last_failure s then observed_as Idle Failed detail
         else if si_ends_with_question s then observed_as Idle EndedQuestion detail
         else if si_last_tool_error s then observed_as Idle ToolError detail
         else observed_as Idle Done detail)"

definition open_verdict :: "state_signals \<Rightarrow> verdict" where
  "open_verdict s =
     (if stall_after_secs \<le> si_quiet_secs s \<and> si_tool_children s \<noteq> Some True then observed_as Idle Stalled []
      else case si_last s of
             LastUser \<Rightarrow> observed_as Busy Starting []
           | _ \<Rightarrow> observed_as Busy Thinking [])"

definition derive_state :: "state_signals \<Rightarrow> verdict" where
  "derive_state s =
     (if \<not> si_process_alive s then exited_verdict s
      else case find pt_interactive (si_pending s) of
        Some t \<Rightarrow> modal_verdict s t
      | None \<Rightarrow>
        (case si_client_wait s of
           Some w \<Rightarrow> client_verdict s w
         | None \<Rightarrow>
           if si_queued_prompt s then observed_as Busy QueuedPrompt []
           else if si_grew_recently s then growing_verdict s
           else case si_pending s of
             t # _ \<Rightarrow> quiet_tool_verdict s t
           | [] \<Rightarrow>
               if si_fleet_running s then observed_as Busy Fleet []
               else if si_last s = LastAssistantEnded then ended_verdict s
               else open_verdict s))"

subsection \<open>The tail's last word\<close>

record tail_pulse =
  tp_last :: tail_last
  tp_final_text :: "string option"
  tp_queued_prompt :: bool
  tp_last_tool_error :: bool
  tp_last_failure :: bool

definition pulse_default :: tail_pulse where
  "pulse_default = \<lparr>tp_last = LastUnknown, tp_final_text = None, tp_queued_prompt = False,
     tp_last_tool_error = False, tp_last_failure = False\<rparr>"

record ('p, 'm) pulse_adapter = "('p, 'm) adapter" +
  pa_turn_aside :: "string list \<Rightarrow> bool list"
  pa_turn_ended :: "string \<Rightarrow> bool option"

text \<open>The lines of a window: the severed first one dropped, then those beside the conversation.\<close>

definition window_lines :: "('p, 'm) pulse_adapter \<Rightarrow> nat \<Rightarrow> string \<Rightarrow> string list" where
  "window_lines ad start raw =
     (let ls = std_lines (utf8_lossy raw);
          ls' = (if 0 < start \<and> ls \<noteq> [] then tl ls else ls);
          aside = pa_turn_aside ad ls'
      in drop_flagged 0 (\<lambda>i. i < length aside \<and> aside ! i) ls')"

text \<open>The last line with an opinion on the turn.\<close>

fun first_opinion :: "(string \<Rightarrow> bool option) \<Rightarrow> string list \<Rightarrow> bool option" where
  "first_opinion ended [] = None"
| "first_opinion ended (l # ls) =
     (case ended l of Some e \<Rightarrow> Some e | None \<Rightarrow> first_opinion ended ls)"

definition turn_opinion :: "(string \<Rightarrow> bool option) \<Rightarrow> string list \<Rightarrow> bool option" where
  "turn_opinion ended ls = first_opinion ended (rev ls)"

fun decode_window :: "('p, 'm) pulse_adapter \<Rightarrow> string list \<Rightarrow> 'p \<Rightarrow> string \<Rightarrow> message list" where
  "decode_window ad [] pre cwd = []"
| "decode_window ad (l # ls) pre cwd =
     (let body = trim_end l
      in if body = [] then decode_window ad ls pre cwd
         else case ad_pre_process ad pre body of
                (PreIgnore, pre') \<Rightarrow> decode_window ad ls pre' cwd
              | (PreMessages ms, pre') \<Rightarrow> ms @ decode_window ad ls pre' cwd
              | (PreInclude, pre') \<Rightarrow>
                  (case ad_decode ad body cwd of (ms, cwd') \<Rightarrow> ms @ decode_window ad ls pre' cwd'))"

record pulse_state =
  pu_pulse :: tail_pulse
  pu_queue_len :: int
  pu_last_user :: bool
  pu_saw :: bool

definition pulse_start :: pulse_state where
  "pulse_start = \<lparr>pu_pulse = pulse_default, pu_queue_len = 0, pu_last_user = False, pu_saw = False\<rparr>"

definition user_word :: "pulse_state \<Rightarrow> pulse_state" where
  "user_word s = s\<lparr>pu_last_user := True, pu_saw := True\<rparr>"

definition prose_word :: "string \<Rightarrow> pulse_state \<Rightarrow> pulse_state" where
  "prose_word t s = s\<lparr>pu_last_user := False, pu_saw := True,
     pu_pulse := (pu_pulse s)\<lparr>tp_final_text := Some t, tp_last_failure := False\<rparr>\<rparr>"

definition queue_word :: "queue_op_kind \<Rightarrow> bool \<Rightarrow> pulse_state \<Rightarrow> pulse_state" where
  "queue_word op prose s =
     (case op of
        QEnqueue \<Rightarrow> if prose then s\<lparr>pu_queue_len := pu_queue_len s + 1\<rparr> else s
      | QDequeue \<Rightarrow> s\<lparr>pu_queue_len := pu_queue_len s - 1\<rparr>
      | QRemove \<Rightarrow> s\<lparr>pu_queue_len := pu_queue_len s - 1\<rparr>
      | QPopAll \<Rightarrow> s\<lparr>pu_queue_len := 0\<rparr>)"

fun pulse_step :: "message \<Rightarrow> pulse_state \<Rightarrow> pulse_state" where
  "pulse_step (MUserText _) s = user_word s"
| "pulse_step (MUserReply _ _) s = user_word s"
| "pulse_step (MUserInbox _ _ _ _) s = user_word s"
| "pulse_step (MPeerText _ _ _ _ _) s = user_word s"
| "pulse_step (MCommand _ _ _) s = user_word s"
| "pulse_step (MAssistantText t) s = prose_word t s"
| "pulse_step (MAssistantCutOff t) s = prose_word t s"
| "pulse_step (MAssistantMessage t _ _) s = prose_word t s"
| "pulse_step (MSystemNote _ NoteFailure) s = s\<lparr>pu_pulse := (pu_pulse s)\<lparr>tp_last_failure := True\<rparr>\<rparr>"
| "pulse_step (MToolResult _ _ _ is_error) s =
     s\<lparr>pu_pulse := (pu_pulse s)\<lparr>tp_last_tool_error := is_error = Some True\<rparr>\<rparr>"
| "pulse_step (MQueueOp op _ prose _) s = queue_word op prose s"
| "pulse_step _ s = s"

definition last_word :: "pulse_state \<Rightarrow> bool option \<Rightarrow> tail_last" where
  "last_word s ended =
     (if \<not> pu_saw s then LastUnknown
      else if pu_last_user s then LastUser
      else if ended = Some True then LastAssistantEnded
      else LastAssistantMid)"

definition pulse_of :: "message list \<Rightarrow> bool option \<Rightarrow> tail_pulse" where
  "pulse_of ms ended =
     (let s = fold pulse_step ms pulse_start
      in (pu_pulse s)\<lparr>tp_queued_prompt := 0 < pu_queue_len s, tp_last := last_word s ended\<rparr>)"

record pulse_read =
  pr_pulse :: tail_pulse
  pr_had_opinion :: bool
  pr_whole :: bool

definition pulse_of_lines :: "('p, 'm) pulse_adapter \<Rightarrow> string list \<Rightarrow> tail_pulse" where
  "pulse_of_lines ad ls =
     pulse_of (decode_window ad ls (ad_pre_new ad) []) (turn_opinion (pa_turn_ended ad) ls)"

text \<open>\<open>None\<close> is a file that cannot be opened or read.\<close>

definition pulse_within :: "('p, 'm) pulse_adapter \<Rightarrow> string option \<Rightarrow> nat \<Rightarrow> pulse_read option" where
  "pulse_within ad file window =
     map_option (\<lambda>bytes.
       let start = length bytes - window; ls = window_lines ad start (drop start bytes)
       in \<lparr>pr_pulse = pulse_of_lines ad ls, pr_had_opinion = turn_opinion (pa_turn_ended ad) ls \<noteq> None,
           pr_whole = start = 0\<rparr>) file"

definition pulse_tail_bytes :: nat where "pulse_tail_bytes = 64 * 1024"
definition pulse_tail_max_bytes :: nat where "pulse_tail_max_bytes = 4 * 1024 * 1024"

partial_function (option) pulse_loop ::
  "('p, 'm) pulse_adapter \<Rightarrow> string option \<Rightarrow> nat \<Rightarrow> tail_pulse option" where
  "pulse_loop ad file window =
     (case pulse_within ad file window of
        None \<Rightarrow> Some pulse_default
      | Some r \<Rightarrow>
          if pr_had_opinion r \<or> pr_whole r \<or> pulse_tail_max_bytes \<le> window then Some (pr_pulse r)
          else pulse_loop ad file (window * 4))"

definition read_pulse :: "('p, 'm) pulse_adapter \<Rightarrow> string option \<Rightarrow> tail_pulse option" where
  "read_pulse ad file = pulse_loop ad file pulse_tail_bytes"

end
