(* ===== verification/Agent_State_Props.thy ===== *)
theory Agent_State_Props
  imports Agent_State Durable_Props Parse_Props
begin

text \<open>
  What a verdict means in terms of the signals, that reading the tail ends, and that a read of the
  tail agrees with a read of the whole file.
\<close>

subsection \<open>Verdicts\<close>

text \<open>Each reason belongs to one state.\<close>

fun reason_state :: "state_reason \<Rightarrow> agent_state" where
  "reason_state Question = Wait"
| "reason_state PlanApproval = Wait"
| "reason_state Permission = Wait"
| "reason_state QueuedPrompt = Busy"
| "reason_state Tool = Busy"
| "reason_state Thinking = Busy"
| "reason_state Starting = Busy"
| "reason_state Fleet = Busy"
| "reason_state _ = Idle"

definition asks_reader :: "state_signals \<Rightarrow> bool" where
  "asks_reader s \<longleftrightarrow> (\<exists>t\<in>set (si_pending s). pt_interactive t) \<or> si_client_wait s \<noteq> None"

definition quiet_session :: "state_signals \<Rightarrow> bool" where
  "quiet_session s \<longleftrightarrow> si_process_alive s \<and> \<not> asks_reader s \<and> \<not> si_queued_prompt s \<and> \<not> si_grew_recently s"

lemmas verdict_defs = exited_verdict_def modal_verdict_def client_verdict_def growing_verdict_def
  quiet_tool_verdict_def ended_verdict_def open_verdict_def observed_as_def Let_def

lemma find_interactive: "find pt_interactive ts = None \<longleftrightarrow> \<not> (\<exists>t\<in>set ts. pt_interactive t)"
  by (auto simp: find_None_iff)

lemma derive_asks:
  assumes "si_process_alive s" and "asks_reader s"
  shows "ve_state (derive_state s) = Wait" "ve_confidence (derive_state s) = Observed"
    "reason_state (ve_reason (derive_state s)) = Wait"
  using assms by (auto simp: derive_state_def asks_reader_def verdict_defs find_interactive
      split: option.splits client_wait.splits)

lemma derive_quiet:
  assumes "quiet_session s"
  shows "derive_state s =
    (case si_pending s of
       t # _ \<Rightarrow> quiet_tool_verdict s t
     | [] \<Rightarrow> if si_fleet_running s then observed_as Busy Fleet []
         else if si_last s = LastAssistantEnded then ended_verdict s else open_verdict s)"
proof -
  have "find pt_interactive (si_pending s) = None"
    using assms by (simp add: find_interactive quiet_session_def asks_reader_def)
  then show ?thesis using assms by (simp add: derive_state_def quiet_session_def asks_reader_def)
qed

lemma derive_active:
  assumes "si_process_alive s" and "\<not> asks_reader s" and "si_queued_prompt s \<or> si_grew_recently s"
  shows "ve_state (derive_state s) = Busy" "ve_confidence (derive_state s) = Observed"
    "reason_state (ve_reason (derive_state s)) = Busy"
proof -
  have "find pt_interactive (si_pending s) = None" "si_client_wait s = None"
    using assms(2) by (simp_all add: find_interactive asks_reader_def)
  then show "ve_state (derive_state s) = Busy" "ve_confidence (derive_state s) = Observed"
    "reason_state (ve_reason (derive_state s)) = Busy"
    using assms by (auto simp: derive_state_def verdict_defs split: list.splits)
qed

lemma derive_dead:
  assumes "\<not> si_process_alive s"
  shows "ve_state (derive_state s) = Idle" "ve_confidence (derive_state s) = Observed"
    "reason_state (ve_reason (derive_state s)) = Idle"
  using assms by (simp_all add: derive_state_def verdict_defs)

lemma asks_quiet_irrelevant [simp]: "asks_reader (s\<lparr>si_quiet_secs := q\<rparr>) = asks_reader s"
  "quiet_session (s\<lparr>si_quiet_secs := q\<rparr>) = quiet_session s"
  by (simp_all add: asks_reader_def quiet_session_def)

lemma signal_cases:
  obtains (dead) "\<not> si_process_alive s"
  | (asks) "si_process_alive s" "asks_reader s"
  | (active) "si_process_alive s" "\<not> asks_reader s" "si_queued_prompt s \<or> si_grew_recently s"
  | (quiet) "quiet_session s"
  by (auto simp: quiet_session_def)

lemma quiet_states:
  assumes "quiet_session s"
  shows "ve_state (derive_state s) = Wait \<longleftrightarrow> si_pending s \<noteq> [] \<and> si_tool_children s = Some False
      \<and> permission_quiet_secs \<le> si_quiet_secs s"
    and "ve_state (derive_state s) = Idle \<longleftrightarrow> si_pending s = [] \<and> \<not> si_fleet_running s
      \<and> (si_last s = LastAssistantEnded \<or> stall_after_secs \<le> si_quiet_secs s \<and> si_tool_children s \<noteq> Some True)"
    and "ve_confidence (derive_state s) = Inferred \<longleftrightarrow> ve_state (derive_state s) = Wait"
    and "reason_state (ve_reason (derive_state s)) = ve_state (derive_state s)"
  unfolding derive_quiet [OF assms]
  by (auto simp: verdict_defs split: list.splits tail_last.splits)

text \<open>
  C34: a verdict says what the signals justify, and nothing else.  A session waits exactly when its
  process lives and a question is open: an interactive call, the client's own word, or, inferred and
  marked so, a call without a child process after twenty seconds of silence.  It is idle exactly
  when the process is gone or nothing at all is open and the turn ended or stalled.  The reason
  fits the state, and silence alone never turns a session that is not busy into a busy one.
\<close>

theorem verdict_justified:
  "(ve_state (derive_state s) = Wait \<longleftrightarrow>
      si_process_alive s \<and> asks_reader s
      \<or> quiet_session s \<and> si_pending s \<noteq> [] \<and> si_tool_children s = Some False \<and> 20 \<le> si_quiet_secs s)
   \<and> (ve_state (derive_state s) = Idle \<longleftrightarrow>
      \<not> si_process_alive s
      \<or> quiet_session s \<and> si_pending s = [] \<and> \<not> si_fleet_running s
        \<and> (si_last s = LastAssistantEnded \<or> 600 \<le> si_quiet_secs s \<and> si_tool_children s \<noteq> Some True))
   \<and> (ve_confidence (derive_state s) = Inferred \<longleftrightarrow> ve_state (derive_state s) = Wait \<and> \<not> asks_reader s)
   \<and> ve_state (derive_state s) = reason_state (ve_reason (derive_state s))
   \<and> (ve_state (derive_state s) = Busy
      \<or> ve_state (derive_state (s\<lparr>si_quiet_secs := si_quiet_secs s + d\<rparr>)) = ve_state (derive_state s))"
proof -
  have k: "permission_quiet_secs = 20" "stall_after_secs = 600"
    by (simp_all add: permission_quiet_secs_def stall_after_secs_def)
  show ?thesis
  proof (cases s rule: signal_cases)
    case dead
    then show ?thesis using derive_dead [of s] derive_dead [of "s\<lparr>si_quiet_secs := si_quiet_secs s + d\<rparr>"]
      by (simp add: quiet_session_def)
  next
    case asks
    then show ?thesis using derive_asks [of s] derive_asks [of "s\<lparr>si_quiet_secs := si_quiet_secs s + d\<rparr>"]
      by (simp add: quiet_session_def)
  next
    case active
    then show ?thesis using derive_active [OF active] by (auto simp: quiet_session_def)
  next
    case quiet
    have q': "quiet_session (s\<lparr>si_quiet_secs := si_quiet_secs s + d\<rparr>)" using quiet by simp
    have a: "si_process_alive s" "\<not> asks_reader s" using quiet by (simp_all add: quiet_session_def)
    show ?thesis
      using quiet_states [OF quiet] quiet_states [OF q'] a quiet unfolding k
      by (cases "ve_state (derive_state s)") auto
  qed
qed

definition silent_tool :: state_signals where
  "silent_tool =
     \<lparr>si_process_alive = True, si_tool_children = Some False, si_grew_recently = False, si_quiet_secs = 30,
      si_pending = [\<lparr>pt_id = ''t'', pt_name = ''Bash'', pt_interactive = False\<rparr>], si_queued_prompt = False,
      si_last = LastUser, si_ends_with_question = False, si_final_line = None, si_last_tool_error = False,
      si_fleet_running = False, si_last_failure = False, si_client_wait = None\<rparr>"

lemma verdict_justified_witness:
  "ve_state (derive_state silent_tool) = Wait \<and> ve_confidence (derive_state silent_tool) = Inferred
   \<and> ve_state (derive_state (silent_tool\<lparr>si_quiet_secs := 100\<rparr>)) = Wait"
proof -
  have s: "quiet_session silent_tool" "\<not> asks_reader silent_tool" "si_pending silent_tool \<noteq> []"
      "si_tool_children silent_tool = Some False" "si_quiet_secs silent_tool = 30"
    by (simp_all add: quiet_session_def asks_reader_def silent_tool_def)
  have "silent_tool\<lparr>si_quiet_secs := si_quiet_secs silent_tool + 70\<rparr> = silent_tool\<lparr>si_quiet_secs := 100\<rparr>"
    by (simp add: s(5))
  then show ?thesis using verdict_justified [of silent_tool 70] s by auto
qed

subsection \<open>Reading ends\<close>

text \<open>
  Reading a transcript's tail ends, after at most four reads, with the first window of
  64, 256, 1024 and 4096 KiB that holds a line with an opinion on the turn or the whole file, or
  with the last of them.
\<close>

theorem pulse_reads_enough:
  "\<exists>k\<le>3. read_pulse ad file =
      Some (case pulse_within ad file (65536 * 4 ^ k) of None \<Rightarrow> pulse_default | Some r \<Rightarrow> pr_pulse r)
    \<and> (\<forall>j<k. \<exists>r. pulse_within ad file (65536 * 4 ^ j) = Some r \<and> \<not> pr_had_opinion r \<and> \<not> pr_whole r)
    \<and> (case pulse_within ad file (65536 * 4 ^ k) of
         None \<Rightarrow> file = None | Some r \<Rightarrow> pr_had_opinion r \<or> pr_whole r \<or> k = 3)"
proof -
  define stop where "stop w \<longleftrightarrow> (case pulse_within ad file w of None \<Rightarrow> True | Some r \<Rightarrow> pr_had_opinion r \<or> pr_whole r)" for w
  define res where "res w = (case pulse_within ad file w of None \<Rightarrow> pulse_default | Some r \<Rightarrow> pr_pulse r)" for w
  have step: "pulse_loop ad file w = (if stop w \<or> pulse_tail_max_bytes \<le> w then Some (res w) else pulse_loop ad file (w * 4))" for w
    by (subst pulse_loop.simps) (auto simp: stop_def res_def split: option.splits)
  have go: "\<not> stop w \<Longrightarrow> \<exists>r. pulse_within ad file w = Some r \<and> \<not> pr_had_opinion r \<and> \<not> pr_whole r" for w
    by (auto simp: stop_def split: option.splits)
  have fin: "stop w \<Longrightarrow> case pulse_within ad file w of None \<Rightarrow> file = None | Some r \<Rightarrow> pr_had_opinion r \<or> pr_whole r \<or> k = 3" for w and k :: nat
    by (auto simp: stop_def pulse_within_def split: option.splits)
  have fin3: "case pulse_within ad file w of None \<Rightarrow> file = None | Some r \<Rightarrow> pr_had_opinion r \<or> pr_whole r \<or> (3::nat) = 3" for w
    by (auto simp: pulse_within_def split: option.splits)
  have lim: "pulse_tail_max_bytes \<le> 65536 * 4 ^ k \<longleftrightarrow> 3 \<le> k" for k
  proof -
    have "pulse_tail_max_bytes = 65536 * 4 ^ 3" by (simp add: pulse_tail_max_bytes_def)
    moreover have "(65536::nat) * 4 ^ 3 \<le> 65536 * 4 ^ k \<longleftrightarrow> (4::nat) ^ 3 \<le> 4 ^ k" by (simp only: mult_le_cancel1) simp
    moreover have "(4::nat) ^ 3 \<le> 4 ^ k \<longleftrightarrow> 3 \<le> k" by (rule power_increasing_iff) simp
    ultimately show ?thesis by metis
  qed
  have run: "pulse_loop ad file (65536 * 4 ^ k)
      = (if stop (65536 * 4 ^ k) \<or> 3 \<le> k then Some (res (65536 * 4 ^ k)) else pulse_loop ad file (65536 * 4 ^ Suc k))" for k
    using step [of "65536 * 4 ^ k"] unfolding lim by (simp only: power_Suc2 mult.assoc)
  let ?P = "\<lambda>k. stop (65536 * 4 ^ k) \<or> 3 \<le> k"
  define k where "k = (LEAST k. ?P k)"
  have k: "?P k" "k \<le> 3" unfolding k_def by (rule LeastI [of ?P 3], simp) (rule Least_le, simp)
  have before: "\<not> stop (65536 * 4 ^ j)" "\<not> 3 \<le> j" if "j < k" for j
    using not_less_Least [of j ?P] that unfolding k_def by simp_all
  have "pulse_loop ad file (65536 * 4 ^ j) = Some (res (65536 * 4 ^ k))" if "j \<le> k" for j
    using that
  proof (induction "k - j" arbitrary: j)
    case 0
    then show ?case using run [of k] k(1) by simp
  next
    case (Suc n)
    then have "j < k" "n = k - Suc j" by simp_all
    then show ?case using run [of j] before [of j] Suc.hyps(1) [of "Suc j"] by (metis Suc_leI)
  qed
  from this [of 0] have "read_pulse ad file = Some (res (65536 * 4 ^ k))"
    by (simp add: read_pulse_def pulse_tail_bytes_def)
  moreover have "case pulse_within ad file (65536 * 4 ^ k) of None \<Rightarrow> file = None | Some r \<Rightarrow> pr_had_opinion r \<or> pr_whole r \<or> k = 3"
    using k fin [of "65536 * 4 ^ k" k] fin3 [of "65536 * 4 ^ k"] by (cases "k = 3") auto
  ultimately show ?thesis using k(2) before(1) go unfolding res_def by blast
qed

subsection \<open>A tail and its file\<close>

lemma in_range_nl:
  assumes "i \<le> length a" and "128 \<le> lo"
  shows "in_range lo hi (a @ newline_char # b) i \<longleftrightarrow> in_range lo hi (a @ [newline_char]) i"
    and "in_range lo hi (a @ newline_char # b) i \<Longrightarrow> i < length a"
  using assms by (cases "i = length a"; auto simp: in_range_def nth_append byte_def)+

lemma second_nl:
  assumes "a \<noteq> []"
  shows "second_ok (a @ newline_char # b) \<longleftrightarrow> second_ok (a @ [newline_char])"
    and "second_ok (a @ newline_char # b) \<Longrightarrow> 1 < length a"
proof -
  have one: "1 \<le> length a" using assms by (cases a) simp_all
  have hd: "hd (a @ newline_char # b) = hd (a @ [newline_char])" using assms by (cases a) simp_all
  have e: "in_range lo hi (a @ newline_char # b) 1 = in_range lo hi (a @ [newline_char]) 1"
    and l: "in_range lo hi (a @ newline_char # b) 1 \<Longrightarrow> 1 < length a" if "128 \<le> lo" for lo hi
    using in_range_nl [OF one that, of hi b] by blast+
  have k: "(128::nat) \<le> 128" "(128::nat) \<le> 160" "(128::nat) \<le> 144" by simp_all
  show "second_ok (a @ newline_char # b) \<longleftrightarrow> second_ok (a @ [newline_char])"
    unfolding second_ok_def hd Let_def e [OF k(1)] e [OF k(2)] e [OF k(3)] by (rule refl)
  show "second_ok (a @ newline_char # b) \<Longrightarrow> 1 < length a"
    unfolding second_ok_def Let_def using l [OF k(1)] l [OF k(2)] l [OF k(3)] by (metis (full_types))
qed

lemma chunk_nl:
  assumes "a \<noteq> []"
  shows "lossy_chunk (a @ newline_char # b) = lossy_chunk (a @ [newline_char])"
    and "snd (lossy_chunk (a @ newline_char # b)) \<le> length a"
proof -
  have one: "1 \<le> length a" using assms by (cases a) simp_all
  have hd: "hd (a @ newline_char # b) = hd (a @ [newline_char])" using assms by (cases a) simp_all
  note sec = second_nl [OF assms, of b]
  have two: "in_range 128 191 (a @ newline_char # b) 2 = in_range 128 191 (a @ [newline_char]) 2"
    "in_range 128 191 (a @ newline_char # b) 2 \<Longrightarrow> 2 < length a" if "second_ok (a @ newline_char # b)"
    using in_range_nl [of 2 a 128 191 b] sec(2) [OF that] by simp_all
  have three: "in_range 128 191 (a @ newline_char # b) 3 = in_range 128 191 (a @ [newline_char]) 3"
    "in_range 128 191 (a @ newline_char # b) 3 \<Longrightarrow> 3 < length a"
    if "second_ok (a @ newline_char # b)" "in_range 128 191 (a @ newline_char # b) 2"
    using in_range_nl [of 3 a 128 191 b] two(2) [OF that] by simp_all
  show "lossy_chunk (a @ newline_char # b) = lossy_chunk (a @ [newline_char])"
    unfolding lossy_chunk_def hd Let_def using sec(1) two(1) three(1) by (simp split: if_splits)
  show "snd (lossy_chunk (a @ newline_char # b)) \<le> length a"
    unfolding lossy_chunk_def hd Let_def using one sec(2) two(2) three(2)
    by (auto simp del: append_Cons split: if_splits)
qed

lemma replacement_no_nl: "newline_char \<notin> set replacement_char"
  by code_simp

text \<open>A newline is never part of a longer sequence.\<close>

lemma utf8_lossy_nl:
  "utf8_lossy (a @ newline_char # b) = utf8_lossy (a @ [newline_char]) @ utf8_lossy b
   \<and> (\<exists>w. utf8_lossy (a @ [newline_char]) = w @ [newline_char] \<and> (newline_char \<notin> set a \<longrightarrow> newline_char \<notin> set w))"
proof (induction a rule: length_induct)
  case (1 a)
  show ?case
  proof (cases "a = []")
    case True
    have c: "lossy_chunk (newline_char # x) = (True, 1)" for x
      by (simp add: lossy_chunk_def lossy_width_def byte_def)
    have l: "utf8_lossy (newline_char # x) = newline_char # utf8_lossy x" for x
      by (subst utf8_lossy.simps) (simp add: c)
    have e: "utf8_lossy [] = []" by (simp add: utf8_lossy.simps)
    show ?thesis using True by (simp add: l e)
  next
    case False
    obtain ok n where c: "lossy_chunk (a @ [newline_char]) = (ok, n)" by fastforce
    have cb: "lossy_chunk (a @ newline_char # x) = (ok, n)" "n \<le> length a" for x
      using chunk_nl [OF False, of x] c by simp_all
    have n: "0 < n" using lossy_chunk_pos [of "a @ [newline_char]"] c by simp
    let ?h = "if ok then take n a else replacement_char"
    have l: "utf8_lossy (a @ newline_char # x) = ?h @ utf8_lossy (drop n a @ newline_char # x)" for x
      using cb by (subst utf8_lossy.simps) simp
    have "length (drop n a) < length a" using n False by simp
    from 1 [rule_format, OF this] obtain w where
      ih: "utf8_lossy (drop n a @ newline_char # b) = utf8_lossy (drop n a @ [newline_char]) @ utf8_lossy b"
        "utf8_lossy (drop n a @ [newline_char]) = w @ [newline_char]"
        "newline_char \<notin> set (drop n a) \<longrightarrow> newline_char \<notin> set w" by blast
    have "newline_char \<notin> set a \<longrightarrow> newline_char \<notin> set (?h @ w)"
      using ih(3) replacement_no_nl by (auto dest: in_set_takeD in_set_dropD)
    then show ?thesis using l [of b] l [of "[]"] ih(1,2) by (intro conjI exI [of _ "?h @ w"]) simp_all
  qed
qed

lemma std_lines_append:
  "std_lines (x @ newline_char # y) = std_lines (x @ [newline_char]) @ std_lines y"
proof (induction x rule: length_induct)
  case (1 x)
  show ?case
  proof (cases "newline_char \<in> set x")
    case False
    then show ?thesis using std_lines_nl [OF False, of y] std_lines_nl [OF False, of "[]"] by simp
  next
    case True
    then obtain u v where x: "x = u @ newline_char # v" "newline_char \<notin> set u" by (meson split_list_first)
    then show ?thesis
      using 1 [rule_format, of v] std_lines_nl [OF x(2), of "v @ newline_char # y"]
        std_lines_nl [OF x(2), of "v @ [newline_char]"] by simp
  qed
qed

text \<open>The lines of a window are the last lines of the file.\<close>

lemma window_suffix:
  "\<exists>xs. std_lines (utf8_lossy bytes)
    = xs @ (let ls = std_lines (utf8_lossy (drop start bytes)) in if 0 < start \<and> ls \<noteq> [] then tl ls else ls)"
proof (cases "0 < start")
  case False
  then show ?thesis by simp
next
  case True
  let ?raw = "drop start bytes"
  show ?thesis
  proof (cases "newline_char \<in> set ?raw")
    case False
    have no: "newline_char \<notin> set (utf8_lossy ?raw)"
    proof -
      obtain w where w: "utf8_lossy (?raw @ [newline_char]) = w @ [newline_char]" "newline_char \<notin> set w"
        using utf8_lossy_nl [of ?raw "[]"] False by blast
      have "newline_char \<notin> set x \<Longrightarrow> newline_char \<notin> set (utf8_lossy x)" for x
      proof (induction x rule: utf8_lossy.induct)
        case (1 s)
        show ?case using 1 replacement_no_nl by (subst utf8_lossy.simps) (auto dest: in_set_takeD in_set_dropD)
      qed
      then show ?thesis using False by blast
    qed
    have "tl (std_lines (utf8_lossy ?raw)) = []"
      using std_lines_torn [OF no] by (cases "utf8_lossy ?raw = []") simp_all
    then show ?thesis using True by (auto simp: Let_def)
  next
    case nl: True
    then obtain u v where raw: "?raw = u @ newline_char # v" "newline_char \<notin> set u" by (meson split_list_first)
    obtain w where w: "utf8_lossy (u @ [newline_char]) = w @ [newline_char]" "newline_char \<notin> set w"
      using utf8_lossy_nl [of u "[]"] raw(2) by blast
    have here: "std_lines (utf8_lossy ?raw) = strip_last (CHR 0x0D) w # std_lines (utf8_lossy v)"
      using utf8_lossy_nl [of u v] w std_lines_nl [OF w(2), of "utf8_lossy v"] raw(1) by simp
    have "bytes = take start bytes @ ?raw" by simp
    then obtain P where b: "bytes = P @ newline_char # v" using raw(1) by (metis append.assoc)
    obtain z where z: "utf8_lossy (P @ [newline_char]) = z @ [newline_char]"
      using utf8_lossy_nl [of P "[]"] by blast
    have "utf8_lossy bytes = z @ newline_char # utf8_lossy v"
    proof -
      have "utf8_lossy (P @ newline_char # v) = (z @ [newline_char]) @ utf8_lossy v"
        using conjunct1 [OF utf8_lossy_nl [of P v]] unfolding z .
      then show ?thesis unfolding b by (simp only: append.assoc append_Cons append_Nil)
    qed
    then have "std_lines (utf8_lossy bytes) = std_lines (z @ [newline_char]) @ std_lines (utf8_lossy v)"
      by (simp only: std_lines_append [of z "utf8_lossy v"])
    then show ?thesis using here True by (simp add: Let_def)
  qed
qed

text \<open>An adapter with the default hooks: nothing aside, no preprocessor, decoding line by line.\<close>

definition plain_adapter :: "('p, 'm) pulse_adapter \<Rightarrow> bool" where
  "plain_adapter ad \<longleftrightarrow> (\<forall>ls. pa_turn_aside ad ls = replicate (length ls) False)
     \<and> (\<forall>p l. fst (ad_pre_process ad p l) = PreInclude)
     \<and> (\<forall>l c c'. fst (ad_decode ad l c) = fst (ad_decode ad l c'))"

lemma plain_window:
  assumes "plain_adapter ad"
  shows "window_lines ad start raw
    = (let ls = std_lines (utf8_lossy raw) in if 0 < start \<and> ls \<noteq> [] then tl ls else ls)"
proof -
  have "drop_flagged 0 (\<lambda>i. i < length (replicate n False) \<and> replicate n False ! i) ls = ls" for n and ls :: "string list"
    using drop_flagged_none [of 0 ls] by (rule trans [rotated]) (rule drop_flagged_cong, auto)
  then show ?thesis using assms by (simp add: window_lines_def plain_adapter_def Let_def)
qed

lemma plain_decode:
  assumes "plain_adapter ad"
  shows "decode_window ad ls pre cwd
    = concat (map (\<lambda>l. if trim_end l = [] then [] else fst (ad_decode ad (trim_end l) [])) ls)"
proof (induction ls arbitrary: pre cwd)
  case (Cons l ls)
  obtain pre' where p: "ad_pre_process ad pre (trim_end l) = (PreInclude, pre')"
    using assms unfolding plain_adapter_def by (metis prod.collapse)
  have d: "fst (ad_decode ad (trim_end l) cwd) = fst (ad_decode ad (trim_end l) [])"
    using assms unfolding plain_adapter_def by blast
  show ?case using Cons.IH p d by (auto simp: Let_def split: prod.splits)
qed simp

lemma opinion_suffix:
  "turn_opinion f ls \<noteq> None \<Longrightarrow> turn_opinion f (xs @ ls) = turn_opinion f ls"
proof -
  have "first_opinion f ys \<noteq> None \<Longrightarrow> first_opinion f (ys @ zs) = first_opinion f ys" for ys zs
    by (induction ys) (auto split: option.splits)
  then show "turn_opinion f ls \<noteq> None \<Longrightarrow> turn_opinion f (xs @ ls) = turn_opinion f ls"
    by (simp add: turn_opinion_def)
qed

text \<open>A fold that began earlier agrees on what the later part said.\<close>

definition later_word :: "pulse_state \<Rightarrow> pulse_state \<Rightarrow> bool" where
  "later_word s t \<longleftrightarrow> (pu_saw t \<longrightarrow> pu_saw s \<and> pu_last_user s = pu_last_user t)
     \<and> (tp_final_text (pu_pulse t) \<noteq> None \<longrightarrow> tp_final_text (pu_pulse s) = tp_final_text (pu_pulse t))"

lemma later_word_step: "later_word s t \<Longrightarrow> later_word (pulse_step m s) (pulse_step m t)"
  by (cases "(m, s)" rule: pulse_step.cases)
    (auto simp: later_word_def user_word_def prose_word_def queue_word_def split: queue_op_kind.splits)

lemma later_word_fold: "later_word s t \<Longrightarrow> later_word (fold pulse_step ms s) (fold pulse_step ms t)"
  by (induction ms arbitrary: s t) (simp_all add: later_word_step)

lemma pulse_suffix:
  assumes "tp_last (pulse_of ms e) \<noteq> LastUnknown"
  shows "tp_last (pulse_of (xs @ ms) e) = tp_last (pulse_of ms e)"
    and "tp_final_text (pulse_of ms e) = None
      \<or> tp_final_text (pulse_of (xs @ ms) e) = tp_final_text (pulse_of ms e)"
proof -
  have "later_word (fold pulse_step ms (fold pulse_step xs pulse_start)) (fold pulse_step ms pulse_start)"
    by (rule later_word_fold) (simp add: later_word_def pulse_start_def pulse_default_def)
  then show "tp_last (pulse_of (xs @ ms) e) = tp_last (pulse_of ms e)"
    "tp_final_text (pulse_of ms e) = None
      \<or> tp_final_text (pulse_of (xs @ ms) e) = tp_final_text (pulse_of ms e)"
    using assms by (auto simp: pulse_of_def Let_def last_word_def later_word_def split: if_splits)
qed


definition echo_adapter :: "(unit, nat) pulse_adapter" where
  "echo_adapter = (adapter.extend text_adapter (pulse_adapter.fields (\<lambda>ls. replicate (length ls) False)
     (\<lambda>l. if l = ''done'' then Some True else None)))\<lparr>ad_decode := (\<lambda>l cwd. ([MAssistantText l], cwd))\<rparr>"

lemmas echo_defs = echo_adapter_def text_adapter_def adapter.extend_def pulse_adapter.fields_def

lemma echo_plain: "plain_adapter echo_adapter"
  by (simp add: plain_adapter_def echo_defs)

definition two_words :: string where
  "two_words = ''hello'' @ [newline_char] @ ''done'' @ [newline_char]"


theorem pulse_reads_enough_witness:
  "read_pulse echo_adapter (Some two_words)
    = Some (case pulse_within echo_adapter (Some two_words) 65536 of None \<Rightarrow> pulse_default | Some r \<Rightarrow> pr_pulse r)"
proof -
  have whole: "\<exists>r. pulse_within echo_adapter (Some two_words) 65536 = Some r \<and> pr_whole r"
    by (simp add: pulse_within_def two_words_def Let_def)
  obtain k where k: "read_pulse echo_adapter (Some two_words) =
      Some (case pulse_within echo_adapter (Some two_words) (65536 * 4 ^ k) of None \<Rightarrow> pulse_default | Some r \<Rightarrow> pr_pulse r)"
    "\<forall>j<k. \<exists>r. pulse_within echo_adapter (Some two_words) (65536 * 4 ^ j) = Some r \<and> \<not> pr_had_opinion r \<and> \<not> pr_whole r"
    using pulse_reads_enough [of echo_adapter "Some two_words"] by blast
  have "k = 0" using k(2) whole by (cases k) auto
  then show ?thesis using k(1) by simp
qed

text \<open>
  The queue is different: a window that begins between a prompt's enqueue and its dequeue counts
  one prompt too few, and a prompt queued after that is not seen.
\<close>

theorem window_cut_hides_prompt:
  "tp_queued_prompt (pulse_of [MQueueOp QEnqueue a True x, MQueueOp QDequeue b True y, MQueueOp QEnqueue c True z] e)
   \<and> \<not> tp_queued_prompt (pulse_of [MQueueOp QDequeue b True y, MQueueOp QEnqueue c True z] e)"
  by (simp add: pulse_of_def queue_word_def pulse_start_def)

end
