(* ===== verification/Slots.thy ===== *)
theory Slots
  imports Entry_Props "HOL-Library.AList"
begin

text \<open>
  The keyed cache of sessions (\<open>claude-replay-present/src/cache/mod.rs\<close>): what it knows of each
  session, the shared ownership of the resident ones, and admission over an entry provider.

  A session is an object of a heap, its strong count the slot that holds it and \<open>lv_refs\<close> other
  holders; its last holder's drop drops its writer, and the writer's drop releases the entry lock.
  Times are milliseconds.  The disk is the cache's entries.
\<close>

subsection \<open>State\<close>

record ('s, 'bv) live_session =
  lv_key :: string
  lv_frozen :: bool
  lv_writer :: bool
  lv_store :: 's
  lv_bvs :: "'bv list"
  lv_refs :: nat

record 'a slot =
  sl_transcript :: "transcript option"
  sl_last_seen :: nat
  sl_resident :: "nat option"
  sl_aux :: "'a option"

text \<open>\<open>ca_flights\<close>: who drives an admission, with its source and the frozen resident it found.\<close>

record ('a, 'n, 's, 'bv) cache =
  ca_slots :: "(string \<times> 'a slot) list"
  ca_heap :: "nat \<Rightarrow> ('s, 'bv) live_session option"
  ca_fresh :: nat
  ca_now :: nat
  ca_entries :: "string \<Rightarrow> ('n, 's) cache_entry"
  ca_flights :: "string \<Rightarrow> (transcript \<times> nat option) option"

definition cache_new :: "nat \<Rightarrow> (string \<Rightarrow> ('n, 's) cache_entry) \<Rightarrow> ('a, 'n, 's, 'bv) cache" where
  "cache_new now disk = \<lparr>ca_slots = [], ca_heap = (\<lambda>_. None), ca_fresh = 0, ca_now = now,
     ca_entries = disk, ca_flights = (\<lambda>_. None)\<rparr>"

definition slot_empty :: "nat \<Rightarrow> 'a slot" where
  "slot_empty now = \<lparr>sl_transcript = None, sl_last_seen = now, sl_resident = None, sl_aux = None\<rparr>"

definition slot_of :: "string \<Rightarrow> ('a, 'n, 's, 'bv) cache \<Rightarrow> 'a slot option" where
  "slot_of k c = map_of (ca_slots c) k"

definition slot_or_insert :: "string \<Rightarrow> ('a, 'n, 's, 'bv) cache \<Rightarrow> 'a slot" where
  "slot_or_insert k c = (case slot_of k c of Some sl \<Rightarrow> sl | None \<Rightarrow> slot_empty (ca_now c))"

definition put_slot :: "string \<Rightarrow> 'a slot \<Rightarrow> ('a, 'n, 's, 'bv) cache \<Rightarrow> ('a, 'n, 's, 'bv) cache" where
  "put_slot k sl c = c\<lparr>ca_slots := AList.update k sl (ca_slots c)\<rparr>"

definition put_session ::
  "nat \<Rightarrow> ('s, 'bv) live_session option \<Rightarrow> ('a, 'n, 's, 'bv) cache \<Rightarrow> ('a, 'n, 's, 'bv) cache" where
  "put_session r x c = c\<lparr>ca_heap := (ca_heap c)(r := x)\<rparr>"

definition put_entry ::
  "string \<Rightarrow> ('n, 's) cache_entry \<Rightarrow> ('a, 'n, 's, 'bv) cache \<Rightarrow> ('a, 'n, 's, 'bv) cache" where
  "put_entry k e c = c\<lparr>ca_entries := (ca_entries c)(k := e)\<rparr>"

definition resident_of :: "string \<Rightarrow> ('a, 'n, 's, 'bv) cache \<Rightarrow> nat option" where
  "resident_of k c = (case slot_of k c of Some sl \<Rightarrow> sl_resident sl | None \<Rightarrow> None)"

subsection \<open>Sources and sidecars\<close>

definition register_src :: "string \<Rightarrow> transcript \<Rightarrow> ('a, 'n, 's, 'bv) cache \<Rightarrow> ('a, 'n, 's, 'bv) cache" where
  "register_src k src c = put_slot k ((slot_or_insert k c)\<lparr>sl_transcript := Some src\<rparr>) c"

definition register_new :: "string \<Rightarrow> transcript \<Rightarrow> ('a, 'n, 's, 'bv) cache \<Rightarrow> ('a, 'n, 's, 'bv) cache" where
  "register_new k src c =
     (let sl = slot_or_insert k c
      in put_slot k (if sl_transcript sl = None then sl\<lparr>sl_transcript := Some src\<rparr> else sl) c)"

definition resolve_src :: "string \<Rightarrow> ('a, 'n, 's, 'bv) cache \<Rightarrow> transcript option" where
  "resolve_src k c = (case slot_of k c of Some sl \<Rightarrow> sl_transcript sl | None \<Rightarrow> None)"

definition is_registered :: "string \<Rightarrow> ('a, 'n, 's, 'bv) cache \<Rightarrow> bool" where
  "is_registered k c \<longleftrightarrow> resolve_src k c \<noteq> None"

definition aux_put :: "string \<Rightarrow> 'a \<Rightarrow> ('a, 'n, 's, 'bv) cache \<Rightarrow> ('a, 'n, 's, 'bv) cache" where
  "aux_put k x c = put_slot k ((slot_or_insert k c)\<lparr>sl_aux := Some x\<rparr>) c"

definition aux_take :: "string \<Rightarrow> ('a, 'n, 's, 'bv) cache \<Rightarrow> 'a option \<times> ('a, 'n, 's, 'bv) cache" where
  "aux_take k c =
     (case slot_of k c of
        None \<Rightarrow> (None, c)
      | Some sl \<Rightarrow> (sl_aux sl, put_slot k (sl\<lparr>sl_aux := None\<rparr>) c))"

subsection \<open>Shared ownership\<close>

definition take_ref :: "nat \<Rightarrow> ('a, 'n, 's, 'bv) cache \<Rightarrow> ('a, 'n, 's, 'bv) cache" where
  "take_ref r c =
     (case ca_heap c r of
        None \<Rightarrow> c
      | Some x \<Rightarrow> put_session r (Some (x\<lparr>lv_refs := lv_refs x + 1\<rparr>)) c)"

text \<open>A session no one holds is destroyed, and with it its writer and the writer's lease.\<close>

definition drop_writer :: "nat \<Rightarrow> string \<Rightarrow> bool \<Rightarrow> ('a, 'n, 's, 'bv) cache \<Rightarrow> ('a, 'n, 's, 'bv) cache" where
  "drop_writer pid k armed c =
     (if armed then put_entry k ((ca_entries c k)\<lparr>ce_lock := lease_drop pid (ce_lock (ca_entries c k))\<rparr>) c else c)"

definition drop_unheld :: "nat \<Rightarrow> nat \<Rightarrow> ('a, 'n, 's, 'bv) cache \<Rightarrow> ('a, 'n, 's, 'bv) cache" where
  "drop_unheld pid r c =
     (case ca_heap c r of
        None \<Rightarrow> c
      | Some x \<Rightarrow>
          if lv_refs x = 0 \<and> resident_of (lv_key x) c \<noteq> Some r
          then drop_writer pid (lv_key x) (lv_writer x) (put_session r None c) else c)"

definition let_go :: "nat \<Rightarrow> nat \<Rightarrow> ('a, 'n, 's, 'bv) cache \<Rightarrow> ('a, 'n, 's, 'bv) cache" where
  "let_go pid r c =
     (case ca_heap c r of
        None \<Rightarrow> c
      | Some x \<Rightarrow> drop_unheld pid r (put_session r (Some (x\<lparr>lv_refs := lv_refs x - 1\<rparr>)) c))"

definition shared_peek :: "string \<Rightarrow> ('a, 'n, 's, 'bv) cache \<Rightarrow> nat option \<times> ('a, 'n, 's, 'bv) cache" where
  "shared_peek k c =
     (case resident_of k c of None \<Rightarrow> (None, c) | Some r \<Rightarrow> (Some r, take_ref r c))"

definition seen_now :: "string \<Rightarrow> ('a, 'n, 's, 'bv) cache \<Rightarrow> ('a, 'n, 's, 'bv) cache" where
  "seen_now k c =
     (case slot_of k c of
        None \<Rightarrow> c
      | Some sl \<Rightarrow>
          if sl_resident sl = None then c else put_slot k (sl\<lparr>sl_last_seen := ca_now c\<rparr>) c)"

definition touch :: "string \<Rightarrow> ('a, 'n, 's, 'bv) cache \<Rightarrow> nat option \<times> ('a, 'n, 's, 'bv) cache" where
  "touch k c = (fst (shared_peek k c), seen_now k (snd (shared_peek k c)))"

subsection \<open>Eviction\<close>

definition clear_resident :: "string \<Rightarrow> ('a, 'n, 's, 'bv) cache \<Rightarrow> ('a, 'n, 's, 'bv) cache" where
  "clear_resident k c =
     (case slot_of k c of None \<Rightarrow> c | Some sl \<Rightarrow> put_slot k (sl\<lparr>sl_resident := None\<rparr>) c)"

definition remove_pull :: "nat \<Rightarrow> string \<Rightarrow> ('a, 'n, 's, 'bv) cache \<Rightarrow> ('a, 'n, 's, 'bv) cache" where
  "remove_pull pid k c =
     (case resident_of k c of
        None \<Rightarrow> c
      | Some r \<Rightarrow> drop_unheld pid r (clear_resident k c))"

text \<open>One slot of \<open>reap\<close>; the evicted session moves to the caller.\<close>

definition reap_slot ::
  "nat \<Rightarrow> string \<Rightarrow> ('a, 'n, 's, 'bv) cache \<Rightarrow> (string \<times> nat) list \<times> ('a, 'n, 's, 'bv) cache" where
  "reap_slot ttl k c =
     (case resident_of k c of
        None \<Rightarrow> ([], c)
      | Some r \<Rightarrow>
          (case ca_heap c r of
             None \<Rightarrow> ([], c)
           | Some x \<Rightarrow>
               if 1 + lv_refs x > 1 \<or> ca_now c - sl_last_seen (slot_or_insert k c) < ttl then ([], c)
               else ([(k, r)], clear_resident k (take_ref r c))))"

fun reap_slots ::
  "nat \<Rightarrow> string list \<Rightarrow> ('a, 'n, 's, 'bv) cache \<Rightarrow> (string \<times> nat) list \<times> ('a, 'n, 's, 'bv) cache" where
  "reap_slots ttl [] c = ([], c)"
| "reap_slots ttl (k # ks) c =
     (let (out, c1) = reap_slot ttl k c; (outs, c2) = reap_slots ttl ks c1 in (out @ outs, c2))"

definition reap :: "nat \<Rightarrow> ('a, 'n, 's, 'bv) cache \<Rightarrow> (string \<times> nat) list \<times> ('a, 'n, 's, 'bv) cache" where
  "reap ttl c = reap_slots ttl (map fst (ca_slots c)) c"

definition over_budget :: "nat \<Rightarrow> string \<Rightarrow> ('a, 'n, 's, 'bv) cache \<Rightarrow> string list" where
  "over_budget budget pinned c =
     (let others = filter (\<lambda>(k, sl). k \<noteq> pinned \<and> sl_resident sl \<noteq> None) (ca_slots c)
      in if length others \<le> budget then []
         else take (length others - budget) (map fst (sort_key (\<lambda>(k, sl). sl_last_seen sl) others)))"

definition reap_over_budget ::
  "nat \<Rightarrow> nat \<Rightarrow> string \<Rightarrow> ('a, 'n, 's, 'bv) cache \<Rightarrow> ('a, 'n, 's, 'bv) cache" where
  "reap_over_budget pid budget pinned c = fold (remove_pull pid) (over_budget budget pinned c) c"

subsection \<open>Release\<close>

definition release_key :: "nat \<Rightarrow> string \<Rightarrow> ('a, 'n, 's, 'bv) cache \<Rightarrow> ('a, 'n, 's, 'bv) cache" where
  "release_key pid k c =
     (case resident_of k c of
        None \<Rightarrow> c
      | Some r \<Rightarrow>
          (case ca_heap c r of
             None \<Rightarrow> c
           | Some x \<Rightarrow>
               drop_writer pid (lv_key x) (lv_writer x) (put_session r (Some (x\<lparr>lv_writer := False, lv_frozen := True\<rparr>)) c)))"

definition release_all :: "nat \<Rightarrow> ('a, 'n, 's, 'bv) cache \<Rightarrow> ('a, 'n, 's, 'bv) cache" where
  "release_all pid c = fold (release_key pid) (map fst (ca_slots c)) c"

definition publish_note ::
  "nat \<Rightarrow> string \<Rightarrow> 'n \<Rightarrow> bool \<Rightarrow> string \<Rightarrow> ('a, 'n, 's, 'bv) cache \<Rightarrow> bool \<times> ('a, 'n, 's, 'bv) cache" where
  "publish_note pid dir note ok k c =
     (case per_session_publish pid dir note ok (ca_entries c k) of (r, e) \<Rightarrow> (r, put_entry k e c))"

subsection \<open>Admission\<close>

datatype 'n admission = AdmitOwned nat origin | AdmitDenied "'n denial"

text \<open>A live resident is the admission: the first check, and the one under the flight.\<close>

definition admit_resident ::
  "string \<Rightarrow> ('a, 'n, 's, 'bv) cache \<Rightarrow> ('n admission \<times> ('a, 'n, 's, 'bv) cache) option" where
  "admit_resident k c =
     (case resident_of k c of
        None \<Rightarrow> None
      | Some r \<Rightarrow>
          (case ca_heap c r of
             None \<Rightarrow> None
           | Some x \<Rightarrow>
               if lv_frozen x then None
               else Some (AdmitOwned r (OriginRetained (length (lv_bvs x))), seen_now k (take_ref r c))))"

text \<open>Taking the flight, which must be free.\<close>

definition admit_begin ::
  "string \<Rightarrow> ('a, 'n, 's, 'bv) cache \<Rightarrow> 'n admission option \<times> ('a, 'n, 's, 'bv) cache" where
  "admit_begin k c =
     (case admit_resident k c of
        Some (a, c') \<Rightarrow> (Some a, c')
      | None \<Rightarrow>
          (case resolve_src k c of
             None \<Rightarrow> (Some (AdmitDenied (DenialUnavailable UnknownSession)), c)
           | Some src \<Rightarrow>
               (let (r, c') = shared_peek k c in (None, c'\<lparr>ca_flights := (ca_flights c')(k := Some (src, r))\<rparr>))))"

definition install_session ::
  "nat \<Rightarrow> string \<Rightarrow> ('s, 'bv) live_session \<Rightarrow> ('a, 'n, 's, 'bv) cache \<Rightarrow> ('a, 'n, 's, 'bv) cache" where
  "install_session pid k x c =
     (let r = ca_fresh c; old = resident_of k c;
          c1 = put_slot k ((slot_or_insert k c)\<lparr>sl_last_seen := ca_now c, sl_resident := Some r\<rparr>)
                 (put_session r (Some x) c\<lparr>ca_fresh := r + 1\<rparr>)
      in case old of None \<Rightarrow> c1 | Some q \<Rightarrow> drop_unheld pid q c1)"

definition held_ref :: "nat \<Rightarrow> nat option \<Rightarrow> ('a, 'n, 's, 'bv) cache \<Rightarrow> ('a, 'n, 's, 'bv) cache" where
  "held_ref pid res c = (case res of None \<Rightarrow> c | Some r \<Rightarrow> let_go pid r c)"

definition witness_of ::
  "('s \<Rightarrow> nat) \<Rightarrow> nat option \<Rightarrow> ('a, 'n, 's, 'bv) cache \<Rightarrow> witness option" where
  "witness_of blen res c =
     (case res of
        None \<Rightarrow> None
      | Some r \<Rightarrow> map_option (\<lambda>x. \<lparr>wi_backing_len = blen (lv_store x), wi_committed = length (lv_bvs x)\<rparr>) (ca_heap c r))"

text \<open>
  The rest of \<open>admit\<close>: the provider's open and the session it leads to; \<open>None\<close> is the panic of
  a retained entry without a resident.
\<close>

type_synonym ('n, 's, 'bv) opener =
  "transcript \<Rightarrow> witness option \<Rightarrow> ('n, 's) cache_entry \<Rightarrow> ('s, 'bv, 'n) opened \<times> ('n, 's) cache_entry"

definition admit_finish ::
  "nat \<Rightarrow> ('s \<Rightarrow> nat) \<Rightarrow> ('n, 's, 'bv) opener \<Rightarrow> string \<Rightarrow> transcript \<Rightarrow> nat option
     \<Rightarrow> ('a, 'n, 's, 'bv) cache \<Rightarrow> ('n admission \<times> ('a, 'n, 's, 'bv) cache) option" where
  "admit_finish pid blen opn k src res c =
     (case opn src (witness_of blen res c) (ca_entries c k) of
        (out, e) \<Rightarrow>
          (let c1 = put_entry k e (c\<lparr>ca_flights := (ca_flights c)(k := None)\<rparr>)
           in case out of
                OpenedDenied d \<Rightarrow> Some (AdmitDenied d, held_ref pid res c1)
              | OpenedRetained w \<Rightarrow>
                  (case res of
                     None \<Rightarrow> None
                   | Some r \<Rightarrow>
                       (case ca_heap c1 r of
                          None \<Rightarrow> None
                        | Some x \<Rightarrow>
                            Some (AdmitOwned r (OriginRetained (length (lv_bvs x))),
                              put_session r (Some (x\<lparr>lv_writer := w, lv_frozen := False\<rparr>)) c1)))
              | OpenedOwned s tail reused orig resumed w \<Rightarrow>
                  (let prefix = (case res of
                         Some r \<Rightarrow> if reused then (case ca_heap c1 r of Some x \<Rightarrow> lv_bvs x | None \<Rightarrow> []) else []
                       | None \<Rightarrow> []);
                       loaded = (case resumed of Some a \<Rightarrow> take (al_committed a) (prefix @ tail) | None \<Rightarrow> []);
                       x = \<lparr>lv_key = k, lv_frozen = False, lv_writer = w, lv_store = s, lv_bvs = loaded, lv_refs = 1\<rparr>
                   in Some (AdmitOwned (ca_fresh c1) orig, held_ref pid res (install_session pid k x c1)))))"

end
