(* ===== verification/Slots_Props.thy ===== *)
theory Slots_Props
  imports Slots
begin

text \<open>
  Ownership in the keyed cache: the operations as steps that interleave, the invariant they keep,
  and what breaks it.  The entry provider is an interface; the viewer's provider implements it.
\<close>

subsection \<open>Projections\<close>

lemma resident_put_slot [simp]:
  "resident_of k' (put_slot k sl c) = (if k' = k then sl_resident sl else resident_of k' c)"
  by (simp add: resident_of_def slot_of_def put_slot_def update_conv')

lemma slot_put_slot [simp]: "slot_of k' (put_slot k sl c) = (if k' = k then Some sl else slot_of k' c)"
  by (simp add: slot_of_def put_slot_def update_conv')

lemma put_projections [simp]:
  "ca_heap (put_slot k sl c) = ca_heap c" "ca_fresh (put_slot k sl c) = ca_fresh c"
  "ca_entries (put_slot k sl c) = ca_entries c" "ca_flights (put_slot k sl c) = ca_flights c"
  "ca_heap (put_session r x c) = (ca_heap c)(r := x)" "ca_fresh (put_session r x c) = ca_fresh c"
  "ca_entries (put_session r x c) = ca_entries c" "ca_flights (put_session r x c) = ca_flights c"
  "ca_heap (put_entry k e c) = ca_heap c" "ca_fresh (put_entry k e c) = ca_fresh c"
  "ca_entries (put_entry k e c) = (ca_entries c)(k := e)" "ca_flights (put_entry k e c) = ca_flights c"
  "resident_of k' (put_session r x c) = resident_of k' c" "resident_of k' (put_entry k e c) = resident_of k' c"
  "slot_of k' (put_session r x c) = slot_of k' c" "slot_of k' (put_entry k e c) = slot_of k' c"
  "resident_of k' (c\<lparr>ca_flights := f\<rparr>) = resident_of k' c" "resident_of k' (c\<lparr>ca_fresh := n\<rparr>) = resident_of k' c"
  "resident_of k' (c\<lparr>ca_now := n\<rparr>) = resident_of k' c" "ca_now (put_slot k sl c) = ca_now c"
  "slot_of k' (c\<lparr>ca_fresh := n\<rparr>) = slot_of k' c" "slot_of k' (c\<lparr>ca_flights := f\<rparr>) = slot_of k' c"
  by (simp_all add: put_slot_def put_session_def put_entry_def resident_of_def slot_of_def)

lemma resident_or_insert [simp]: "sl_resident (slot_or_insert k c) = resident_of k c"
  by (simp add: slot_or_insert_def resident_of_def slot_empty_def split: option.splits)

lemma resident_clear [simp]: "resident_of k' (clear_resident k c) = (if k' = k then None else resident_of k' c)"
  by (simp add: clear_resident_def resident_of_def split: option.splits)

lemma clear_projections [simp]:
  "ca_heap (clear_resident k c) = ca_heap c" "ca_fresh (clear_resident k c) = ca_fresh c"
  "ca_entries (clear_resident k c) = ca_entries c" "ca_flights (clear_resident k c) = ca_flights c"
  by (simp_all add: clear_resident_def split: option.splits)

definition ours :: "nat \<Rightarrow> string \<Rightarrow> ('a, 'n, 's, 'bv) cache \<Rightarrow> bool" where
  "ours pid k c \<longleftrightarrow> held_by_us pid (ce_lock (ca_entries c k))"

lemma drop_writer_projections [simp]:
  "ca_heap (drop_writer pid k w c) = ca_heap c" "ca_fresh (drop_writer pid k w c) = ca_fresh c"
  "ca_flights (drop_writer pid k w c) = ca_flights c" "resident_of k' (drop_writer pid k w c) = resident_of k' c"
  by (simp_all add: drop_writer_def)

lemma held_dropped: "\<not> held_by_us pid (lease_drop pid f)"
  by (cases f) (simp_all add: lease_drop_def lock_release_def held_by_us_def)

lemma ours_drop_writer [simp]: "ours pid k' (drop_writer pid k w c) \<longleftrightarrow> ours pid k' c \<and> \<not> (w \<and> k' = k)"
  by (simp add: ours_def drop_writer_def held_dropped)

lemma ours_put [simp]:
  "ours pid k' (put_slot k sl c) = ours pid k' c" "ours pid k' (put_session r x c) = ours pid k' c"
  "ours pid k' (clear_resident k c) = ours pid k' c"
  "ours pid k' (put_entry k e c) = (if k' = k then held_by_us pid (ce_lock e) else ours pid k' c)"
  "ours pid k' (c\<lparr>ca_flights := f\<rparr>) = ours pid k' c" "ours pid k' (c\<lparr>ca_fresh := n\<rparr>) = ours pid k' c"
  "ours pid k' (c\<lparr>ca_now := n\<rparr>) = ours pid k' c"
  by (simp_all add: ours_def)

subsection \<open>The invariant\<close>

definition writes_to :: "('a, 'n, 's, 'bv) cache \<Rightarrow> string \<Rightarrow> nat \<Rightarrow> bool" where
  "writes_to c k r \<longleftrightarrow> (\<exists>x. ca_heap c r = Some x \<and> lv_key x = k \<and> lv_writer x)"

text \<open>\<open>E\<close>: sessions a \<open>reap\<close> evicted and its caller has not dropped yet.\<close>

definition flight_of :: "('a, 'n, 's, 'bv) cache \<Rightarrow> string \<Rightarrow> nat option" where
  "flight_of c k = (case ca_flights c k of Some (_, res) \<Rightarrow> res | None \<Rightarrow> None)"

definition residents_ok :: "nat set \<Rightarrow> ('a, 'n, 's, 'bv) cache \<Rightarrow> bool" where
  "residents_ok E c \<longleftrightarrow>
     (\<forall>k r. resident_of k c = Some r \<longrightarrow> (\<exists>x. ca_heap c r = Some x \<and> lv_key x = k))
     \<and> (\<forall>r x. ca_heap c r = Some x \<longrightarrow> r < ca_fresh c)
     \<and> (\<forall>r\<in>E. \<exists>x. ca_heap c r = Some x \<and> lv_refs x = 1 \<and> resident_of (lv_key x) c \<noteq> Some r \<and> flight_of c (lv_key x) \<noteq> Some r)"

definition writers_ok :: "nat \<Rightarrow> nat set \<Rightarrow> ('a, 'n, 's, 'bv) cache \<Rightarrow> bool" where
  "writers_ok pid E c \<longleftrightarrow>
     (\<forall>r x. ca_heap c r = Some x \<and> lv_writer x \<longrightarrow> \<not> lv_frozen x \<and> (r \<in> E \<or> resident_of (lv_key x) c = Some r))
     \<and> (\<forall>k r r'. writes_to c k r \<and> writes_to c k r' \<longrightarrow> r = r')
     \<and> (\<forall>k. ours pid k c \<longleftrightarrow> (\<exists>r. writes_to c k r))"

definition flights_ok :: "('a, 'n, 's, 'bv) cache \<Rightarrow> bool" where
  "flights_ok c \<longleftrightarrow> (\<forall>k. ca_flights c k \<noteq> None \<longrightarrow> (\<forall>r. \<not> writes_to c k r)
     \<and> (\<forall>r. flight_of c k = Some r \<longrightarrow> resident_of k c = Some r \<and> (\<exists>x. ca_heap c r = Some x \<and> 0 < lv_refs x)))"

definition cache_inv :: "nat \<Rightarrow> nat set \<Rightarrow> ('a, 'n, 's, 'bv) cache \<Rightarrow> bool" where
  "cache_inv pid E c \<longleftrightarrow> residents_ok E c \<and> writers_ok pid E c \<and> flights_ok c"

lemmas cache_inv_defs = cache_inv_def residents_ok_def writers_ok_def flights_ok_def writes_to_def flight_of_def

lemma inv_resident:
  "cache_inv pid E c \<Longrightarrow> resident_of k c = Some r \<Longrightarrow> \<exists>x. ca_heap c r = Some x \<and> lv_key x = k"
  unfolding cache_inv_def residents_ok_def by blast

lemma inv_fresh: "cache_inv pid E c \<Longrightarrow> ca_heap c r = Some x \<Longrightarrow> r < ca_fresh c"
  unfolding cache_inv_def residents_ok_def by blast

lemma inv_writer:
  "cache_inv pid E c \<Longrightarrow> ca_heap c r = Some x \<Longrightarrow> lv_writer x \<Longrightarrow>
     \<not> lv_frozen x \<and> (r \<in> E \<or> resident_of (lv_key x) c = Some r)"
  unfolding cache_inv_def writers_ok_def by blast

lemma inv_unique: "cache_inv pid E c \<Longrightarrow> writes_to c k r \<Longrightarrow> writes_to c k r' \<Longrightarrow> r = r'"
  unfolding cache_inv_def writers_ok_def by blast

lemma inv_ours: "cache_inv pid E c \<Longrightarrow> ours pid k c \<longleftrightarrow> (\<exists>r. writes_to c k r)"
  unfolding cache_inv_def writers_ok_def by blast

lemma inv_flight:
  assumes "cache_inv pid E c" and "ca_flights c k \<noteq> None"
  shows "\<not> writes_to c k r"
    and "flight_of c k = Some r \<Longrightarrow> resident_of k c = Some r \<and> (\<exists>x. ca_heap c r = Some x \<and> 0 < lv_refs x)"
  using assms unfolding cache_inv_def flights_ok_def by blast+

lemma flight_ofD: "flight_of c k = Some r \<Longrightarrow> ca_flights c k \<noteq> None"
  by (simp add: flight_of_def split: option.splits)

lemma writers_okI:
  assumes "\<And>r x. ca_heap c r = Some x \<Longrightarrow> lv_writer x \<Longrightarrow> \<not> lv_frozen x \<and> (r \<in> E \<or> resident_of (lv_key x) c = Some r)"
    and "\<And>k r r'. writes_to c k r \<Longrightarrow> writes_to c k r' \<Longrightarrow> r = r'"
    and "\<And>k. ours pid k c \<longleftrightarrow> (\<exists>r. writes_to c k r)"
  shows "writers_ok pid E c"
  using assms unfolding writers_ok_def by blast

lemma cache_inv_cong:
  assumes "cache_inv pid E c" and "\<And>k. resident_of k c' = resident_of k c" and "ca_heap c' = ca_heap c"
    and "ca_fresh c' = ca_fresh c" and "ca_flights c' = ca_flights c" and "\<And>k. ours pid k c' = ours pid k c"
  shows "cache_inv pid E c'"
  using assms(1) unfolding cache_inv_defs assms(2-6) .

text \<open>A session changed in what the invariant does not see.\<close>

lemma cache_inv_session:
  assumes inv: "cache_inv pid E c" and x: "ca_heap c r = Some x"
    and y: "lv_key y = lv_key x" "lv_writer y = lv_writer x" "lv_frozen y = lv_frozen x"
    and refs: "r \<in> E \<Longrightarrow> lv_refs y = 1" "flight_of c (lv_key x) = Some r \<Longrightarrow> 0 < lv_refs y"
  shows "cache_inv pid E (put_session r (Some y) c)"
proof -
  have w: "writes_to (put_session r (Some y) c) k q \<longleftrightarrow> writes_to c k q" for k q
    using x y by (auto simp: writes_to_def)
  have f: "flight_of (put_session r (Some y) c) k = flight_of c k" for k by (simp add: flight_of_def)
  have "residents_ok E (put_session r (Some y) c)"
    using inv x y refs(1) unfolding cache_inv_def residents_ok_def f by (auto 4 3)
  moreover have "writers_ok pid E (put_session r (Some y) c)"
    using inv x y unfolding cache_inv_def writers_ok_def w by auto
  moreover have "flights_ok (put_session r (Some y) c)"
    unfolding flights_ok_def f w
  proof (intro allI impI conjI)
    fix k assume k: "ca_flights (put_session r (Some y) c) k \<noteq> None"
    then have ok: "\<forall>q. \<not> writes_to c k q"
      "\<forall>q. flight_of c k = Some q \<longrightarrow> resident_of k c = Some q \<and> (\<exists>x. ca_heap c q = Some x \<and> 0 < lv_refs x)"
      using inv unfolding cache_inv_def flights_ok_def by simp_all
    show "\<not> writes_to c k q" for q using ok(1) by blast
    fix q assume q: "flight_of c k = Some q"
    then show "resident_of k (put_session r (Some y) c) = Some q" using ok(2) by simp
    then have "\<exists>z. ca_heap c q = Some z \<and> lv_key z = k" using inv unfolding cache_inv_def residents_ok_def by simp
    then show "\<exists>z. ca_heap (put_session r (Some y) c) q = Some z \<and> 0 < lv_refs z"
      using ok(2) q refs(2) x by (cases "q = r") auto
  qed
  ultimately show ?thesis by (simp add: cache_inv_def)
qed

subsection \<open>Drops\<close>

lemma destroy_session:
  assumes inv: "cache_inv pid E c" and x: "ca_heap c r = Some x"
    and gone: "resident_of (lv_key x) c \<noteq> Some r" "flight_of c (lv_key x) \<noteq> Some r"
  shows "cache_inv pid (E - {r}) (drop_writer pid (lv_key x) (lv_writer x) (put_session r None c))" (is "cache_inv _ _ ?c")
proof -
  have w: "writes_to ?c k q \<longleftrightarrow> writes_to c k q \<and> q \<noteq> r" for k q by (auto simp: writes_to_def)
  have f: "flight_of ?c k = flight_of c k" for k by (simp add: flight_of_def)
  have res: "resident_of k c \<noteq> Some r" for k
    using inv x gone(1) unfolding cache_inv_def residents_ok_def by force
  have fl: "flight_of c k \<noteq> Some r" for k
    using inv x gone(2) res unfolding cache_inv_def flights_ok_def flight_of_def by (force split: option.splits)
  have "residents_ok (E - {r}) ?c"
    using inv res unfolding cache_inv_def residents_ok_def f by (auto 4 3)
  moreover have "writers_ok pid (E - {r}) ?c"
  proof -
    have u: "\<forall>k r r'. writes_to c k r \<and> writes_to c k r' \<longrightarrow> r = r'"
      and l: "\<forall>k. ours pid k c \<longleftrightarrow> (\<exists>r. writes_to c k r)"
      and e: "\<forall>r x. ca_heap c r = Some x \<and> lv_writer x \<longrightarrow> \<not> lv_frozen x \<and> (r \<in> E \<or> resident_of (lv_key x) c = Some r)"
      using inv unfolding cache_inv_def writers_ok_def by blast+
    have me: "writes_to c k r \<longleftrightarrow> lv_writer x \<and> lv_key x = k" for k using x by (auto simp: writes_to_def)
    have "ours pid k ?c \<longleftrightarrow> (\<exists>q. writes_to ?c k q)" for k
    proof (cases "lv_writer x \<and> lv_key x = k")
      case True
      then have "writes_to c k r" using me by simp
      then have "\<not> (\<exists>q. writes_to ?c k q)" unfolding w using u by blast
      moreover have "\<not> ours pid k ?c" using True by simp
      ultimately show ?thesis by blast
    next
      case False
      then have "\<not> writes_to c k r" using me by simp
      then show ?thesis using False l by (auto simp: w)
    qed
    then show ?thesis using u e unfolding writers_ok_def w by auto
  qed
  moreover have "flights_ok ?c"
    using inv fl unfolding cache_inv_def flights_ok_def f w by auto
  ultimately show ?thesis by (simp add: cache_inv_def)
qed

lemma put_session_twice: "put_session r y (put_session r x c) = put_session r y c"
  by (simp add: put_session_def)

lemma drop_unheld_inv:
  assumes "cache_inv pid E c" and "r \<notin> E" and "\<And>x. ca_heap c r = Some x \<Longrightarrow> lv_refs x = 0 \<Longrightarrow> flight_of c (lv_key x) \<noteq> Some r"
  shows "cache_inv pid E (drop_unheld pid r c)"
proof (cases "ca_heap c r")
  case None
  then show ?thesis using assms(1) by (simp add: drop_unheld_def)
next
  case (Some x)
  have "E - {r} = E" using assms(2) by simp
  then show ?thesis
    using Some assms(1,3) destroy_session [OF assms(1) Some] by (auto simp: drop_unheld_def)
qed

lemma flight_refs:
  "cache_inv pid E c \<Longrightarrow> ca_heap c r = Some x \<Longrightarrow> flight_of c k = Some r \<Longrightarrow> 0 < lv_refs x"
  unfolding cache_inv_def flights_ok_def flight_of_def by (force split: option.splits)

lemma take_ref_inv:
  assumes "cache_inv pid E c" and "r \<notin> E"
  shows "cache_inv pid E (take_ref r c)"
  using assms by (auto simp: take_ref_def intro!: cache_inv_session split: option.split)

lemma take_ref_simps [simp]:
  "resident_of k (take_ref r c) = resident_of k c" "ca_flights (take_ref r c) = ca_flights c"
  "ca_fresh (take_ref r c) = ca_fresh c" "ours pid k (take_ref r c) = ours pid k c"
  "slot_of k (take_ref r c) = slot_of k c"
  by (simp_all add: take_ref_def split: option.splits)

lemma let_go_inv:
  assumes inv: "cache_inv pid {} c"
    and spare: "\<And>x. ca_heap c r = Some x \<Longrightarrow> flight_of c (lv_key x) = Some r \<Longrightarrow> 1 < lv_refs x"
  shows "cache_inv pid {} (let_go pid r c)"
proof (cases "ca_heap c r")
  case None
  then show ?thesis using inv by (simp add: let_go_def)
next
  case (Some x)
  let ?c = "put_session r (Some (x\<lparr>lv_refs := lv_refs x - 1\<rparr>)) c"
  have "cache_inv pid {} ?c" by (rule cache_inv_session [OF inv Some]) (use spare [OF Some] in auto)
  then have "cache_inv pid {} (drop_unheld pid r ?c)"
    by (rule drop_unheld_inv) (use spare [OF Some] in \<open>auto simp: flight_of_def\<close>)
  then show ?thesis using Some by (simp add: let_go_def)
qed

lemma let_go_evicted:
  assumes inv: "cache_inv pid E c" and r: "r \<in> E"
  shows "cache_inv pid (E - {r}) (let_go pid r c)"
proof -
  obtain x where x: "ca_heap c r = Some x" "lv_refs x = 1" "resident_of (lv_key x) c \<noteq> Some r"
      "flight_of c (lv_key x) \<noteq> Some r"
    using inv r unfolding cache_inv_def residents_ok_def by blast
  have "let_go pid r c = drop_writer pid (lv_key x) (lv_writer x) (put_session r None c)"
    using x by (simp add: let_go_def drop_unheld_def put_session_twice)
  then show ?thesis using destroy_session [OF inv x(1,3,4)] by simp
qed

text \<open>Evicting a resident that nothing else holds.\<close>

lemma evict_inv:
  assumes inv: "cache_inv pid E c" and k: "resident_of k c = Some r" and x: "ca_heap c r = Some x" "lv_refs x = 0"
  shows "cache_inv pid (insert r E) (clear_resident k (take_ref r c))" and "r \<notin> E"
proof -
  have key: "lv_key x = k" using inv k x unfolding cache_inv_def residents_ok_def by force
  have fl: "flight_of c k' \<noteq> Some r" for k' using flight_refs [OF inv x(1)] x(2) by force
  show rE: "r \<notin> E" using inv x unfolding cache_inv_def residents_ok_def by force
  define c1 where "c1 = take_ref r c"
  have inv1: "cache_inv pid E c1" unfolding c1_def by (rule take_ref_inv [OF inv rE])
  have x1: "ca_heap c1 r = Some (x\<lparr>lv_refs := 1\<rparr>)" using x by (simp add: c1_def take_ref_def)
  have res: "resident_of k' c1 = Some q \<Longrightarrow> k' \<noteq> k \<Longrightarrow> q \<noteq> r" for k' q
    using inv1 x1 key unfolding cache_inv_def residents_ok_def by force
  have fl1: "flight_of c1 k' = flight_of c k'" for k' by (simp add: flight_of_def c1_def)
  have f: "flight_of (clear_resident k c1) k' = flight_of c k'" for k' by (simp add: flight_of_def c1_def)
  have w: "writes_to (clear_resident k c1) k' q = writes_to c1 k' q" for k' q by (simp add: writes_to_def)
  have kr: "resident_of k c1 = Some r" using k by (simp add: c1_def)
  have "residents_ok (insert r E) (clear_resident k c1)"
  proof -
    have ok: "\<forall>k r. resident_of k c1 = Some r \<longrightarrow> (\<exists>x. ca_heap c1 r = Some x \<and> lv_key x = k)"
      "\<forall>r x. ca_heap c1 r = Some x \<longrightarrow> r < ca_fresh c1"
      "\<forall>r\<in>E. \<exists>x. ca_heap c1 r = Some x \<and> lv_refs x = 1 \<and> resident_of (lv_key x) c1 \<noteq> Some r \<and> flight_of c (lv_key x) \<noteq> Some r"
      using inv1 unfolding cache_inv_def residents_ok_def fl1 by blast+
    have sub: "resident_of k' (clear_resident k c1) = Some q \<Longrightarrow> resident_of k' c1 = Some q" for k' q
      by (simp split: if_splits)
    have me: "\<exists>x. ca_heap c1 r = Some x \<and> lv_refs x = 1 \<and> resident_of (lv_key x) (clear_resident k c1) \<noteq> Some r
        \<and> flight_of c (lv_key x) \<noteq> Some r"
      using x1 key fl by simp
    show ?thesis
      unfolding residents_ok_def f clear_projections
    proof (intro conjI ballI)
      show "\<forall>k' q. resident_of k' (clear_resident k c1) = Some q \<longrightarrow> (\<exists>x. ca_heap c1 q = Some x \<and> lv_key x = k')"
        using ok(1) sub by blast
      show "\<forall>r x. ca_heap c1 r = Some x \<longrightarrow> r < ca_fresh c1" by (rule ok(2))
      fix q assume "q \<in> insert r E"
      then show "\<exists>x. ca_heap c1 q = Some x \<and> lv_refs x = 1 \<and> resident_of (lv_key x) (clear_resident k c1) \<noteq> Some q
          \<and> flight_of c (lv_key x) \<noteq> Some q"
        using me ok(3) sub by blast
    qed
  qed
  moreover have "writers_ok pid (insert r E) (clear_resident k c1)"
  proof (rule writers_okI)
    fix q y assume y: "ca_heap (clear_resident k c1) q = Some y" "lv_writer y"
    then have h: "ca_heap c1 q = Some y" by simp
    have ne: "q = r \<or> lv_key y \<noteq> k" if "resident_of (lv_key y) c1 = Some q" using that kr by auto
    show "\<not> lv_frozen y \<and> (q \<in> insert r E \<or> resident_of (lv_key y) (clear_resident k c1) = Some q)"
      using inv_writer [OF inv1 h y(2)] ne by auto
  qed (simp_all only: w ours_put inv_ours [OF inv1], metis inv_unique [OF inv1])
  moreover have "flights_ok (clear_resident k c1)"
    unfolding flights_ok_def f w
  proof (intro allI impI conjI)
    fix k' assume "ca_flights (clear_resident k c1) k' \<noteq> None"
    then have ok: "\<forall>q. \<not> writes_to c1 k' q"
      "\<forall>q. flight_of c k' = Some q \<longrightarrow> resident_of k' c1 = Some q \<and> (\<exists>x. ca_heap c1 q = Some x \<and> 0 < lv_refs x)"
      using inv1 unfolding cache_inv_def flights_ok_def fl1 by simp_all
    show "\<not> writes_to c1 k' q" for q using ok(1) by blast
    fix q assume q: "flight_of c k' = Some q"
    then have "k' \<noteq> k" using ok(2) kr fl by force
    then show "resident_of k' (clear_resident k c1) = Some q" using ok(2) q by simp
    show "\<exists>x. ca_heap (clear_resident k c1) q = Some x \<and> 0 < lv_refs x" using ok(2) q by simp
  qed
  ultimately show "cache_inv pid (insert r E) (clear_resident k (take_ref r c))"
    unfolding c1_def by (simp add: cache_inv_def)
qed

subsection \<open>Evictions\<close>

lemma reap_slot_inv:
  assumes "cache_inv pid E c" and "reap_slot ttl k c = (out, c')"
  shows "cache_inv pid (E \<union> set (map snd out)) c' \<and> distinct (map snd out) \<and> set (map snd out) \<inter> E = {}"
proof -
  have same: ?thesis if "out = []" "c' = c" using that assms(1) by simp
  show ?thesis
  proof (cases "resident_of k c")
    case None
    then show ?thesis using assms(2) same by (simp add: reap_slot_def)
  next
    case r: (Some r)
    then obtain x where x: "ca_heap c r = Some x" using inv_resident [OF assms(1)] by blast
    show ?thesis
    proof (cases "1 + lv_refs x > 1 \<or> ca_now c - sl_last_seen (slot_or_insert k c) < ttl")
      case True
      then show ?thesis using assms(2) same r x by (simp add: reap_slot_def)
    next
      case False
      then have "out = [(k, r)]" "c' = clear_resident k (take_ref r c)" "lv_refs x = 0"
        using assms(2) r x by (simp_all add: reap_slot_def)
      then show ?thesis using evict_inv [OF assms(1) r x] by simp
    qed
  qed
qed

lemma reap_slots_inv:
  "cache_inv pid E c \<Longrightarrow> reap_slots ttl ks c = (out, c') \<Longrightarrow>
     cache_inv pid (E \<union> set (map snd out)) c' \<and> distinct (map snd out) \<and> set (map snd out) \<inter> E = {}"
proof (induction ks arbitrary: E c out)
  case (Cons k ks)
  obtain o1 c1 where 1: "reap_slot ttl k c = (o1, c1)" by fastforce
  obtain o2 where 2: "reap_slots ttl ks c1 = (o2, c')" "out = o1 @ o2"
    using Cons.prems(2) 1 by (auto split: prod.splits)
  note r1 = reap_slot_inv [OF Cons.prems(1) 1]
  note r2 = Cons.IH [OF conjunct1 [OF r1] 2(1)]
  have "E \<union> set (map snd out) = E \<union> set (map snd o1) \<union> set (map snd o2)" unfolding 2(2) by auto
  then show ?case using r1 r2 unfolding 2(2) by (auto simp: Int_Un_distrib Int_commute)
qed simp

text \<open>\<open>reap\<close>, and its caller dropping what it evicted.\<close>

definition drop_evicted ::
  "nat \<Rightarrow> (string \<times> nat) list \<Rightarrow> ('a, 'n, 's, 'bv) cache \<Rightarrow> ('a, 'n, 's, 'bv) cache" where
  "drop_evicted pid out c = fold (\<lambda>(_, r). let_go pid r) out c"

lemma drop_evicted_inv:
  "cache_inv pid E c \<Longrightarrow> distinct (map snd out) \<Longrightarrow> set (map snd out) \<subseteq> E \<Longrightarrow>
     cache_inv pid (E - set (map snd out)) (drop_evicted pid out c)"
proof (induction out arbitrary: E c)
  case (Cons kr out)
  have "cache_inv pid (E - {snd kr}) (let_go pid (snd kr) c)"
    by (rule let_go_evicted [OF Cons.prems(1)]) (use Cons.prems(3) in simp)
  then have "cache_inv pid (E - {snd kr} - set (map snd out)) (drop_evicted pid out (let_go pid (snd kr) c))"
  proof (rule Cons.IH)
    show "distinct (map snd out)" using Cons.prems(2) by simp
    show "set (map snd out) \<subseteq> E - {snd kr}" using Cons.prems(2,3) by (simp add: subset_iff) blast
  qed
  moreover have "E - {snd kr} - set (map snd out) = E - set (map snd (kr # out))" by auto
  ultimately show ?case by (cases kr) (simp add: drop_evicted_def)
qed (simp add: drop_evicted_def)

lemma reap_inv:
  assumes "cache_inv pid {} c" and "reap ttl c = (out, c')"
  shows "cache_inv pid {} (drop_evicted pid out c')"
proof -
  note r = reap_slots_inv [OF assms(1) assms(2) [unfolded reap_def]]
  have "cache_inv pid ({} \<union> set (map snd out) - set (map snd out)) (drop_evicted pid out c')"
    by (rule drop_evicted_inv) (use r in simp_all)
  then show ?thesis by simp
qed

text \<open>A resident may be removed once it is released, or while nobody uses it.\<close>

definition removable :: "string \<Rightarrow> ('a, 'n, 's, 'bv) cache \<Rightarrow> bool" where
  "removable k c \<longleftrightarrow> ca_flights c k = None
     \<and> (\<forall>r x. resident_of k c = Some r \<longrightarrow> ca_heap c r = Some x \<longrightarrow> lv_frozen x \<or> lv_refs x = 0)"

lemma remove_as_drop:
  assumes "resident_of k c = Some r" and "ca_heap c r = Some x" and "lv_refs x = 0"
  shows "remove_pull pid k c = let_go pid r (clear_resident k (take_ref r c))"
proof -
  have "put_session r (Some (x\<lparr>lv_refs := 0\<rparr>)) (clear_resident k (take_ref r c)) = clear_resident k c"
    using assms by (simp add: take_ref_def clear_resident_def put_session_def put_slot_def slot_of_def fun_upd_idem
        split: option.splits)
  then show ?thesis using assms by (simp add: remove_pull_def let_go_def take_ref_def)
qed

lemma remove_pull_inv:
  assumes inv: "cache_inv pid {} c" and ok: "removable k c"
  shows "cache_inv pid {} (remove_pull pid k c)"
proof (cases "resident_of k c")
  case None
  then show ?thesis using inv by (simp add: remove_pull_def)
next
  case (Some r)
  then obtain x where x: "ca_heap c r = Some x" "lv_key x = k"
    using inv unfolding cache_inv_def residents_ok_def by blast
  have fl: "ca_flights c k = None" using ok by (simp add: removable_def)
  show ?thesis
  proof (cases "lv_refs x = 0")
    case True
    have "cache_inv pid ({r} - {r}) (let_go pid r (clear_resident k (take_ref r c)))"
      by (rule let_go_evicted [OF evict_inv(1) [OF inv Some x(1) True]]) simp
    then show ?thesis by (simp add: remove_as_drop [OF Some x(1) True])
  next
    case False
    then have "lv_frozen x" using ok Some x by (simp add: removable_def)
    then have nw: "\<not> lv_writer x" using inv x unfolding cache_inv_def writers_ok_def by blast
    have f: "flight_of (clear_resident k c) k' = flight_of c k'" for k' by (simp add: flight_of_def)
    have w: "writes_to (clear_resident k c) k' q = writes_to c k' q" for k' q by (simp add: writes_to_def)
    have other: "lv_key y \<noteq> k" if "ca_heap c q = Some y" "lv_writer y" for q y
      using inv nw x Some that unfolding cache_inv_def writers_ok_def by force
    have "residents_ok {} (clear_resident k c)"
      using inv unfolding cache_inv_def residents_ok_def by simp
    moreover have "writers_ok pid {} (clear_resident k c)"
    proof (rule writers_okI)
      fix q y assume y: "ca_heap (clear_resident k c) q = Some y" "lv_writer y"
      then have h: "ca_heap c q = Some y" by simp
      show "\<not> lv_frozen y \<and> (q \<in> {} \<or> resident_of (lv_key y) (clear_resident k c) = Some q)"
        using inv_writer [OF inv h y(2)] other [OF h y(2)] by simp
    qed (simp_all only: w ours_put inv_ours [OF inv], metis inv_unique [OF inv])
    moreover have "flights_ok (clear_resident k c)"
      using inv fl unfolding cache_inv_def flights_ok_def f w by auto
    ultimately have "cache_inv pid {} (clear_resident k c)" by (simp add: cache_inv_def)
    then have "cache_inv pid {} (drop_unheld pid r (clear_resident k c))"
      by (rule drop_unheld_inv) (use x fl in \<open>auto simp: flight_of_def\<close>)
    then show ?thesis using Some by (simp add: remove_pull_def)
  qed
qed

lemma remove_pull_other:
  assumes "cache_inv pid {} c" and "k' \<noteq> k"
  shows "resident_of k' (remove_pull pid k c) = resident_of k' c"
    and "ca_flights (remove_pull pid k c) = ca_flights c"
    and "resident_of k' c = Some r \<Longrightarrow> ca_heap (remove_pull pid k c) r = ca_heap c r"
proof -
  have ne: "resident_of k c = Some q \<Longrightarrow> resident_of k' c = Some r \<Longrightarrow> q \<noteq> r" for q r
    using inv_resident [OF assms(1), of k] inv_resident [OF assms(1), of k'] assms(2) by force
  show "resident_of k' (remove_pull pid k c) = resident_of k' c"
    "ca_flights (remove_pull pid k c) = ca_flights c"
    using assms(2) by (simp_all add: remove_pull_def drop_unheld_def split: option.splits)
  show "resident_of k' c = Some r \<Longrightarrow> ca_heap (remove_pull pid k c) r = ca_heap c r"
    using ne [of _ r] by (auto simp: remove_pull_def drop_unheld_def split: option.splits)
qed

lemma remove_pull_removable:
  assumes "cache_inv pid {} c" and "removable k c" and "removable k' c"
  shows "removable k' (remove_pull pid k c)"
proof (cases "k' = k")
  case True
  have "resident_of k (remove_pull pid k c) = None"
    by (simp add: remove_pull_def drop_unheld_def split: option.splits)
  moreover have "ca_flights (remove_pull pid k c) = ca_flights c"
    by (simp add: remove_pull_def drop_unheld_def split: option.splits)
  ultimately show ?thesis using True assms(3) by (simp add: removable_def)
next
  case False
  then show ?thesis
    using assms(3) remove_pull_other [OF assms(1) False] unfolding removable_def by metis
qed

lemma removes_inv:
  "cache_inv pid {} c \<Longrightarrow> \<forall>k\<in>set ks. removable k c \<Longrightarrow> cache_inv pid {} (fold (remove_pull pid) ks c)"
proof (induction ks arbitrary: c)
  case (Cons k ks)
  have k: "removable k c" using Cons.prems(2) by simp
  have "removable k' (remove_pull pid k c)" if "k' \<in> set ks" for k'
    by (rule remove_pull_removable [OF Cons.prems(1) k]) (use Cons.prems(2) that in simp)
  then show ?case using Cons.IH remove_pull_inv [OF Cons.prems(1) k] by simp
qed simp

subsection \<open>Release and publication\<close>

lemma change_writer:
  assumes inv: "cache_inv pid {} c" and r: "resident_of k c = Some r" and x: "ca_heap c r = Some x"
    and c1: "\<And>k'. ours pid k' c1 \<longleftrightarrow> ours pid k' c \<and> k' \<noteq> k \<or> k' = k \<and> w"
      "ca_heap c1 = ca_heap c" "ca_fresh c1 = ca_fresh c" "\<And>k'. resident_of k' c1 = resident_of k' c"
      "ca_flights c1 = (ca_flights c)(k := f)"
    and f: "f = None \<or> f = ca_flights c k \<and> \<not> w" and others: "\<And>q. writes_to c k q \<Longrightarrow> q = r"
    and y: "y = x\<lparr>lv_writer := w, lv_frozen := z\<rparr>" "w \<Longrightarrow> \<not> z"
  shows "cache_inv pid {} (put_session r (Some y) c1)" (is "cache_inv _ _ ?c")
proof -
  have key: "lv_key x = k" using inv_resident [OF inv r] x by auto
  have w: "writes_to ?c k' q \<longleftrightarrow> (if q = r then w \<and> k' = k else writes_to c k' q)" for k' q
    using key by (auto simp: writes_to_def c1(2) y(1))
  have fl: "flight_of ?c k' = Some q \<Longrightarrow> flight_of c k' = Some q" for k' q
    using f by (cases "k' = k") (auto simp: flight_of_def c1(5))
  have rx: "writes_to c k' r \<Longrightarrow> k' = k" for k' using x key by (auto simp: writes_to_def)
  have "residents_ok {} ?c"
    unfolding residents_ok_def
  proof (intro conjI allI impI ballI)
    fix k' q assume "resident_of k' ?c = Some q"
    then obtain v where "ca_heap c q = Some v" "lv_key v = k'" using inv_resident [OF inv, of k' q] by (auto simp: c1(4))
    then show "\<exists>v. ca_heap ?c q = Some v \<and> lv_key v = k'" using x by (auto simp: c1(2) y(1))
  qed (use inv_fresh [OF inv] x in \<open>auto simp: c1(2,3) split: if_splits\<close>)
  moreover have "writers_ok pid {} ?c"
  proof (rule writers_okI)
    fix q v assume v: "ca_heap ?c q = Some v" "lv_writer v"
    show "\<not> lv_frozen v \<and> (q \<in> {} \<or> resident_of (lv_key v) ?c = Some q)"
    proof (cases "q = r")
      case True
      then have "v = x\<lparr>lv_writer := w, lv_frozen := z\<rparr>" using v(1) y(1) by simp
      then show ?thesis using True v(2) y(2) key r by (simp add: c1(4))
    next
      case False
      then have "ca_heap c q = Some v" using v(1) by (simp add: c1(2))
      from inv_writer [OF inv this v(2)] show ?thesis by (simp add: c1(4))
    qed
  next
    fix k' q q' assume "writes_to ?c k' q" "writes_to ?c k' q'"
    then show "q = q'" unfolding w using inv_unique [OF inv] others by (metis (full_types))
  next
    fix k'
    have "(\<exists>q. writes_to ?c k' q) \<longleftrightarrow> (if k' = k then w else (\<exists>q. writes_to c k' q))"
      unfolding w using others rx by (metis (full_types))
    then show "ours pid k' ?c \<longleftrightarrow> (\<exists>q. writes_to ?c k' q)" using inv_ours [OF inv, of k'] by (auto simp: c1(1))
  qed
  moreover have "flights_ok ?c"
    unfolding flights_ok_def
  proof (intro allI impI conjI)
    fix k' assume k': "ca_flights ?c k' \<noteq> None"
    then have old: "ca_flights c k' \<noteq> None" and nw: "k' = k \<Longrightarrow> \<not> w"
      using f by (cases "k' = k", auto simp: c1(5))+
    show "\<not> writes_to ?c k' q" for q unfolding w using inv_flight(1) [OF inv old] nw by auto
    fix q assume "flight_of ?c k' = Some q"
    from inv_flight(2) [OF inv old fl [OF this]]
    show "resident_of k' ?c = Some q" "\<exists>v. ca_heap ?c q = Some v \<and> 0 < lv_refs v"
      using x by (auto simp: c1 y(1))
  qed
  ultimately show ?thesis by (simp add: cache_inv_def)
qed

lemma release_inv: "cache_inv pid {} c \<Longrightarrow> cache_inv pid {} (release_key pid k c)"
proof -
  assume inv: "cache_inv pid {} c"
  show ?thesis
  proof (cases "resident_of k c")
    case None
    then show ?thesis using inv by (simp add: release_key_def)
  next
    case (Some r)
    then obtain x where x: "ca_heap c r = Some x" "lv_key x = k" using inv_resident [OF inv] by blast
    let ?y = "x\<lparr>lv_writer := False, lv_frozen := True\<rparr>"
    have who: "q = r" if "writes_to c k q" for q
      using that inv_writer [OF inv] Some by (auto simp: writes_to_def)
    have "writes_to c k r \<longleftrightarrow> lv_writer x" using x by (simp add: writes_to_def)
    then have l: "ours pid k c \<longleftrightarrow> lv_writer x" using inv_ours [OF inv, of k] who by metis
    have "cache_inv pid {} (put_session r (Some ?y) (drop_writer pid k (lv_writer x) c))"
      by (rule change_writer [OF inv Some x(1), where w = False and f = "ca_flights c k"]) (use l who in auto)
    moreover have "put_session r (Some ?y) (drop_writer pid k (lv_writer x) c)
        = drop_writer pid k (lv_writer x) (put_session r (Some ?y) c)"
      by (simp add: drop_writer_def put_session_def put_entry_def)
    ultimately show ?thesis using Some x by (simp add: release_key_def)
  qed
qed

lemma release_all_inv: "cache_inv pid {} c \<Longrightarrow> cache_inv pid {} (release_all pid c)"
proof -
  have "cache_inv pid {} c \<Longrightarrow> cache_inv pid {} (fold (release_key pid) ks c)" for ks
    by (induction ks arbitrary: c) (simp_all add: release_inv)
  then show "cache_inv pid {} c \<Longrightarrow> cache_inv pid {} (release_all pid c)" by (simp add: release_all_def)
qed

lemma publish_ours [simp]: "ours pid k' (snd (publish_note pid dir msg ok k c)) = ours pid k' c"
  by (auto simp: publish_note_def per_session_publish_def lock_publish_def ours_def held_by_us_def Let_def
      split: option.splits if_splits)

lemma publish_inv:
  assumes "cache_inv pid {} c"
  shows "cache_inv pid {} (snd (publish_note pid dir msg ok k c))"
proof -
  obtain b e where "per_session_publish pid dir msg ok (ca_entries c k) = (b, e)" by fastforce
  then have e: "snd (publish_note pid dir msg ok k c) = put_entry k e c" by (simp add: publish_note_def)
  have "ours pid k' (put_entry k e c) = ours pid k' c" for k'
    using publish_ours [of pid k' dir msg ok k c] unfolding e .
  then show ?thesis unfolding e by (intro cache_inv_cong [OF assms]) simp_all
qed

subsection \<open>Reads\<close>

lemma slot_kept_inv: "cache_inv pid E c \<Longrightarrow> sl_resident sl = resident_of k c \<Longrightarrow> cache_inv pid E (put_slot k sl c)"
  by (rule cache_inv_cong) simp_all

lemma seen_now_inv: "cache_inv pid E c \<Longrightarrow> cache_inv pid E (seen_now k c)"
  by (auto simp: seen_now_def resident_of_def intro!: slot_kept_inv split: option.split)

lemma shared_peek_inv: "cache_inv pid {} c \<Longrightarrow> cache_inv pid {} (snd (shared_peek k c))"
  by (auto simp: shared_peek_def intro!: take_ref_inv split: option.split)

lemma touch_inv: "cache_inv pid {} c \<Longrightarrow> cache_inv pid {} (snd (touch k c))"
  by (simp add: touch_def seen_now_inv shared_peek_inv)

lemma source_inv:
  assumes "cache_inv pid {} c"
  shows "cache_inv pid {} (register_src k src c)" "cache_inv pid {} (register_new k src c)"
    "cache_inv pid {} (aux_put k x c)" "cache_inv pid {} (snd (aux_take k c))"
  using assms by (auto simp: register_src_def register_new_def aux_put_def aux_take_def Let_def resident_of_def
      intro!: slot_kept_inv split: option.split)

subsection \<open>Admission\<close>

lemma admit_resident_inv:
  "cache_inv pid {} c \<Longrightarrow> admit_resident k c = Some (a, c') \<Longrightarrow> cache_inv pid {} c'"
  by (auto simp: admit_resident_def intro!: seen_now_inv take_ref_inv split: option.splits if_splits)

lemma no_writer_begin:
  assumes "cache_inv pid {} c" and "admit_resident k c = None"
  shows "\<not> writes_to c k r"
proof
  assume "writes_to c k r"
  then obtain x where x: "ca_heap c r = Some x" "lv_key x = k" "lv_writer x" by (auto simp: writes_to_def)
  from inv_writer [OF assms(1) x(1,3)] show False using assms(2) x by (simp add: admit_resident_def)
qed

lemma begin_flight_inv:
  assumes inv: "cache_inv pid {} c" and none: "admit_resident k c = None" and peek: "shared_peek k c = (res, c1)"
  shows "cache_inv pid {} (c1\<lparr>ca_flights := (ca_flights c1)(k := Some (src, res))\<rparr>)" (is "cache_inv _ _ ?c")
proof -
  have c1: "cache_inv pid {} c1" using shared_peek_inv [OF inv, of k] peek by simp
  have w: "writes_to ?c k' q \<longleftrightarrow> writes_to c1 k' q" for k' q by (simp add: writes_to_def)
  have w1: "writes_to c1 k' q \<longleftrightarrow> writes_to c k' q" for k' q
    using peek by (auto simp: shared_peek_def take_ref_def writes_to_def split: option.splits if_splits)
  have res: "res = resident_of k c1" using peek by (auto simp: shared_peek_def split: option.splits)
  have held: "\<exists>x. ca_heap c1 r = Some x \<and> 0 < lv_refs x" if "res = Some r" for r
    using that peek inv_resident [OF inv, of k r]
    by (auto simp: shared_peek_def take_ref_def split: option.splits)
  have "flights_ok ?c"
    unfolding flights_ok_def w w1
  proof (intro allI impI conjI)
    fix k' assume k': "ca_flights ?c k' \<noteq> None"
    show "\<not> writes_to c k' q" for q
    proof (cases "k' = k")
      case True
      then show ?thesis using no_writer_begin [OF inv none] by simp
    next
      case False
      then show ?thesis using inv_flight(1) [OF c1, of k'] k' w1 by simp
    qed
    fix q assume q: "flight_of ?c k' = Some q"
    have "resident_of k' c1 = Some q \<and> (\<exists>x. ca_heap c1 q = Some x \<and> 0 < lv_refs x)"
    proof (cases "k' = k")
      case True
      then have "res = Some q" using q by (simp add: flight_of_def)
      then show ?thesis using True res held by simp
    next
      case False
      then have "flight_of c1 k' = Some q" using q by (simp add: flight_of_def)
      then show ?thesis using inv_flight(2) [OF c1 flight_ofD] by blast
    qed
    then show "resident_of k' ?c = Some q" "\<exists>x. ca_heap ?c q = Some x \<and> 0 < lv_refs x" by simp_all
  qed
  moreover have "residents_ok {} ?c" using c1 unfolding cache_inv_def residents_ok_def by simp
  moreover have "writers_ok pid {} ?c"
    by (rule writers_okI; (unfold w)?)
      (use inv_writer [OF c1] inv_unique [OF c1] inv_ours [OF c1] in auto)
  ultimately show ?thesis by (simp add: cache_inv_def)
qed

lemma admit_begin_inv:
  assumes "cache_inv pid {} c"
  shows "cache_inv pid {} (snd (admit_begin k c))"
proof (cases "admit_resident k c")
  case None
  show ?thesis
  proof (cases "resolve_src k c")
    case (Some src)
    obtain res c1 where p: "shared_peek k c = (res, c1)" by fastforce
    show ?thesis using begin_flight_inv [OF assms None p, of src] None Some p by (simp add: admit_begin_def)
  qed (use None assms in \<open>simp add: admit_begin_def\<close>)
next
  case (Some ac)
  then show ?thesis using admit_resident_inv [OF assms, of k "fst ac" "snd ac"] by (cases ac) (simp add: admit_begin_def)
qed

lemma end_flight_inv:
  assumes inv: "cache_inv pid {} c" and e: "\<not> held_by_us pid (ce_lock e)" and fl: "ca_flights c k \<noteq> None"
  shows "cache_inv pid {} (put_entry k e (c\<lparr>ca_flights := (ca_flights c)(k := None)\<rparr>))" (is "cache_inv _ _ ?c")
proof -
  have w: "writes_to ?c k' q \<longleftrightarrow> writes_to c k' q" for k' q by (simp add: writes_to_def)
  have f: "ca_flights ?c k' \<noteq> None \<Longrightarrow> flight_of ?c k' = flight_of c k' \<and> ca_flights c k' \<noteq> None" for k'
    by (auto simp: flight_of_def split: if_splits)
  have "residents_ok {} ?c" using inv unfolding cache_inv_def residents_ok_def by simp
  moreover have "writers_ok pid {} ?c"
    by (rule writers_okI; (unfold w)?)
      (use inv_writer [OF inv] inv_unique [OF inv] inv_ours [OF inv] inv_flight(1) [OF inv fl] e in auto)
  moreover have "flights_ok ?c"
    unfolding flights_ok_def w using inv_flight [OF inv] f by auto
  ultimately show ?thesis by (simp add: cache_inv_def)
qed

lemma install_inv:
  assumes inv: "cache_inv pid {} c" and fl: "ca_flights c k \<noteq> None"
    and c1: "c1 = put_entry k e (c\<lparr>ca_flights := (ca_flights c)(k := None)\<rparr>)"
    and x: "lv_key x = k" "\<not> lv_frozen x" "held_by_us pid (ce_lock e) = lv_writer x"
  shows "cache_inv pid {} (install_session pid k x c1)"
proof -
  let ?r = "ca_fresh c"
  define c2 where "c2 = put_slot k ((slot_or_insert k c1)\<lparr>sl_last_seen := ca_now c1, sl_resident := Some ?r\<rparr>)
    (put_session ?r (Some x) c1\<lparr>ca_fresh := ?r + 1\<rparr>)"
  have fresh: "ca_heap c ?r = None" using inv_fresh [OF inv, of ?r] by (cases "ca_heap c ?r") auto
  have h: "ca_heap c2 = (ca_heap c)(?r := Some x)" by (simp add: c2_def c1 put_session_def)
  have w: "writes_to c2 k' q \<longleftrightarrow> (if q = ?r then k' = k \<and> lv_writer x else writes_to c k' q)" for k' q
    using x(1) by (auto simp: writes_to_def h)
  have nw: "\<not> writes_to c k q" for q by (rule inv_flight(1) [OF inv fl])
  have res: "resident_of k' c2 = (if k' = k then Some ?r else resident_of k' c)" for k' by (simp add: c2_def c1)
  have f: "flight_of c2 k' = (if k' = k then None else flight_of c k')" "ca_flights c2 = (ca_flights c)(k := None)" for k'
    by (simp_all add: flight_of_def c2_def c1 put_session_def)
  have o: "ours pid k' c2 \<longleftrightarrow> (if k' = k then lv_writer x else ours pid k' c)" for k'
    using x(3) by (simp add: c2_def c1)
  have "residents_ok {} c2"
    unfolding residents_ok_def res h
    using inv_resident [OF inv] inv_fresh [OF inv] x(1) fresh
    by (fastforce simp: c2_def c1 put_session_def less_Suc_eq split: if_splits)
  moreover have "writers_ok pid {} c2"
  proof (rule writers_okI)
    fix q y assume y: "ca_heap c2 q = Some y" "lv_writer y"
    show "\<not> lv_frozen y \<and> (q \<in> {} \<or> resident_of (lv_key y) c2 = Some q)"
    proof (cases "q = ?r")
      case True
      then show ?thesis using y x by (simp add: h res)
    next
      case False
      then have "ca_heap c q = Some y" using y(1) by (simp add: h)
      moreover from this have "lv_key y \<noteq> k" using nw [of q] y(2) by (auto simp: writes_to_def)
      ultimately show ?thesis using inv_writer [OF inv _ y(2)] by (simp add: res)
    qed
  next
    fix k' q q' assume "writes_to c2 k' q" "writes_to c2 k' q'"
    then show "q = q'" unfolding w using nw inv_unique [OF inv] by (metis (full_types))
  next
    fix k'
    have nf: "\<not> writes_to c k' ?r" using fresh by (simp add: writes_to_def)
    show "ours pid k' c2 \<longleftrightarrow> (\<exists>q. writes_to c2 k' q)"
      unfolding o w using nw nf inv_ours [OF inv, of k'] by (cases "k' = k") (auto, metis)
  qed
  moreover have "flights_ok c2"
    unfolding flights_ok_def
  proof (intro allI impI conjI)
    fix k' assume "ca_flights c2 k' \<noteq> None"
    then have k': "k' \<noteq> k" "ca_flights c k' \<noteq> None" by (auto simp: f(2) split: if_splits)
    show "\<not> writes_to c2 k' q" for q unfolding w using inv_flight(1) [OF inv k'(2)] k'(1) by simp
    fix q assume "flight_of c2 k' = Some q"
    then have "flight_of c k' = Some q" using k'(1) by (simp add: f(1))
    from inv_flight(2) [OF inv k'(2) this]
    show "resident_of k' c2 = Some q" "\<exists>y. ca_heap c2 q = Some y \<and> 0 < lv_refs y"
      using k'(1) fresh by (auto simp: res h)
  qed
  ultimately have inv2: "cache_inv pid {} c2" by (simp add: cache_inv_def)
  have old: "install_session pid k x c1 = (case resident_of k c of None \<Rightarrow> c2 | Some q \<Rightarrow> drop_unheld pid q c2)"
  proof -
    have same: "ca_fresh c1 = ?r" "resident_of k c1 = resident_of k c" by (simp_all add: c1)
    show ?thesis unfolding install_session_def Let_def c2_def same by (rule refl)
  qed
  show ?thesis
  proof (cases "resident_of k c")
    case None
    then show ?thesis using old inv2 by simp
  next
    case (Some q)
    have "cache_inv pid {} (drop_unheld pid q c2)"
      by (rule drop_unheld_inv [OF inv2]) (use flight_refs [OF inv2] in force)+
    then show ?thesis using old Some by simp
  qed
qed

subsection \<open>Interleaving\<close>

text \<open>
  What the threads of this process, its clock and other processes do.  The side conditions are how
  the frontends call: a holder drops only its own references; what a reap evicts is dropped before
  anything else happens; a session is removed, or evicted over a budget, once it is released or
  while nobody uses it, and not during its admission.  A live session advances and writes its
  streams; another process changes an entry that is not ours.
\<close>

definition own_refs :: "nat \<Rightarrow> ('a, 'n, 's, 'bv) cache \<Rightarrow> nat" where
  "own_refs r c =
     (case ca_heap c r of
        None \<Rightarrow> 0
      | Some x \<Rightarrow> lv_refs x - (if flight_of c (lv_key x) = Some r then 1 else 0))"

inductive cache_step ::
  "nat \<Rightarrow> ('s \<Rightarrow> nat) \<Rightarrow> ('n, 's, 'bv) opener \<Rightarrow> ('a, 'n, 's, 'bv) cache \<Rightarrow> ('a, 'n, 's, 'bv) cache \<Rightarrow> bool"
  for pid blen opn where
  source: "cache_step pid blen opn c (register_src k src c)"
| source_new: "cache_step pid blen opn c (register_new k src c)"
| park: "cache_step pid blen opn c (aux_put k a c)"
| unpark: "cache_step pid blen opn c (snd (aux_take k c))"
| peek: "cache_step pid blen opn c (snd (shared_peek k c))"
| touched: "cache_step pid blen opn c (snd (touch k c))"
| dropped: "0 < own_refs r c \<Longrightarrow> cache_step pid blen opn c (let_go pid r c)"
| reaped: "reap ttl c = (out, c') \<Longrightarrow> cache_step pid blen opn c (drop_evicted pid out c')"
| removed: "removable k c \<Longrightarrow> cache_step pid blen opn c (remove_pull pid k c)"
| budget: "\<forall>k\<in>set (over_budget n pinned c). removable k c \<Longrightarrow> cache_step pid blen opn c (reap_over_budget pid n pinned c)"
| released: "cache_step pid blen opn c (release_key pid k c)"
| all_released: "cache_step pid blen opn c (release_all pid c)"
| published: "cache_step pid blen opn c (snd (publish_note pid dir msg ok k c))"
| found: "admit_resident k c = Some (a, c') \<Longrightarrow> cache_step pid blen opn c c'"
| flight: "ca_flights c k = None \<Longrightarrow> cache_step pid blen opn c (snd (admit_begin k c))"
| admitted: "ca_flights c k = Some (src, res) \<Longrightarrow> admit_finish pid blen opn k src res c = Some (a, c')
    \<Longrightarrow> cache_step pid blen opn c c'"
| advanced: "ca_heap c r = Some x \<Longrightarrow> \<not> lv_frozen x \<Longrightarrow> cache_step pid blen opn c
    (put_entry (lv_key x) ((ca_entries c (lv_key x))\<lparr>ce_meta := m, ce_store := d\<rparr>)
      (put_session r (Some (x\<lparr>lv_store := s, lv_bvs := vs\<rparr>)) c))"
| later: "cache_step pid blen opn c (c\<lparr>ca_now := ca_now c + n\<rparr>)"
| peer: "\<not> ours pid k c \<Longrightarrow> \<not> held_by_us pid (ce_lock e) \<Longrightarrow> cache_step pid blen opn c (put_entry k e c)"

lemma let_go_own:
  assumes "cache_inv pid {} c" and "0 < own_refs r c"
  shows "cache_inv pid {} (let_go pid r c)"
  by (rule let_go_inv [OF assms(1)]) (use assms(2) in \<open>simp add: own_refs_def\<close>)

lemma advance_inv:
  assumes "cache_inv pid {} c" and x: "ca_heap c r = Some x"
  shows "cache_inv pid {} (put_entry (lv_key x) ((ca_entries c (lv_key x))\<lparr>ce_meta := m, ce_store := d\<rparr>)
      (put_session r (Some (x\<lparr>lv_store := s, lv_bvs := vs\<rparr>)) c))"
proof -
  have "cache_inv pid {} (put_session r (Some (x\<lparr>lv_store := s, lv_bvs := vs\<rparr>)) c)"
    by (rule cache_inv_session [OF assms]) (use flight_refs [OF assms(1) x] in auto)
  then show ?thesis by (rule cache_inv_cong) (simp_all add: ours_def)
qed

lemma new_session_inv: "(\<And>k. \<not> held_by_us pid (ce_lock (disk k))) \<Longrightarrow> cache_inv pid {} (cache_new now disk)"
  by (simp add: cache_inv_defs cache_new_def resident_of_def slot_of_def ours_def)

subsection \<open>The provider\<close>

text \<open>What the cache relies on in an entry provider; \<open>pid\<close> is this process.\<close>

locale entry_provider =
  fixes pid :: nat and opn :: "('n, 's, 'bv) opener"
  assumes lease: "lease_ok pid (opn src wi e)"
    and denied: "opn src wi e = (OpenedDenied d, e') \<Longrightarrow> held_by_us pid (ce_lock e') \<Longrightarrow> held_by_us pid (ce_lock e)"
    and retained: "opn src None e \<noteq> (OpenedRetained w, e')"

context entry_provider
begin

lemma writer_holds:
  "opn src wi e = (OpenedOwned s tail reused orig resumed w, e') \<Longrightarrow> held_by_us pid (ce_lock e') = w"
  "opn src wi e = (OpenedRetained w, e') \<Longrightarrow> held_by_us pid (ce_lock e') = w"
  using lease [of src wi e] by (auto simp: lease_ok_def held_by_us_def split: if_splits)

lemma finish_inv:
  assumes inv: "cache_inv pid {} c" and fl: "ca_flights c k = Some (src, res)"
    and fin: "admit_finish pid blen opn k src res c = Some (a, c')"
  shows "cache_inv pid {} c'"
proof -
  obtain out e where o: "opn src (witness_of blen res c) (ca_entries c k) = (out, e)" by fastforce
  let ?c1 = "put_entry k e (c\<lparr>ca_flights := (ca_flights c)(k := None)\<rparr>)"
  have some: "ca_flights c k \<noteq> None" using fl by simp
  have res: "resident_of k c = Some r \<and> (\<exists>x. ca_heap c r = Some x \<and> 0 < lv_refs x)" if "res = Some r" for r
    using inv_flight(2) [OF inv some, of r] fl that by (simp add: flight_of_def)
  have no: "\<not> ours pid k c" using inv_ours [OF inv, of k] inv_flight(1) [OF inv some] by simp
  have drop: "cache_inv pid {} (held_ref pid res c2)"
    if "cache_inv pid {} c2" "flight_of c2 k = None" "\<And>r x. res = Some r \<Longrightarrow> ca_heap c2 r = Some x \<Longrightarrow> lv_key x = k"
    for c2 :: "('a, 'n, 's, 'bv) cache"
  proof (cases res)
    case (Some r)
    have "flight_of c2 (lv_key x) \<noteq> Some r" if "ca_heap c2 r = Some x" for x
      using \<open>flight_of c2 k = None\<close> \<open>\<And>r x. res = Some r \<Longrightarrow> ca_heap c2 r = Some x \<Longrightarrow> lv_key x = k\<close> [OF Some that] by simp
    then show ?thesis using Some let_go_inv [OF that(1), of r] by (simp add: held_ref_def)
  qed (use that in \<open>simp add: held_ref_def\<close>)
  have key: "lv_key x = k" if "res = Some r" "ca_heap c r = Some x" for r x
    using res [OF that(1)] inv_resident [OF inv, of k r] that(2) by auto
  have off: "flight_of ?c1 k = None" by (simp add: flight_of_def)
  show ?thesis
  proof (cases out)
    case (OpenedDenied d)
    have e: "\<not> held_by_us pid (ce_lock e)"
      using denied [of src "witness_of blen res c" "ca_entries c k" d e] o no OpenedDenied by (auto simp: ours_def)
    have c': "c' = held_ref pid res ?c1" using fin o OpenedDenied by (simp add: admit_finish_def Let_def)
    show ?thesis unfolding c' by (rule drop [OF end_flight_inv [OF inv e some] off]) (use key in simp)
  next
    case (OpenedRetained w)
    have e: "held_by_us pid (ce_lock e) = w" using writer_holds(2) o OpenedRetained by blast
    have "res \<noteq> None"
      using retained [of src "ca_entries c k" w e] o OpenedRetained by (auto simp: witness_of_def split: option.splits)
    then obtain r where r: "res = Some r" by blast
    obtain x where x: "ca_heap c r = Some x" using res [OF r] by blast
    have c': "c' = put_session r (Some (x\<lparr>lv_writer := w, lv_frozen := False\<rparr>)) ?c1"
      using fin o OpenedRetained r x by (simp add: admit_finish_def Let_def)
    show ?thesis
      unfolding c'
      by (rule change_writer [OF inv conjunct1 [OF res [OF r]] x, where w = w and f = None and z = False])
        (use e no inv_flight(1) [OF inv some] in auto)
  next
    case (OpenedOwned s tail reused orig resumed w)
    have e: "held_by_us pid (ce_lock e) = w" using writer_holds(1) o OpenedOwned by blast
    obtain vs where c': "c' = held_ref pid res (install_session pid k
        \<lparr>lv_key = k, lv_frozen = False, lv_writer = w, lv_store = s, lv_bvs = vs, lv_refs = 1\<rparr> ?c1)"
      using fin o OpenedOwned unfolding admit_finish_def Let_def by auto
    let ?x = "\<lparr>lv_key = k, lv_frozen = False, lv_writer = w, lv_store = s, lv_bvs = vs, lv_refs = 1\<rparr>"
    have "cache_inv pid {} (install_session pid k ?x ?c1)"
      by (rule install_inv [OF inv some refl]) (simp_all add: e)
    moreover have "flight_of (install_session pid k ?x ?c1) k = None"
      by (simp add: flight_of_def install_session_def Let_def drop_unheld_def put_session_def split: option.splits)
    moreover have "lv_key y = k" if y: "res = Some r" "ca_heap (install_session pid k ?x ?c1) r = Some y" for r y
    proof -
      have "r \<noteq> ca_fresh c" using inv_fresh [OF inv] res [OF y(1)] by auto
      then have "ca_heap c r = Some y"
        using y(2) by (auto simp: install_session_def Let_def drop_unheld_def put_session_def split: option.splits if_splits)
      then show ?thesis using key [OF y(1)] by simp
    qed
    ultimately show ?thesis unfolding c' by (rule drop)
  qed
qed

lemma finish_returns:
  assumes inv: "cache_inv pid {} c" and fl: "ca_flights c k = Some (src, res)"
  shows "admit_finish pid blen opn k src res c \<noteq> None"
proof -
  obtain out e where o: "opn src (witness_of blen res c) (ca_entries c k) = (out, e)" by fastforce
  show ?thesis
  proof (cases out)
    case (OpenedRetained w)
    then obtain r where r: "res = Some r"
      using retained [of src "ca_entries c k" w e] o by (cases res) (auto simp: witness_of_def)
    have "\<exists>x. ca_heap c r = Some x"
      using inv_flight(2) [OF inv, of k r] fl r by (auto simp: flight_of_def)
    then show ?thesis using o r OpenedRetained by (auto simp: admit_finish_def Let_def)
  qed (use o in \<open>simp_all add: admit_finish_def Let_def\<close>)
qed

lemma step_inv: "cache_step pid blen opn c c' \<Longrightarrow> cache_inv pid {} c \<Longrightarrow> cache_inv pid {} c'"
proof (induction rule: cache_step.induct)
  case (admitted c k src res a c')
  then show ?case using finish_inv by blast
next
  case (peer k c e)
  then show ?case by (intro cache_inv_cong [OF peer(3)]) simp_all
next
  case (later c n)
  then show ?case by (intro cache_inv_cong [OF later]) simp_all
next
  case (budget n pinned c)
  then show ?case unfolding reap_over_budget_def by (intro removes_inv)
next
  case (reaped ttl c out c')
  show ?case by (rule reap_inv [OF reaped(2,1)])
next
  case (found c k a c')
  show ?case by (rule admit_resident_inv [OF found(2,1)])
qed (simp_all only: source_inv shared_peek_inv touch_inv let_go_own remove_pull_inv release_inv release_all_inv
      publish_inv admit_begin_inv advance_inv)

lemma reach_inv:
  assumes "(cache_step pid blen opn)\<^sup>*\<^sup>* (cache_new now disk) c" and "\<And>k. \<not> held_by_us pid (ce_lock (disk k))"
  shows "cache_inv pid {} c"
  using assms(1)
proof (induction rule: rtranclp_induct)
  case base
  show ?case by (rule new_session_inv [OF assms(2)])
next
  case (step y z)
  show ?case by (rule step_inv [OF step.hyps(2) step.IH])
qed

end

lemma claim_lock:
  "claim_entry cd cl src vs opening e = (ClaimDenied d, e') \<Longrightarrow> ce_lock e' = ce_lock e \<or> ce_lock e' = None"
  "claim_entry cd cl src vs opening e = (ClaimRetained, e') \<Longrightarrow> fst (opening (ce_meta e) (ce_store e)) = BackingRetained"
  by (auto simp: claim_entry_def lock_acquire_def lock_release_def Let_def
      split: if_splits option.splits backing_state.splits prod.splits sum.splits taken.splits)

lemma denied_lock:
  assumes "per_session_open pv cl nt noted src wi e = (OpenedDenied d, e')"
  shows "ce_lock e' = ce_lock e \<or> ce_lock e' = None"
proof -
  obtain out c where cl: "claim_entry (pv_codec pv) cl src (pv_versions pv) (open_backing pv src wi)
      (with_store e (ce_store e, [], False)) = (out, c)" by fastforce
  obtain s loaded reused where st: "ce_store c = (s, loaded, reused)" by (metis prod_cases3)
  have "out = ClaimDenied d \<and> e' = with_store c s"
    using assms cl st by (auto simp: per_session_open_def finish_open_def Let_def
        split: claimed.splits prod.splits option.splits sum.splits)
  then show ?thesis using claim_lock(1) cl by fastforce
qed

lemma never_retained:
  "per_session_open pv cl nt noted src None e \<noteq> (OpenedRetained w, e')"
proof
  assume a: "per_session_open pv cl nt noted src None e = (OpenedRetained w, e')"
  obtain out c where cl: "claim_entry (pv_codec pv) cl src (pv_versions pv) (open_backing pv src None)
      (with_store e (ce_store e, [], False)) = (out, c)" by fastforce
  obtain s loaded reused where st: "ce_store c = (s, loaded, reused)" by (metis prod_cases3)
  have "out = ClaimRetained"
    using a cl st by (auto simp: per_session_open_def finish_open_def Let_def
        split: claimed.splits prod.splits option.splits sum.splits)
  moreover have "fst (open_backing pv src None m x) \<noteq> BackingRetained" for m x
    by (auto simp: open_backing_def still_ours_def split: option.splits prod.splits)
  ultimately show False using claim_lock(2) cl by metis
qed

interpretation per_session: entry_provider "cl_pid cl" "per_session_open pv cl nt noted" for cl pv nt noted
proof
  show "lease_ok (cl_pid cl) (per_session_open pv cl nt noted src wi e)" for src wi and e :: "('a, 'b) cache_entry"
    by (rule per_session_lease)
  show "held_by_us (cl_pid cl) (ce_lock e)"
    if "per_session_open pv cl nt noted src wi e = (OpenedDenied d, e')" "held_by_us (cl_pid cl) (ce_lock e')"
    for src wi d and e e' :: "('a, 'b) cache_entry"
    using denied_lock [OF that(1)] that(2) by (auto simp: held_by_us_def)
qed (rule never_retained)


definition first_claimer :: "unit claimer" where
  "first_claimer = \<lparr>cl_pid = 7, cl_dir = [], cl_decidable = True, cl_alive = (\<lambda>h. True), cl_made = True, cl_writable = True\<rparr>"

definition first_source :: transcript where
  "first_source = \<lparr>ts_stream = Some ([], False), ts_len = Some 0\<rparr>"

definition first_cache :: "(unit, unit, arc_log, block) cache" where
  "first_cache = snd (admit_begin ''s'' (register_src ''s'' first_source
     (cache_new 0 (\<lambda>_. \<lparr>ce_lock = None, ce_meta = None, ce_store = arc_memory\<rparr>))))"


text \<open>
  A reap whose evicted sessions are dropped late breaks this: between the eviction and the drop the
  entry can be admitted again, and the drop then releases the lock under the new writer.
\<close>

definition late_opener :: "(unit, unit, unit) opener" where
  "late_opener src wi e = (OpenedOwned () [] False (OriginCold NoPriorCache) None True,
     e\<lparr>ce_lock := Some \<lparr>ho_pid = 7, ho_dir = [], ho_note = None\<rparr>\<rparr>)"

definition admit_late :: "(unit, unit, unit, unit) cache \<Rightarrow> (unit, unit, unit, unit) cache" where
  "admit_late c = snd (the (admit_finish 7 (\<lambda>_. 0) late_opener ''s'' first_source None (snd (admit_begin ''s'' c))))"

definition late_cache :: "(unit, unit, unit, unit) cache" where
  "late_cache = let_go 7 0 (admit_late (register_src ''s'' first_source
     (cache_new 0 (\<lambda>_. \<lparr>ce_lock = None, ce_meta = None, ce_store = ()\<rparr>))))"

theorem late_drop_unlocks:
  "let (out, c) = reap 0 late_cache; d = drop_evicted 7 out (admit_late c)
   in out = [(''s'', 0)] \<and> map_option (\<lambda>x. (lv_key x, lv_writer x)) (ca_heap d 1) = Some (''s'', True)
     \<and> resident_of ''s'' d = Some 1 \<and> ce_lock (ca_entries d ''s'') = None"
  by code_simp

end
