(* ===== verification/Jdi_State.thy ===== *)
theory Jdi_State
  imports Tasks Durable "HOL-Library.AList"
begin

text \<open>
  The state an unattended run keeps on disk (\<open>src/jdi/state.rs\<close>, \<open>src/jdi/backlog.rs\<close>): the
  \<open>meta\<close> file of \<open>key=value\<close> lines, the lifecycle states, and the backlog queue of three directories.
  A directory is its entries, name and contents, in any order.
\<close>

subsection \<open>Lifecycle states\<close>

datatype run_state =
  RunStarting | RunRunning | RunRetrying | RunStopped | RunDone | RunFailed | RunGaveUp | RunBlocked

fun run_state_as_str :: "run_state \<Rightarrow> string" where
  "run_state_as_str RunStarting = ''starting''"
| "run_state_as_str RunRunning = ''running''"
| "run_state_as_str RunRetrying = ''retrying''"
| "run_state_as_str RunStopped = ''stopped''"
| "run_state_as_str RunDone = ''done''"
| "run_state_as_str RunFailed = ''failed''"
| "run_state_as_str RunGaveUp = ''gaveup''"
| "run_state_as_str RunBlocked = ''blocked''"

definition run_state_parse :: "string \<Rightarrow> run_state option" where
  "run_state_parse s =
     (if s = ''starting'' then Some RunStarting else if s = ''running'' then Some RunRunning
      else if s = ''retrying'' then Some RunRetrying else if s = ''stopped'' then Some RunStopped
      else if s = ''done'' then Some RunDone else if s = ''failed'' then Some RunFailed
      else if s = ''gaveup'' then Some RunGaveUp else if s = ''blocked'' then Some RunBlocked else None)"

lemma run_state_roundtrip: "run_state_parse (run_state_as_str r) = Some r"
  by (cases r) (simp_all add: run_state_parse_def)

subsection \<open>The meta file\<close>

text \<open>\<open>None\<close> is an absent or unreadable file; \<open>ok\<close> is whether the write and the rename succeed.\<close>

definition meta_lines :: "string option \<Rightarrow> string list" where
  "meta_lines f = (case f of None \<Rightarrow> [] | Some t \<Rightarrow> std_lines t)"

definition meta_get :: "string \<Rightarrow> string option \<Rightarrow> string option" where
  "meta_get key f =
     map_option (drop (length key + 1)) (find (\<lambda>l. starts_with l (key @ ''='')) (meta_lines f))"

definition meta_set :: "bool \<Rightarrow> string \<Rightarrow> string \<Rightarrow> string option \<Rightarrow> string option" where
  "meta_set ok key val f =
     (if ok then Some (join_with [newline_char]
          (filter (\<lambda>l. \<not> starts_with l (key @ ''='')) (meta_lines f) @ [key @ ''='' @ val]) @ [newline_char])
      else f)"

definition session_state :: "string option \<Rightarrow> run_state option" where
  "session_state f = (case meta_get ''state'' f of None \<Rightarrow> None | Some s \<Rightarrow> run_state_parse s)"

subsection \<open>The backlog\<close>

type_synonym dir = "(string \<times> string) list"

record backlog =
  bk_pending :: dir
  bk_draining :: dir
  bk_drained :: dir

definition backlog_empty :: backlog where
  "backlog_empty = \<lparr>bk_pending = [], bk_draining = [], bk_drained = []\<rparr>"

definition parse_u32 :: "string \<Rightarrow> nat option" where
  "parse_u32 s = (case parse_u64 s of None \<Rightarrow> None | Some n \<Rightarrow> if n < 2 ^ 32 then Some n else None)"

text \<open>\<open>next_seq\<close> in 32 bits: a release build wraps.\<close>

definition max_seq :: "backlog \<Rightarrow> nat" where
  "max_seq b = foldl max 0 (List.map_filter parse_u32 (map fst (bk_pending b @ bk_draining b @ bk_drained b)))"

definition next_seq :: "backlog \<Rightarrow> nat" where
  "next_seq b = (max_seq b + 1) mod 2 ^ 32"

definition seq_name :: "nat \<Rightarrow> string" where
  "seq_name n = replicate (4 - length (show_nat n)) (CHR ''0'') @ show_nat n"

definition backlog_add :: "bool \<Rightarrow> string \<Rightarrow> backlog \<Rightarrow> (unit + string) \<times> backlog" where
  "backlog_add ok msg b =
     (let name = seq_name (next_seq b)
      in if ok then (Inr name, b\<lparr>bk_pending := AList.update name msg (bk_pending b)\<rparr>) else (Inl (), b))"

text \<open>What the file system answers: the directory is there, an entry can be renamed, an entry can be read.\<close>

record dir_io =
  di_made :: bool
  di_moves :: "string \<Rightarrow> bool"
  di_reads :: "string \<Rightarrow> bool"

definition move_entries :: "(string \<Rightarrow> bool) \<Rightarrow> dir \<Rightarrow> dir \<Rightarrow> dir \<times> dir" where
  "move_entries moves src dst =
     (filter (\<lambda>(n, _). \<not> moves n) src, fold (\<lambda>(n, t). AList.update n t) (filter (\<lambda>(n, _). moves n) src) dst)"

definition read_dir_sorted :: "(string \<Rightarrow> bool) \<Rightarrow> dir \<Rightarrow> string list" where
  "read_dir_sorted reads d = map snd (filter (\<lambda>(n, _). reads n) (sort_key fst d))"

definition backlog_claim :: "dir_io \<Rightarrow> backlog \<Rightarrow> (unit + string list) \<times> backlog" where
  "backlog_claim io b =
     (if \<not> di_made io then (Inl (), b)
      else case move_entries (di_moves io) (bk_pending b) (bk_draining b) of
             (p, d) \<Rightarrow> (Inr (read_dir_sorted (di_reads io) d), b\<lparr>bk_pending := p, bk_draining := d\<rparr>))"

definition backlog_finalize :: "dir_io \<Rightarrow> backlog \<Rightarrow> (unit + unit) \<times> backlog" where
  "backlog_finalize io b =
     (if \<not> di_made io then (Inl (), b)
      else case move_entries (di_moves io) (bk_draining b) (bk_drained b) of
             (d, e) \<Rightarrow> (Inr (), b\<lparr>bk_draining := d, bk_drained := e\<rparr>))"

definition pending_count :: "backlog \<Rightarrow> nat" where "pending_count b = length (bk_pending b)"
definition draining_count :: "backlog \<Rightarrow> nat" where "draining_count b = length (bk_draining b)"
definition drained_count :: "backlog \<Rightarrow> nat" where "drained_count b = length (bk_drained b)"

end
