(* ===== verification/Supervisor.thy ===== *)
theory Supervisor
  imports Jdi_State Mask
begin

text \<open>
  The unattended supervisor (\<open>src/jdi/supervisor.rs\<close>) over an agent's integration
  (\<open>src/jdi/agent.rs\<close>, \<open>claude.rs\<close>, \<open>codex.rs\<close>): how a turn is classified and what the retry loop
  does next.  What the world answers in a turn is its input: the agent's exit code and output, the
  open work its queue or checklist shows, the fingerprint of the working state, the file system.
\<close>

subsection \<open>Modes and outcomes\<close>

datatype jdi_mode = ModeStart | ModeExecute | ModeResumeDump | ModeResumeExecute | ModeBacklogDump | ModeBacklogExecute

fun mode_as_str :: "jdi_mode \<Rightarrow> string" where
  "mode_as_str ModeStart = ''start''"
| "mode_as_str ModeExecute = ''execute''"
| "mode_as_str ModeResumeDump = ''resume-dump''"
| "mode_as_str ModeResumeExecute = ''resume-execute''"
| "mode_as_str ModeBacklogDump = ''backlog-dump''"
| "mode_as_str ModeBacklogExecute = ''backlog-execute''"

definition mode_parse :: "string \<Rightarrow> jdi_mode option" where
  "mode_parse s =
     (if s = ''start'' then Some ModeStart else if s = ''execute'' then Some ModeExecute
      else if s = ''resume-dump'' then Some ModeResumeDump else if s = ''resume-execute'' then Some ModeResumeExecute
      else if s = ''backlog-dump'' then Some ModeBacklogDump
      else if s = ''backlog-execute'' then Some ModeBacklogExecute else None)"

datatype trigger = TriggerStart | TriggerResume | TriggerBacklogDrain

datatype turn_outcome =
    TurnDone
  | TurnRetry
  | TurnAdvance jdi_mode
  | TurnRecreate
  | TurnFailed int
  | TurnStopped int
  | TurnGaveUp

text \<open>\<open>classify\<close> sees the exit code, the output, the mode and the open work, \<open>None\<close> when unknown.\<close>

record jdi_adapter =
  ja_initial :: "trigger \<Rightarrow> jdi_mode"
  ja_continue :: jdi_mode
  ja_classify :: "int \<Rightarrow> string \<Rightarrow> jdi_mode \<Rightarrow> nat option \<Rightarrow> turn_outcome"

subsection \<open>The built-in agents\<close>

definition contains_str :: "string \<Rightarrow> string \<Rightarrow> bool" where
  "contains_str s needle \<longleftrightarrow> sub_index needle s \<noteq> None"

definition vanished_note :: string where "vanished_note = ''No conversation found''"

definition type_error :: "string \<Rightarrow> string" where
  "type_error what = [CHR 0x22] @ ''type'' @ [CHR 0x22] @ '':'' @ [CHR 0x22] @ what @ [CHR 0x22]"

definition unrecoverable :: "string list" where
  "unrecoverable =
     [type_error ''authentication_error'', type_error ''permission_error'', type_error ''invalid_request_error'',
      type_error ''billing_error'', type_error ''not_found_error'', ''invalid_api_key'', ''invalid x-api-key'',
      ''Credit balance is too low'', ''prompt is too long'']"

definition is_open_item :: "string \<Rightarrow> bool" where
  "is_open_item l =
     (let t = trim_start l; u = drop 3 t
      in (starts_with t ''- ['' \<or> starts_with t ''* ['') \<and> starts_with u '' '' \<and> starts_with (trim_start u) '']'')"

definition open_checklist_items :: "string \<Rightarrow> nat" where
  "open_checklist_items body = length (filter is_open_item (std_lines body))"

definition claude_classify :: "int \<Rightarrow> string \<Rightarrow> jdi_mode \<Rightarrow> nat option \<Rightarrow> turn_outcome" where
  "claude_classify rc capture mode opn =
     (if rc = 0 then
        (case mode of
           ModeResumeDump \<Rightarrow> TurnAdvance ModeResumeExecute
         | ModeBacklogDump \<Rightarrow> TurnAdvance ModeBacklogExecute
         | _ \<Rightarrow> if opn = Some 0 \<or> opn = None then TurnDone else TurnRetry)
      else if rc = 130 \<or> rc = 143 then TurnStopped rc
      else if contains_str capture vanished_note then TurnRecreate
      else if list_ex (contains_str capture) unrecoverable then TurnFailed rc
      else TurnRetry)"

fun claude_initial :: "trigger \<Rightarrow> jdi_mode" where
  "claude_initial TriggerStart = ModeStart"
| "claude_initial TriggerResume = ModeResumeDump"
| "claude_initial TriggerBacklogDrain = ModeBacklogDump"

definition claude_jdi :: jdi_adapter where
  "claude_jdi = \<lparr>ja_initial = claude_initial, ja_continue = ModeResumeExecute, ja_classify = claude_classify\<rparr>"

definition codex_classify :: "int \<Rightarrow> string \<Rightarrow> jdi_mode \<Rightarrow> nat option \<Rightarrow> turn_outcome" where
  "codex_classify rc capture mode opn =
     (if rc = 0 then TurnDone else if rc = 130 \<or> rc = 143 then TurnStopped rc else TurnRetry)"

definition codex_initial :: "trigger \<Rightarrow> jdi_mode" where
  "codex_initial t = (if t = TriggerStart then ModeStart else ModeExecute)"

definition codex_jdi :: jdi_adapter where
  "codex_jdi = \<lparr>ja_initial = codex_initial, ja_continue = ModeExecute, ja_classify = codex_classify\<rparr>"

subsection \<open>State and input\<close>

record supervisor =
  su_mode :: jdi_mode
  su_session_id :: string
  su_session_created :: bool
  su_fresh :: bool
  su_attempt :: nat
  su_draining :: bool
  su_drain_cycles :: nat
  su_identical :: nat
  su_last_failure :: string
  su_no_progress :: nat
  su_last_fp :: "nat option"
  su_brief :: "string list"
  su_backlog :: backlog
  su_meta :: "string option"

text \<open>
  \<open>ti_added\<close>: what the human queues while the turn runs.  \<open>ti_writes\<close>: which meta keys can be
  written in this turn.
\<close>

record turn_input =
  ti_run :: "(int \<times> string) option"
  ti_captured_id :: "string option"
  ti_transcript :: "string option"
  ti_queue :: "nat option"
  ti_checklist :: "string option"
  ti_fingerprint :: "nat option"
  ti_added :: "string list"
  ti_finalize :: dir_io
  ti_claim :: dir_io
  ti_writes :: "string \<Rightarrow> bool"

datatype turn_result = SupNext supervisor | SupReturn supervisor | SupError supervisor

definition max_drain_cycles :: nat where "max_drain_cycles = 25"
definition max_identical_failures :: nat where "max_identical_failures = 3"
definition max_no_progress :: nat where "max_no_progress = 2"

definition em_dash :: string where "em_dash = [CHR 0xE2, CHR 0x80, CHR 0x94]"

definition idle_reason :: string where
  "idle_reason = ''no forward progress '' @ em_dash @ '' open work is blocked/deferred or external''"

definition blocked_reason :: string where
  "blocked_reason = ''repeated identical failure '' @ em_dash @ '' blocked on an external step''"

definition set_note :: "turn_input \<Rightarrow> string \<Rightarrow> string \<Rightarrow> supervisor \<Rightarrow> supervisor" where
  "set_note ti key val s = s\<lparr>su_meta := meta_set (ti_writes ti key) key val (su_meta s)\<rparr>"

definition show_int :: "int \<Rightarrow> string" where
  "show_int i = (if i < 0 then ''-'' @ show_nat (nat (- i)) else show_nat (nat i))"

subsection \<open>The signature of a failed turn\<close>

text \<open>The characters of a UTF-8 text: a byte that is not a continuation begins one.\<close>

fun utf8_chars :: "string \<Rightarrow> string list" where
  "utf8_chars [] = []"
| "utf8_chars (c # cs) =
     (case utf8_chars cs of
        [] \<Rightarrow> [[c]]
      | ch # chs \<Rightarrow>
          if ch \<noteq> [] \<and> 128 \<le> byte (hd ch) \<and> byte (hd ch) < 192 then (c # ch) # chs else [c] # ch # chs)"

definition failure_signature :: "int \<Rightarrow> string \<Rightarrow> string" where
  "failure_signature rc capture =
     show_int rc @ '':'' @ concat (take 600 (rev (utf8_chars (filter (\<lambda>c. \<not> is_ascii_digit c) capture))))"

subsection \<open>One turn\<close>

definition enqueue_all :: "string list \<Rightarrow> backlog \<Rightarrow> backlog" where
  "enqueue_all msgs b = fold (\<lambda>m b. snd (backlog_add True m b)) msgs b"

definition begin_turn :: "turn_input \<Rightarrow> supervisor \<Rightarrow> supervisor" where
  "begin_turn ti s =
     (let s1 = s\<lparr>su_attempt := su_attempt s + 1\<rparr>
      in set_note ti ''mode'' (mode_as_str (su_mode s1))
           (set_note ti ''state'' ''running'' (set_note ti ''attempts'' (show_nat (su_attempt s1)) s1)))"

text \<open>After the fresh turn: learn the session id, note the transcript, drop into the continue mode.\<close>

definition settle_fresh :: "jdi_adapter \<Rightarrow> turn_input \<Rightarrow> supervisor \<Rightarrow> supervisor + supervisor" where
  "settle_fresh A ti s =
     (if \<not> su_fresh s then Inr s
      else
        (let known = (if su_session_id s = []
               then (case ti_captured_id ti of
                       Some i \<Rightarrow> Inr (set_note ti ''session_id'' i (s\<lparr>su_session_id := i\<rparr>))
                     | None \<Rightarrow> Inl (set_note ti ''last_reason'' ''could not capture session id'' (set_note ti ''state'' ''failed'' s)))
               else Inr s)
         in case known of
              Inl s' \<Rightarrow> Inl s'
            | Inr s' \<Rightarrow>
                (let s1 = (case ti_transcript ti of Some t \<Rightarrow> set_note ti ''transcript'' t s' | None \<Rightarrow> s');
                     s2 = s1\<lparr>su_mode := ja_continue A\<rparr>
                 in Inr ((set_note ti ''mode'' (mode_as_str (su_mode s2)) s2)\<lparr>su_fresh := False\<rparr>))))"

definition open_work :: "turn_input \<Rightarrow> nat option" where
  "open_work ti =
     (case ti_queue ti of Some n \<Rightarrow> Some n | None \<Rightarrow> map_option open_checklist_items (ti_checklist ti))"

definition claimed_items :: "dir_io \<Rightarrow> supervisor \<Rightarrow> string list \<times> supervisor" where
  "claimed_items io s =
     (case backlog_claim io (su_backlog s) of
        (r, b) \<Rightarrow> (case r of Inr xs \<Rightarrow> xs | Inl _ \<Rightarrow> [], s\<lparr>su_backlog := b\<rparr>))"

definition after_done :: "jdi_adapter \<Rightarrow> turn_input \<Rightarrow> supervisor \<Rightarrow> turn_result" where
  "after_done A ti s =
     (let s1 = (if su_draining s then s\<lparr>su_backlog := snd (backlog_finalize (ti_finalize ti) (su_backlog s))\<rparr> else s)
      in case claimed_items (ti_claim ti) s1 of
           (claimed, s2) \<Rightarrow>
             if claimed \<noteq> [] \<and> su_drain_cycles s2 < max_drain_cycles then
               SupNext ((set_note ti ''state'' ''draining''
                 (s2\<lparr>su_drain_cycles := su_drain_cycles s2 + 1, su_brief := claimed,
                     su_mode := ja_initial A TriggerBacklogDrain\<rparr>))\<lparr>su_draining := True, su_fresh := False, su_attempt := 0\<rparr>)
             else SupReturn (set_note ti ''exit_code'' ''0'' (set_note ti ''state'' ''done'' s2)))"

definition stop_with :: "turn_input \<Rightarrow> string \<Rightarrow> int \<Rightarrow> supervisor \<Rightarrow> supervisor" where
  "stop_with ti st code s = set_note ti ''exit_code'' (show_int code) (set_note ti ''state'' st s)"

definition after_retry :: "nat \<Rightarrow> turn_input \<Rightarrow> int \<Rightarrow> string \<Rightarrow> supervisor \<Rightarrow> turn_result" where
  "after_retry limit ti rc capture s =
     (if 0 < limit \<and> limit \<le> su_attempt s then SupReturn (stop_with ti ''gaveup'' rc s)
      else
        (let fp = ti_fingerprint ti;
             s1 = (if fp \<noteq> None \<and> fp = su_last_fp s then s\<lparr>su_no_progress := su_no_progress s + 1\<rparr>
                   else s\<lparr>su_no_progress := 0, su_last_fp := fp\<rparr>)
         in if max_no_progress \<le> su_no_progress s1 then
              SupReturn (set_note ti ''last_reason'' idle_reason
                (stop_with ti ''idle'' rc s1))
            else
              (let sig = failure_signature rc capture;
                   s2 = (if sig = su_last_failure s1 then s1\<lparr>su_identical := su_identical s1 + 1\<rparr>
                         else s1\<lparr>su_identical := 1, su_last_failure := sig\<rparr>)
               in if max_identical_failures \<le> su_identical s2 then
                    SupReturn (set_note ti ''last_reason'' blocked_reason (stop_with ti ''blocked'' rc s2))
                  else SupNext (set_note ti ''state'' ''retrying'' s2))))"

definition after_turn :: "jdi_adapter \<Rightarrow> nat \<Rightarrow> turn_input \<Rightarrow> int \<Rightarrow> string \<Rightarrow> supervisor \<Rightarrow> turn_result" where
  "after_turn A limit ti rc capture s =
     (case ja_classify A rc capture (su_mode s) (open_work ti) of
        TurnDone \<Rightarrow> after_done A ti s
      | TurnAdvance m \<Rightarrow> SupNext (s\<lparr>su_mode := m, su_attempt := su_attempt s - 1, su_identical := 0\<rparr>)
      | TurnRecreate \<Rightarrow> SupNext (s\<lparr>su_session_created := False, su_identical := 0\<rparr>)
      | TurnStopped code \<Rightarrow> SupReturn (stop_with ti ''stopped'' code s)
      | TurnFailed code \<Rightarrow> SupReturn (stop_with ti ''failed'' code s)
      | TurnGaveUp \<Rightarrow> SupReturn (set_note ti ''state'' ''gaveup'' s)
      | TurnRetry \<Rightarrow> after_retry limit ti rc capture s)"

definition sup_turn :: "jdi_adapter \<Rightarrow> nat \<Rightarrow> turn_input \<Rightarrow> supervisor \<Rightarrow> turn_result" where
  "sup_turn A limit ti s =
     (let s1 = begin_turn ti s; s2 = s1\<lparr>su_backlog := enqueue_all (ti_added ti) (su_backlog s1)\<rparr>
      in case ti_run ti of
           None \<Rightarrow> SupError s2
         | Some (rc, capture) \<Rightarrow>
             (case settle_fresh A ti s2 of
                Inl s3 \<Rightarrow> SupReturn s3
              | Inr s3 \<Rightarrow> after_turn A limit ti rc capture (s3\<lparr>su_session_created := True\<rparr>)))"

text \<open>The loop, for a number of turns.\<close>

fun sup_run :: "jdi_adapter \<Rightarrow> nat \<Rightarrow> (nat \<Rightarrow> turn_input) \<Rightarrow> nat \<Rightarrow> supervisor \<Rightarrow> turn_result" where
  "sup_run A limit world 0 s = SupNext s"
| "sup_run A limit world (Suc n) s =
     (case sup_run A limit world n s of
        SupNext s' \<Rightarrow> sup_turn A limit (world n) s'
      | r \<Rightarrow> r)"

subsection \<open>Starting\<close>

datatype agent =
  AgentClaude | AgentCodex | AgentQoderWork | AgentQoder | AgentQwenWork | AgentAntigravity

definition agent_from_label :: "string \<Rightarrow> agent option" where
  "agent_from_label s =
     (if s = ''claude'' then Some AgentClaude
      else if s = ''codex'' then Some AgentCodex
      else if s = ''qoderwork'' then Some AgentQoderWork
      else if s = ''qoder'' \<or> s = ''qodercli'' then Some AgentQoder
      else if s = ''qwenwork'' \<or> s = ''qwenworkcn'' then Some AgentQwenWork
      else if s = ''antigravity'' \<or> s = ''agy'' then Some AgentAntigravity
      else None)"

text \<open>The stub for the agents the supervisor cannot drive; its \<open>resolve_binary\<close> always fails.\<close>

definition unsupported_jdi :: jdi_adapter where
  "unsupported_jdi = \<lparr>ja_initial = (\<lambda>_. ModeExecute), ja_continue = ModeExecute,
     ja_classify = (\<lambda>rc _ _ _. TurnFailed rc)\<rparr>"

fun adapter_of :: "agent \<Rightarrow> jdi_adapter" where
  "adapter_of AgentClaude = claude_jdi"
| "adapter_of AgentCodex = codex_jdi"
| "adapter_of _ = unsupported_jdi"

fun drivable :: "agent \<Rightarrow> bool" where
  "drivable AgentClaude = True"
| "drivable AgentCodex = True"
| "drivable _ = False"

definition meta_number :: "string \<Rightarrow> string option \<Rightarrow> nat" where
  "meta_number key f =
     (case meta_get key f of None \<Rightarrow> 0 | Some v \<Rightarrow> (case parse_u32 v of Some n \<Rightarrow> n | None \<Rightarrow> 0))"

text \<open>The variables of \<open>run_loop_body\<close> before its loop, read from the meta file.\<close>

definition sup_initial :: "backlog \<Rightarrow> string option \<Rightarrow> supervisor" where
  "sup_initial b f =
     (let mode = (case Option.bind (meta_get ''mode'' f) mode_parse of Some m \<Rightarrow> m | None \<Rightarrow> ModeExecute)
      in \<lparr>su_mode = mode,
          su_session_id = (case meta_get ''session_id'' f of Some i \<Rightarrow> i | None \<Rightarrow> []),
          su_session_created = (meta_get ''resumed'' f = Some ''true''),
          su_fresh = (mode = ModeStart), su_attempt = 0,
          su_draining = (mode = ModeBacklogDump \<or> mode = ModeBacklogExecute), su_drain_cycles = 0,
          su_identical = 0, su_last_failure = [], su_no_progress = 0, su_last_fp = None,
          su_brief = [], su_backlog = b, su_meta = f\<rparr>)"

text \<open>
  The set-up of \<open>run_loop_body\<close>.  \<open>Inl\<close> is the early error with the meta file it leaves; \<open>Inr\<close> is the
  adapter, the attempt limit and the state the loop begins in.  \<open>found\<close> is whether the agent's binary
  is found, \<open>ok\<close> whether that failure can be recorded, \<open>io\<close> answers the claim of a run begun in a
  backlog mode.
\<close>

definition sup_start ::
  "(agent \<Rightarrow> bool) \<Rightarrow> bool \<Rightarrow> dir_io \<Rightarrow> backlog \<Rightarrow> string option
     \<Rightarrow> string option + (jdi_adapter \<times> nat \<times> supervisor)" where
  "sup_start found ok io b f =
     (if meta_get ''cwd'' f = None then Inl f
      else
        (case Option.bind (meta_get ''agent'' f) agent_from_label of
           None \<Rightarrow> Inl f
         | Some a \<Rightarrow>
             (if \<not> (drivable a \<and> found a) then Inl (meta_set ok ''state'' ''failed'' f)
              else
                (let s = sup_initial b f
                 in Inr (adapter_of a, meta_number ''max_attempts'' f,
                      if su_draining s then (case claimed_items io s of (xs, s') \<Rightarrow> s'\<lparr>su_brief := xs\<rparr>) else s)))))"

end
