(* ===== verification/Supervisor_Props.thy ===== *)
theory Supervisor_Props
  imports Supervisor Durable_Props
begin

text \<open>
  The supervisor's retry loop returns after a bounded number of turns, whatever the agent does, unless
  the agent's session vanishes again and again.  What the loop relies on is the locale \<open>turn_policy\<close>,
  which both agents implement.
\<close>

subsection \<open>The meta file\<close>

lemma meta_text_lines:
  assumes "\<forall>l \<in> set ls. newline_char \<notin> set l" and "ls \<noteq> []"
  shows "std_lines (join_with [newline_char] ls @ [newline_char]) = map (strip_last (CHR 0x0D)) ls"
  using assms
proof (induction ls rule: induct_list012)
  case (2 x)
  then show ?case using std_lines_nl [of x "[]"] by simp
next
  case (3 x y zs)
  then show ?case using std_lines_nl [of x "join_with [newline_char] (y # zs) @ [newline_char]"] by simp
qed simp

lemma std_lines_no_newline: "l \<in> set (std_lines s) \<Longrightarrow> newline_char \<notin> set l"
proof (induction s arbitrary: l rule: length_induct)
  case (1 s)
  show ?case
  proof (cases "newline_char \<in> set s")
    case True
    then obtain x t where s: "s = x @ newline_char # t" "newline_char \<notin> set x" by (meson split_list_first)
    have "l = strip_last (CHR 0x0D) x \<or> l \<in> set (std_lines t)" using "1.prems" std_lines_nl [OF s(2), of t] s(1) by simp
    moreover have "set (strip_last (CHR 0x0D) x) \<subseteq> set x" by (auto simp: strip_last_def dest: in_set_butlastD)
    ultimately show ?thesis using s "1.IH" [rule_format, of t l] by auto
  next
    case False
    then show ?thesis using "1.prems" std_lines_torn [OF False] by (cases "s = []") simp_all
  qed
qed

lemma strip_last_starts:
  assumes "starts_with (strip_last c l) p"
  shows "starts_with l p"
proof -
  obtain r where r: "strip_last c l = p @ r" using assms by (metis starts_with_def append_take_drop_id)
  then have "l = p @ r \<or> l = p @ r @ [c]"
    by (auto simp: strip_last_def split: if_splits) (metis append.assoc append_butlast_last_id)
  then show ?thesis by (auto simp: starts_with_def)
qed

text \<open>A value set is the value read, whatever the file held.\<close>

lemma meta_roundtrip:
  assumes "newline_char \<notin> set key" and "newline_char \<notin> set val" and "strip_last (CHR 0x0D) (key @ ''='' @ val) = key @ ''='' @ val"
  shows "meta_get key (meta_set True key val f) = Some val"
proof -
  let ?ls = "filter (\<lambda>l. \<not> starts_with l (key @ ''='')) (meta_lines f)"
  have nl: "\<forall>l \<in> set (?ls @ [key @ ''='' @ val]). newline_char \<notin> set l"
    using assms(1,2) std_lines_no_newline by (auto simp: meta_lines_def split: option.splits)
  have "meta_lines (meta_set True key val f) = map (strip_last (CHR 0x0D)) ?ls @ [key @ ''='' @ val]"
    using meta_text_lines [OF nl] assms(3) by (simp add: meta_lines_def meta_set_def)
  moreover have "find (\<lambda>l. starts_with l (key @ ''='')) (map (strip_last (CHR 0x0D)) ?ls) = None"
    using strip_last_starts by (fastforce simp: find_None_iff)
  moreover have "find P (xs @ ys) = (case find P xs of None \<Rightarrow> find P ys | Some z \<Rightarrow> Some z)" for P :: "string \<Rightarrow> bool" and xs ys
    by (induction xs) auto
  ultimately show ?thesis by (simp add: meta_get_def starts_with_def)
qed

text \<open>Two states the supervisor writes are unknown to the reader.\<close>

lemma written_states_unknown: "run_state_parse ''draining'' = None" "run_state_parse ''idle'' = None"
  by (simp_all add: run_state_parse_def)

subsection \<open>Projections\<close>

lemma set_note_simps [simp]:
  "su_mode (set_note ti k v s) = su_mode s" "su_fresh (set_note ti k v s) = su_fresh s"
  "su_attempt (set_note ti k v s) = su_attempt s" "su_draining (set_note ti k v s) = su_draining s"
  "su_drain_cycles (set_note ti k v s) = su_drain_cycles s" "su_brief (set_note ti k v s) = su_brief s"
  "su_backlog (set_note ti k v s) = su_backlog s" "su_session_id (set_note ti k v s) = su_session_id s"
  "su_last_fp (set_note ti k v s) = su_last_fp s" "su_no_progress (set_note ti k v s) = su_no_progress s"
  "su_last_failure (set_note ti k v s) = su_last_failure s" "su_identical (set_note ti k v s) = su_identical s"
  by (simp_all add: set_note_def)

lemma stop_with_backlog [simp]: "su_backlog (stop_with ti st c s) = su_backlog s"
  by (simp add: stop_with_def)

lemma begin_turn_simps [simp]:
  "su_mode (begin_turn ti s) = su_mode s" "su_fresh (begin_turn ti s) = su_fresh s"
  "su_attempt (begin_turn ti s) = su_attempt s + 1" "su_draining (begin_turn ti s) = su_draining s"
  "su_drain_cycles (begin_turn ti s) = su_drain_cycles s" "su_brief (begin_turn ti s) = su_brief s"
  "su_backlog (begin_turn ti s) = su_backlog s" "su_last_fp (begin_turn ti s) = su_last_fp s"
  "su_no_progress (begin_turn ti s) = su_no_progress s" "su_last_failure (begin_turn ti s) = su_last_failure s"
  "su_identical (begin_turn ti s) = su_identical s"
  by (simp_all add: begin_turn_def Let_def)

lemma settle_fresh_inl: "settle_fresh A ti s = Inl s' \<Longrightarrow> su_backlog s' = su_backlog s"
  by (auto simp: settle_fresh_def Let_def split: if_splits option.splits)

lemma settle_freshE:
  assumes "settle_fresh A ti s = Inr s'"
  shows "su_mode s' = (if su_fresh s then ja_continue A else su_mode s)" "\<not> su_fresh s'"
    "su_attempt s' = su_attempt s" "su_draining s' = su_draining s" "su_drain_cycles s' = su_drain_cycles s"
    "su_brief s' = su_brief s" "su_backlog s' = su_backlog s" "su_last_fp s' = su_last_fp s"
    "su_no_progress s' = su_no_progress s" "su_last_failure s' = su_last_failure s"
    "su_identical s' = su_identical s"
  using assms by (auto simp: settle_fresh_def Let_def split: if_splits option.splits)

text \<open>A turn that ran and was settled: its end is \<open>after_turn\<close> on the settled state.\<close>

lemma sup_turn_cases:
  assumes "sup_turn A limit ti s = r"
  obtains (error) s' where "ti_run ti = None" "r = SupError s'" "su_backlog s' = enqueue_all (ti_added ti) (su_backlog s)"
  | (unsettled) s' where "r = SupReturn s'" "su_backlog s' = enqueue_all (ti_added ti) (su_backlog s)"
  | (ran) rc out s3 where "ti_run ti = Some (rc, out)" "r = after_turn A limit ti rc out s3"
      "su_mode s3 = (if su_fresh s then ja_continue A else su_mode s)" "\<not> su_fresh s3"
      "su_attempt s3 = su_attempt s + 1" "su_draining s3 = su_draining s" "su_drain_cycles s3 = su_drain_cycles s"
      "su_brief s3 = su_brief s" "su_backlog s3 = enqueue_all (ti_added ti) (su_backlog s)"
      "su_last_fp s3 = su_last_fp s" "su_no_progress s3 = su_no_progress s" "su_last_failure s3 = su_last_failure s"
      "su_identical s3 = su_identical s"
proof -
  let ?s2 = "(begin_turn ti s)\<lparr>su_backlog := enqueue_all (ti_added ti) (su_backlog (begin_turn ti s))\<rparr>"
  show thesis
  proof (cases "ti_run ti")
    case None
    then show thesis using assms error [of "?s2"] by (simp add: sup_turn_def Let_def)
  next
    case (Some p)
    then obtain rc out where p: "ti_run ti = Some (rc, out)" by (cases p) auto
    show thesis
    proof (cases "settle_fresh A ti ?s2")
      case (Inl s')
      then show thesis
        using assms p unsettled [of s'] settle_fresh_inl [OF Inl] by (simp add: sup_turn_def Let_def)
    next
      case (Inr s')
      have r: "r = after_turn A limit ti rc out (s'\<lparr>su_session_created := True\<rparr>)"
        using assms p Inr by (simp add: sup_turn_def Let_def)
      show thesis
        by (rule ran [OF p r]) (use settle_freshE [OF Inr] in simp_all)
    qed
  qed
qed

subsection \<open>What an agent's integration promises the loop\<close>

text \<open>
  \<open>plans\<close> are the modes that only plan; \<open>lost\<close> recognises a turn whose session vanished.
\<close>

locale turn_policy =
  fixes A :: jdi_adapter and plans :: "jdi_mode \<Rightarrow> bool" and lost :: "int \<Rightarrow> string \<Rightarrow> bool"
  assumes continue_runs: "\<not> plans (ja_continue A)"
    and advance_leaves_plan: "ja_classify A rc out m w = TurnAdvance m' \<Longrightarrow> plans m \<and> \<not> plans m'"
    and recreate_lost: "ja_classify A rc out m w = TurnRecreate \<Longrightarrow> lost rc out"
    and done_clean: "ja_classify A rc out m w = TurnDone \<Longrightarrow> rc = 0 \<and> \<not> plans m"

definition lost_turn :: "(int \<Rightarrow> string \<Rightarrow> bool) \<Rightarrow> turn_input \<Rightarrow> bool" where
  "lost_turn lost ti \<longleftrightarrow> (case ti_run ti of None \<Rightarrow> False | Some (rc, out) \<Rightarrow> lost rc out)"

definition turns_left :: "(jdi_mode \<Rightarrow> bool) \<Rightarrow> nat \<Rightarrow> supervisor \<Rightarrow> nat" where
  "turns_left plans limit s =
     (max_drain_cycles - su_drain_cycles s) * (limit + 2) + (limit - su_attempt s) + (if plans (su_mode s) then 1 else 0)"

text \<open>The state a retry carries on with, before its lifecycle note.\<close>

definition retry_progress :: "turn_input \<Rightarrow> supervisor \<Rightarrow> supervisor" where
  "retry_progress ti s =
     (if ti_fingerprint ti \<noteq> None \<and> ti_fingerprint ti = su_last_fp s then s\<lparr>su_no_progress := su_no_progress s + 1\<rparr>
      else s\<lparr>su_no_progress := 0, su_last_fp := ti_fingerprint ti\<rparr>)"

definition retry_failure :: "int \<Rightarrow> string \<Rightarrow> supervisor \<Rightarrow> supervisor" where
  "retry_failure rc out s =
     (if failure_signature rc out = su_last_failure s then s\<lparr>su_identical := su_identical s + 1\<rparr>
      else s\<lparr>su_identical := 1, su_last_failure := failure_signature rc out\<rparr>)"

lemma after_retry_unfold:
  "after_retry limit ti rc out s =
     (if 0 < limit \<and> limit \<le> su_attempt s then SupReturn (stop_with ti ''gaveup'' rc s)
      else if max_no_progress \<le> su_no_progress (retry_progress ti s)
      then SupReturn (set_note ti ''last_reason'' idle_reason (stop_with ti ''idle'' rc (retry_progress ti s)))
      else if max_identical_failures \<le> su_identical (retry_failure rc out (retry_progress ti s))
      then SupReturn (set_note ti ''last_reason'' blocked_reason
        (stop_with ti ''blocked'' rc (retry_failure rc out (retry_progress ti s))))
      else SupNext (set_note ti ''state'' ''retrying'' (retry_failure rc out (retry_progress ti s))))"
  unfolding after_retry_def retry_progress_def retry_failure_def Let_def by (rule refl)

lemma retry_kept [simp]:
  "su_attempt (retry_progress ti s) = su_attempt s" "su_drain_cycles (retry_progress ti s) = su_drain_cycles s"
  "su_mode (retry_progress ti s) = su_mode s" "su_backlog (retry_progress ti s) = su_backlog s"
  "su_draining (retry_progress ti s) = su_draining s" "su_brief (retry_progress ti s) = su_brief s"
  "su_fresh (retry_progress ti s) = su_fresh s"
  "su_attempt (retry_failure rc out s) = su_attempt s" "su_drain_cycles (retry_failure rc out s) = su_drain_cycles s"
  "su_mode (retry_failure rc out s) = su_mode s" "su_backlog (retry_failure rc out s) = su_backlog s"
  "su_draining (retry_failure rc out s) = su_draining s" "su_brief (retry_failure rc out s) = su_brief s"
  "su_fresh (retry_failure rc out s) = su_fresh s"
  by (simp_all add: retry_progress_def retry_failure_def)

lemma after_retry_cases:
  assumes "after_retry limit ti rc out s = r"
  obtains (stops) s' where "r = SupReturn s'" "su_backlog s' = su_backlog s"
  | (goes_on) "r = SupNext (set_note ti ''state'' ''retrying'' (retry_failure rc out (retry_progress ti s)))"
      "0 < limit \<longrightarrow> su_attempt s < limit"
  using assms unfolding after_retry_unfold by (auto split: if_splits)

lemma after_retry_next:
  assumes "after_retry limit ti rc out s = SupNext s'" and "0 < limit"
  shows "su_attempt s < limit \<and> su_attempt s' = su_attempt s \<and> su_drain_cycles s' = su_drain_cycles s
    \<and> su_mode s' = su_mode s"
  using assms(1) by (cases rule: after_retry_cases) (use assms(2) in auto)

lemma claimed_items_kept:
  assumes "claimed_items io s = (xs, s')"
  shows "su_drain_cycles s' = su_drain_cycles s" "su_attempt s' = su_attempt s" "su_backlog s' = snd (backlog_claim io (su_backlog s))"
    "xs = (case fst (backlog_claim io (su_backlog s)) of Inr ys \<Rightarrow> ys | Inl _ \<Rightarrow> [])"
  using assms by (auto simp: claimed_items_def split: prod.splits)

definition drained_state :: "turn_input \<Rightarrow> supervisor \<Rightarrow> supervisor" where
  "drained_state ti s =
     (if su_draining s then s\<lparr>su_backlog := snd (backlog_finalize (ti_finalize ti) (su_backlog s))\<rparr> else s)"

lemma after_done_cases:
  assumes "after_done A ti s = r"
  obtains (cycle) claimed s2 where "claimed_items (ti_claim ti) (drained_state ti s) = (claimed, s2)" "claimed \<noteq> []"
      "su_drain_cycles s < max_drain_cycles"
      "r = SupNext ((set_note ti ''state'' ''draining''
         (s2\<lparr>su_drain_cycles := su_drain_cycles s2 + 1, su_brief := claimed,
             su_mode := ja_initial A TriggerBacklogDrain\<rparr>))\<lparr>su_draining := True, su_fresh := False, su_attempt := 0\<rparr>)"
  | (finished) claimed s2 where "claimed_items (ti_claim ti) (drained_state ti s) = (claimed, s2)"
      "r = SupReturn (set_note ti ''exit_code'' ''0'' (set_note ti ''state'' ''done'' s2))"
proof -
  obtain claimed s2 where c: "claimed_items (ti_claim ti) (drained_state ti s) = (claimed, s2)"
    by (cases "claimed_items (ti_claim ti) (drained_state ti s)") auto
  have d: "su_drain_cycles s2 = su_drain_cycles s"
    using claimed_items_kept(1) [OF c] by (simp add: drained_state_def)
  show thesis
  proof (cases "claimed \<noteq> [] \<and> su_drain_cycles s2 < max_drain_cycles")
    case True
    then show thesis using assms c cycle [OF c] d unfolding after_done_def drained_state_def Let_def by simp
  next
    case False
    then show thesis using assms c finished [OF c] unfolding after_done_def drained_state_def Let_def by (simp del: de_Morgan_conj)
  qed
qed

lemma after_done_next:
  assumes "after_done A ti s = SupNext s'"
  shows "su_drain_cycles s < max_drain_cycles \<and> su_drain_cycles s' = su_drain_cycles s + 1 \<and> su_attempt s' = 0"
  using assms
proof (cases rule: after_done_cases)
  case (cycle claimed s2)
  then show ?thesis using claimed_items_kept(1) [OF cycle(1)] by (simp add: drained_state_def)
qed simp

context turn_policy
begin

lemma turn_spends:
  assumes t: "sup_turn A limit ti s = SupNext s'" and l: "0 < limit"
  shows "turns_left plans limit s' + 1 \<le> turns_left plans limit s + (if lost_turn lost ti then 1 else 0)"
  using t
proof (cases rule: sup_turn_cases)
  case (ran rc out s3)
  have m: "plans (su_mode s3) \<Longrightarrow> plans (su_mode s)" using ran(3) continue_runs by (auto split: if_splits)
  let ?o = "ja_classify A rc out (su_mode s3) (open_work ti)"
  show ?thesis
  proof (cases ?o)
    case TurnDone
    then have "after_done A ti s3 = SupNext s'" using ran(2) by (simp add: after_turn_def)
    from after_done_next [OF this] obtain c where
      c: "max_drain_cycles - su_drain_cycles s = Suc c" "max_drain_cycles - su_drain_cycles s' = c" "su_attempt s' = 0"
      using ran(7) by (metis Suc_diff_Suc add.commute plus_1_eq_Suc)
    then show ?thesis by (simp add: turns_left_def)
  next
    case TurnRetry
    then have "after_retry limit ti rc out s3 = SupNext s'" using ran(2) by (simp add: after_turn_def)
    then show ?thesis using after_retry_next [OF _ l] ran(5,7) m by (fastforce simp: turns_left_def)
  next
    case (TurnAdvance m')
    then show ?thesis
      using ran(2,5,7) advance_leaves_plan [OF TurnAdvance] m by (simp add: turns_left_def after_turn_def)
  next
    case TurnRecreate
    then have "lost_turn lost ti" using recreate_lost [OF TurnRecreate] ran(1) by (simp add: lost_turn_def)
    then show ?thesis using TurnRecreate ran(2,5,7) m by (auto simp: turns_left_def after_turn_def)
  qed (use ran(2) in \<open>simp_all add: after_turn_def\<close>)
qed simp_all

lemma run_spends:
  assumes "sup_run A limit world n s = SupNext s'" and l: "0 < limit"
  shows "turns_left plans limit s' + n \<le> turns_left plans limit s + card {i. i < n \<and> lost_turn lost (world i)}"
  using assms(1)
proof (induction n arbitrary: s')
  case (Suc n)
  then obtain t where t: "sup_run A limit world n s = SupNext t" "sup_turn A limit (world n) t = SupNext s'"
    by (auto split: turn_result.splits)
  have set: "{i. i < Suc n \<and> lost_turn lost (world i)}
      = {i. i < n \<and> lost_turn lost (world i)} \<union> (if lost_turn lost (world n) then {n} else {})"
    by (auto simp: less_Suc_eq)
  show ?case using Suc.IH [OF t(1)] turn_spends [OF t(2) l]
    by (cases "lost_turn lost (world n)") (simp_all add: set)
qed simp

end

subsection \<open>The two agents\<close>

fun plans_only :: "jdi_mode \<Rightarrow> bool" where
  "plans_only ModeResumeDump = True"
| "plans_only ModeBacklogDump = True"
| "plans_only _ = False"

definition vanished :: "int \<Rightarrow> string \<Rightarrow> bool" where
  "vanished rc out \<longleftrightarrow> rc \<notin> {0, 130, 143} \<and> contains_str out vanished_note"

interpretation claude_policy: turn_policy claude_jdi plans_only vanished
proof
  show "\<not> plans_only (ja_continue claude_jdi)" by (simp add: claude_jdi_def)
next
  fix rc out m w m' assume "ja_classify claude_jdi rc out m w = TurnAdvance m'"
  then show "plans_only m \<and> \<not> plans_only m'"
    by (auto simp: claude_jdi_def claude_classify_def split: if_splits jdi_mode.splits)
next
  fix rc out m w assume "ja_classify claude_jdi rc out m w = TurnRecreate"
  then show "vanished rc out"
    by (auto simp: claude_jdi_def claude_classify_def vanished_def split: if_splits jdi_mode.splits)
next
  fix rc out m w assume "ja_classify claude_jdi rc out m w = TurnDone"
  then show "rc = 0 \<and> \<not> plans_only m"
    by (auto simp: claude_jdi_def claude_classify_def split: if_splits jdi_mode.splits)
qed

text \<open>Codex never plans, so its modes must be read as executing ones.\<close>

interpretation codex_policy: turn_policy codex_jdi "\<lambda>_. False" "\<lambda>_ _. False"
  by unfold_locales (auto simp: codex_jdi_def codex_classify_def split: if_splits)


lemma sup_startD:
  assumes "sup_start found ok io b f = Inr (A, limit, s)"
  shows "A \<in> {claude_jdi, codex_jdi}"
    and "s = (if su_draining (sup_initial b f) then
       (case claimed_items io (sup_initial b f) of (xs, s') \<Rightarrow> s'\<lparr>su_brief := xs\<rparr>) else sup_initial b f)"
proof -
  obtain a where "drivable a" "A = adapter_of a"
    and s: "s = (if su_draining (sup_initial b f) then
       (case claimed_items io (sup_initial b f) of (xs, s') \<Rightarrow> s'\<lparr>su_brief := xs\<rparr>) else sup_initial b f)"
    using assms by (auto simp: sup_start_def Let_def split: if_splits option.splits)
  then show "A \<in> {claude_jdi, codex_jdi}" by (cases a) simp_all
  show "s = (if su_draining (sup_initial b f) then
       (case claimed_items io (sup_initial b f) of (xs, s') \<Rightarrow> s'\<lparr>su_brief := xs\<rparr>) else sup_initial b f)"
    by (rule s)
qed

lemma sup_initial_simps [simp]:
  "su_drain_cycles (sup_initial b f) = 0" "su_attempt (sup_initial b f) = 0" "su_backlog (sup_initial b f) = b"
  by (simp_all add: sup_initial_def Let_def)

lemma sup_start_state:
  assumes "sup_start found ok io b f = Inr (A, limit, s)"
  shows "su_drain_cycles s = 0" "su_attempt s = 0"
proof -
  obtain xs s' where c: "claimed_items io (sup_initial b f) = (xs, s')" by fastforce
  show "su_drain_cycles s = 0" "su_attempt s = 0"
    using sup_startD(2) [OF assms] claimed_items_kept(1,2) [OF c] c by auto
qed

lemma started_run_spends:
  assumes s: "sup_start found ok io b f = Inr (A, limit, s)" and l: "0 < limit"
    and r: "sup_run A limit world n s = SupNext s'"
  shows "n < 26 * (limit + 2) + card {i. i < n \<and> lost_turn vanished (world i)}"
proof -
  have left: "turns_left plans limit s < 26 * (limit + 2)" for plans
    using sup_start_state [OF s] by (simp add: turns_left_def max_drain_cycles_def)
  have none: "lost_turn (\<lambda>_ _. False) ti = False" for ti by (simp add: lost_turn_def split: option.split)
  consider "A = claude_jdi" | "A = codex_jdi" using sup_startD(1) [OF s] by blast
  then show ?thesis
  proof cases
    case 1
    then show ?thesis using claude_policy.run_spends [of limit world n s s'] r l left [of plans_only] by simp
  next
    case 2
    then show ?thesis
      using codex_policy.run_spends [of limit world n s s'] r l left [of "\<lambda>_. False"] by (simp add: none)
  qed
qed

text \<open>C36: An unattended run with an attempt limit ends.  Whatever the agent answers turn by turn, a run
  set up from any meta file for either agent has returned (or failed to launch the agent) after
  26 times the attempt limit plus two turns, counting only the turns in which the agent did not report
  a vanished session: 25 backlog drains, each with its own attempts and planning turn.\<close>

theorem supervisor_stops:
  assumes "sup_start found ok io b f = Inr (A, limit, s)" and "0 < limit"
    and "26 * (limit + 2) + card {i. i < n \<and> lost_turn vanished (world i)} \<le> n"
  shows "\<exists>s'. sup_run A limit world n s = SupReturn s' \<or> sup_run A limit world n s = SupError s'"
  using started_run_spends [OF assms(1,2), of world n] assms(3)
  by (cases "sup_run A limit world n s") fastforce+

definition failing_turn :: turn_input where
  "failing_turn = \<lparr>ti_run = Some (1, []), ti_captured_id = None, ti_transcript = None, ti_queue = None,
     ti_checklist = None, ti_fingerprint = None, ti_added = [],
     ti_finalize = \<lparr>di_made = True, di_moves = (\<lambda>_. True), di_reads = (\<lambda>_. True)\<rparr>,
     ti_claim = \<lparr>di_made = True, di_moves = (\<lambda>_. True), di_reads = (\<lambda>_. True)\<rparr>, ti_writes = (\<lambda>_. True)\<rparr>"

definition limit_meta :: string where
  "limit_meta = ''cwd=/r'' @ newline_char # ''agent=claude'' @ newline_char # ''mode=execute'' @ newline_char #
     ''max_attempts=1'' @ newline_char # []"

lemma limit_meta_lines: "std_lines limit_meta = [''cwd=/r'', ''agent=claude'', ''mode=execute'', ''max_attempts=1'']"
  unfolding limit_meta_def by (subst std_lines_nl, simp)+ (simp add: strip_last_def)

lemma limit_starts: "sup_start (\<lambda>_. True) True io backlog_empty (Some limit_meta) =
    Inr (claude_jdi, 1, sup_initial backlog_empty (Some limit_meta))"
proof -
  have g: "meta_get ''cwd'' (Some limit_meta) = Some ''/r''" "meta_get ''agent'' (Some limit_meta) = Some ''claude''"
      "meta_get ''mode'' (Some limit_meta) = Some ''execute''" "meta_get ''max_attempts'' (Some limit_meta) = Some ''1''"
    by (simp_all add: meta_get_def meta_lines_def limit_meta_lines starts_with_def)
  have p: "parse_u32 ''1'' = Some 1"
    by (simp add: parse_u32_def parse_u64_def is_ascii_digit_def byte_def u64_max_def)
  show ?thesis
    by (simp add: sup_start_def Let_def g meta_number_def agent_from_label_def p) (simp add: sup_initial_def g mode_parse_def)
qed

lemma supervisor_stops_witness:
  "\<exists>s'. sup_run claude_jdi 1 (\<lambda>_. failing_turn) 78 (sup_initial backlog_empty (Some limit_meta)) = SupReturn s'
     \<or> sup_run claude_jdi 1 (\<lambda>_. failing_turn) 78 (sup_initial backlog_empty (Some limit_meta)) = SupError s'"
proof -
  have "\<not> lost_turn vanished failing_turn"
    by (simp add: lost_turn_def failing_turn_def vanished_def contains_str_def vanished_note_def sub_index.simps starts_with_def)
  then show ?thesis using supervisor_stops [OF limit_starts, of 78 "\<lambda>_. failing_turn"] by simp
qed

text \<open>
  The turns left out of the count are not bounded: an agent that reports a vanished session every time
  is launched again and again, without a pause and whatever the attempt limit.
\<close>

lemma recreate_continues:
  assumes "\<not> su_fresh s" and "ti_run ti = Some (1, vanished_note)"
  shows "\<exists>s'. sup_turn claude_jdi limit ti s = SupNext s' \<and> \<not> su_fresh s'"
proof -
  have c: "ja_classify claude_jdi 1 vanished_note m w = TurnRecreate" for m w
    by (simp add: claude_jdi_def claude_classify_def contains_str_def) (simp add: vanished_note_def sub_index.simps starts_with_def)
  from refl [of "sup_turn claude_jdi limit ti s"] show ?thesis
  proof (cases rule: sup_turn_cases)
    case (unsettled s')
    then show ?thesis using assms by (simp add: sup_turn_def settle_fresh_def Let_def after_turn_def c)
  qed (use assms c in \<open>simp_all add: after_turn_def\<close>)
qed

lemma recreate_never_stops:
  assumes "\<not> su_fresh s" and "\<And>i. ti_run (world i) = Some (1, vanished_note)"
  shows "\<exists>s'. sup_run claude_jdi limit world n s = SupNext s' \<and> \<not> su_fresh s'"
proof (induction n)
  case (Suc n)
  then obtain t where "sup_run claude_jdi limit world n s = SupNext t" "\<not> su_fresh t" by blast
  then show ?case using recreate_continues [of t "world n"] assms(2) by simp
qed (use assms in simp)

text \<open>Without a limit: three turns in a row that leave open work and the same fingerprint end the run.\<close>

definition retried :: "jdi_adapter \<Rightarrow> turn_input \<Rightarrow> bool" where
  "retried A ti \<longleftrightarrow> (\<exists>rc out. ti_run ti = Some (rc, out) \<and> (\<forall>m. ja_classify A rc out m (open_work ti) = TurnRetry))"

lemma retried_turn:
  assumes "retried A ti" and "ti_fingerprint ti = Some v" and "sup_turn A limit ti s = SupNext s'"
  shows "su_last_fp s' = Some v \<and> su_no_progress s' < max_no_progress \<and>
    su_no_progress s' = (if su_last_fp s = Some v then su_no_progress s + 1 else 0)"
  using assms(3)
proof (cases rule: sup_turn_cases)
  case (ran rc out s3)
  have "after_retry limit ti rc out s3 = SupNext s'"
    using ran(1,2) assms(1) by (auto simp: retried_def after_turn_def)
  then show ?thesis
    using assms(2) ran(10,11) by (auto simp: after_retry_unfold retry_progress_def retry_failure_def split: if_splits)
qed simp_all

lemma no_progress_stops:
  assumes s: "sup_run A limit world n s = SupNext s0"
    and r: "\<And>i. i < 3 \<Longrightarrow> retried A (world (n + i)) \<and> ti_fingerprint (world (n + i)) = Some v"
  shows "sup_run A limit world (n + 3) s \<noteq> SupNext s'"
proof
  assume e: "sup_run A limit world (n + 3) s = SupNext s'"
  then obtain s1 s2 where t: "sup_turn A limit (world n) s0 = SupNext s1"
      "sup_turn A limit (world (n + 1)) s1 = SupNext s2" "sup_turn A limit (world (n + 2)) s2 = SupNext s'"
    using s by (auto simp: numeral_eq_Suc split: turn_result.splits)
  show False
    using retried_turn [OF _ _ t(1)] retried_turn [OF _ _ t(2)] retried_turn [OF _ _ t(3)] r [of 0] r [of 1] r [of 2]
    by (auto simp: max_no_progress_def)
qed

end
