(* ===== verification/Backlog_Props.thy ===== *)
theory Backlog_Props
  imports Supervisor_Props "HOL-Library.Multiset"
begin

text \<open>
  The backlog queue (\<open>src/jdi/backlog.rs\<close>) under the supervisor: an item keeps its name and text from
  \<open>pending\<close> through \<open>draining\<close> to \<open>drained\<close>, a new item takes a name nobody has, and the last move is
  made only after a turn that came back clean with the item in its brief.
\<close>

subsection \<open>Entries and names\<close>

definition bk_entries :: "backlog \<Rightarrow> (string \<times> string) list" where
  "bk_entries b = bk_pending b @ bk_draining b @ bk_drained b"

definition bk_texts :: "backlog \<Rightarrow> string multiset" where
  "bk_texts b = mset (map snd (bk_entries b))"

definition bk_unique :: "backlog \<Rightarrow> bool" where
  "bk_unique b \<longleftrightarrow> distinct (map fst (bk_entries b))"

text \<open>Room for \<open>k\<close> more items in the 32-bit sequence.\<close>

definition bk_room :: "nat \<Rightarrow> backlog \<Rightarrow> bool" where
  "bk_room k b \<longleftrightarrow> k < 2 ^ 32 \<and> (\<forall>e \<in> set (bk_entries b). \<forall>v. parse_u32 (fst e) = Some v \<longrightarrow> v + k < 2 ^ 32)"

lemma same_entries:
  assumes "mset (bk_entries b') = mset (bk_entries b)"
  shows "bk_texts b' = bk_texts b" "bk_unique b' = bk_unique b" "bk_room k b' = bk_room k b"
proof -
  show "bk_texts b' = bk_texts b" using assms by (simp add: bk_texts_def)
  show "bk_unique b' = bk_unique b"
    unfolding bk_unique_def by (rule mset_eq_imp_distinct_iff) (simp add: assms)
  show "bk_room k b' = bk_room k b" using mset_eq_setD [OF assms] by (simp add: bk_room_def)
qed

lemma update_fresh: "k \<notin> fst ` set al \<Longrightarrow> AList.update k v al = al @ [(k, v)]"
  by (induction al) auto

lemma fold_update_fresh:
  "distinct (map fst (dst @ src)) \<Longrightarrow> fold (\<lambda>(n, t). AList.update n t) src dst = dst @ src"
proof (induction src arbitrary: dst)
  case (Cons e src)
  obtain n t where e: "e = (n, t)" by (cases e)
  have "AList.update n t dst = dst @ [(n, t)]" using Cons.prems e by (intro update_fresh) auto
  then show ?case using Cons.IH [of "dst @ [e]"] Cons.prems e by simp
qed simp

lemma move_entries_distinct:
  assumes "distinct (map fst (src @ dst))"
  shows "move_entries moves src dst = (filter (\<lambda>e. \<not> moves (fst e)) src, dst @ filter (\<lambda>e. moves (fst e)) src)"
proof -
  have "distinct (map fst (dst @ filter (\<lambda>e. moves (fst e)) src))"
    using assms by (auto simp: distinct_map_filter)
  from fold_update_fresh [OF this] show ?thesis by (simp add: move_entries_def case_prod_unfold)
qed

lemma filter_split_mset: "mset (filter (\<lambda>e. \<not> P e) xs) + mset (filter P xs) = mset xs"
  by (metis add.commute mset_filter multiset_partition)

subsection \<open>Claiming and finalizing\<close>

lemma backlog_claim_ok:
  assumes "backlog_claim io b = (r, b')" and "bk_unique b"
  shows "mset (bk_entries b') = mset (bk_entries b)" "bk_drained b' = bk_drained b"
    and "r = Inr xs \<Longrightarrow> \<forall>n. di_reads io n \<Longrightarrow> set xs = snd ` set (bk_draining b')"
proof -
  have d: "distinct (map fst (bk_pending b @ bk_draining b))"
    using assms(2) by (auto simp: bk_unique_def bk_entries_def)
  note m = move_entries_distinct [OF d, of "di_moves io"]
  show "mset (bk_entries b') = mset (bk_entries b)"
    using assms(1) m filter_split_mset [of "\<lambda>e. di_moves io (fst e)" "bk_pending b"]
    by (auto simp: backlog_claim_def bk_entries_def split: if_splits)
  show "bk_drained b' = bk_drained b" using assms(1) m by (auto simp: backlog_claim_def split: if_splits)
  show "set xs = snd ` set (bk_draining b')" if "r = Inr xs" "\<forall>n. di_reads io n"
  proof -
    have xs: "xs = map snd (sort_key fst (bk_draining b'))" "bk_draining b' = snd (move_entries (di_moves io) (bk_pending b) (bk_draining b))"
      using assms(1) that by (auto simp: backlog_claim_def read_dir_sorted_def split: if_splits prod.splits)
    show ?thesis unfolding xs(1) by simp
  qed
qed

lemma backlog_finalize_ok:
  assumes "backlog_finalize io b = (r, b')" and "bk_unique b"
  shows "mset (bk_entries b') = mset (bk_entries b)"
    and "\<exists>moved. bk_drained b' = bk_drained b @ moved \<and> set moved \<subseteq> set (bk_draining b)"
    and "set (bk_draining b') \<subseteq> set (bk_draining b)"
proof -
  have d: "distinct (map fst (bk_draining b @ bk_drained b))"
    using assms(2) by (auto simp: bk_unique_def bk_entries_def)
  note m = move_entries_distinct [OF d, of "di_moves io"]
  show "mset (bk_entries b') = mset (bk_entries b)"
    using assms(1) m filter_split_mset [of "\<lambda>e. di_moves io (fst e)" "bk_draining b"]
    by (auto simp: backlog_finalize_def bk_entries_def split: if_splits)
  show "\<exists>moved. bk_drained b' = bk_drained b @ moved \<and> set moved \<subseteq> set (bk_draining b)"
    using assms(1) m by (auto simp: backlog_finalize_def split: if_splits)
  show "set (bk_draining b') \<subseteq> set (bk_draining b)"
    using assms(1) m by (auto simp: backlog_finalize_def split: if_splits)
qed

subsection \<open>Adding\<close>

lemma digits_value_zeros: "digits_value 0 (replicate k (CHR ''0'') @ s) = digits_value 0 s"
  by (induction k) (simp_all add: is_ascii_digit_def byte_def)

lemma parse_seq_name:
  assumes "n < 2 ^ 32"
  shows "parse_u32 (seq_name n) = Some n"
proof -
  have v: "digits_value 0 (seq_name n) = Some n"
    by (simp add: seq_name_def digits_value_zeros digits_value_show)
  have p: "seq_name n \<noteq> []" "hd (seq_name n) \<noteq> CHR ''+''"
  proof -
    show "seq_name n \<noteq> []" by (simp add: seq_name_def)
    have "\<forall>c \<in> set (seq_name n). is_ascii_digit c"
      using show_nat_digits by (auto simp: seq_name_def is_ascii_digit_def byte_def)
    moreover have "hd (seq_name n) \<in> set (seq_name n)" by (rule hd_in_set) (simp add: seq_name_def)
    ultimately have "is_ascii_digit (hd (seq_name n))" by blast
    then show "hd (seq_name n) \<noteq> CHR ''+''" by auto
  qed
  then obtain c cs where "seq_name n = c # cs" "c \<noteq> CHR ''+''" by (cases "seq_name n") auto
  then show ?thesis using v assms by (simp add: parse_u32_def parse_u64_def u64_max_def)
qed

lemma foldl_max_le: "foldl max a xs \<le> m \<longleftrightarrow> a \<le> m \<and> (\<forall>x \<in> set xs. x \<le> (m::nat))"
  by (induction xs arbitrary: a) auto

lemma foldl_max_less: "foldl max a xs < m \<longleftrightarrow> a < m \<and> (\<forall>x \<in> set xs. x < (m::nat))"
  by (induction xs arbitrary: a) auto

lemma max_seq_bound:
  assumes "e \<in> set (bk_entries b)" and "parse_u32 (fst e) = Some v"
  shows "v \<le> max_seq b"
proof -
  let ?vs = "List.map_filter parse_u32 (map fst (bk_entries b))"
  have "max_seq b = foldl max 0 ?vs" by (simp add: max_seq_def bk_entries_def)
  moreover have "v \<in> set ?vs" using assms by (force simp: List.map_filter_def)
  ultimately show ?thesis using foldl_max_le [of 0 ?vs "max_seq b"] by simp
qed

lemma max_seq_room:
  assumes "bk_room k b"
  shows "max_seq b + k < 2 ^ 32"
proof -
  have "v < 2 ^ 32 - k" if "e \<in> set (bk_entries b)" "parse_u32 (fst e) = Some v" for e v
    using assms that by (fastforce simp: bk_room_def)
  moreover have "0 < 2 ^ 32 - k" using assms by (simp add: bk_room_def)
  ultimately have "max_seq b < 2 ^ 32 - k"
    unfolding max_seq_def foldl_max_less bk_entries_def [symmetric] List.map_filter_def by auto
  then show ?thesis by simp
qed

lemma backlog_add_ok:
  fixes msg :: string
  assumes u: "bk_unique b" and k: "bk_room (Suc k) b"
  defines "b' \<equiv> snd (backlog_add True msg b)"
  shows "bk_unique b'" "bk_room k b'" "bk_texts b' = add_mset msg (bk_texts b)"
    "bk_draining b' = bk_draining b" "bk_drained b' = bk_drained b"
proof -
  let ?n = "max_seq b + 1"
  have n: "next_seq b = ?n" "?n + k < 2 ^ 32" using max_seq_room [OF k] by (simp_all add: next_seq_def)
  have v: "parse_u32 (seq_name ?n) = Some ?n" using n(2) by (intro parse_seq_name) simp
  have new: "seq_name ?n \<notin> fst ` set (bk_entries b)"
    using max_seq_bound [of _ b ?n] v by fastforce
  then have "AList.update (seq_name ?n) msg (bk_pending b) = bk_pending b @ [(seq_name ?n, msg)]"
    by (intro update_fresh) (auto simp: bk_entries_def)
  then have b': "b' = b\<lparr>bk_pending := bk_pending b @ [(seq_name ?n, msg)]\<rparr>"
    unfolding b'_def using n(1) by (simp add: backlog_add_def Let_def)
  then have e: "mset (bk_entries b') = add_mset (seq_name ?n, msg) (mset (bk_entries b))"
    by (simp add: bk_entries_def)
  have "mset (map fst (bk_entries b')) = mset (seq_name ?n # map fst (bk_entries b))" by (simp add: e)
  from mset_eq_imp_distinct_iff [OF this] show "bk_unique b'" using new u by (simp add: bk_unique_def)
  have "set (bk_entries b') = insert (seq_name ?n, msg) (set (bk_entries b))"
    using b' by (auto simp: bk_entries_def)
  then show "bk_room k b'" using k v n(2) by (fastforce simp: bk_room_def)
  show "bk_texts b' = add_mset msg (bk_texts b)" by (simp add: bk_texts_def e)
  show "bk_draining b' = bk_draining b" "bk_drained b' = bk_drained b" using b' by simp_all
qed

lemma enqueue_all_ok:
  assumes "bk_unique b" and "bk_room (length msgs + k) b"
  shows "bk_unique (enqueue_all msgs b) \<and> bk_room k (enqueue_all msgs b)
    \<and> bk_texts (enqueue_all msgs b) = bk_texts b + mset msgs
    \<and> bk_draining (enqueue_all msgs b) = bk_draining b \<and> bk_drained (enqueue_all msgs b) = bk_drained b"
  using assms
proof (induction msgs arbitrary: b)
  case (Cons m msgs)
  note a = backlog_add_ok [OF Cons.prems(1), of "length msgs + k" m]
  have "enqueue_all (m # msgs) b = enqueue_all msgs (snd (backlog_add True m b))" by (simp add: enqueue_all_def)
  then show ?case using Cons.IH [of "snd (backlog_add True m b)"] a Cons.prems(2) by simp
qed (simp add: enqueue_all_def)

subsection \<open>A turn\<close>

fun result_state :: "turn_result \<Rightarrow> supervisor" where
  "result_state (SupNext s) = s"
| "result_state (SupReturn s) = s"
| "result_state (SupError s) = s"

definition backlog_ok :: "nat \<Rightarrow> supervisor \<Rightarrow> bool" where
  "backlog_ok k s \<longleftrightarrow> bk_unique (su_backlog s) \<and> bk_room k (su_backlog s)
     \<and> (su_draining s \<longrightarrow> snd ` set (bk_draining (su_backlog s)) \<subseteq> set (su_brief s))"

text \<open>What turn \<open>ti\<close> confirmed: items of the brief, and only when the agent came back clean.\<close>

definition confirmed :: "turn_input \<Rightarrow> supervisor \<Rightarrow> supervisor \<Rightarrow> bool" where
  "confirmed ti s s' \<longleftrightarrow> (\<exists>items. bk_drained (su_backlog s') = bk_drained (su_backlog s) @ items
     \<and> (items \<noteq> [] \<longrightarrow> map_option fst (ti_run ti) = Some 0 \<and> su_draining s \<and> snd ` set items \<subseteq> set (su_brief s)))"

lemma drained_state_ok:
  assumes i: "backlog_ok k s" and s': "drained_state ti s = s'"
  shows "mset (bk_entries (su_backlog s')) = mset (bk_entries (su_backlog s))"
    and "\<exists>items. bk_drained (su_backlog s') = bk_drained (su_backlog s) @ items
      \<and> (items \<noteq> [] \<longrightarrow> su_draining s \<and> snd ` set items \<subseteq> set (su_brief s))"
proof -
  have u: "bk_unique (su_backlog s)" using i by (simp add: backlog_ok_def)
  obtain r b where f: "backlog_finalize (ti_finalize ti) (su_backlog s) = (r, b)" by fastforce
  note ok = backlog_finalize_ok [OF f u]
  show "mset (bk_entries (su_backlog s')) = mset (bk_entries (su_backlog s))"
    using s' f ok(1) by (auto simp: drained_state_def)
  show "\<exists>items. bk_drained (su_backlog s') = bk_drained (su_backlog s) @ items
      \<and> (items \<noteq> [] \<longrightarrow> su_draining s \<and> snd ` set items \<subseteq> set (su_brief s))"
  proof (cases "su_draining s")
    case True
    obtain moved where m: "bk_drained b = bk_drained (su_backlog s) @ moved" "set moved \<subseteq> set (bk_draining (su_backlog s))"
      using ok(2) by blast
    moreover have "snd ` set moved \<subseteq> set (su_brief s)" using image_mono [OF m(2), of snd] i True by (auto simp: backlog_ok_def)
    ultimately show ?thesis using True s' f by (intro exI [of _ moved]) (auto simp: drained_state_def)
  qed (use s' in \<open>auto simp: drained_state_def\<close>)
qed

lemma after_done_ok:
  assumes i: "backlog_ok k s" and io: "\<forall>n. di_reads (ti_claim ti) n" and r: "after_done A ti s = r"
  defines "b' \<equiv> su_backlog (result_state r)"
  shows "mset (bk_entries b') = mset (bk_entries (su_backlog s))"
    and "\<exists>items. bk_drained b' = bk_drained (su_backlog s) @ items
      \<and> (items \<noteq> [] \<longrightarrow> su_draining s \<and> snd ` set items \<subseteq> set (su_brief s))"
    and "r = SupNext s' \<Longrightarrow> snd ` set (bk_draining (su_backlog s')) \<subseteq> set (su_brief s')"
proof -
  let ?d = "drained_state ti s"
  note d = drained_state_ok [OF i refl, of ti]
  have u: "bk_unique (su_backlog ?d)"
    using same_entries(2) [OF d(1)] i by (simp add: backlog_ok_def)
  obtain claimed s2 where c: "claimed_items (ti_claim ti) ?d = (claimed, s2)" by fastforce
  obtain x b where x: "backlog_claim (ti_claim ti) (su_backlog ?d) = (x, b)" by fastforce
  note ok = backlog_claim_ok [OF x u] and k = claimed_items_kept [OF c]
  have b: "b' = b" "su_backlog s2 = b"
    unfolding b'_def using r by (cases rule: after_done_cases; use k(3) c x in auto)+
  show "mset (bk_entries b') = mset (bk_entries (su_backlog s))" using ok(1) d(1) b by simp
  show "\<exists>items. bk_drained b' = bk_drained (su_backlog s) @ items
      \<and> (items \<noteq> [] \<longrightarrow> su_draining s \<and> snd ` set items \<subseteq> set (su_brief s))"
    using ok(2) d(2) b by simp
  show "snd ` set (bk_draining (su_backlog s')) \<subseteq> set (su_brief s')" if n: "r = SupNext s'"
    using r
  proof (cases rule: after_done_cases)
    case (cycle cl s2')
    then have "x = Inr claimed" using k(4) x c by (auto split: sum.splits)
    then show ?thesis using ok(3) [of claimed] io cycle n b c by auto
  qed (use n in simp)
qed

context turn_policy
begin

lemma turn_keeps_backlog:
  assumes i: "backlog_ok (length (ti_added ti) + k) s" and io: "\<forall>n. di_reads (ti_claim ti) n"
    and r: "sup_turn A limit ti s = r"
  shows "bk_texts (su_backlog (result_state r)) = bk_texts (su_backlog s) + mset (ti_added ti)
    \<and> confirmed ti s (result_state r) \<and> (\<forall>s'. r = SupNext s' \<longrightarrow> backlog_ok k s')"
proof -
  let ?b = "enqueue_all (ti_added ti) (su_backlog s)"
  have a: "bk_unique ?b" "bk_room k ?b" "bk_texts ?b = bk_texts (su_backlog s) + mset (ti_added ti)"
      "bk_draining ?b = bk_draining (su_backlog s)" "bk_drained ?b = bk_drained (su_backlog s)"
    using enqueue_all_ok [of "su_backlog s" "ti_added ti" k] i by (auto simp: backlog_ok_def)
  from r show ?thesis
  proof (cases rule: sup_turn_cases)
    case (ran rc out s3)
    have i3: "backlog_ok k s3" using a i ran(6,8,9) by (simp add: backlog_ok_def)
    have same: ?thesis if b: "su_backlog (result_state r) = ?b"
      and n: "\<And>s'. r = SupNext s' \<Longrightarrow> su_draining s' = su_draining s \<and> su_brief s' = su_brief s"
    proof -
      have "confirmed ti s (result_state r)" using b a(5) by (simp add: confirmed_def)
      moreover have "backlog_ok k s'" if "r = SupNext s'" for s'
        using b n [OF that] that a(1,2,4) i unfolding backlog_ok_def by simp
      ultimately show ?thesis using b a(3) by simp
    qed
    show ?thesis
    proof (cases "ja_classify A rc out (su_mode s3) (open_work ti)")
      case TurnDone
      then have d: "after_done A ti s3 = r" and rc: "rc = 0"
        using ran(2) done_clean [OF TurnDone] by (simp_all add: after_turn_def)
      note ok = after_done_ok [OF i3 io d] and e = same_entries [OF after_done_ok(1) [OF i3 io d]]
      show ?thesis
        using ok(2,3) e a ran(1,6,8,9) rc by (auto simp: confirmed_def backlog_ok_def)
    next
      case TurnRetry
      then have "after_retry limit ti rc out s3 = r" using ran(2) by (simp add: after_turn_def)
      then show ?thesis by (cases rule: after_retry_cases) (rule same; use ran(6,8,9) in simp)+
    qed (use ran(2,6,8,9) same in \<open>simp_all add: after_turn_def\<close>)
  qed (use a in \<open>auto simp: confirmed_def\<close>)
qed

lemma run_keeps_backlog:
  assumes i: "backlog_ok (length (concat (map (\<lambda>i. ti_added (world i)) [0..<n])) + k) s"
    and io: "\<And>i m. di_reads (ti_claim (world i)) m"
    and r: "sup_run A limit world n s = SupNext s'"
  shows "backlog_ok k s' \<and>
    bk_texts (su_backlog s') = bk_texts (su_backlog s) + mset (concat (map (\<lambda>i. ti_added (world i)) [0..<n]))"
  using i r
proof (induction n arbitrary: k s')
  case (Suc n)
  then obtain t where t: "sup_run A limit world n s = SupNext t" "sup_turn A limit (world n) t = SupNext s'"
    by (auto split: turn_result.splits)
  have ok: "backlog_ok (length (ti_added (world n)) + k) t \<and>
    bk_texts (su_backlog t) = bk_texts (su_backlog s) + mset (concat (map (\<lambda>i. ti_added (world i)) [0..<n]))"
    using Suc.IH [OF _ t(1), of "length (ti_added (world n)) + k"] Suc.prems(1) by (simp add: add_ac)
  then show ?case using turn_keeps_backlog [OF _ _ t(2), of k] io by simp
qed simp

end

subsection \<open>The run\<close>

lemma started_backlog:
  assumes s: "sup_start found ok io b f = Inr (A, limit, s)" and m: "di_made io" and rd: "\<forall>n. di_reads io n"
    and u: "bk_unique b" and k: "bk_room k b"
  shows "backlog_ok k s \<and> bk_texts (su_backlog s) = bk_texts b"
proof -
  let ?s0 = "sup_initial b f"
  note s0 = sup_startD(2) [OF s]
  show ?thesis
  proof (cases "su_draining ?s0")
    case False
    then show ?thesis using s0 u k by (simp add: backlog_ok_def)
  next
    case True
    obtain x b' where x: "backlog_claim io b = (x, b')" by fastforce
    have e: "mset (bk_entries b') = mset (bk_entries b)" by (rule backlog_claim_ok(1) [OF x u])
    obtain xs where xs: "x = Inr xs" using x m by (auto simp: backlog_claim_def split: prod.splits)
    have "s = ?s0\<lparr>su_backlog := b', su_brief := xs\<rparr>" using s0 True x xs by (simp add: claimed_items_def)
    then show ?thesis
      using same_entries [OF e] backlog_claim_ok(3) [OF x u xs rd] u k by (simp add: backlog_ok_def)
  qed
qed


definition all_io :: dir_io where
  "all_io = \<lparr>di_made = True, di_moves = (\<lambda>_. True), di_reads = (\<lambda>_. True)\<rparr>"

definition clean_turn :: turn_input where
  "clean_turn = \<lparr>ti_run = Some (0, []), ti_captured_id = None, ti_transcript = None, ti_queue = None, ti_checklist = None,
     ti_fingerprint = None, ti_added = [''more''], ti_finalize = all_io, ti_claim = all_io, ti_writes = (\<lambda>_. False)\<rparr>"

definition drain_meta :: string where
  "drain_meta = ''cwd=/r'' @ newline_char # ''agent=codex'' @ newline_char # ''mode=backlog-dump'' @ newline_char # []"

definition one_item :: backlog where
  "one_item = \<lparr>bk_pending = [(''0001'', ''fix'')], bk_draining = [], bk_drained = []\<rparr>"

definition drain_begun :: supervisor where
  "drain_begun =
     \<lparr>su_mode = ModeBacklogDump, su_session_id = [], su_session_created = False, su_fresh = False, su_attempt = 0,
      su_draining = True, su_drain_cycles = 0, su_identical = 0, su_last_failure = [], su_no_progress = 0,
      su_last_fp = None, su_brief = [''fix''],
      su_backlog = \<lparr>bk_pending = [], bk_draining = [(''0001'', ''fix'')], bk_drained = []\<rparr>, su_meta = Some drain_meta\<rparr>"

lemma drain_meta_lines: "std_lines drain_meta = [''cwd=/r'', ''agent=codex'', ''mode=backlog-dump'']"
  unfolding drain_meta_def
  by (subst std_lines_nl, simp)+ (simp add: strip_last_def)

lemma drain_starts: "sup_start found ok all_io one_item (Some drain_meta) =
    (if found AgentCodex then Inr (codex_jdi, 0, drain_begun) else Inl (meta_set ok ''state'' ''failed'' (Some drain_meta)))"
proof -
  have g: "meta_get ''cwd'' (Some drain_meta) = Some ''/r''" "meta_get ''agent'' (Some drain_meta) = Some ''codex''"
      "meta_get ''mode'' (Some drain_meta) = Some ''backlog-dump''" "meta_get ''session_id'' (Some drain_meta) = None"
      "meta_get ''resumed'' (Some drain_meta) = None" "meta_get ''max_attempts'' (Some drain_meta) = None"
    by (simp_all add: meta_get_def meta_lines_def drain_meta_lines starts_with_def)
  have c: "claimed_items all_io (sup_initial one_item (Some drain_meta)) =
      ([''fix''], (sup_initial one_item (Some drain_meta))
         \<lparr>su_backlog := \<lparr>bk_pending = [], bk_draining = [(''0001'', ''fix'')], bk_drained = []\<rparr>\<rparr>)"
    by (simp add: claimed_items_def backlog_claim_def one_item_def all_io_def move_entries_def read_dir_sorted_def)
  show ?thesis
    by (simp add: sup_start_def Let_def g c meta_number_def agent_from_label_def)
      (simp add: sup_initial_def g mode_parse_def drain_begun_def Let_def)
qed


end
