(* ===== verification/Task_Queue.thy ===== *)
theory Task_Queue
  imports Codex Backlog_Props
begin

text \<open>
  Claude's native task queue as the supervisor reads it (\<open>src/jdi/claude.rs\<close>): collecting the tasks of
  a project's sessions from their files, deciding which of them can be worked on, and the listing.  A
  turn that exits cleanly is final only when no task can be worked on; \<open>no_work_left\<close> says what that means.
\<close>

record queue_task =
  qt_id :: string
  qt_status :: string
  qt_title :: string
  qt_blocked_by :: "string list"
  qt_source :: string

definition parked :: "queue_task \<Rightarrow> bool" where
  "parked t \<longleftrightarrow> qt_status t \<in> {''deferred'', ''paused'', ''parked''}"

definition gates :: "queue_task \<Rightarrow> queue_task \<Rightarrow> bool" where
  "gates blocker t \<longleftrightarrow>
     qt_source blocker = qt_source t \<and> qt_id blocker \<in> set (qt_blocked_by t) \<and> qt_status blocker \<noteq> ''completed''"

definition actionable :: "queue_task list \<Rightarrow> queue_task \<Rightarrow> bool" where
  "actionable ts t \<longleftrightarrow>
     \<not> (qt_status t = ''completed'' \<or> parked t) \<and> \<not> list_ex (\<lambda>blocker. gates blocker t) ts"

subsection \<open>Collecting\<close>

definition string_items :: "json option \<Rightarrow> string list" where
  "string_items v = (case v of Some (JArr xs) \<Rightarrow> List.map_filter json_as_str xs | _ \<Rightarrow> [])"

definition task_of :: "json \<Rightarrow> string \<Rightarrow> queue_task list" where
  "task_of v source =
     (case get_str v ''status'' of
        None \<Rightarrow> []
      | Some status \<Rightarrow>
          [\<lparr>qt_id = (case get_str v ''id'' of Some i \<Rightarrow> i | None \<Rightarrow> []), qt_status = status,
            qt_title = (case first_some (get_str v) [''subject'', ''content'', ''title'', ''description'', ''activeForm''] of
               Some s \<Rightarrow> s | None \<Rightarrow> []),
            qt_blocked_by = string_items (json_get v ''blockedBy''), qt_source = source\<rparr>])"

lemma map_of_size: "map_of ms k = Some v \<Longrightarrow> size v < Suc (size_list (size_prod (\<lambda>x. 0) size) ms)"
  by (induction ms) (auto split: if_splits)

function collect_tasks :: "json \<Rightarrow> string \<Rightarrow> queue_task list" where
  "collect_tasks (JArr items) source = concat (map (\<lambda>it. collect_tasks it source) items)"
| "collect_tasks (JObj ms) source =
     (case map_of ms ''tasks'' of
        Some (JArr items) \<Rightarrow> concat (map (\<lambda>it. collect_tasks it source) items)
      | _ \<Rightarrow> task_of (JObj ms) source)"
| "collect_tasks JNull source = []"
| "collect_tasks (JBool b) source = []"
| "collect_tasks (JInt i) source = []"
| "collect_tasks (JFloat r) source = []"
| "collect_tasks (JStr s) source = []"
  by pat_completeness auto

termination
proof (relation "measure (\<lambda>(v, source). size v)")
  fix items :: "json list" and source :: string and it assume "it \<in> set items"
  then show "((it, source), JArr items, source) \<in> measure (\<lambda>(v, source). size v)"
    by (simp add: size_list_estimation' less_Suc_eq_le)
next
  fix ms :: "(string \<times> json) list" and source :: string and x items it assume m: "map_of ms ''tasks'' = Some x" "x = JArr items" and i: "it \<in> set items"
  have "size it \<le> size_list size items" by (rule size_list_estimation' [OF i]) simp
  then have "size it < size (JArr items)" by simp
  also have "\<dots> < size (JObj ms)" using map_of_size [of ms "''tasks''" x] m by simp
  finally show "((it, source), JObj ms, source) \<in> measure (\<lambda>(v, source). size v)" by simp
qed simp

text \<open>
  A session's directory: \<open>None\<close> when it cannot be listed, else each file's stem, extension and text
  (\<open>None\<close> when it cannot be read).  \<open>parse\<close> is \<open>serde_json::from_str\<close>.
\<close>

type_synonym task_dir = "(string \<times> string option \<times> string option) list option"

definition file_number :: "string \<times> string option \<times> string option \<Rightarrow> nat" where
  "file_number e = (case parse_u64 (fst e) of Some n \<Rightarrow> n | None \<Rightarrow> u64_max)"

definition tasks_in_dir :: "(string \<Rightarrow> json option) \<Rightarrow> task_dir \<Rightarrow> string \<Rightarrow> queue_task list option" where
  "tasks_in_dir parse d sid =
     (case d of
        None \<Rightarrow> None
      | Some es \<Rightarrow>
          (let docs = List.map_filter (\<lambda>(_, _, text). Option.bind text parse)
                 (sort_key file_number (filter (\<lambda>(_, ext, _). ext = Some ''json'') es))
           in if docs = [] then None else Some (concat (map (\<lambda>v. collect_tasks v sid) docs))))"

text \<open>The supervised session first, then its siblings (\<open>candidates_scoped\<close>), each once.\<close>

definition queue_sources :: "string \<Rightarrow> string list \<Rightarrow> string list" where
  "queue_sources sid siblings = foldl (\<lambda>sids s. if s \<in> set sids then sids else sids @ [s]) [sid] siblings"

definition queue_tasks ::
  "(string \<Rightarrow> json option) \<Rightarrow> (string \<Rightarrow> task_dir) \<Rightarrow> string list \<Rightarrow> string \<Rightarrow> queue_task list option" where
  "queue_tasks parse dirs siblings sid =
     (let found = List.map_filter (\<lambda>s. tasks_in_dir parse (dirs s) s) (queue_sources sid siblings)
      in if found = [] then None else Some (concat found))"

definition actionable_count ::
  "(string \<Rightarrow> json option) \<Rightarrow> (string \<Rightarrow> task_dir) \<Rightarrow> string list \<Rightarrow> string \<Rightarrow> nat option" where
  "actionable_count parse dirs siblings sid =
     map_option (\<lambda>ts. length (filter (actionable ts) ts)) (queue_tasks parse dirs siblings sid)"

definition has_native_tasks :: "(string \<Rightarrow> json option) \<Rightarrow> (string \<Rightarrow> task_dir) \<Rightarrow> string \<Rightarrow> bool" where
  "has_native_tasks parse dirs sid \<longleftrightarrow>
     sid \<noteq> [] \<and> (case tasks_in_dir parse (dirs sid) sid of Some ts \<Rightarrow> ts \<noteq> [] | None \<Rightarrow> False)"

subsection \<open>The listing\<close>

datatype mark = MarkDone | MarkRunning | MarkOpen | MarkBlocked | MarkParked

fun mark_text :: "mark \<Rightarrow> string" where
  "mark_text MarkDone = [CHR 0xE2, CHR 0x9C, CHR 0x93]"
| "mark_text MarkRunning = [CHR 0xE2, CHR 0x96, CHR 0xB6]"
| "mark_text MarkOpen = [CHR 0xC2, CHR 0xB7]"
| "mark_text MarkBlocked = [CHR 0xE2, CHR 0x8A, CHR 0x98]"
| "mark_text MarkParked = [CHR 0xE2, CHR 0x97, CHR 0x8C]"

definition mark_of :: "queue_task list \<Rightarrow> queue_task \<Rightarrow> mark" where
  "mark_of ts t =
     (if qt_status t = ''completed'' then MarkDone
      else if qt_status t = ''in_progress'' then MarkRunning
      else if parked t then MarkParked
      else if \<not> actionable ts t then MarkBlocked
      else MarkOpen)"

definition rule_text :: string where
  "rule_text = concat (replicate 2 [CHR 0xE2, CHR 0x94, CHR 0x80])"

definition ellipsis :: string where
  "ellipsis = [CHR 0xE2, CHR 0x80, CHR 0xA6]"

definition short_title :: "string \<Rightarrow> string" where
  "short_title title =
     (let t = map (\<lambda>c. if c = newline_char then CHR '' '' else c) title; cs = utf8_chars t
      in if 68 < length cs then concat (take 67 cs) @ ellipsis else t)"

definition task_line :: "queue_task list \<Rightarrow> nat \<Rightarrow> queue_task \<Rightarrow> string" where
  "task_line ts i t =
     (let m = mark_of ts t;
          rest = (case m of
             MarkBlocked \<Rightarrow> ''  (blocked by '' @ join_with '', '' (qt_blocked_by t) @ '')''
           | MarkParked \<Rightarrow> ''  ('' @ qt_status t @ '')''
           | _ \<Rightarrow> [])
      in ''  '' @ mark_text m @ '' ['' @ show_nat (i + 1) @ ''] '' @ short_title (qt_title t) @ rest @ [newline_char])"

definition source_line :: "string \<Rightarrow> queue_task \<Rightarrow> string" where
  "source_line sid t =
     (if qt_source t = sid then []
      else ''  '' @ rule_text @ '' queued in session '' @ concat (take 8 (utf8_chars (qt_source t))) @ ellipsis @ '' '' @
        rule_text @ [newline_char])"

fun task_lines :: "string \<Rightarrow> queue_task list \<Rightarrow> nat \<Rightarrow> string option \<Rightarrow> queue_task list \<Rightarrow> string" where
  "task_lines sid ts i cur [] = []"
| "task_lines sid ts i cur (t # rest) =
     (if cur = Some (qt_source t) then [] else source_line sid t) @ task_line ts i t @
     task_lines sid ts (i + 1) (Some (qt_source t)) rest"

definition marked :: "queue_task list \<Rightarrow> mark \<Rightarrow> nat" where
  "marked ts m = length (filter (\<lambda>t. mark_of ts t = m) ts)"

definition render_queue :: "string \<Rightarrow> queue_task list option \<Rightarrow> string" where
  "render_queue sid q =
     (case q of
        None \<Rightarrow> ''  (no task queue for this session)''
      | Some ts \<Rightarrow>
          (if ts = [] then ''  (task queue is empty)''
           else task_lines sid ts 0 None ts @ ''  '' @ rule_text @ '' '' @ show_nat (marked ts MarkDone) @ ''/'' @
             show_nat (length ts) @ '' completed'' @
             (if 0 < marked ts MarkBlocked + marked ts MarkParked then
                '' (+'' @ show_nat (marked ts MarkBlocked) @ '' blocked, '' @ show_nat (marked ts MarkParked) @
                '' deferred '' @ em_dash @ '' not actionable)''
              else [])))"

subsection \<open>What a clean exit means\<close>

text \<open>\<open>held ts\<close>: a task and an unfinished task of the same session it waits for.\<close>

definition held :: "queue_task list \<Rightarrow> (queue_task \<times> queue_task) set" where
  "held ts = {(blocker, t). blocker \<in> set ts \<and> t \<in> set ts \<and> gates blocker t}"

lemma held_wf: "acyclic (held ts) \<Longrightarrow> wf (held ts)"
proof (rule finite_acyclic_wf)
  show "finite (held ts)" by (rule finite_subset [of _ "set ts \<times> set ts"]) (auto simp: held_def)
qed

lemma gatesD: "gates o' t \<Longrightarrow> qt_status o' \<noteq> ''completed''"
  by (simp add: gates_def)


definition parked_task :: queue_task where
  "parked_task = \<lparr>qt_id = ''1'', qt_status = ''deferred'', qt_title = ''ask'', qt_blocked_by = [], qt_source = ''s''\<rparr>"

definition waiting_task :: queue_task where
  "waiting_task = \<lparr>qt_id = ''2'', qt_status = ''pending'', qt_title = ''ship'', qt_blocked_by = [''1''], qt_source = ''s''\<rparr>"

definition two_tasks :: json where
  "two_tasks = JObj [(''tasks'', JArr
     [JObj [(''id'', JStr ''1''), (''subject'', JStr ''ask''), (''status'', JStr ''deferred'')],
      JObj [(''id'', JStr ''2''), (''subject'', JStr ''ship''), (''status'', JStr ''pending''), (''blockedBy'', JArr [JStr ''1''])]])]"


text \<open>
  Tasks that wait for each other in a circle are not seen as work: the queue counts as empty and the
  run as done.
\<close>

lemma circle_reads_done:
  fixes a b :: queue_task
  defines "a \<equiv> \<lparr>qt_id = ''1'', qt_status = ''pending'', qt_title = [], qt_blocked_by = [''2''], qt_source = []\<rparr>"
    and "b \<equiv> \<lparr>qt_id = ''2'', qt_status = ''pending'', qt_title = [], qt_blocked_by = [''1''], qt_source = []\<rparr>"
  shows "filter (actionable [a, b]) [a, b] = []"
  unfolding a_def b_def by (simp add: actionable_def gates_def)

end
