(* ===== verification/Turn_Index.thy ===== *)
theory Turn_Index
  imports Block_Log Codex
begin

text \<open>
  The turn index (\<open>claude-replay-html/src/html_export/turn_index.rs\<close>): a sidecar beside the record log with
  one line per record, from which the server tells a page what the records it has not fetched yet hold.
  Both files are their bytes.  Parsing a record, printing and parsing a line of the sidecar
  (\<open>serde_json\<close>) are arguments, and so is what each file operation answers.
\<close>

subsection \<open>Entries\<close>

text \<open>\<open>BTreeMap::insert\<close>: the keys stay in order.\<close>

fun tree_put :: "string \<Rightarrow> 'v \<Rightarrow> (string \<times> 'v) list \<Rightarrow> (string \<times> 'v) list" where
  "tree_put k v [] = [(k, v)]"
| "tree_put k v ((k', v') # m) =
     (if k = k' then (k, v) # m else if k < k' then (k, v) # (k', v') # m else (k', v') # tree_put k v m)"

record offer =
  of_path :: string
  of_fsig :: string
  of_sig :: string

record ix_entry =
  xe_o :: nat
  xe_n :: nat
  xe_h :: string
  xe_k :: string
  xe_c :: bool
  xe_id :: string
  xe_agents :: "string list"
  xe_turn :: "(string \<times> json) list option"
  xe_tools :: "(string \<times> nat) list"
  xe_compaction :: "(string \<times> json) list option"
  xe_files :: "offer list"
  xe_artifacts :: "json list"

definition tool_kinds :: "string list" where
  "tool_kinds = [''bash'', ''read'', ''write'', ''edit'', ''skill'', ''tool'']"

definition turn_kinds :: "string list" where
  "turn_kinds = [''user'', ''command'', ''peer'']"

definition first_str :: "json \<Rightarrow> string list \<Rightarrow> string" where
  "first_str v ks = (case find (\<lambda>s. s \<noteq> []) (List.map_filter (get_str v) ks) of Some s \<Rightarrow> s | None \<Rightarrow> [])"

fun json_items :: "json option \<Rightarrow> json list" where
  "json_items (Some (JArr xs)) = xs"
| "json_items _ = []"

definition children :: "json \<Rightarrow> json list" where
  "children r =
     concat (map (\<lambda>part. json_items (json_get part ''items''))
       (filter (\<lambda>part. get_str part ''p'' = Some ''blocks'') (json_items (json_get r ''body''))))"

definition session_of :: "string \<Rightarrow> string" where
  "session_of link =
     (case split_on (CHR ''?'') (hd (split_on (CHR ''#'') link)) of
        _ # q # qs \<Rightarrow>
          (case find (\<lambda>pair. starts_with pair ''session='')
             (split_on (CHR ''&'') (concat (q # map (\<lambda>x. CHR ''?'' # x) qs))) of
             Some pair \<Rightarrow> drop 8 pair | None \<Rightarrow> [])
      | _ \<Rightarrow> [])"

definition fnv_step :: "64 word \<Rightarrow> char \<Rightarrow> 64 word" where
  "fnv_step h c = (h XOR word_of_nat (byte c)) * 0x100000001b3"

definition hex16 :: "64 word \<Rightarrow> string" where
  "hex16 h = map (\<lambda>i. hex_digit (unat h div 16 ^ i mod 16)) (rev [0..<16])"

definition fingerprint :: "string \<Rightarrow> string" where
  "fingerprint bytes = hex16 (foldl fnv_step 0xcbf29ce484222325 bytes)"

definition pick_fields :: "string list \<Rightarrow> json \<Rightarrow> (string \<times> json) list" where
  "pick_fields ks v =
     foldl (\<lambda>m k. case json_get v k of Some x \<Rightarrow> tree_put k x m | None \<Rightarrow> m) [] ks"

definition head_of :: "json \<Rightarrow> json" where
  "head_of r = (case json_get r ''head'' of Some h \<Rightarrow> h | None \<Rightarrow> JNull)"

definition kind_of :: "json \<Rightarrow> string" where
  "kind_of r = (case get_str r ''kind'' of Some k \<Rightarrow> k | None \<Rightarrow> [])"

definition tool_name :: "json \<Rightarrow> string" where
  "tool_name r =
     (let t = first_str r [''tool'']; n = first_str (head_of r) [''name'']
      in if t \<noteq> [] then t else if n \<noteq> [] then n else kind_of r)"

definition count_tool :: "json \<Rightarrow> ix_entry \<Rightarrow> ix_entry" where
  "count_tool r e =
     (if kind_of r \<in> set tool_kinds then
        e\<lparr>xe_tools := tree_put (tool_name r)
          ((case map_of (xe_tools e) (tool_name r) of Some n \<Rightarrow> n | None \<Rightarrow> 0) + 1) (xe_tools e)\<rparr>
      else e)"

definition add_artifact :: "json \<Rightarrow> ix_entry \<Rightarrow> ix_entry" where
  "add_artifact r e =
     (case json_get (head_of r) ''artifact'' of
        Some a \<Rightarrow>
          (if first_str a [''url''] \<noteq> [] then
             e\<lparr>xe_artifacts := xe_artifacts e @ [JObj (pick_fields [''url'', ''name'', ''icon'', ''desc''] a)]\<rparr>
           else e)
      | None \<Rightarrow> e)"

definition child_session :: "json \<Rightarrow> string" where
  "child_session r =
     (let i = first_str (head_of r) [''child_id'']
      in if i \<noteq> [] then i else session_of (first_str (head_of r) [''child'']))"

definition add_agent :: "json \<Rightarrow> ix_entry \<Rightarrow> ix_entry" where
  "add_agent r e =
     (if child_session r \<noteq> [] \<and> child_session r \<notin> set (xe_agents e) then e\<lparr>xe_agents := xe_agents e @ [child_session r]\<rparr> else e)"

text \<open>The first offer of a path stands, except that a file stamp beats a reveal stamp.\<close>

fun merge_offer :: "offer \<Rightarrow> offer list \<Rightarrow> offer list" where
  "merge_offer x [] = [x]"
| "merge_offer x (y # ys) =
     (if of_path y = of_path x then (if of_fsig y = [] \<and> of_fsig x \<noteq> [] then x # ys else y # ys)
      else y # merge_offer x ys)"

definition offer_of :: "json \<Rightarrow> offer" where
  "offer_of r =
     \<lparr>of_path = first_str (head_of r) [''att_path'', ''path''], of_fsig = first_str (head_of r) [''att_fsig'', ''fsig''],
      of_sig = first_str (head_of r) [''att_sig'', ''sig'']\<rparr>"

definition add_offer :: "json \<Rightarrow> ix_entry \<Rightarrow> ix_entry" where
  "add_offer r e =
     (let x = offer_of r
      in if of_path x \<noteq> [] \<and> (of_fsig x \<noteq> [] \<or> of_sig x \<noteq> []) then e\<lparr>xe_files := merge_offer x (xe_files e)\<rparr> else e)"

definition visit_one :: "ix_entry \<Rightarrow> json \<Rightarrow> ix_entry" where
  "visit_one e r = add_offer r (add_agent r (add_artifact r (count_tool r e)))"

lemma json_get_size: "json_get v k = Some x \<Longrightarrow> size x < size v"
proof (cases v)
  case (JObj ms)
  have "map_of ms k = Some x \<Longrightarrow> size x \<le> size_list (size_prod (\<lambda>x. 0) size) ms"
    by (induction ms) (auto split: if_splits)
  then show "json_get v k = Some x \<Longrightarrow> ?thesis" using JObj by simp
qed simp_all

lemma json_items_size: "x \<in> set (json_items (json_get v k)) \<Longrightarrow> size x < size v"
proof -
  assume x: "x \<in> set (json_items (json_get v k))"
  then obtain xs where xs: "json_get v k = Some (JArr xs)" "x \<in> set xs"
    by (cases "json_get v k"; cases "the (json_get v k)") auto
  have "size x \<le> size_list size xs" by (rule size_list_estimation' [OF xs(2)]) simp
  then show ?thesis using json_get_size [OF xs(1)] by simp
qed

lemma children_size:
  assumes "c \<in> set (children r)"
  shows "size c < size r"
proof -
  obtain part where "part \<in> set (json_items (json_get r ''body''))" "c \<in> set (json_items (json_get part ''items''))"
    using assms by (auto simp: children_def)
  then show ?thesis using json_items_size [of part r "''body''"] json_items_size [of c part "''items''"] by simp
qed

function visit :: "ix_entry \<Rightarrow> json \<Rightarrow> ix_entry" where
  "visit e r = foldl (\<lambda>e c. visit e c) (visit_one e r) (children r)"
  by pat_completeness auto
termination
  by (relation "measure (\<lambda>(e, r). size r)") (use children_size in auto)

declare visit.simps [simp del]

definition turn_row :: "json \<Rightarrow> (string \<times> json) list" where
  "turn_row r =
     (let row = pick_fields [''kind'', ''id'', ''turn'', ''label'', ''ts'', ''reply_context''] r
      in if kind_of r = ''peer'' then tree_put ''head'' (JObj (pick_fields [''from'', ''mode''] (head_of r))) row else row)"

definition ix_entry_of :: "json \<Rightarrow> nat \<Rightarrow> string \<Rightarrow> ix_entry" where
  "ix_entry_of r at_off bytes =
     visit \<lparr>xe_o = at_off, xe_n = length bytes, xe_h = fingerprint bytes, xe_k = kind_of r,
        xe_c = (kind_of r = ''assistant'' \<and> get_str r ''phase'' = Some ''commentary''),
        xe_id = first_str r [''id''], xe_agents = [],
        xe_turn = (if kind_of r \<in> set turn_kinds then Some (turn_row r) else None),
        xe_tools = [],
        xe_compaction = (if kind_of r = ''compaction''
          then Some (pick_fields [''compact_trigger'', ''compact_pre'', ''compact_post''] (head_of r)) else None),
        xe_files = [], xe_artifacts = []\<rparr> r"

definition entry_end :: "ix_entry \<Rightarrow> nat" where
  "entry_end e = xe_o e + xe_n e + 1"

subsection \<open>The sidecar\<close>

text \<open>\<open>xf_open\<close>: an append handle is held.  \<open>xf_disk\<close>: the file, \<open>None\<close> when there is none.\<close>

record index_file =
  xf_lines :: nat
  xf_mark :: nat
  xf_bytes :: nat
  xf_open :: bool
  xf_disk :: "string option"

text \<open>
  What an append meets: opening, reading the length, how many bytes land (\<open>None\<close> is all of them), and
  whether the cut after a failure works.
\<close>

record index_io =
  xi_opens :: bool
  xi_stat :: bool
  xi_landed :: "nat option"
  xi_cut :: bool

definition index_truncate :: "bool \<Rightarrow> nat \<Rightarrow> index_file \<Rightarrow> index_file" where
  "index_truncate trunc len ix =
     (let ix1 = ix\<lparr>xf_disk := (if trunc then map_option (set_len len) (xf_disk ix) else xf_disk ix), xf_bytes := len\<rparr>
      in if len = 0 then ix1\<lparr>xf_lines := 0, xf_mark := 0\<rparr> else ix1)"

definition entry_lines :: "(ix_entry \<Rightarrow> string) \<Rightarrow> ix_entry list \<Rightarrow> string" where
  "entry_lines enc es = concat (map (\<lambda>e. enc e @ [newline_char]) es)"

definition index_write ::
  "(ix_entry \<Rightarrow> string) \<Rightarrow> index_io \<Rightarrow> ix_entry list \<Rightarrow> index_file \<Rightarrow> bool \<times> index_file" where
  "index_write enc io es ix =
     (if es = [] then (True, ix)
      else
        (let out = entry_lines enc es;
             opened = (xf_open ix \<or> xi_opens io);
             disk = (if opened \<and> \<not> xf_open ix \<and> xf_disk ix = None then Some [] else xf_disk ix);
             ix1 = ix\<lparr>xf_open := opened, xf_disk := disk\<rparr>
         in case disk of
              Some d \<Rightarrow>
                (if opened \<and> xi_stat io \<and> length d = xf_bytes ix then
                   (case xi_landed io of
                      None \<Rightarrow>
                        (True, ix1\<lparr>xf_lines := xf_lines ix + length es, xf_mark := entry_end (last es),
                           xf_bytes := xf_bytes ix + length out, xf_disk := Some (d @ out)\<rparr>)
                    | Some k \<Rightarrow>
                        (False, index_truncate (xi_cut io) 0 (ix1\<lparr>xf_open := False, xf_disk := Some (d @ take k out)\<rparr>)))
                 else (False, index_truncate (xi_cut io) 0 (ix1\<lparr>xf_open := False\<rparr>)))
            | None \<Rightarrow> (False, index_truncate (xi_cut io) 0 (ix1\<lparr>xf_open := False\<rparr>))))"

definition read_at :: "string \<Rightarrow> nat \<Rightarrow> nat \<Rightarrow> string option" where
  "read_at lg off n = (if off + n \<le> length lg then Some (take n (drop off lg)) else None)"

text \<open>
  Opening beside a log whose length was read as \<open>log_len\<close>: \<open>rd\<close> is whether the sidecar can be read, \<open>lr\<close>
  whether the log can.
\<close>

definition index_open ::
  "(string \<Rightarrow> ix_entry option) \<Rightarrow> bool \<Rightarrow> bool \<Rightarrow> bool \<Rightarrow> string \<Rightarrow> nat \<Rightarrow> string option \<Rightarrow> index_file" where
  "index_open dec rd lr trunc lg log_len disk =
     (let ix = \<lparr>xf_lines = 0, xf_mark = 0, xf_bytes = 0, xf_open = False, xf_disk = disk\<rparr>
      in case (if rd then disk else None) of
           None \<Rightarrow> ix
         | Some bytes \<Rightarrow>
             (let complete = (case rposition (\<lambda>b. b = newline_char) bytes of Some i \<Rightarrow> i + 1 | None \<Rightarrow> 0);
                  lines = count_list (take complete bytes) newline_char;
                  start = (case rposition (\<lambda>b. b = newline_char) (take (complete - 1) bytes) of Some i \<Rightarrow> i + 1 | None \<Rightarrow> 0);
                  tail = (if 0 < lines then dec (take (complete - 1 - start) (drop start bytes)) else None)
              in case tail of
                   Some e \<Rightarrow>
                     (if entry_end e \<le> log_len \<and> lr \<and> map_option fingerprint (read_at lg (xe_o e) (xe_n e)) = Some (xe_h e) then
                        (let ix1 = ix\<lparr>xf_lines := lines, xf_mark := entry_end e, xf_bytes := complete\<rparr>
                         in if complete < length bytes then index_truncate trunc complete ix1 else ix1)
                      else index_truncate trunc 0 ix)
                 | None \<Rightarrow> if bytes \<noteq> [] then index_truncate trunc 0 ix else ix))"

definition index_push ::
  "(ix_entry \<Rightarrow> string) \<Rightarrow> index_io \<Rightarrow> json \<Rightarrow> nat \<Rightarrow> string \<Rightarrow> index_file \<Rightarrow> index_file" where
  "index_push enc io r off bytes ix =
     (if off = xf_mark ix then snd (index_write enc io [ix_entry_of r off bytes] ix) else ix)"

text \<open>A part of \<open>split_inclusive\<close>: the next line with its newline, or the rest.\<close>

definition inclusive_line :: "string \<Rightarrow> string \<times> string" where
  "inclusive_line buf = (case split_line buf of Some p \<Rightarrow> p | None \<Rightarrow> (buf, []))"

lemma inclusive_line_less: "buf \<noteq> [] \<Longrightarrow> inclusive_line buf = (line, rest) \<Longrightarrow> length rest < length buf"
  using split_line_less by (auto simp: inclusive_line_def split: option.splits)

function cut_walk :: "(string \<Rightarrow> ix_entry option) \<Rightarrow> nat \<Rightarrow> string \<Rightarrow> nat \<times> nat \<times> nat \<Rightarrow> nat \<times> nat \<times> nat" where
  "cut_walk dec keep_to buf acc =
     (if buf = [] then acc
      else case inclusive_line buf of (line, rest) \<Rightarrow>
        (case dec (butlast line) of
           Some e \<Rightarrow>
             (if entry_end e \<le> keep_to then
                cut_walk dec keep_to rest (fst acc + length line, fst (snd acc) + 1, entry_end e)
              else acc)
         | None \<Rightarrow> acc))"
  by pat_completeness auto
termination
  by (relation "measure (\<lambda>(dec, keep_to, buf, acc). length buf)") (use inclusive_line_less [OF _ sym] in auto)

declare cut_walk.simps [simp del]

definition index_cut_to :: "(string \<Rightarrow> ix_entry option) \<Rightarrow> bool \<Rightarrow> bool \<Rightarrow> nat \<Rightarrow> index_file \<Rightarrow> index_file" where
  "index_cut_to dec rd trunc log_len ix =
     (if xf_mark ix \<le> log_len then ix
      else if log_len = 0 then index_truncate trunc 0 ix
      else case (if rd then xf_disk ix else None) of
             None \<Rightarrow> index_truncate trunc 0 ix
           | Some bytes \<Rightarrow>
               (case cut_walk dec log_len bytes (0, 0, 0) of
                  (k, lines, mark) \<Rightarrow> (index_truncate trunc k ix)\<lparr>xf_lines := lines, xf_mark := mark\<rparr>))"

text \<open>The lines of the log that end, without their newlines.\<close>

function ended_lines :: "string \<Rightarrow> string list" where
  "ended_lines buf = (case split_line buf of Some (line, rest) \<Rightarrow> butlast line # ended_lines rest | None \<Rightarrow> [])"
  by pat_completeness auto
termination
  by (relation "measure length") (auto dest: split_line_less)

declare ended_lines.simps [simp del]

definition index_batch :: nat where "index_batch = 512"

fun catch_loop ::
  "(string \<Rightarrow> json option) \<Rightarrow> (ix_entry \<Rightarrow> string) \<Rightarrow> (nat \<Rightarrow> index_io) \<Rightarrow> nat \<Rightarrow> nat \<Rightarrow> ix_entry list \<Rightarrow> string list
     \<Rightarrow> index_file \<Rightarrow> index_file" where
  "catch_loop parse enc ios n off batch [] ix = snd (index_write enc (ios n) batch ix)"
| "catch_loop parse enc ios n off batch (l # ls) ix =
     (case parse l of
        None \<Rightarrow> snd (index_write enc (ios n) batch ix)
      | Some r \<Rightarrow>
          (let batch' = batch @ [ix_entry_of r off l]; off' = off + length l + 1
           in if index_batch \<le> length batch' then
                (case index_write enc (ios n) batch' ix of
                   (ok, ix') \<Rightarrow> if ok then catch_loop parse enc ios (n + 1) off' [] ls ix' else ix')
              else catch_loop parse enc ios n off' batch' ls ix))"

text \<open>\<open>got\<close> is how many bytes of the log can be read past the mark, \<open>None\<close> when it cannot be opened.\<close>

definition index_catch_up ::
  "(string \<Rightarrow> json option) \<Rightarrow> (ix_entry \<Rightarrow> string) \<Rightarrow> (nat \<Rightarrow> index_io) \<Rightarrow> nat option \<Rightarrow> string \<Rightarrow> nat
     \<Rightarrow> index_file \<Rightarrow> index_file" where
  "index_catch_up parse enc ios got lg log_len ix =
     (if log_len \<le> xf_mark ix then ix
      else case got of
             None \<Rightarrow> ix
           | Some k \<Rightarrow>
               catch_loop parse enc ios 0 (xf_mark ix) []
                 (ended_lines (take (min k (log_len - xf_mark ix)) (drop (xf_mark ix) lg))) ix)"

fun chain_end :: "nat \<Rightarrow> ix_entry list \<Rightarrow> nat option" where
  "chain_end off [] = Some off"
| "chain_end off (e # es) = (if xe_o e = off then chain_end (entry_end e) es else None)"

record entries_io =
  ei_got :: "nat option"
  ei_writes :: "nat \<Rightarrow> index_io"
  ei_reads :: bool

definition entries_try ::
  "(string \<Rightarrow> json option) \<Rightarrow> (ix_entry \<Rightarrow> string) \<Rightarrow> (string \<Rightarrow> ix_entry option) \<Rightarrow> entries_io \<Rightarrow> string \<Rightarrow> nat
     \<Rightarrow> index_file \<Rightarrow> ix_entry list option \<times> index_file" where
  "entries_try parse enc dec io lg log_len ix =
     (let ix1 = index_catch_up parse enc (ei_writes io) (ei_got io) lg log_len ix;
          found = (case (if ei_reads io then xf_disk ix1 else None) of
            Some d \<Rightarrow> those (map dec (take (xf_lines ix1) (split_on newline_char d)))
          | None \<Rightarrow> None)
      in (case found of
            Some es \<Rightarrow> if length es = xf_lines ix1 \<and> chain_end 0 es = Some log_len then Some es else None
          | None \<Rightarrow> None, ix1))"

definition index_entries ::
  "(string \<Rightarrow> json option) \<Rightarrow> (ix_entry \<Rightarrow> string) \<Rightarrow> (string \<Rightarrow> ix_entry option) \<Rightarrow> entries_io \<Rightarrow> bool \<Rightarrow> entries_io
     \<Rightarrow> string \<Rightarrow> nat \<Rightarrow> index_file \<Rightarrow> ix_entry list \<times> index_file" where
  "index_entries parse enc dec io1 trunc io2 lg log_len ix =
     (case entries_try parse enc dec io1 lg log_len ix of
        (Some es, ix1) \<Rightarrow> (es, ix1)
      | (None, ix1) \<Rightarrow>
          (case entries_try parse enc dec io2 lg log_len (index_truncate trunc 0 (ix1\<lparr>xf_open := False\<rparr>)) of
             (Some es, ix2) \<Rightarrow> (es, ix2)
           | (None, ix2) \<Rightarrow> ([], ix2)))"

subsection \<open>The reply\<close>

definition opens_of :: "ix_entry list \<Rightarrow> nat list" where
  "opens_of es = filter (\<lambda>i. xe_turn (es ! i) \<noteq> None) [0..<length es]"

definition reply_turn :: "ix_entry list \<Rightarrow> nat \<Rightarrow> nat \<Rightarrow> nat option \<Rightarrow> (string \<times> json) list" where
  "reply_turn es log_len r next_open =
     tree_put ''end'' (JInt (int (case next_open of Some n \<Rightarrow> xe_o (es ! n) | None \<Rightarrow> log_len)))
       (tree_put ''o'' (JInt (int (xe_o (es ! r))))
         (tree_put ''last'' (JInt (int (case next_open of Some n \<Rightarrow> n | None \<Rightarrow> length es) - 1))
           (tree_put ''r'' (JInt (int r)) (case xe_turn (es ! r) of Some row \<Rightarrow> row | None \<Rightarrow> []))))"

fun reply_turns :: "ix_entry list \<Rightarrow> nat \<Rightarrow> nat \<Rightarrow> nat list \<Rightarrow> (string \<times> json) list list" where
  "reply_turns es log_len below [] = []"
| "reply_turns es log_len below (r # rs) =
     (if r < below then
        reply_turn es log_len r (case rs of n # _ \<Rightarrow> Some n | [] \<Rightarrow> None) # reply_turns es log_len below rs
      else [])"

definition reply_tools :: "ix_entry list \<Rightarrow> (string \<times> nat) list" where
  "reply_tools es =
     foldl (\<lambda>m (name, n). tree_put name ((case map_of m name of Some k \<Rightarrow> k | None \<Rightarrow> 0) + n) m) []
       (concat (map xe_tools es))"

definition reply_agents :: "ix_entry list \<Rightarrow> (string \<times> nat) list" where
  "reply_agents es =
     foldl (\<lambda>m (a, r). if map_of m a = None then m @ [(a, r)] else m) []
       (concat (map (\<lambda>(r, e). map (\<lambda>a. (a, r)) (xe_agents e)) (enumerate 0 es)))"

fun merge_reply_offer :: "offer \<times> nat \<Rightarrow> (offer \<times> nat) list \<Rightarrow> (offer \<times> nat) list" where
  "merge_reply_offer x [] = [x]"
| "merge_reply_offer x (y # ys) =
     (if of_path (fst y) = of_path (fst x) then
        (if of_fsig (fst y) = [] \<and> of_fsig (fst x) \<noteq> [] then x # ys else y # ys)
      else y # merge_reply_offer x ys)"

definition reply_files :: "ix_entry list \<Rightarrow> (offer \<times> nat) list" where
  "reply_files es =
     foldl (\<lambda>fs x. merge_reply_offer x fs) []
       (concat (map (\<lambda>(r, e). map (\<lambda>x. (x, r)) (xe_files e)) (enumerate 0 es)))"

definition reply_facts :: "ix_entry list \<Rightarrow> json list" where
  "reply_facts es = map (\<lambda>e. JArr ([JStr (xe_k e), JStr (xe_id e)] @ (if xe_c e then [JInt 1] else []))) es"

definition reply_compactions :: "ix_entry list \<Rightarrow> json list" where
  "reply_compactions es =
     List.map_filter (\<lambda>(r, e). map_option (\<lambda>c. JObj [(''head'', JObj c), (''r'', JInt (int r))]) (xe_compaction e))
       (enumerate 0 es)"

fun stamp_at :: "nat \<Rightarrow> json \<Rightarrow> json" where
  "stamp_at r (JObj m) = JObj (tree_put ''at'' (JInt (int r)) m)"
| "stamp_at r v = v"

definition reply_artifacts :: "ix_entry list \<Rightarrow> json list" where
  "reply_artifacts es = concat (map (\<lambda>(r, e). map (stamp_at r) (xe_artifacts e)) (enumerate 0 es))"

definition index_reply :: "ix_entry list \<Rightarrow> nat \<Rightarrow> nat \<Rightarrow> nat \<Rightarrow> json" where
  "index_reply es log_len epoch wanted =
     (let u = min wanted (length es); below = take u es
      in JObj
        [(''agents'', JArr (map (\<lambda>(a, r). JObj [(''id'', JStr a), (''r'', JInt (int r))]) (reply_agents below))),
         (''artifacts'', JArr (reply_artifacts below)),
         (''bytes'', JInt (int log_len)),
         (''compactions'', JArr (reply_compactions below)),
         (''epoch'', JInt (int epoch)),
         (''facts'', JArr (reply_facts below)),
         (''files'', JArr (map (\<lambda>(x, r). JObj [(''fsig'', JStr (of_fsig x)), (''path'', JStr (of_path x)),
            (''r'', JInt (int r)), (''sig'', JStr (of_sig x))]) (reply_files below))),
         (''records'', JInt (int (length es))),
         (''t'', JStr ''turn-index''),
         (''tools'', JObj (map (\<lambda>(k, n). (k, JInt (int n))) (reply_tools below))),
         (''turns'', JArr (map JObj (reply_turns es log_len u (opens_of es)))),
         (''upto'', JInt (int u))])"

end
