(* ===== verification/Turn_Index_Props.thy ===== *)
theory Turn_Index_Props
  imports Turn_Index Durable_Props
begin

text \<open>
  The turn index says what the log holds.  The log and its sidecar as a state that appends, cuts, crashes,
  reopenings and reads change; the invariant that the sidecar is the index of a prefix of the log; and what a
  read returns.
\<close>

subsection \<open>The log and its index\<close>

definition log_text :: "string list \<Rightarrow> string" where
  "log_text ls = concat (map (\<lambda>l. l @ [newline_char]) ls)"

fun entries_from :: "(string \<Rightarrow> json option) \<Rightarrow> nat \<Rightarrow> string list \<Rightarrow> ix_entry list" where
  "entries_from parse off [] = []"
| "entries_from parse off (l # ls) = ix_entry_of (the (parse l)) off l # entries_from parse (off + length l + 1) ls"

definition record_line :: "(string \<Rightarrow> json option) \<Rightarrow> string \<Rightarrow> bool" where
  "record_line parse l \<longleftrightarrow> newline_char \<notin> set l \<and> parse l \<noteq> None"

text \<open>What is asked of \<open>serde_json\<close>: a line of the sidecar reads back, and is one line.\<close>

definition index_codec :: "(string \<Rightarrow> json option) \<Rightarrow> (ix_entry \<Rightarrow> string) \<Rightarrow> (string \<Rightarrow> ix_entry option) \<Rightarrow> bool" where
  "index_codec parse enc dec \<longleftrightarrow> (\<forall>l r off. parse l = Some r \<longrightarrow>
     dec (enc (ix_entry_of r off l)) = Some (ix_entry_of r off l) \<and> newline_char \<notin> set (enc (ix_entry_of r off l)))"

lemma log_text_simps [simp]:
  "log_text [] = []" "log_text (l # ls) = l @ newline_char # log_text ls"
  "log_text (xs @ ys) = log_text xs @ log_text ys"
  by (simp_all add: log_text_def)

lemma entry_lines_simps [simp]:
  "entry_lines enc [] = []" "entry_lines enc (e # es) = enc e @ newline_char # entry_lines enc es"
  "entry_lines enc (xs @ ys) = entry_lines enc xs @ entry_lines enc ys"
  by (simp_all add: entry_lines_def)

lemma entries_from_append:
  "entries_from parse off (xs @ ys) = entries_from parse off xs @ entries_from parse (off + length (log_text xs)) ys"
  by (induction xs arbitrary: off) (simp_all add: algebra_simps)

lemma entries_from_length [simp]: "length (entries_from parse off ls) = length ls"
  by (induction ls arbitrary: off) simp_all

lemma entries_from_Nil [simp]: "entries_from parse off ls = [] \<longleftrightarrow> ls = []"
  by (cases ls) simp_all

lemma entries_from_take: "take k (entries_from parse off ls) = entries_from parse off (take k ls)"
  by (induction ls arbitrary: off k) (simp_all add: take_Cons')

lemma visit_frame [simp]:
  "xe_o (visit e r) = xe_o e" "xe_n (visit e r) = xe_n e" "xe_h (visit e r) = xe_h e" "xe_turn (visit e r) = xe_turn e"
proof (induction e r rule: visit.induct)
  case (1 e r)
  have one: "xe_o (visit_one e r) = xe_o e \<and> xe_n (visit_one e r) = xe_n e \<and> xe_h (visit_one e r) = xe_h e
      \<and> xe_turn (visit_one e r) = xe_turn e"
    by (simp add: visit_one_def add_offer_def add_agent_def add_artifact_def count_tool_def Let_def split: option.split)
  have "xe_o (foldl visit e' cs) = xe_o e' \<and> xe_n (foldl visit e' cs) = xe_n e' \<and> xe_h (foldl visit e' cs) = xe_h e'
      \<and> xe_turn (foldl visit e' cs) = xe_turn e'" if "set cs \<subseteq> set (children r)" for e' cs
    using that by (induction cs arbitrary: e') (use 1 in auto)
  then have all: "xe_o (visit e r) = xe_o e \<and> xe_n (visit e r) = xe_n e \<and> xe_h (visit e r) = xe_h e \<and> xe_turn (visit e r) = xe_turn e"
    using one by (subst (1 2 3 4) visit.simps) simp
  { case 1 show ?case using all by simp }
  { case 2 show ?case using all by simp }
  { case 3 show ?case using all by simp }
  { case 4 show ?case using all by simp }
qed

lemma entry_of_place [simp]:
  "xe_o (ix_entry_of r off l) = off" "xe_n (ix_entry_of r off l) = length l" "xe_h (ix_entry_of r off l) = fingerprint l"
  "entry_end (ix_entry_of r off l) = off + length l + 1"
  by (simp_all add: ix_entry_of_def entry_end_def)

lemma chain_entries: "chain_end off (entries_from parse off ls) = Some (off + length (log_text ls))"
  by (induction ls arbitrary: off) (simp_all add: algebra_simps)

lemma last_entry_end: "ls \<noteq> [] \<Longrightarrow> entry_end (last (entries_from parse off ls)) = off + length (log_text ls)"
proof (induction ls arbitrary: off)
  case (Cons l ls)
  then show ?case by (cases "ls = []") (simp_all add: algebra_simps)
qed simp

lemma log_text_mono: "length (log_text (take k ls)) \<le> length (log_text ls)"
  by (metis append_take_drop_id le_add1 length_append log_text_simps(3))

lemma log_text_level:
  assumes "length (log_text ls) \<le> length (log_text (take k ls))"
  shows "take k ls = ls"
proof -
  have "log_text (drop k ls) = []"
    using assms by (metis (no_types) append_take_drop_id add_le_same_cancel1 le_zero_eq length_0_conv length_append log_text_simps(3))
  then have "drop k ls = []" by (cases "drop k ls") simp_all
  then show ?thesis by simp
qed

subsection \<open>The invariant\<close>

definition index_of ::
  "(string \<Rightarrow> json option) \<Rightarrow> (ix_entry \<Rightarrow> string) \<Rightarrow> string list \<Rightarrow> string" where
  "index_of parse enc ls = entry_lines enc (entries_from parse 0 ls)"

definition index_inv ::
  "(string \<Rightarrow> json option) \<Rightarrow> (ix_entry \<Rightarrow> string) \<Rightarrow> string list \<Rightarrow> index_file \<Rightarrow> bool" where
  "index_inv parse enc ls ix \<longleftrightarrow>
     xf_lines ix \<le> length ls \<and> xf_mark ix = length (log_text (take (xf_lines ix) ls))
     \<and> xf_bytes ix = length (index_of parse enc (take (xf_lines ix) ls))
     \<and> (case xf_disk ix of Some d \<Rightarrow> d = index_of parse enc (take (xf_lines ix) ls) | None \<Rightarrow> xf_lines ix = 0 \<and> \<not> xf_open ix)"

lemma index_of_append: "index_of parse enc (xs @ ys) =
    index_of parse enc xs @ entry_lines enc (entries_from parse (length (log_text xs)) ys)"
  by (simp add: index_of_def entries_from_append)

lemma index_of_Nil [simp]: "index_of parse enc [] = []"
  by (simp add: index_of_def)

lemma set_len_0 [simp]: "set_len 0 d = []"
  by (simp add: set_len_def)

lemma truncated_inv: "xf_open ix \<longrightarrow> xf_disk ix \<noteq> None \<Longrightarrow> index_inv parse enc ls (index_truncate True 0 ix)"
  by (auto simp: index_inv_def index_truncate_def split: option.split)

lemma truncated_lines [simp]: "xf_lines (index_truncate t 0 ix) = 0"
  by (simp add: index_truncate_def Let_def)

text \<open>Appending the entries that come next, or starting over.\<close>

lemma index_write_ok:
  assumes i: "index_inv parse enc ls ix" and c: "xi_cut io"
    and j: "es = entries_from parse (xf_mark ix) (take j (drop (xf_lines ix) ls))"
    and w: "index_write enc io es ix = (ok, ix')"
  shows "index_inv parse enc ls ix'" and "ok \<Longrightarrow> xf_lines ix' = xf_lines ix + length es"
proof -
  let ?k = "xf_lines ix" and ?new = "take j (drop (xf_lines ix) ls)"
  have take: "take (?k + length es) ls = take ?k ls @ ?new"
    by (simp add: j take_add) (metis take_all_iff min.cobounded2 nat_le_linear take_take min_def length_drop)
  have mark: "xf_mark ix = length (log_text (take ?k ls))" using i by (simp add: index_inv_def)
  have "index_inv parse enc ls ix' \<and> (ok \<longrightarrow> xf_lines ix' = ?k + length es)"
  proof (cases "ok \<and> es \<noteq> []")
    case False
    then show ?thesis
      using w i c truncated_inv by (auto simp: index_write_def Let_def split: if_splits option.splits)
  next
    case True
    then obtain d where d: "d = index_of parse enc (take ?k ls)"
      "ix' = ix\<lparr>xf_open := True, xf_disk := Some (d @ entry_lines enc es), xf_lines := ?k + length es,
         xf_mark := entry_end (last es), xf_bytes := xf_bytes ix + length (entry_lines enc es)\<rparr>"
      using w i by (auto simp: index_write_def Let_def index_inv_def split: if_splits option.splits)
    have "?new \<noteq> []" using True j by auto
    then have "entry_end (last es) = length (log_text (take (?k + length es) ls))"
      unfolding take by (simp add: j last_entry_end mark)
    moreover have "index_of parse enc (take (?k + length es) ls) = d @ entry_lines enc es"
      unfolding take by (simp add: index_of_append d(1) j mark)
    moreover have "?k + length es \<le> length ls" using i by (auto simp: j index_inv_def)
    ultimately show ?thesis using i d by (simp add: index_inv_def)
  qed
  then show "index_inv parse enc ls ix'" and "ok \<Longrightarrow> xf_lines ix' = xf_lines ix + length es" by simp_all
qed

text \<open>A longer log has the same index so far; a cut one too, unless the cut is below it.\<close>

lemma index_inv_grow: "index_inv parse enc ls ix \<Longrightarrow> index_inv parse enc (ls @ [l]) ix"
  by (auto simp: index_inv_def split: option.splits)

lemma index_inv_keep:
  "index_inv parse enc ls ix \<Longrightarrow> xf_lines ix \<le> j \<Longrightarrow> index_inv parse enc (take j ls) ix"
  by (auto simp: index_inv_def min_def split: option.splits)

subsection \<open>Reading lines back\<close>

lemma ended_log: "\<forall>l \<in> set ls. newline_char \<notin> set l \<Longrightarrow> ended_lines (log_text ls) = ls"
proof (induction ls)
  case Nil
  then show ?case by (simp add: ended_lines.simps split_line_def)
next
  case (Cons l ls)
  then show ?case by (subst ended_lines.simps) (simp add: split_line_nl)
qed

text \<open>Reading fewer bytes than the log has gives fewer of its lines.\<close>

lemma ended_prefix:
  "\<forall>l \<in> set ls. newline_char \<notin> set l \<Longrightarrow> \<exists>j. ended_lines (take n (log_text ls)) = take j ls"
proof (induction ls arbitrary: n)
  case Nil
  then show ?case by (simp add: ended_lines.simps split_line_def)
next
  case (Cons l ls)
  show ?case
  proof (cases "n \<le> length l")
    case True
    then have "newline_char \<notin> set (take n (log_text (l # ls)))" using Cons.prems by (auto dest: in_set_takeD)
    then have "ended_lines (take n (log_text (l # ls))) = []" by (subst ended_lines.simps) (simp add: split_line_def)
    then show ?thesis by (intro exI [of _ 0]) simp
  next
    case False
    then obtain m where m: "n = length l + Suc m" by (metis add_Suc_right less_iff_Suc_add not_le)
    obtain j where "ended_lines (take m (log_text ls)) = take j ls" using Cons by auto
    then have "ended_lines (take n (log_text (l # ls))) = take (Suc j) (l # ls)"
      using Cons.prems by (subst ended_lines.simps) (simp add: m split_line_nl)
    then show ?thesis by blast
  qed
qed

lemma split_entries:
  "\<forall>e \<in> set es. newline_char \<notin> set (enc e) \<Longrightarrow> split_on newline_char (entry_lines enc es) = map enc es @ [[]]"
  by (induction es) (simp_all add: split_on_append)

lemma those_dec: "\<forall>e \<in> set es. dec (enc e) = Some e \<Longrightarrow> those (map dec (map enc es)) = Some es"
  by (induction es) simp_all

text \<open>What the codec gives for every entry of a log of records.\<close>

lemma codec_entries:
  assumes "index_codec parse enc dec" and "\<forall>l \<in> set ls. record_line parse l"
  shows "\<forall>e \<in> set (entries_from parse off ls). dec (enc e) = Some e \<and> newline_char \<notin> set (enc e)"
  using assms(2)
proof (induction ls arbitrary: off)
  case (Cons l ls)
  then obtain r where r: "parse l = Some r" by (auto simp: record_line_def)
  then have "dec (enc (ix_entry_of r off l)) = Some (ix_entry_of r off l) \<and> newline_char \<notin> set (enc (ix_entry_of r off l))"
    using assms(1) unfolding index_codec_def by blast
  then show ?case using Cons r by simp
qed simp

lemma read_back:
  assumes c: "index_codec parse enc dec" and l: "\<forall>l \<in> set ls. record_line parse l"
  shows "those (map dec (take (length ls) (split_on newline_char (index_of parse enc ls)))) = Some (entries_from parse 0 ls)"
proof -
  note e = codec_entries [OF c l, of 0]
  have "split_on newline_char (index_of parse enc ls) = map enc (entries_from parse 0 ls) @ [[]]"
    unfolding index_of_def by (rule split_entries) (use e in blast)
  then have "take (length ls) (split_on newline_char (index_of parse enc ls)) = map enc (entries_from parse 0 ls)" by simp
  moreover have "those (map dec (map enc (entries_from parse 0 ls))) = Some (entries_from parse 0 ls)"
    by (rule those_dec) (use e in blast)
  ultimately show ?thesis by simp
qed

subsection \<open>Catching up\<close>

definition writes_whole :: "index_io \<Rightarrow> bool" where
  "writes_whole io \<longleftrightarrow> xi_opens io \<and> xi_stat io \<and> xi_landed io = None"

lemma index_write_whole:
  assumes "index_inv parse enc ls ix" and "writes_whole io"
  shows "fst (index_write enc io es ix)"
  using assms by (auto simp: index_write_def Let_def index_inv_def writes_whole_def split: option.splits)

lemma catch_loop_ok:
  assumes i: "index_inv parse enc ls ix" and c: "\<And>n. xi_cut (ios n)" and p: "\<forall>l \<in> set ls. record_line parse l"
    and b: "batch = entries_from parse (xf_mark ix) (take (length batch) (drop (xf_lines ix) ls))"
    and q: "queue = take m (drop (xf_lines ix + length batch) ls)"
    and o: "off = xf_mark ix + length (log_text (take (length batch) (drop (xf_lines ix) ls)))"
    and r: "catch_loop parse enc ios n off batch queue ix = ix'"
  shows "index_inv parse enc ls ix' \<and> ((\<forall>n. writes_whole (ios n)) \<longrightarrow> xf_lines ix' = xf_lines ix + length batch + length queue)"
  using i b q o r
proof (induction queue arbitrary: n off batch ix m)
  case Nil
  obtain ok iw where w: "index_write enc (ios n) batch ix = (ok, iw)" by fastforce
  note wo = index_write_ok [OF Nil.prems(1) c Nil.prems(2) w]
  then show ?case using index_write_whole [OF Nil.prems(1), of "ios n" batch] Nil.prems(5) w by auto
next
  case (Cons l queue)
  let ?k = "xf_lines ix" and ?m = "length batch"
  obtain m' where m: "m = Suc m'" using Cons.prems(3) by (cases m) auto
  obtain rest where rest: "drop (?k + ?m) ls = l # rest" "queue = take m' rest"
    using Cons.prems(3) m by (cases "drop (?k + ?m) ls") auto
  have l: "record_line parse l" using p rest(1) by (metis in_set_dropD list.set_intros(1))
  then obtain v where v: "parse l = Some v" by (auto simp: record_line_def)
  have t: "take (Suc ?m) (drop ?k ls) = take ?m (drop ?k ls) @ [l]"
    using rest(1) by (metis add.commute drop_drop hd_drop_conv_nth list.sel(1) nth_via_drop take_Suc_conv_app_nth length_drop not_less drop_all list.distinct(1))
  let ?b = "batch @ [ix_entry_of v off l]" and ?off = "off + length l + 1"
  have b': "?b = entries_from parse (xf_mark ix) (take (length ?b) (drop ?k ls))"
    using Cons.prems(2,4) v t by (simp add: entries_from_append)
  have q': "queue = take m' (drop (?k + length ?b) ls)"
    using rest by (metis add_Suc_right append_Nil2 drop_Suc length_append_singleton list.sel(3) tl_drop)
  have o': "?off = xf_mark ix + length (log_text (take (length ?b) (drop ?k ls)))"
    using Cons.prems(4) t by simp
  show ?case
  proof (cases "index_batch \<le> length ?b")
    case False
    then have "catch_loop parse enc ios n ?off ?b queue ix = ix'" using Cons.prems(5) v by (simp add: Let_def)
    from Cons.IH [OF Cons.prems(1) b' q' o' this] show ?thesis by simp
  next
    case True
    obtain ok iw where w: "index_write enc (ios n) ?b ix = (ok, iw)" by fastforce
    note wo = index_write_ok [OF Cons.prems(1) c b' w]
    show ?thesis
    proof (cases ok)
      case False
      then show ?thesis
        using wo Cons.prems(5) v w True index_write_whole [OF Cons.prems(1), of "ios n" ?b] by (auto simp: Let_def)
    next
      case ok: True
      have k: "xf_lines iw = ?k + length ?b" using wo(2) ok by simp
      have mark: "xf_mark iw = length (log_text (take (?k + length ?b) ls))" using wo(1) k by (simp add: index_inv_def)
      have "xf_mark ix = length (log_text (take ?k ls))" using Cons.prems(1) by (simp add: index_inv_def)
      then have off: "?off = xf_mark iw" unfolding o' mark take_add by simp
      have "catch_loop parse enc ios (n + 1) ?off [] queue iw = ix'"
        using Cons.prems(5) v w True ok by (simp add: Let_def)
      from Cons.IH [OF wo(1) _ _ _ this, of m'] show ?thesis using k q' off by simp
    qed
  qed
qed

lemma log_cut: "drop (length (log_text (take k ls))) (log_text ls) = log_text (drop k ls)"
  by (metis append_eq_conv_conj append_take_drop_id log_text_simps(3))

lemma catch_up_ok:
  fixes got :: "nat option"
  assumes i: "index_inv parse enc ls ix" and c: "\<And>n. xi_cut (ios n)" and p: "\<forall>l \<in> set ls. record_line parse l"
  defines "ix' \<equiv> index_catch_up parse enc ios got (log_text ls) (length (log_text ls)) ix"
  shows "index_inv parse enc ls ix'"
    and "got = Some g \<Longrightarrow> length (log_text ls) \<le> g \<Longrightarrow> \<forall>n. writes_whole (ios n) \<Longrightarrow> xf_lines ix' = length ls"
proof -
  let ?k = "xf_lines ix"
  have mark: "xf_mark ix = length (log_text (take ?k ls))" "?k \<le> length ls" using i by (auto simp: index_inv_def)
  have nl: "\<forall>l \<in> set (drop ?k ls). newline_char \<notin> set l" using p by (auto simp: record_line_def dest: in_set_dropD)
  have whole: "index_inv parse enc ls ix' \<and>
    (got = Some g \<longrightarrow> length (log_text ls) \<le> g \<longrightarrow> (\<forall>n. writes_whole (ios n)) \<longrightarrow> xf_lines ix' = length ls)" for g
  proof (cases "length (log_text ls) \<le> xf_mark ix")
    case True
    then have "take ?k ls = ls" using log_text_level mark(1) by simp
    then have "?k = length ls" using mark(2) by (metis length_take min.absorb2)
    then show ?thesis using True i by (simp add: ix'_def index_catch_up_def)
  next
    case False
    show ?thesis
    proof (cases got)
      case None
      then show ?thesis using False i by (simp add: ix'_def index_catch_up_def)
    next
      case (Some n)
      let ?buf = "take (min n (length (log_text ls) - xf_mark ix)) (log_text (drop ?k ls))"
      obtain j where j: "ended_lines ?buf = take j (drop ?k ls)" using ended_prefix [OF nl] by blast
      have r: "catch_loop parse enc ios 0 (xf_mark ix) [] (ended_lines ?buf) ix = ix'"
        using False Some log_cut [of ?k ls] by (simp add: ix'_def index_catch_up_def mark(1))
      have ok: "index_inv parse enc ls ix' \<and> ((\<forall>n. writes_whole (ios n)) \<longrightarrow> xf_lines ix' = ?k + length (ended_lines ?buf))"
        using catch_loop_ok [OF i c p _ _ _ r, of j] j by simp
      have "ended_lines ?buf = drop ?k ls" if "length (log_text ls) \<le> n"
      proof -
        have "length (log_text (drop ?k ls)) = length (log_text ls) - xf_mark ix"
          using log_cut [of ?k ls] mark(1) by (metis length_drop)
        then have "?buf = log_text (drop ?k ls)" using that by simp
        then show ?thesis using ended_log [OF nl] by simp
      qed
      then show ?thesis using ok Some mark(2) by auto
    qed
  qed
  show "index_inv parse enc ls ix'" using whole by blast
  show "got = Some g \<Longrightarrow> length (log_text ls) \<le> g \<Longrightarrow> \<forall>n. writes_whole (ios n) \<Longrightarrow> xf_lines ix' = length ls"
    using whole by blast
qed

subsection \<open>Reading the index\<close>

text \<open>An attempt in which every file operation succeeds; and one in which at least the cuts do.\<close>

definition io_good :: "nat \<Rightarrow> entries_io \<Rightarrow> bool" where
  "io_good log_len io \<longleftrightarrow> ei_reads io \<and> (\<forall>n. writes_whole (ei_writes io n))
     \<and> (case ei_got io of Some g \<Rightarrow> log_len \<le> g | None \<Rightarrow> False)"

definition io_cuts :: "entries_io \<Rightarrow> bool" where
  "io_cuts io \<longleftrightarrow> (\<forall>n. xi_cut (ei_writes io n))"

lemma entries_try_ok:
  assumes i: "index_inv parse enc ls ix" and c: "io_cuts io" and p: "\<forall>l \<in> set ls. record_line parse l"
    and d: "index_codec parse enc dec"
    and t: "entries_try parse enc dec io (log_text ls) (length (log_text ls)) ix = (found, ix')"
  shows "index_inv parse enc ls ix'" and "found = Some es \<Longrightarrow> es = entries_from parse 0 ls"
    and "io_good (length (log_text ls)) io \<Longrightarrow> ls \<noteq> [] \<Longrightarrow> found = Some (entries_from parse 0 ls)"
proof -
  note up = catch_up_ok [OF i _ p, of "ei_writes io" "ei_got io"]
  have ix': "ix' = index_catch_up parse enc (ei_writes io) (ei_got io) (log_text ls) (length (log_text ls)) ix"
    using t by (simp add: entries_try_def Let_def)
  have inv: "index_inv parse enc ls ix'" using up(1) c by (simp add: ix' io_cuts_def)
  let ?k = "xf_lines ix'"
  have k: "?k \<le> length ls" using inv by (simp add: index_inv_def)
  have sub: "\<forall>l \<in> set (take ?k ls). record_line parse l" using p by (auto dest: in_set_takeD)
  have chain: "chain_end 0 (entries_from parse 0 (take ?k ls)) = Some (length (log_text ls)) \<longleftrightarrow> take ?k ls = ls"
    using log_text_level [of ls ?k] by (auto simp: chain_entries)
  have read: "those (map dec (take ?k (split_on newline_char x))) = Some (entries_from parse 0 (take ?k ls))"
    if "xf_disk ix' = Some x" for x
    using read_back [OF d sub] inv that k by (simp add: index_inv_def)
  show "index_inv parse enc ls ix'" by (rule inv)
  show "es = entries_from parse 0 ls" if "found = Some es"
    using t that read chain k unfolding entries_try_def Let_def ix' [symmetric]
    by (auto split: if_splits option.splits)
  show "found = Some (entries_from parse 0 ls)" if good: "io_good (length (log_text ls)) io" and ne: "ls \<noteq> []"
  proof -
    obtain g where g: "ei_got io = Some g" "length (log_text ls) \<le> g" "ei_reads io" "\<forall>n. writes_whole (ei_writes io n)"
      using good by (auto simp: io_good_def split: option.splits)
    have all: "?k = length ls" using up(2) g c by (simp add: ix' io_cuts_def)
    then obtain x where x: "xf_disk ix' = Some x" using inv ne by (auto simp: index_inv_def split: option.splits)
    show ?thesis
      using t g(3) x read [OF x] chain all unfolding entries_try_def Let_def ix' [symmetric] by auto
  qed
qed

lemma index_entries_ok:
  assumes i: "index_inv parse enc ls ix" and c: "io_cuts io1" "io_cuts io2" and p: "\<forall>l \<in> set ls. record_line parse l"
    and d: "index_codec parse enc dec"
    and t: "index_entries parse enc dec io1 True io2 (log_text ls) (length (log_text ls)) ix = (es, ix')"
  shows "index_inv parse enc ls ix' \<and> (es = entries_from parse 0 ls \<or> es = [])
    \<and> (io_good (length (log_text ls)) io1 \<or> io_good (length (log_text ls)) io2 \<longrightarrow> es = entries_from parse 0 ls)"
proof -
  obtain f1 ix1 where t1: "entries_try parse enc dec io1 (log_text ls) (length (log_text ls)) ix = (f1, ix1)" by fastforce
  note e1 = entries_try_ok [OF i c(1) p d t1]
  show ?thesis
  proof (cases f1)
    case (Some es1)
    then show ?thesis using t t1 e1 by (auto simp: index_entries_def)
  next
    case None
    let ?ix = "index_truncate True 0 (ix1\<lparr>xf_open := False\<rparr>)"
    obtain f2 ix2 where t2: "entries_try parse enc dec io2 (log_text ls) (length (log_text ls)) ?ix = (f2, ix2)" by fastforce
    have "index_inv parse enc ls ?ix" by (rule truncated_inv) simp
    note e2 = entries_try_ok [OF this c(2) p d t2]
    show ?thesis
    proof (cases f2)
      case (Some es2)
      then show ?thesis using t t1 t2 e2 None by (auto simp: index_entries_def)
    next
      case n2: None
      then have "es = []" "ix' = ix2" using t t1 t2 None by (simp_all add: index_entries_def)
      then show ?thesis using e1(3) e2(1,3) None n2 by (cases "ls = []") auto
    qed
  qed
qed

subsection \<open>Cutting\<close>

lemma log_text_strict:
  assumes "j < k" and "k \<le> length ls"
  shows "length (log_text (take j ls)) < length (log_text (take k ls))"
proof -
  have "take k ls = take j ls @ take (k - j) (drop j ls)" using assms(1) by (simp flip: take_add)
  moreover obtain x xs where "take (k - j) (drop j ls) = x # xs"
    using assms by (cases "take (k - j) (drop j ls)") auto
  ultimately show ?thesis by simp
qed

lemma log_text_below:
  assumes "length (log_text (take k ls)) \<le> length (log_text (take j ls))" and "k \<le> length ls"
  shows "k \<le> j"
proof (rule ccontr)
  assume "\<not> k \<le> j"
  then show False using log_text_strict [of j k ls] assms by simp
qed

lemma cut_walk_entries:
  assumes "\<forall>e \<in> set (entries_from parse off ls). dec (enc e) = Some e \<and> newline_char \<notin> set (enc e)"
    and "j \<le> length ls" and "a = (n, m, off)"
  shows "cut_walk dec (off + length (log_text (take j ls))) (entry_lines enc (entries_from parse off ls)) a =
    (n + length (entry_lines enc (entries_from parse off (take j ls))), m + j, off + length (log_text (take j ls)))"
  using assms
proof (induction ls arbitrary: off j n m a)
  case Nil
  then show ?case by (simp add: cut_walk.simps)
next
  case (Cons l ls)
  let ?e = "ix_entry_of (the (parse l)) off l" and ?off = "off + length l + 1"
  have e: "dec (enc ?e) = Some ?e" "newline_char \<notin> set (enc ?e)" using Cons.prems(1) by auto
  have line: "inclusive_line (enc ?e @ newline_char # t) = (enc ?e @ [newline_char], t)" for t
    by (simp add: inclusive_line_def split_line_nl [OF e(2)])
  show ?case
  proof (cases j)
    case 0
    then show ?thesis using Cons.prems(3) line e(1) by (subst cut_walk.simps) simp
  next
    case (Suc i)
    have "cut_walk dec (?off + length (log_text (take i ls))) (entry_lines enc (entries_from parse ?off ls))
        (n + length (enc ?e) + 1, m + 1, ?off) =
      (n + length (enc ?e) + 1 + length (entry_lines enc (entries_from parse ?off (take i ls))), m + 1 + i,
        ?off + length (log_text (take i ls)))"
      by (rule Cons.IH) (use Cons.prems Suc in auto)
    then show ?thesis using Cons.prems(3) line e(1) Suc by (subst cut_walk.simps) (simp add: algebra_simps)
  qed
qed

lemma index_cut_ok:
  assumes i: "index_inv parse enc ls ix" and p: "\<forall>l \<in> set ls. record_line parse l" and d: "index_codec parse enc dec"
  shows "index_inv parse enc (take j ls) (index_cut_to dec rd True (length (log_text (take j ls))) ix)"
proof -
  let ?k = "xf_lines ix" and ?len = "length (log_text (take j ls))"
  have k: "?k \<le> length ls" "xf_mark ix = length (log_text (take ?k ls))" using i by (auto simp: index_inv_def)
  have fresh: "index_inv parse enc (take j ls) (index_truncate True 0 ix)"
    by (rule truncated_inv) (use i in \<open>auto simp: index_inv_def split: option.splits\<close>)
  show ?thesis
  proof (cases "xf_mark ix \<le> ?len")
    case True
    then have "?k \<le> j" using log_text_below [of ?k ls j] k by simp
    then show ?thesis using index_inv_keep [OF i] True by (simp add: index_cut_to_def)
  next
    case False
    have j: "j < ?k"
    proof (rule ccontr)
      assume "\<not> j < ?k"
      then have "take ?k (take j ls) = take ?k ls" by (simp add: min_def)
      then show False using False k(2) log_text_mono [of ?k "take j ls"] by simp
    qed
    show ?thesis
    proof (cases "?len \<noteq> 0 \<and> rd \<and> xf_disk ix \<noteq> None")
      case False
      then show ?thesis using fresh \<open>\<not> xf_mark ix \<le> ?len\<close> by (auto simp: index_cut_to_def)
    next
      case True
      then have disk: "xf_disk ix = Some (index_of parse enc (take ?k ls))" using i by (auto simp: index_inv_def)
      have tt: "take j (take ?k ls) = take j ls" using j by (simp add: min_def)
      have sub: "\<forall>l \<in> set (take ?k ls). record_line parse l" using p by (auto dest: in_set_takeD)
      have "cut_walk dec (0 + length (log_text (take j (take ?k ls)))) (entry_lines enc (entries_from parse 0 (take ?k ls))) (0, 0, 0) =
          (0 + length (entry_lines enc (entries_from parse 0 (take j (take ?k ls)))), 0 + j, 0 + length (log_text (take j (take ?k ls))))"
        by (rule cut_walk_entries [OF codec_entries [OF d sub] _ refl]) (use j k(1) in simp)
      then have w: "cut_walk dec ?len (index_of parse enc (take ?k ls)) (0, 0, 0) = (length (index_of parse enc (take j ls)), j, ?len)"
        using j by (simp add: index_of_def min_def)
      have pre: "set_len (length (index_of parse enc (take j ls))) (index_of parse enc (take ?k ls)) = index_of parse enc (take j ls)"
        using index_of_append [of parse enc "take j ls" "drop j (take ?k ls)"] tt
        by (metis append_eq_conv_conj append_take_drop_id diff_is_0_eq' le_add1 length_append replicate_0 set_len_def append_Nil2)
      have "j \<noteq> 0" using True by (cases j) auto
      then have "index_of parse enc (take j ls) \<noteq> []" using j k(1) by (cases ls; cases j) (auto simp: index_of_def)
      then show ?thesis
        using \<open>\<not> xf_mark ix \<le> ?len\<close> True disk w pre j k(1)
        by (simp add: index_cut_to_def index_truncate_def index_inv_def min_def)
    qed
  qed
qed

subsection \<open>Opening after a crash\<close>

text \<open>A torn index is the index of fewer records and a part of a line.\<close>

lemma torn_entries:
  assumes "\<forall>e \<in> set es. newline_char \<notin> set (enc e)"
  shows "\<exists>c \<le> length es. \<exists>rest. take m (entry_lines enc es) = entry_lines enc (take c es) @ rest \<and> newline_char \<notin> set rest"
  using assms
proof (induction es arbitrary: m)
  case (Cons e es)
  show ?case
  proof (cases "m \<le> length (enc e)")
    case True
    then show ?thesis using Cons.prems by (intro exI [of _ 0]) (auto dest: in_set_takeD)
  next
    case False
    then obtain n where n: "m = length (enc e) + Suc n" by (metis add_Suc_right less_iff_Suc_add not_le)
    have "\<forall>e \<in> set es. newline_char \<notin> set (enc e)" using Cons.prems by simp
    from Cons.IH [OF this, of n] obtain c rest where
      "c \<le> length es" "take n (entry_lines enc es) = entry_lines enc (take c es) @ rest" "newline_char \<notin> set rest" by blast
    then show ?thesis by (intro exI [of _ "Suc c"] conjI exI [of _ rest]) (simp_all add: n)
  qed
qed simp

lemma no_newline: "newline_char \<notin> set rest \<Longrightarrow> rposition (\<lambda>b. b = newline_char) rest = None"
  by (auto simp: rposition_None)

lemma last_newline:
  assumes "newline_char \<notin> set rest"
  shows "rposition (\<lambda>b. b = newline_char) (x @ newline_char # rest) = Some (length x)"
  by (induction x) (simp_all add: no_newline [OF assms])

lemma count_entries:
  "\<forall>e \<in> set es. newline_char \<notin> set (enc e) \<Longrightarrow> count_list (entry_lines enc es) newline_char = length es"
  by (induction es) (simp_all add: count_notin)

lemma after_last_newline:
  "\<forall>e \<in> set es. newline_char \<notin> set (enc e) \<Longrightarrow> newline_char \<notin> set rest \<Longrightarrow>
    (case rposition (\<lambda>b. b = newline_char) (entry_lines enc es @ rest) of Some i \<Rightarrow> i + 1 | None \<Rightarrow> 0) = length (entry_lines enc es)"
proof (cases es rule: rev_cases)
  case (snoc xs e)
  assume "newline_char \<notin> set rest"
  then show ?thesis using last_newline [of rest "entry_lines enc xs @ enc e"] snoc by simp
qed (simp add: no_newline)

lemma index_open_ok:
  assumes i: "index_inv parse enc ls ix" and p: "\<forall>l \<in> set ls. record_line parse l" and d: "index_codec parse enc dec"
  shows "index_inv parse enc (take j ls)
    (index_open dec True lr True (log_text (take j ls)) (length (log_text (take j ls))) (map_option (take m) (xf_disk ix)))"
proof (cases "xf_disk ix")
  case None
  then show ?thesis by (simp add: index_open_def index_inv_def)
next
  case (Some disk)
  let ?L = "take (xf_lines ix) ls" and ?log = "log_text (take j ls)"
  let ?es = "entries_from parse 0 ?L"
  have disk: "disk = entry_lines enc ?es" using i Some by (simp add: index_inv_def index_of_def)
  define bytes where "bytes = take m disk"
  have sub: "\<forall>l \<in> set ?L. record_line parse l" using p by (auto dest: in_set_takeD)
  note e = codec_entries [OF d sub, of 0]
  obtain c rest where c: "c \<le> length ?es" "bytes = entry_lines enc (take c ?es) @ rest" "newline_char \<notin> set rest"
    using torn_entries [of ?es enc m] e disk unfolding bytes_def by blast
  have cl: "c \<le> xf_lines ix" "c \<le> length ls" using c(1) by simp_all
  let ?base = "\<lparr>xf_lines = 0, xf_mark = 0, xf_bytes = 0, xf_open = False, xf_disk = Some bytes\<rparr>"
  have nl: "\<forall>x \<in> set (take c ?es). newline_char \<notin> set (enc x)" using e by (auto dest: in_set_takeD)
  have complete: "(case rposition (\<lambda>b. b = newline_char) bytes of Some i \<Rightarrow> i + 1 | None \<Rightarrow> 0)
      = length (entry_lines enc (take c ?es))"
    using after_last_newline [OF nl c(3)] by (simp add: c(2))
  have lines: "count_list (take (length (entry_lines enc (take c ?es))) bytes) newline_char = c"
    using count_entries [OF nl] c(1,2) by simp
  have fresh: "index_inv parse enc (take j ls) (index_truncate True 0 ?base)" by (rule truncated_inv) simp
  show ?thesis
  proof (cases c)
    case 0
    then have rp: "rposition (\<lambda>b. b = newline_char) bytes = None" using c(2,3) no_newline by simp
    show ?thesis
    proof (cases "bytes = []")
      case True
      then have "index_open dec True lr True ?log (length ?log) (map_option (take m) (xf_disk ix)) = ?base"
        by (simp add: Some option.map bytes_def [symmetric] index_open_def Let_def)
      then show ?thesis using True by (simp add: index_inv_def)
    next
      case False
      then have "index_open dec True lr True ?log (length ?log) (map_option (take m) (xf_disk ix)) = index_truncate True 0 ?base"
        by (simp add: Some option.map bytes_def [symmetric] index_open_def Let_def rp)
      then show ?thesis using fresh by simp
    qed
  next
    case (Suc c')
    let ?last = "?es ! c'"
    have t: "take c ?es = take c' ?es @ [?last]" using c(1) Suc by (simp add: take_Suc_conv_app_nth)
    have nl': "\<forall>x \<in> set (take c' ?es). newline_char \<notin> set (enc x)" "newline_char \<notin> set (enc ?last)"
      using nl unfolding t by simp_all
    have cut: "take (length (entry_lines enc (take c ?es)) - 1) bytes = entry_lines enc (take c' ?es) @ enc ?last"
      unfolding c(2) t by simp
    have start: "(case rposition (\<lambda>b. b = newline_char) (take (length (entry_lines enc (take c ?es)) - 1) bytes) of
        Some i \<Rightarrow> i + 1 | None \<Rightarrow> 0) = length (entry_lines enc (take c' ?es))"
      unfolding cut by (rule after_last_newline [OF nl'])
    have line: "take (length (entry_lines enc (take c ?es)) - 1 - length (entry_lines enc (take c' ?es)))
        (drop (length (entry_lines enc (take c' ?es))) bytes) = enc ?last"
      unfolding c(2) t by simp
    have "?last \<in> set ?es" using c(1) Suc by simp
    then have dec: "dec (enc ?last) = Some ?last" using e by blast
    have entry_end: "entry_end ?last = length (log_text (take c ls))"
    proof -
      have "take c ?es = entries_from parse 0 (take c ls)"
        using cl by (simp add: entries_from_take min_absorb1)
      moreover have "take c ls \<noteq> []" using c(1) Suc by auto
      ultimately have "entry_end (last (take c ?es)) = length (log_text (take c ls))" using last_entry_end [of "take c ls" parse 0] by simp
      then show ?thesis unfolding t by simp
    qed
    have pos: "0 < c" using Suc by simp
    show ?thesis
    proof (cases "entry_end ?last \<le> length ?log \<and> lr \<and>
        map_option fingerprint (read_at ?log (xe_o ?last) (xe_n ?last)) = Some (xe_h ?last)")
      case False
      have "index_open dec True lr True ?log (length ?log) (map_option (take m) (xf_disk ix)) = index_truncate True 0 ?base"
        unfolding Some option.map bytes_def [symmetric] index_open_def Let_def
        by (simp only: complete lines start line dec pos if_True option.case False if_False)
      then show ?thesis using fresh by simp
    next
      case True
      have cj: "c \<le> j" using log_text_below [of c ls j] True entry_end c(1) by simp
      have tc: "take c (take j ls) = take c ls" using cj by (simp add: min_def)
      have idx: "entry_lines enc (take c ?es) = index_of parse enc (take c ls)"
        using cl by (simp add: index_of_def entries_from_take min_absorb1)
      let ?E = "entry_lines enc (take c ?es)"
      let ?mid = "?base\<lparr>xf_lines := c, xf_mark := entry_end ?last, xf_bytes := length ?E\<rparr>"
      have opened: "index_open dec True lr True ?log (length ?log) (map_option (take m) (xf_disk ix)) =
          (if length ?E < length bytes then index_truncate True (length ?E) ?mid else ?mid)"
        unfolding Some option.map bytes_def [symmetric] index_open_def Let_def
        by (simp only: complete lines start line dec pos if_True option.case True simp_thms)
      have ne: "length ?E \<noteq> 0" using t by simp
      have "(if length ?E < length bytes then index_truncate True (length ?E) ?mid else ?mid) =
          \<lparr>xf_lines = c, xf_mark = entry_end ?last, xf_bytes = length ?E, xf_open = False, xf_disk = Some ?E\<rparr>"
      proof (cases "rest = []")
        case True
        then show ?thesis using c(2) by simp
      next
        case False
        then have "length ?E < length bytes" "set_len (length ?E) bytes = ?E" by (simp_all add: set_len_def c(2))
        then show ?thesis using ne by (simp add: index_truncate_def)
      qed
      then show ?thesis
        unfolding opened using c(1) cj by (simp add: index_inv_def entry_end tc idx)
    qed
  qed
qed

subsection \<open>The index through the life of a log\<close>

text \<open>
  The log is its records.  A put appends one and its entry; a log may grow without its index (by a build that
  has none, or a crash in between) and is cut with it; a crash loses a tail of the log and of the sidecar, and
  what is left is opened; and the index is read.  Every operation may fail, except that a file once opened
  can be cut and that a sidecar that is there can be read when it is opened.
\<close>

type_synonym indexed_log = "string list \<times> index_file"

definition new_index :: index_file where
  "new_index = \<lparr>xf_lines = 0, xf_mark = 0, xf_bytes = 0, xf_open = False, xf_disk = None\<rparr>"

inductive index_step ::
  "(string \<Rightarrow> json option) \<Rightarrow> (ix_entry \<Rightarrow> string) \<Rightarrow> (string \<Rightarrow> ix_entry option) \<Rightarrow> indexed_log \<Rightarrow> indexed_log \<Rightarrow> bool"
  for parse enc dec where
  step_put: "record_line parse l \<Longrightarrow> parse l = Some r \<Longrightarrow> xi_cut io \<Longrightarrow>
    index_step parse enc dec (ls, ix) (ls @ [l], index_push enc io r (length (log_text ls)) l ix)"
| step_grow: "record_line parse l \<Longrightarrow> index_step parse enc dec (ls, ix) (ls @ [l], ix)"
| step_cut: "index_step parse enc dec (ls, ix) (take j ls, index_cut_to dec rd True (length (log_text (take j ls))) ix)"
| step_crash: "index_step parse enc dec (ls, ix) (take j ls,
    index_open dec True lr True (log_text (take j ls)) (length (log_text (take j ls))) (map_option (take m) (xf_disk ix)))"
| step_read: "io_cuts io1 \<Longrightarrow> io_cuts io2 \<Longrightarrow>
    index_step parse enc dec (ls, ix)
      (ls, snd (index_entries parse enc dec io1 True io2 (log_text ls) (length (log_text ls)) ix))"

lemma index_push_ok:
  assumes i: "index_inv parse enc ls ix" and c: "xi_cut io" and r: "parse l = Some r"
  shows "index_inv parse enc (ls @ [l]) (index_push enc io r (length (log_text ls)) l ix)"
proof (cases "length (log_text ls) = xf_mark ix")
  case False
  then show ?thesis using index_inv_grow [OF i] by (simp add: index_push_def)
next
  case True
  have at_k: "xf_mark ix = length (log_text (take (xf_lines ix) ls))" "xf_lines ix \<le> length ls"
    using i unfolding index_inv_def by blast+
  have "length (log_text ls) \<le> length (log_text (take (xf_lines ix) ls))" using True at_k(1) by (rule eq_refl [OF trans])
  from arg_cong [OF log_text_level [OF this], of length] have k: "xf_lines ix = length ls" using at_k(2) by simp
  obtain ok ix' where w: "index_write enc io [ix_entry_of r (length (log_text ls)) l] ix = (ok, ix')" by fastforce
  have "index_inv parse enc (ls @ [l]) ix'"
    by (rule index_write_ok(1) [OF index_inv_grow [OF i] c _ w, of 1]) (simp add: k True r)
  then show ?thesis using w True by (simp add: index_push_def)
qed

lemma index_step_ok:
  assumes "index_step parse enc dec s s'" and d: "index_codec parse enc dec"
    and "(\<forall>l \<in> set (fst s). record_line parse l) \<and> index_inv parse enc (fst s) (snd s)"
  shows "(\<forall>l \<in> set (fst s'). record_line parse l) \<and> index_inv parse enc (fst s') (snd s')"
  using assms(1,3)
proof (induction rule: index_step.induct)
  case (step_put l r io ls ix)
  then show ?case using index_push_ok [of parse enc ls ix io l r] by simp
next
  case (step_grow l ls ix)
  then show ?case using index_inv_grow by simp
next
  case (step_cut ls ix j rd)
  have "\<forall>l \<in> set (take j ls). record_line parse l" using step_cut by (auto dest: in_set_takeD)
  then show ?case using index_cut_ok [OF _ _ d, of ls ix j rd] step_cut by simp
next
  case (step_crash ls ix j lr m)
  have "\<forall>l \<in> set (take j ls). record_line parse l" using step_crash by (auto dest: in_set_takeD)
  then show ?case using index_open_ok [OF _ _ d, of ls ix j lr m] step_crash by simp
next
  case (step_read io1 io2 ls ix)
  obtain es ix' where e: "index_entries parse enc dec io1 True io2 (log_text ls) (length (log_text ls)) ix = (es, ix')" by fastforce
  from index_entries_ok [OF _ step_read(1,2) _ d e] show ?case using step_read(3) e by simp
qed

lemma index_reach_ok:
  assumes "(index_step parse enc dec)\<^sup>*\<^sup>* ([], new_index) s" and d: "index_codec parse enc dec"
  shows "(\<forall>l \<in> set (fst s). record_line parse l) \<and> index_inv parse enc (fst s) (snd s)"
  using assms(1)
proof (induction rule: rtranclp_induct)
  case base
  show ?case by (simp add: new_index_def index_inv_def)
next
  case (step s s')
  from index_step_ok [OF step(2) d step(3)] show ?case .
qed


subsection \<open>The reply\<close>

text \<open>A record and the records nested in it, in the order the page scans them.\<close>

function nodes :: "json \<Rightarrow> json list" where
  "nodes r = r # concat (map nodes (children r))"
  by pat_completeness auto
termination
  by (relation "measure size") (use children_size in auto)

declare nodes.simps [simp del]

lemma visit_nodes: "visit e r = foldl visit_one e (nodes r)"
proof (induction e r rule: visit.induct)
  case (1 e r)
  have "foldl visit e' cs = foldl visit_one e' (concat (map nodes cs))" if "set cs \<subseteq> set (children r)" for e' cs
    using that by (induction cs arbitrary: e') (use 1 in auto)
  then show ?case by (subst visit.simps, subst nodes.simps) simp
qed

lemma map_of_tree_put [simp]: "map_of (tree_put k v m) = (map_of m)(k \<mapsto> v)"
  by (induction k v m rule: tree_put.induct) (auto simp: fun_eq_iff)

lemma tree_put_sorted: "sorted_wrt (<) (map fst m) \<Longrightarrow> sorted_wrt (<) (map fst (tree_put k v m))"
proof (induction k v m rule: tree_put.induct)
  case (2 k v k' v' m)
  have "\<forall>x \<in> set (tree_put k v m). fst x = k \<or> x \<in> set m"
    by (induction k v m rule: tree_put.induct) auto
  then have "k' < k \<Longrightarrow> \<forall>x \<in> set (tree_put k v m). k' < fst x" using 2(2) by auto
  then show ?case using 2 by (auto dest: order.strict_trans)
qed simp

definition tally :: "(string \<times> nat) list \<Rightarrow> string \<Rightarrow> nat" where
  "tally m name = (case map_of m name of Some n \<Rightarrow> n | None \<Rightarrow> 0)"

definition tool_uses :: "string \<Rightarrow> json list \<Rightarrow> nat" where
  "tool_uses name rs = length (filter (\<lambda>r. kind_of r \<in> set tool_kinds \<and> tool_name r = name) rs)"

lemma visit_one_tools: "xe_tools (visit_one e r) =
    (if kind_of r \<in> set tool_kinds then tree_put (tool_name r) (tally (xe_tools e) (tool_name r) + 1) (xe_tools e) else xe_tools e)"
  by (simp add: visit_one_def add_offer_def add_agent_def add_artifact_def count_tool_def tally_def Let_def split: option.split)

lemma tally_put: "tally (tree_put k v m) name = (if name = k then v else tally m name)"
  by (simp add: tally_def)

lemma visited_tools:
  "sorted_wrt (<) (map fst (xe_tools e)) \<Longrightarrow>
    tally (xe_tools (foldl visit_one e rs)) name = tally (xe_tools e) name + tool_uses name rs
    \<and> sorted_wrt (<) (map fst (xe_tools (foldl visit_one e rs)))"
proof (induction rs arbitrary: e)
  case (Cons r rs)
  have "sorted_wrt (<) (map fst (xe_tools (visit_one e r)))"
    using Cons.prems by (simp add: visit_one_tools tree_put_sorted del: map_map)
  from Cons.IH [OF this] show ?case by (simp add: visit_one_tools tally_put tool_uses_def)
qed (simp add: tool_uses_def)

lemma entry_tools:
  "tally (xe_tools (ix_entry_of r off l)) name = tool_uses name (nodes r)" "sorted_wrt (<) (map fst (xe_tools (ix_entry_of r off l)))"
proof -
  let ?e = "\<lparr>xe_o = off, xe_n = length l, xe_h = fingerprint l, xe_k = kind_of r,
        xe_c = (kind_of r = ''assistant'' \<and> get_str r ''phase'' = Some ''commentary''),
        xe_id = first_str r [''id''], xe_agents = [],
        xe_turn = (if kind_of r \<in> set turn_kinds then Some (turn_row r) else None),
        xe_tools = [],
        xe_compaction = (if kind_of r = ''compaction''
          then Some (pick_fields [''compact_trigger'', ''compact_pre'', ''compact_post''] (head_of r)) else None),
        xe_files = [], xe_artifacts = []\<rparr>"
  have e: "ix_entry_of r off l = foldl visit_one ?e (nodes r)" by (simp only: ix_entry_of_def visit_nodes)
  have t: "tally (xe_tools ?e) name = 0" "sorted_wrt (<) (map fst (xe_tools ?e))" by (simp_all add: tally_def)
  note v = visited_tools [OF t(2), of "nodes r" name]
  show "tally (xe_tools (ix_entry_of r off l)) name = tool_uses name (nodes r)" unfolding e using v t(1) by simp
  show "sorted_wrt (<) (map fst (xe_tools (ix_entry_of r off l)))" unfolding e using v by simp
qed

lemma tally_add_all:
  assumes "sorted_wrt (<) (map fst xs)"
  shows "tally (foldl (\<lambda>m (k, n). tree_put k ((case map_of m k of Some x \<Rightarrow> x | None \<Rightarrow> 0) + n) m) m xs) name = tally m name + tally xs name"
  using assms
proof (induction xs arbitrary: m)
  case (Cons p xs)
  obtain k n where p: "p = (k, n)" by (cases p)
  have "k \<notin> fst ` set xs" using Cons.prems p by auto
  then have "map_of xs k = None" by (simp add: map_of_eq_None_iff)
  then show ?case using Cons p by (auto simp: tally_put tally_def)
qed (simp add: tally_def)

lemma reply_tools_exact:
  "tally (reply_tools (entries_from parse off ls)) name = tool_uses name (concat (map (\<lambda>l. nodes (the (parse l))) ls))"
proof -
  have "tally (foldl (\<lambda>m (k, n). tree_put k ((case map_of m k of Some x \<Rightarrow> x | None \<Rightarrow> 0) + n) m) m
      (concat (map xe_tools (entries_from parse off ls)))) name = tally m name + tool_uses name (concat (map (\<lambda>l. nodes (the (parse l))) ls))" for m
  proof (induction ls arbitrary: m off)
    case (Cons l ls)
    then show ?case using tally_add_all [OF entry_tools(2)] by (simp add: entry_tools(1) tool_uses_def)
  qed (simp add: tool_uses_def)
  from this [of "[]"] show ?thesis by (simp add: reply_tools_def tally_def)
qed

definition opens_record :: "(string \<Rightarrow> json option) \<Rightarrow> string \<Rightarrow> bool" where
  "opens_record parse l \<longleftrightarrow> kind_of (the (parse l)) \<in> set turn_kinds"

lemma entry_of_turn: "xe_turn (ix_entry_of r off l) \<noteq> None \<longleftrightarrow> kind_of r \<in> set turn_kinds"
  by (simp add: ix_entry_of_def)

lemma entries_nth:
  "i < length ls \<Longrightarrow> entries_from parse off ls ! i = ix_entry_of (the (parse (ls ! i))) (off + length (log_text (take i ls))) (ls ! i)"
  by (induction ls arbitrary: off i) (auto simp: nth_Cons' take_Cons' algebra_simps)

lemma filter_upt_next:
  assumes "i < length (filter P [0..<n])"
  defines "ks \<equiv> filter P [0..<n]"
  defines "k' \<equiv> if Suc i < length ks then ks ! Suc i else n"
  shows "P (ks ! i) \<and> ks ! i < k' \<and> k' \<le> n \<and> (\<forall>j. ks ! i < j \<longrightarrow> j < k' \<longrightarrow> \<not> P j)"
proof -
  have s: "sorted_wrt (<) ks" by (simp add: ks_def sorted_wrt_filter)
  have less: "ks ! a < ks ! b \<longleftrightarrow> a < b" if "a < length ks" "b < length ks" for a b
    using sorted_wrt_nth_less [OF s, of a b] sorted_wrt_nth_less [OF s, of b a] that by (cases a b rule: linorder_cases) auto
  have mem: "ks ! a < n \<and> P (ks ! a)" if "a < length ks" for a
    using nth_mem [OF that] by (auto simp: ks_def)
  have i: "i < length ks" using assms(1) by (simp add: ks_def)
  have "\<not> P j" if j: "ks ! i < j" "j < k'" for j
  proof
    assume "P j"
    have "k' \<le> n" using mem by (auto simp: k'_def intro: less_imp_le)
    then have "j \<in> set ks" using \<open>P j\<close> j by (simp add: ks_def)
    then obtain m where m: "m < length ks" "ks ! m = j" by (auto simp: in_set_conv_nth)
    then have "i < m" using less [OF i m(1)] j by simp
    then have "Suc i < length ks" using m(1) by simp
    then show False using less [OF m(1), of "Suc i"] m j(2) \<open>i < m\<close> by (simp add: k'_def)
  qed
  then show ?thesis using mem [OF i] mem [of "Suc i"] less [OF i, of "Suc i"] by (auto simp: k'_def)
qed

lemma reply_turns_rows:
  "row \<in> set (reply_turns es len u ks) \<Longrightarrow> \<exists>i < length ks. ks ! i < u \<and>
    row = reply_turn es len (ks ! i) (if Suc i < length ks then Some (ks ! Suc i) else None)"
proof (induction ks)
  case (Cons r ks)
  show ?case
  proof (cases "row = reply_turn es len r (case ks of n # _ \<Rightarrow> Some n | [] \<Rightarrow> None) \<and> r < u")
    case True
    then show ?thesis by (intro exI [of _ 0]) (auto split: list.splits)
  next
    case False
    then have "row \<in> set (reply_turns es len u ks)" using Cons.prems by (auto split: if_splits)
    from Cons.IH [OF this] obtain i where "i < length ks" "ks ! i < u"
      "row = reply_turn es len (ks ! i) (if Suc i < length ks then Some (ks ! Suc i) else None)" by blast
    then show ?thesis by (intro exI [of _ "Suc i"]) simp
  qed
qed simp

lemma log_range:
  "take (length (log_text (take (r + n) ls)) - length (log_text (take r ls))) (drop (length (log_text (take r ls))) (log_text ls))
    = log_text (take n (drop r ls))"
proof -
  have "log_text (take (r + n) ls) = log_text (take r ls) @ log_text (take n (drop r ls))" by (simp add: take_add)
  moreover have "log_text (drop r ls) = log_text (take n (drop r ls)) @ log_text (drop n (drop r ls))"
    by (metis append_take_drop_id log_text_simps(3))
  ultimately show ?thesis by (simp add: log_cut)
qed

text \<open>What the reply says of the records a page waits for is so.  A row of its turns names the record that opens
  the turn and the last record before the next one, and its byte range is exactly those records' text in
  the log; and the number it gives for a tool is how often that tool occurs in the records below the
  page's boundary, nested records included.\<close>

theorem index_reply_exact:
  assumes es: "es = entries_from parse 0 ls"
  shows "(\<forall>row \<in> set (reply_turns es (length (log_text ls)) u (opens_of es)).
      \<exists>r n. r < u \<and> 0 < n \<and> r + n \<le> length ls \<and> opens_record parse (ls ! r)
        \<and> (\<forall>j. r < j \<longrightarrow> j < r + n \<longrightarrow> \<not> opens_record parse (ls ! j))
        \<and> map_of row ''r'' = Some (JInt (int r)) \<and> map_of row ''last'' = Some (JInt (int (r + n) - 1))
        \<and> (\<exists>o' e. map_of row ''o'' = Some (JInt (int o')) \<and> map_of row ''end'' = Some (JInt (int e))
             \<and> take (e - o') (drop o' (log_text ls)) = log_text (take n (drop r ls))))
    \<and> tally (reply_tools (take u es)) name = tool_uses name (concat (map (\<lambda>l. nodes (the (parse l))) (take u ls)))"
proof (rule conjI, intro ballI)
  fix row assume row: "row \<in> set (reply_turns es (length (log_text ls)) u (opens_of es))"
  let ?P = "\<lambda>i. xe_turn (es ! i) \<noteq> None" and ?ks = "opens_of es"
  obtain i where i: "i < length ?ks" "?ks ! i < u"
    "row = reply_turn es (length (log_text ls)) (?ks ! i) (if Suc i < length ?ks then Some (?ks ! Suc i) else None)"
    using reply_turns_rows [OF row] by blast
  define k where "k = (if Suc i < length ?ks then ?ks ! Suc i else length ls)"
  have P: "?P j \<longleftrightarrow> opens_record parse (ls ! j)" if "j < length ls" for j
    unfolding es entries_nth [OF that] entry_of_turn opens_record_def by (rule refl)
  have len: "length es = length ls" by (simp add: es)
  have n: "?P (?ks ! i)" "?ks ! i < k" "k \<le> length ls" "\<forall>j. ?ks ! i < j \<longrightarrow> j < k \<longrightarrow> \<not> ?P j"
    using filter_upt_next [of i ?P "length ls", folded len, folded opens_of_def, unfolded len, folded k_def] i(1) by blast+
  let ?r = "?ks ! i"
  have o': "xe_o (es ! ?r) = length (log_text (take ?r ls))" using n(2,3) by (simp add: es entries_nth)
  have e: "(case (if Suc i < length ?ks then Some (?ks ! Suc i) else None) of Some n \<Rightarrow> xe_o (es ! n) | None \<Rightarrow> length (log_text ls))
      = length (log_text (take k ls))"
  proof (cases "Suc i < length ?ks")
    case True
    then have "?ks ! Suc i < length es" using nth_mem [OF True] by (auto simp: opens_of_def)
    then show ?thesis using True by (simp add: k_def es entries_nth)
  qed (simp add: k_def)
  have l: "(case (if Suc i < length ?ks then Some (?ks ! Suc i) else None) of Some n \<Rightarrow> n | None \<Rightarrow> length es) = k"
    by (simp add: k_def es)
  have row': "map_of row ''r'' = Some (JInt (int ?r))" "map_of row ''last'' = Some (JInt (int k - 1))"
    "map_of row ''o'' = Some (JInt (int (length (log_text (take ?r ls)))))" "map_of row ''end'' = Some (JInt (int (length (log_text (take k ls)))))"
    unfolding i(3) reply_turn_def e l o' by simp_all
  show "\<exists>r n. r < u \<and> 0 < n \<and> r + n \<le> length ls \<and> opens_record parse (ls ! r)
        \<and> (\<forall>j. r < j \<longrightarrow> j < r + n \<longrightarrow> \<not> opens_record parse (ls ! j))
        \<and> map_of row ''r'' = Some (JInt (int r)) \<and> map_of row ''last'' = Some (JInt (int (r + n) - 1))
        \<and> (\<exists>o' e. map_of row ''o'' = Some (JInt (int o')) \<and> map_of row ''end'' = Some (JInt (int e))
             \<and> take (e - o') (drop o' (log_text ls)) = log_text (take n (drop r ls)))"
  proof -
    define m where "m = k - ?r"
    have m: "k = ?r + m" "0 < m" using n(2) by (simp_all add: m_def)
    have opens: "opens_record parse (ls ! ?r)" using n(1-3) P [of ?r] by simp
    have between: "\<forall>j. ?r < j \<longrightarrow> j < ?r + m \<longrightarrow> \<not> opens_record parse (ls ! j)"
    proof (intro allI impI)
      fix j assume j: "?r < j" "j < ?r + m"
      then have "j < length ls" "\<not> ?P j" using n(3,4) unfolding m(1) by (linarith, blast)
      then show "\<not> opens_record parse (ls ! j)" using P [of j] by blast
    qed
    have bytes: "\<exists>o' e. map_of row ''o'' = Some (JInt (int o')) \<and> map_of row ''end'' = Some (JInt (int e))
        \<and> take (e - o') (drop o' (log_text ls)) = log_text (take m (drop ?r ls))"
      using row'(3,4) log_range [of ?r m ls] unfolding m(1) by blast
    have "?r + m \<le> length ls" "map_of row ''last'' = Some (JInt (int (?r + m) - 1))"
      using n(3) row'(2) unfolding m(1) by simp_all
    then show ?thesis using i(2) m(2) opens between row'(1) bytes by blast
  qed
next
  show "tally (reply_tools (take u es)) name = tool_uses name (concat (map (\<lambda>l. nodes (the (parse l))) (take u ls)))"
    unfolding es entries_from_take by (rule reply_tools_exact)
qed

subsection \<open>An example\<close>

definition sample_record :: json where
  "sample_record = JObj [(''kind'', JStr ''user''), (''body'', JArr [JObj [(''p'', JStr ''blocks''),
     (''items'', JArr [JObj [(''kind'', JStr ''bash'')]])]])]"

definition sample_parse :: "string \<Rightarrow> json option" where
  "sample_parse l = (if l = ''x'' then Some sample_record else None)"

definition sample_enc :: "ix_entry \<Rightarrow> string" where
  "sample_enc e = show_nat (xe_o e)"

definition sample_dec :: "string \<Rightarrow> ix_entry option" where
  "sample_dec s = map_option (\<lambda>off. ix_entry_of sample_record off ''x'') (digits_value 0 s)"

lemma sample_codec: "index_codec sample_parse sample_enc sample_dec"
proof -
  have "newline_char \<notin> set (show_nat n)" for n
    by (rule show_nat_notin) (simp add: is_ascii_digit_def byte_def)
  then show ?thesis
    by (auto simp: index_codec_def sample_parse_def sample_enc_def sample_dec_def digits_value_show split: if_splits)
qed

definition good_io :: index_io where
  "good_io = \<lparr>xi_opens = True, xi_stat = True, xi_landed = None, xi_cut = True\<rparr>"

definition good_read :: entries_io where
  "good_read = \<lparr>ei_got = Some 100, ei_writes = (\<lambda>_. good_io), ei_reads = True\<rparr>"


lemma index_reply_exact_witness:
  "reply_turns (entries_from sample_parse 0 [''x'', ''x'']) 4 2 (opens_of (entries_from sample_parse 0 [''x'', ''x''])) \<noteq> []
   \<and> tally (reply_tools (take 1 (entries_from sample_parse 0 [''x'', ''x'']))) ''bash'' = 1"
proof -
  have n: "nodes sample_record = [sample_record, JObj [(''kind'', JStr ''bash'')]]"
    by (simp add: nodes.simps sample_record_def children_def get_str_def)
  have u: "tool_uses ''bash'' (nodes sample_record) = 1"
    unfolding n by (simp add: tool_uses_def sample_record_def kind_of_def get_str_def tool_name_def first_str_def
      head_of_def List.map_filter_def tool_kinds_def Let_def)
  have "xe_turn (ix_entry_of sample_record off ''x'') \<noteq> None" for off
    unfolding entry_of_turn by (simp add: sample_record_def kind_of_def get_str_def turn_kinds_def)
  then have "opens_of (entries_from sample_parse 0 [''x'', ''x'']) = [0, 1]"
    by (auto simp: opens_of_def sample_parse_def)
  then show ?thesis
    using index_reply_exact [OF refl, of sample_parse "[''x'', ''x'']" 1 "''bash''"] u by (simp add: sample_parse_def)
qed

end
