(* ===== verification/Diff.thy ===== *)
theory Diff
  imports Ansi Durable Model "HOL-Library.Word" "HOL-Library.Sublist"
begin

text \<open>
  The edit-diff rows every frontend shows and the base64 decoder beside them
  (\<open>claude-replay-engine/src/diff.rs\<close>): the line diff by its table, the classified rows with their gutter
  numbers, and the decoder on its 32-bit accumulator.  Line numbers and the table's cells are naturals.
\<close>

unbundle bit_operations_syntax

subsection \<open>The line diff\<close>

datatype line_op = OpEq string | OpDel string | OpIns string

text \<open>One cell of the table, from the cells below and to the right; rows and columns run downwards.\<close>

definition fill_cell :: "string list \<Rightarrow> string list \<Rightarrow> nat \<Rightarrow> nat list list \<Rightarrow> nat \<Rightarrow> nat list list" where
  "fill_cell ol nl i dp j =
     dp[i := (dp ! i)[j :=
       (if ol ! i = nl ! j then dp ! (i + 1) ! (j + 1) + 1 else max (dp ! (i + 1) ! j) (dp ! i ! (j + 1)))]]"

definition fill_row :: "string list \<Rightarrow> string list \<Rightarrow> nat list list \<Rightarrow> nat \<Rightarrow> nat list list" where
  "fill_row ol nl dp i = foldl (fill_cell ol nl i) dp (rev [0..<length nl])"

definition blank_table :: "string list \<Rightarrow> string list \<Rightarrow> nat list list" where
  "blank_table ol nl = replicate (length ol + 1) (replicate (length nl + 1) 0)"

definition diff_table :: "string list \<Rightarrow> string list \<Rightarrow> nat list list" where
  "diff_table ol nl =
     foldl (fill_row ol nl) (blank_table ol nl) (rev [0..<length ol])"

function diff_walk :: "nat list list \<Rightarrow> string list \<Rightarrow> string list \<Rightarrow> nat \<Rightarrow> nat \<Rightarrow> line_op list" where
  "diff_walk dp ol nl i j =
     (if i < length ol \<and> j < length nl then
        (if ol ! i = nl ! j then OpEq (ol ! i) # diff_walk dp ol nl (i + 1) (j + 1)
         else if dp ! i ! (j + 1) \<le> dp ! (i + 1) ! j then OpDel (ol ! i) # diff_walk dp ol nl (i + 1) j
         else OpIns (nl ! j) # diff_walk dp ol nl i (j + 1))
      else map OpDel (drop i ol) @ map OpIns (drop j nl))"
  by pat_completeness auto
termination
  by (relation "measure (\<lambda>(dp, ol, nl, i, j). (length ol - i) + (length nl - j))") auto

declare diff_walk.simps [simp del]

definition line_diff :: "string list \<Rightarrow> string list \<Rightarrow> line_op list" where
  "line_diff ol nl = diff_walk (diff_table ol nl) ol nl 0 0"

subsection \<open>Rows\<close>

datatype diff_kind = DkCtx | DkAdd | DkDel

record diff_row =
  dr_kind :: diff_kind
  dr_num :: "nat option"
  dr_text :: string

record diff_group =
  dg_rows :: "diff_row list"
  dg_max_line :: nat

text \<open>The line's first character and what follows it; an empty line reads as a blank.\<close>

definition hunk_marker :: "string \<Rightarrow> string" where
  "hunk_marker l = (case l of [] \<Rightarrow> '' '' | c # _ \<Rightarrow> take (utf8_len c) l)"

definition hunk_text :: "string \<Rightarrow> string" where
  "hunk_text l = drop (length (hunk_marker l)) l"

fun hunk_rows :: "nat \<Rightarrow> nat \<Rightarrow> string list \<Rightarrow> diff_row list" where
  "hunk_rows n old [] = []"
| "hunk_rows n old (l # ls) =
     (if hunk_marker l = ''+'' then
        \<lparr>dr_kind = DkAdd, dr_num = Some n, dr_text = hunk_text l\<rparr> # hunk_rows (n + 1) old ls
      else if hunk_marker l = ''-'' then
        \<lparr>dr_kind = DkDel, dr_num = Some old, dr_text = hunk_text l\<rparr> # hunk_rows n (old + 1) ls
      else \<lparr>dr_kind = DkCtx, dr_num = Some n, dr_text = hunk_text l\<rparr> # hunk_rows (n + 1) (old + 1) ls)"

definition hunk_group :: "hunk \<Rightarrow> diff_group" where
  "hunk_group h =
     (let new_lines = length (filter (\<lambda>l. \<not> starts_with l ''-'') (hk_lines h));
          old_lines = length (filter (\<lambda>l. \<not> starts_with l ''+'') (hk_lines h))
      in \<lparr>dg_rows = hunk_rows (hk_new_start h) (hk_old_start h) (hk_lines h),
          dg_max_line = max (hk_new_start h + (new_lines - 1)) (hk_old_start h + (old_lines - 1))\<rparr>)"

fun op_rows :: "nat \<Rightarrow> line_op list \<Rightarrow> diff_row list" where
  "op_rows n [] = []"
| "op_rows n (OpEq l # ops) = \<lparr>dr_kind = DkCtx, dr_num = Some (n + 1), dr_text = l\<rparr> # op_rows (n + 1) ops"
| "op_rows n (OpDel l # ops) = \<lparr>dr_kind = DkDel, dr_num = None, dr_text = l\<rparr> # op_rows n ops"
| "op_rows n (OpIns l # ops) = \<lparr>dr_kind = DkAdd, dr_num = Some (n + 1), dr_text = l\<rparr> # op_rows (n + 1) ops"

fun is_new_side :: "line_op \<Rightarrow> bool" where
  "is_new_side (OpDel _) = False"
| "is_new_side _ = True"

definition pair_group :: "string \<Rightarrow> string \<Rightarrow> diff_group" where
  "pair_group old new =
     (let ops = line_diff (std_lines old) (std_lines new)
      in \<lparr>dg_rows = op_rows 0 ops, dg_max_line = length (filter is_new_side ops)\<rparr>)"

definition diff_row_groups :: "(string \<times> string) list \<Rightarrow> hunk list option \<Rightarrow> diff_group list" where
  "diff_row_groups pairs patch =
     (case patch of
        Some hunks \<Rightarrow> map hunk_group hunks
      | None \<Rightarrow> map (\<lambda>(old, new). pair_group old new) (filter (\<lambda>(old, new). \<not> (old = [] \<and> new = [])) pairs))"

subsection \<open>Base64\<close>

datatype b64_class = B64Sextet nat | B64Skip | B64Bad

definition b64_class_of :: "char \<Rightarrow> b64_class" where
  "b64_class_of c =
     (if 65 \<le> byte c \<and> byte c \<le> 90 then B64Sextet (byte c - 65)
      else if 97 \<le> byte c \<and> byte c \<le> 122 then B64Sextet (byte c - 97 + 26)
      else if 48 \<le> byte c \<and> byte c \<le> 57 then B64Sextet (byte c - 48 + 52)
      else if c = CHR ''+'' then B64Sextet 62
      else if c = CHR ''/'' then B64Sextet 63
      else if c = CHR ''='' \<or> c = newline_char \<or> c = CHR 0x0D \<or> c = CHR '' '' \<or> c = CHR 0x09 then B64Skip
      else B64Bad)"

fun b64_loop :: "32 word \<Rightarrow> nat \<Rightarrow> 8 word list \<Rightarrow> string \<Rightarrow> 8 word list option" where
  "b64_loop acc bits out [] = Some out"
| "b64_loop acc bits out (c # cs) =
     (case b64_class_of c of
        B64Skip \<Rightarrow> b64_loop acc bits out cs
      | B64Bad \<Rightarrow> None
      | B64Sextet v \<Rightarrow>
          (let acc' = push_bit 6 acc OR word_of_nat v; bits' = bits + 6
           in if 8 \<le> bits' then b64_loop acc' (bits' - 8) (out @ [ucast (drop_bit (bits' - 8) acc')]) cs
              else b64_loop acc' bits' out cs))"

definition base64_decode :: "string \<Rightarrow> 8 word list option" where
  "base64_decode s = b64_loop 0 0 [] s"

subsection \<open>The reference: longest common subsequence\<close>

fun lcs_len :: "'a list \<Rightarrow> 'a list \<Rightarrow> nat" where
  "lcs_len [] ys = 0"
| "lcs_len (x # xs) [] = 0"
| "lcs_len (x # xs) (y # ys) =
     (if x = y then lcs_len xs ys + 1 else max (lcs_len xs (y # ys)) (lcs_len (x # xs) ys))"

lemma lcs_len_Nil2 [simp]: "lcs_len xs [] = 0"
  by (cases xs) simp_all

lemma lcs_len_max: "subseq zs xs \<Longrightarrow> subseq zs ys \<Longrightarrow> length zs \<le> lcs_len xs ys"
proof (induction xs ys arbitrary: zs rule: lcs_len.induct)
  case (3 x xs y ys)
  show ?case
  proof (cases zs)
    case (Cons z zs')
    show ?thesis
    proof (cases "x = y")
      case True
      have "subseq zs' xs" "subseq zs' ys"
        using 3(4,5) Cons by (auto simp: subseq_Cons2_iff split: if_splits dest: subseq_Cons')
      then have "length zs' \<le> lcs_len xs ys" using 3(1) True by blast
      then show ?thesis using True Cons by simp
    next
      case False
      then have "subseq zs xs \<or> subseq zs ys"
        using 3(4,5) Cons by (auto simp: subseq_Cons2_iff split: if_splits)
      then show ?thesis using 3(2,3) [OF False, of zs] 3(4,5) False by (auto simp: le_max_iff_disj)
    qed
  qed simp
qed auto

subsection \<open>The table\<close>

definition table_shape :: "string list \<Rightarrow> string list \<Rightarrow> nat list list \<Rightarrow> bool" where
  "table_shape ol nl dp \<longleftrightarrow> length dp = length ol + 1 \<and> (\<forall>r \<in> set dp. length r = length nl + 1)"

definition row_right :: "string list \<Rightarrow> string list \<Rightarrow> nat list list \<Rightarrow> nat \<Rightarrow> nat \<Rightarrow> bool" where
  "row_right ol nl dp i k \<longleftrightarrow> (\<forall>j. k \<le> j \<longrightarrow> j \<le> length nl \<longrightarrow> dp ! i ! j = lcs_len (drop i ol) (drop j nl))"

lemma fill_cell_shape: "table_shape ol nl dp \<Longrightarrow> i \<le> length ol \<Longrightarrow> table_shape ol nl (fill_cell ol nl i dp j)"
  by (auto simp: table_shape_def fill_cell_def dest!: set_update_subset_insert [THEN subsetD])

lemma fill_cell_other: "r \<noteq> i \<Longrightarrow> fill_cell ol nl i dp j ! r = dp ! r"
  by (simp add: fill_cell_def)

lemma fill_cell_right:
  assumes s: "table_shape ol nl dp" and i: "i < length ol" and k: "k < length nl"
    and below: "row_right ol nl dp (i + 1) 0" and r: "row_right ol nl dp i (Suc k)"
  shows "row_right ol nl (fill_cell ol nl i dp k) i k"
proof -
  have len: "i < length dp" "length (dp ! i) = length nl + 1" using s i by (auto simp: table_shape_def)
  have drops: "drop i ol = ol ! i # drop (i + 1) ol" "drop k nl = nl ! k # drop (k + 1) nl"
    using i k by (simp_all add: Cons_nth_drop_Suc)
  have "dp ! (i + 1) ! (k + 1) = lcs_len (drop (i + 1) ol) (drop (k + 1) nl)"
    "dp ! (i + 1) ! k = lcs_len (drop (i + 1) ol) (drop k nl)"
    "dp ! i ! (k + 1) = lcs_len (drop i ol) (drop (k + 1) nl)"
    using below r k by (auto simp: row_right_def)
  then have "(if ol ! i = nl ! k then dp ! (i + 1) ! (k + 1) + 1 else max (dp ! (i + 1) ! k) (dp ! i ! (k + 1)))
    = lcs_len (drop i ol) (drop k nl)"
    unfolding drops by simp
  then show ?thesis using r len k by (auto simp: row_right_def fill_cell_def nth_list_update)
qed

lemma fill_row_right:
  assumes s: "table_shape ol nl dp" and i: "i < length ol" and below: "row_right ol nl dp (i + 1) 0"
    and zero: "dp ! i ! length nl = 0" and k: "k \<le> length nl"
  shows "table_shape ol nl (foldl (fill_cell ol nl i) dp (rev [k..<length nl]))
    \<and> row_right ol nl (foldl (fill_cell ol nl i) dp (rev [k..<length nl])) i k
    \<and> (\<forall>r. r \<noteq> i \<longrightarrow> foldl (fill_cell ol nl i) dp (rev [k..<length nl]) ! r = dp ! r)"
  using k
proof (induction rule: inc_induct)
  case base
  show ?case using s zero by (simp add: row_right_def)
next
  case (step k)
  let ?d = "foldl (fill_cell ol nl i) dp (rev [Suc k..<length nl])"
  have u: "foldl (fill_cell ol nl i) dp (rev [k..<length nl]) = fill_cell ol nl i ?d k"
    using step(2) by (simp add: upt_conv_Cons)
  have o: "\<forall>r. r \<noteq> i \<longrightarrow> ?d ! r = dp ! r" and sh: "table_shape ol nl ?d" using step.IH by auto
  have "row_right ol nl ?d (i + 1) 0" using below o by (simp add: row_right_def)
  then show ?case
    unfolding u using fill_cell_right [OF sh i step(2)] step.IH fill_cell_shape [OF sh, of i k] i
    by (simp add: fill_cell_other)
qed

lemma fill_row_ok:
  assumes "table_shape ol nl dp" and "i < length ol" and "row_right ol nl dp (i + 1) 0" and "dp ! i ! length nl = 0"
  shows "table_shape ol nl (fill_row ol nl dp i)" and "row_right ol nl (fill_row ol nl dp i) i 0"
    and "r \<noteq> i \<Longrightarrow> fill_row ol nl dp i ! r = dp ! r"
  using fill_row_right [OF assms, of 0] by (simp_all add: fill_row_def)

definition table_from :: "string list \<Rightarrow> string list \<Rightarrow> nat \<Rightarrow> nat list list" where
  "table_from ol nl k = foldl (fill_row ol nl) (blank_table ol nl) (rev [k..<length ol])"

lemma table_from_step: "k < length ol \<Longrightarrow> table_from ol nl k = fill_row ol nl (table_from ol nl (Suc k)) k"
  by (simp add: table_from_def upt_conv_Cons)

lemma table_right:
  assumes "k \<le> length ol"
  shows "table_shape ol nl (table_from ol nl k)
    \<and> (\<forall>i. k \<le> i \<longrightarrow> i \<le> length ol \<longrightarrow> row_right ol nl (table_from ol nl k) i 0)
    \<and> (\<forall>i < k. table_from ol nl k ! i = replicate (length nl + 1) 0)"
  using assms
proof (induction rule: inc_induct)
  case base
  show ?case by (auto simp: table_from_def row_right_def table_shape_def blank_table_def simp del: replicate.simps)
next
  case (step k)
  have "table_from ol nl (Suc k) ! k ! length nl = 0" using step.IH by (simp del: replicate.simps)
  with step.IH step(2) have pre: "table_shape ol nl (table_from ol nl (Suc k))" "k < length ol"
    "row_right ol nl (table_from ol nl (Suc k)) (k + 1) 0" "table_from ol nl (Suc k) ! k ! length nl = 0"
    by simp_all
  note f = fill_row_ok [OF pre, folded table_from_step [OF step(2)]]
  have "row_right ol nl (table_from ol nl k) i 0" if "k \<le> i" "i \<le> length ol" for i
    using that f step.IH by (cases "i = k") (simp_all add: row_right_def)
  then show ?case using f(1,3) step.IH by simp
qed

lemma diff_table_cell:
  "i \<le> length ol \<Longrightarrow> j \<le> length nl \<Longrightarrow> diff_table ol nl ! i ! j = lcs_len (drop i ol) (drop j nl)"
  using table_right [of 0 ol nl] by (simp add: diff_table_def table_from_def row_right_def)

end
