(* ===== verification/Diff_Props.thy ===== *)
theory Diff_Props
  imports Diff
begin

text \<open>
  What the diff rows guarantee: the line diff is a shortest edit script between the two texts, the
  gutter numbers count each side and stay inside the gutter, and the base64 decoder inverts a reference
  encoder whatever padding and white space stand in the text.
\<close>

subsection \<open>The line diff\<close>

fun old_of :: "line_op list \<Rightarrow> string list" where
  "old_of [] = []"
| "old_of (OpEq l # ops) = l # old_of ops"
| "old_of (OpDel l # ops) = l # old_of ops"
| "old_of (OpIns l # ops) = old_of ops"

fun new_of :: "line_op list \<Rightarrow> string list" where
  "new_of [] = []"
| "new_of (OpEq l # ops) = l # new_of ops"
| "new_of (OpDel l # ops) = new_of ops"
| "new_of (OpIns l # ops) = l # new_of ops"

fun kept_of :: "line_op list \<Rightarrow> string list" where
  "kept_of [] = []"
| "kept_of (OpEq l # ops) = l # kept_of ops"
| "kept_of (_ # ops) = kept_of ops"

lemma sides_append [simp]:
  "old_of (a @ b) = old_of a @ old_of b" "new_of (a @ b) = new_of a @ new_of b" "kept_of (a @ b) = kept_of a @ kept_of b"
  by (induction a rule: old_of.induct) simp_all

lemma sides_map [simp]:
  "old_of (map OpDel ls) = ls" "new_of (map OpDel ls) = []" "kept_of (map OpDel ls) = []"
  "old_of (map OpIns ls) = []" "new_of (map OpIns ls) = ls" "kept_of (map OpIns ls) = []"
  by (induction ls) simp_all

lemma diff_walk_ok:
  assumes "i \<le> length ol" and "j \<le> length nl"
    and "\<And>i j. i \<le> length ol \<Longrightarrow> j \<le> length nl \<Longrightarrow> dp ! i ! j = lcs_len (drop i ol) (drop j nl)"
  shows "old_of (diff_walk dp ol nl i j) = drop i ol \<and> new_of (diff_walk dp ol nl i j) = drop j nl
    \<and> length (kept_of (diff_walk dp ol nl i j)) = lcs_len (drop i ol) (drop j nl)"
  using assms
proof (induction dp ol nl i j rule: diff_walk.induct)
  case (1 dp ol nl i j)
  note cell = "1.prems"(3)
  show ?case
  proof (cases "i < length ol \<and> j < length nl")
    case True
    then have d: "drop i ol = ol ! i # drop (i + 1) ol" "drop j nl = nl ! j # drop (j + 1) nl"
      by (simp_all add: Cons_nth_drop_Suc)
    have c: "dp ! i ! (j + 1) = lcs_len (drop i ol) (drop (j + 1) nl)"
      "dp ! (i + 1) ! j = lcs_len (drop (i + 1) ol) (drop j nl)" using cell True by auto
    consider "ol ! i = nl ! j" | "ol ! i \<noteq> nl ! j" "dp ! i ! (j + 1) \<le> dp ! (i + 1) ! j"
      | "ol ! i \<noteq> nl ! j" "\<not> dp ! i ! (j + 1) \<le> dp ! (i + 1) ! j" by blast
    then show ?thesis
    proof cases
      case 1
      then show ?thesis using "1.IH"(1) True cell by (subst (1 2 3) diff_walk.simps) (simp add: d)
    next
      case 2
      then show ?thesis using "1.IH"(2) True cell c by (subst (1 2 3) diff_walk.simps) (simp add: d)
    next
      case 3
      then show ?thesis using "1.IH"(3) True cell c by (subst (1 2 3) diff_walk.simps) (simp add: d)
    qed
  next
    case False
    then show ?thesis using "1.prems" by (subst (1 2 3) diff_walk.simps) auto
  qed
qed

lemmas line_diff_sides =
  diff_walk_ok [OF le0 le0 diff_table_cell, folded line_diff_def, simplified]

lemma kept_common: "subseq (kept_of ops) (old_of ops) \<and> subseq (kept_of ops) (new_of ops)"
  by (induction ops rule: kept_of.induct) (auto intro: list_emb_Cons)

fun is_change :: "line_op \<Rightarrow> bool" where
  "is_change (OpEq _) = False"
| "is_change _ = True"

abbreviation changes :: "line_op list \<Rightarrow> nat" where
  "changes ops \<equiv> length (filter is_change ops)"

lemma changes_count: "changes ops + 2 * length (kept_of ops) = length (old_of ops) + length (new_of ops)"
  by (induction ops rule: kept_of.induct) auto

text \<open>C32: The line diff is a shortest edit script.  Its kept and deleted lines are the old text, its kept and
  inserted lines the new one, in order, and no sequence of operations between the two texts changes
  fewer lines.\<close>

theorem line_diff_shortest:
  "old_of (line_diff ol nl) = ol \<and> new_of (line_diff ol nl) = nl
    \<and> (\<forall>ops. old_of ops = ol \<longrightarrow> new_of ops = nl \<longrightarrow> changes (line_diff ol nl) \<le> changes ops)"
proof (intro conjI allI impI)
  show o: "old_of (line_diff ol nl) = ol" and n: "new_of (line_diff ol nl) = nl" using line_diff_sides by auto
  fix ops assume ops: "old_of ops = ol" "new_of ops = nl"
  have "length (kept_of ops) \<le> length (kept_of (line_diff ol nl))"
    using lcs_len_max [of "kept_of ops" ol nl] kept_common [of ops] ops line_diff_sides [of ol nl] by simp
  then show "changes (line_diff ol nl) \<le> changes ops"
    using changes_count [of ops] changes_count [of "line_diff ol nl"] ops o n by simp
qed

theorem line_diff_shortest_witness:
  "changes (line_diff [''a'', ''b'', ''c''] [''b'', ''c'', ''d'']) \<le> changes [OpDel ''a'', OpEq ''b'', OpEq ''c'', OpIns ''d'']"
proof -
  have "old_of [OpDel ''a'', OpEq ''b'', OpEq ''c'', OpIns ''d''] = [''a'', ''b'', ''c'']"
    "new_of [OpDel ''a'', OpEq ''b'', OpEq ''c'', OpIns ''d''] = [''b'', ''c'', ''d'']" by simp_all
  then show ?thesis using line_diff_shortest [of "[''a'', ''b'', ''c'']" "[''b'', ''c'', ''d'']"] by blast
qed

subsection \<open>Gutter numbers\<close>

definition shown_new :: "diff_row list \<Rightarrow> diff_row list" where
  "shown_new rows = filter (\<lambda>r. dr_kind r \<noteq> DkDel) rows"

definition shown_old :: "diff_row list \<Rightarrow> diff_row list" where
  "shown_old rows = filter (\<lambda>r. dr_kind r \<noteq> DkAdd) rows"

lemma op_rows_ok:
  "map dr_num (shown_new (op_rows n ops)) = map Some [Suc n..<Suc n + length (filter is_new_side ops)]
   \<and> map dr_text (shown_new (op_rows n ops)) = new_of ops
   \<and> map dr_text (shown_old (op_rows n ops)) = old_of ops
   \<and> (\<forall>r \<in> set (op_rows n ops). dr_kind r = DkDel \<longrightarrow> dr_num r = None)"
proof (induction n ops rule: op_rows.induct)
  case (2 n l ops)
  then show ?case by (simp add: shown_new_def shown_old_def upt_conv_Cons del: upt_Suc)
next
  case (4 n l ops)
  then show ?case by (simp add: shown_new_def shown_old_def upt_conv_Cons del: upt_Suc)
qed (simp_all add: shown_new_def shown_old_def)

lemma marker_starts: "c = CHR ''+'' \<or> c = CHR ''-'' \<Longrightarrow> hunk_marker l = [c] \<longleftrightarrow> starts_with l [c]"
  by (cases l) (auto simp: hunk_marker_def utf8_len_def starts_with_def byte_def)

lemma marker_one: "starts_with l ''-'' \<Longrightarrow> \<not> starts_with l ''+''"
  by (cases l) (auto simp: starts_with_def)

abbreviation new_lines :: "string list \<Rightarrow> string list" where
  "new_lines ls \<equiv> filter (\<lambda>l. \<not> starts_with l ''-'') ls"

abbreviation old_lines :: "string list \<Rightarrow> string list" where
  "old_lines ls \<equiv> filter (\<lambda>l. \<not> starts_with l ''+'') ls"

lemma hunk_rows_new:
  "map dr_num (shown_new (hunk_rows n old ls)) = map Some [n..<n + length (new_lines ls)]"
proof (induction n old ls rule: hunk_rows.induct)
  case (2 n old l ls)
  then show ?case
    using marker_starts [of "CHR ''+''" l] marker_starts [of "CHR ''-''" l] marker_one [of l]
    by (simp add: shown_new_def upt_conv_Cons del: upt_Suc)
qed (simp add: shown_new_def)

lemma hunk_rows_old:
  "i < length (hunk_rows n old ls) \<Longrightarrow> dr_kind (hunk_rows n old ls ! i) = DkDel \<Longrightarrow>
     dr_num (hunk_rows n old ls ! i) = Some (old + length (shown_old (take i (hunk_rows n old ls))))
     \<and> length (shown_old (take i (hunk_rows n old ls))) < length (old_lines ls)"
proof (induction n old ls arbitrary: i rule: hunk_rows.induct)
  case (2 n old l ls)
  then show ?case
    using marker_starts [of "CHR ''+''" l] marker_starts [of "CHR ''-''" l] marker_one [of l]
    by (cases i) (auto simp: shown_old_def split: if_splits)
qed simp

text \<open>A number of a context or added row lies in the range these rows count through.\<close>

lemma shown_range:
  assumes "map dr_num (shown_new rows) = map Some [start..<stop]" and "r \<in> set rows" and "dr_kind r \<noteq> DkDel" and "dr_num r = Some n"
  shows "start \<le> n \<and> n < stop"
proof -
  have "Some n \<in> set (map dr_num (shown_new rows))" using assms(2-4) by (force simp: shown_new_def)
  then show ?thesis unfolding assms(1) by auto
qed

lemma hunk_group_bound:
  assumes "r \<in> set (dg_rows (hunk_group h))" and "dr_num r = Some n"
  shows "n \<le> dg_max_line (hunk_group h)"
proof (cases "dr_kind r = DkDel")
  case True
  obtain i where i: "i < length (dg_rows (hunk_group h))" "r = dg_rows (hunk_group h) ! i"
    using assms(1) by (auto simp: in_set_conv_nth)
  show ?thesis
    using hunk_rows_old [of i "hk_new_start h" "hk_old_start h" "hk_lines h"] i True assms(2)
    by (auto simp: hunk_group_def Let_def le_max_iff_disj)
next
  case False
  show ?thesis
    using shown_range [OF hunk_rows_new [of "hk_new_start h" "hk_old_start h" "hk_lines h"] _ False assms(2)] assms(1)
    by (auto simp: hunk_group_def Let_def le_max_iff_disj)
qed

lemma hunk_group_ok:
  "map dr_num (shown_new (dg_rows (hunk_group h)))
     = map Some [hk_new_start h..<hk_new_start h + length (shown_new (dg_rows (hunk_group h)))]"
  using hunk_rows_new [of "hk_new_start h" "hk_old_start h" "hk_lines h"] arg_cong [OF hunk_rows_new, of length]
  by (simp add: hunk_group_def Let_def)

lemma pair_group_ok:
  fixes old new
  defines "rows \<equiv> dg_rows (pair_group old new)"
  shows "map dr_num (shown_new rows) = map Some [1..<1 + length (shown_new rows)]"
    and "map dr_text (shown_old rows) = std_lines old" and "map dr_text (shown_new rows) = std_lines new"
    and "r \<in> set rows \<Longrightarrow> dr_kind r = DkDel \<Longrightarrow> dr_num r = None"
    and "r \<in> set rows \<Longrightarrow> dr_num r = Some n \<Longrightarrow> n \<le> dg_max_line (pair_group old new)"
proof -
  let ?ops = "line_diff (std_lines old) (std_lines new)"
  have rows: "rows = op_rows 0 ?ops" by (simp add: rows_def pair_group_def Let_def)
  note ok = op_rows_ok [of 0 ?ops, folded rows]
  note num = conjunct1 [OF ok]
  have "length (shown_new rows) = length (filter is_new_side ?ops)"
    using arg_cong [OF num, of length] by (simp del: upt_Suc)
  then show "map dr_num (shown_new rows) = map Some [1..<1 + length (shown_new rows)]" using num by (simp del: upt_Suc)
  show "map dr_text (shown_old rows) = std_lines old" "map dr_text (shown_new rows) = std_lines new"
    using ok line_diff_sides by simp_all
  show del: "dr_num r = None" if "r \<in> set rows" "dr_kind r = DkDel" for r using ok that by blast
  show "n \<le> dg_max_line (pair_group old new)" if "r \<in> set rows" "dr_num r = Some n"
    using shown_range [OF num that(1) _ that(2)] del [OF that(1)] that(2)
    by (cases "dr_kind r = DkDel") (simp_all add: pair_group_def Let_def)
qed

text \<open>The gutter counts lines.  In every group of rows the context and added rows are numbered in steps of one
  (from one where the transcript carried no patch), a deleted row has its place on the old side or no
  number, and no number is past the line the gutter is sized for; without a patch the rows hold the two
  texts of a pair line by line.\<close>

theorem gutter_numbers:
  assumes "g \<in> set (diff_row_groups pairs patch)"
  shows "\<exists>start old. map dr_num (shown_new (dg_rows g)) = map Some [start..<start + length (shown_new (dg_rows g))]
    \<and> (\<forall>i < length (dg_rows g). dr_kind (dg_rows g ! i) = DkDel \<longrightarrow>
         dr_num (dg_rows g ! i) = (if patch = None then None else Some (old + length (shown_old (take i (dg_rows g))))))
    \<and> (\<forall>r \<in> set (dg_rows g). \<forall>n. dr_num r = Some n \<longrightarrow> n \<le> dg_max_line g)
    \<and> (patch = None \<longrightarrow> start = 1 \<and> (\<exists>(a, b) \<in> set pairs.
         map dr_text (shown_old (dg_rows g)) = std_lines a \<and> map dr_text (shown_new (dg_rows g)) = std_lines b))"
proof (cases patch)
  case None
  then obtain a b where ab: "(a, b) \<in> set pairs" and g: "g = pair_group a b"
    using assms by (auto simp: diff_row_groups_def)
  note ok = pair_group_ok [where old = a and new = b, folded g]
  show ?thesis
    by (rule exI [of _ 1], rule exI [of _ 0]) (use ok ab None nth_mem in \<open>fastforce simp del: upt_Suc\<close>)
next
  case (Some hs)
  then obtain h where g: "g = hunk_group h" using assms by (auto simp: diff_row_groups_def)
  have "dg_rows g = hunk_rows (hk_new_start h) (hk_old_start h) (hk_lines h)" by (simp add: g hunk_group_def Let_def)
  then show ?thesis
    using Some hunk_group_ok [of h, folded g] hunk_group_bound [of _ h, folded g]
      hunk_rows_old [of _ "hk_new_start h" "hk_old_start h" "hk_lines h"]
    by (intro exI [of _ "hk_new_start h"] exI [of _ "hk_old_start h"]) simp
qed

theorem gutter_numbers_witness:
  "\<exists>start. map dr_num (shown_new (dg_rows (pair_group ''a'' ''b'')))
     = map Some [start..<start + length (shown_new (dg_rows (pair_group ''a'' ''b'')))]"
proof -
  have "pair_group ''a'' ''b'' \<in> set (diff_row_groups [(''a'', ''b'')] None)" by (simp add: diff_row_groups_def)
  from gutter_numbers [OF this] show ?thesis by blast
qed

subsection \<open>Base64\<close>

text \<open>The reference encoder: three bytes to four letters of the alphabet, the last group padded.\<close>

definition b64_alphabet :: string where
  "b64_alphabet = ''ABCDEFGHIJKLMNOPQRSTUVWXYZabcdefghijklmnopqrstuvwxyz0123456789+/''"

definition b64_char :: "8 word \<Rightarrow> char" where
  "b64_char v = b64_alphabet ! unat (v AND 63)"

fun b64_encode :: "8 word list \<Rightarrow> string" where
  "b64_encode (a # b # c # bs) =
     [b64_char (drop_bit 2 a), b64_char (push_bit 4 a OR drop_bit 4 b), b64_char (push_bit 2 b OR drop_bit 6 c),
      b64_char c] @ b64_encode bs"
| "b64_encode [a, b] =
     [b64_char (drop_bit 2 a), b64_char (push_bit 4 a OR drop_bit 4 b), b64_char (push_bit 2 b), CHR ''='']"
| "b64_encode [a] = [b64_char (drop_bit 2 a), b64_char (push_bit 4 a), CHR ''='', CHR ''='']"
| "b64_encode [] = []"

lemma b64_alphabet_list: "map b64_class_of b64_alphabet = map B64Sextet [0..<64]"
  by (simp add: b64_alphabet_def b64_class_of_def byte_def upt_rec)

lemma b64_char_class [simp]: "b64_class_of (b64_char v) = B64Sextet (unat (v AND 63))"
proof -
  have "unat (v AND 63) < 64" using word_and_le1 [of v 63] by (simp add: word_le_nat_alt)
  then have "map b64_class_of b64_alphabet ! unat (v AND 63) = B64Sextet (unat (v AND 63))"
    unfolding b64_alphabet_list by simp
  moreover have "length b64_alphabet = 64" by (simp add: b64_alphabet_def)
  ultimately show ?thesis using \<open>unat (v AND 63) < 64\<close> by (simp add: b64_char_def)
qed

lemma b64_pad [simp]: "b64_class_of (CHR ''='') = B64Skip"
  by (simp add: b64_class_of_def byte_def)

lemma sextet_bit [simp]: "bit (word_of_nat (unat (v AND (63 :: 8 word))) :: 32 word) n \<longleftrightarrow> n < 6 \<and> bit v n"
proof -
  have "word_of_nat (unat (v AND (63 :: 8 word))) = (ucast (v AND mask 6) :: 32 word)"
    by (simp add: mask_eq_decr_exp)
  then show ?thesis by (simp add: bit_simps) (auto dest: bit_imp_le_length)
qed

lemma byte_eqI:
  assumes "bit x 0 = bit y 0" "bit x 1 = bit y 1" "bit x 2 = bit y 2" "bit x 3 = bit y 3"
    "bit x 4 = bit y 4" "bit x 5 = bit y 5" "bit x 6 = bit y 6" "bit x 7 = bit y 7"
  shows "x = (y :: 8 word)"
proof (rule bit_word_eqI)
  fix n assume "n < LENGTH(8)"
  then have "n = 0 \<or> n = 1 \<or> n = 2 \<or> n = 3 \<or> n = 4 \<or> n = 5 \<or> n = 6 \<or> n = 7" by auto
  then show "bit x n = bit y n" using assms by auto
qed

abbreviation letters :: "string \<Rightarrow> string" where
  "letters s \<equiv> filter (\<lambda>c. b64_class_of c \<noteq> B64Skip) s"

lemma b64_loop_letters: "b64_loop acc bits out (letters s) = b64_loop acc bits out s"
  by (induction acc bits out s rule: b64_loop.induct) (auto simp: Let_def split: b64_class.splits)

lemma b64_loop_bad: "b64_loop acc bits out s = None \<longleftrightarrow> B64Bad \<in> b64_class_of ` set s"
  by (induction acc bits out s rule: b64_loop.induct) (auto simp: Let_def split: b64_class.splits)

definition b64_feed :: "32 word \<Rightarrow> 8 word \<Rightarrow> 32 word" where
  "b64_feed acc v = push_bit 6 acc OR word_of_nat (unat (v AND 63))"

text \<open>The three bytes a group of four letters leaves, whatever the accumulator held before.\<close>

lemma b64_byte1: "(\<And>i. 4 \<le> i \<Longrightarrow> \<not> bit b i) \<Longrightarrow> ucast (drop_bit 4 (b64_feed (b64_feed acc (drop_bit 2 a)) (push_bit 4 a OR b))) = a"
  by (intro byte_eqI) (simp_all add: bit_simps b64_feed_def)

lemma b64_byte2:
  "(\<And>i. i < 4 \<Longrightarrow> \<not> bit d i) \<Longrightarrow> (\<And>i. 2 \<le> i \<Longrightarrow> \<not> bit c i) \<Longrightarrow>
     ucast (drop_bit 2 (b64_feed (b64_feed acc (d OR drop_bit 4 b)) (push_bit 2 b OR c))) = b"
  by (intro byte_eqI) (simp_all add: bit_simps b64_feed_def)

lemma b64_byte3: "(\<And>i. i < 2 \<Longrightarrow> \<not> bit d i) \<Longrightarrow> ucast (b64_feed (b64_feed acc (d OR drop_bit 6 c)) c) = c"
  by (intro byte_eqI) (simp_all add: bit_simps b64_feed_def)

lemma b64_loop_char [simp]:
  "b64_loop acc 0 out (b64_char v # cs) = b64_loop (b64_feed acc v) 6 out cs"
  "b64_loop acc 6 out (b64_char v # cs) = b64_loop (b64_feed acc v) 4 (out @ [ucast (drop_bit 4 (b64_feed acc v))]) cs"
  "b64_loop acc 4 out (b64_char v # cs) = b64_loop (b64_feed acc v) 2 (out @ [ucast (drop_bit 2 (b64_feed acc v))]) cs"
  "b64_loop acc 2 out (b64_char v # cs) = b64_loop (b64_feed acc v) 0 (out @ [ucast (b64_feed acc v)]) cs"
  "b64_loop acc bits out (CHR ''='' # cs) = b64_loop acc bits out cs"
  by (simp_all add: b64_feed_def Let_def)

declare b64_loop.simps(2) [simp del]

lemma high_bits: "LENGTH(8) \<le> n + i \<Longrightarrow> \<not> bit (drop_bit n (b :: 8 word)) i"
  by (auto simp: bit_simps dest: bit_imp_le_length)

lemma low_bits: "i < n \<Longrightarrow> \<not> bit (push_bit n (b :: 8 word)) i"
  by (simp add: bit_simps)

lemma b64_loop_encode: "b64_loop acc 0 out (b64_encode bs) = Some (out @ bs)"
proof (induction bs arbitrary: acc out rule: b64_encode.induct)
  case (1 a b c bs)
  then show ?case by (simp add: b64_byte1 b64_byte2 b64_byte3 high_bits low_bits)
next
  case (2 a b)
  show ?case using b64_byte2 [where c = 0 and b = b] by (simp add: b64_byte1 high_bits low_bits)
next
  case (3 a)
  show ?case using b64_byte1 [where b = 0 and a = a] by simp
qed simp

text \<open>C33: Base64 decodes what was encoded, with padding and line breaks anywhere, and refuses exactly the texts
  with a byte outside the alphabet.\<close>

theorem base64_inverts:
  "(letters s = letters (b64_encode bs) \<longrightarrow> base64_decode s = Some bs)
    \<and> (base64_decode s = None \<longleftrightarrow> (\<exists>c \<in> set s. b64_class_of c = B64Bad))"
proof -
  have "base64_decode s = base64_decode (letters s)" "base64_decode (b64_encode bs) = base64_decode (letters (b64_encode bs))"
    by (simp_all add: base64_decode_def b64_loop_letters)
  moreover have "base64_decode (b64_encode bs) = Some bs" by (simp add: base64_decode_def b64_loop_encode)
  ultimately show ?thesis by (force simp: base64_decode_def b64_loop_bad)
qed

theorem base64_inverts_witness: "base64_decode ''T W9 u'' = Some [77, 111, 110]"
proof -
  have "letters ''T W9 u'' = letters (b64_encode [77, 111, 110])"
    by (simp add: b64_char_def b64_alphabet_def b64_class_of_def byte_def)
  then show ?thesis using base64_inverts by blast
qed

end
