(* ===== verification/Pairing.thy ===== *)
theory Pairing
  imports Durable "HOL-Library.Word"
begin

text \<open>
  One-time pairing codes (\<open>claude-replay-html/src/html_export/pairing.rs\<close>): minting a code, printing and
  typing it, redeeming it, over the text of the store file that the command line and the server share.
  The random source is the reads it gives; \<open>ok\<close> is whether the file can be written and renamed.
\<close>

unbundle bit_operations_syntax

subsection \<open>Text\<close>

text \<open>\<open>s.split_whitespace()\<close>.\<close>

fun take_word :: "string \<Rightarrow> string \<times> string" where
  "take_word [] = ([], [])"
| "take_word (c # cs) =
     (if ws_head (c # cs) \<noteq> 0 then ([], c # cs) else case take_word cs of (w, r) \<Rightarrow> (c # w, r))"

lemma take_word_append: "take_word s = (w, r) \<Longrightarrow> s = w @ r"
  by (induction s arbitrary: w) (auto split: if_splits prod.splits)

lemma trim_start_le: "length (trim_start s) \<le> length s"
proof (induction s rule: trim_start.induct)
  case (1 s)
  then show ?case by (subst trim_start.simps) (auto dest: order_trans)
qed

lemma trim_start_head: "ws_head (trim_start s) = 0"
  by (induction s rule: trim_start.induct) (subst trim_start.simps, simp)

function split_ws :: "string \<Rightarrow> string list" where
  "split_ws s =
     (if trim_start s = [] then [] else case take_word (trim_start s) of (w, r) \<Rightarrow> w # split_ws r)"
  by pat_completeness auto
termination
proof (relation "measure length")
  fix s w r assume n: "trim_start s \<noteq> []" and t: "(w, r) = take_word (trim_start s)"
  then obtain c cs where c: "trim_start s = c # cs" by (cases "trim_start s") auto
  have "w \<noteq> []" using t c trim_start_head [of s] by (auto split: prod.splits)
  then have "length r < length (trim_start s)" using take_word_append [OF t [symmetric]] by simp
  then show "(r, s) \<in> measure length" using trim_start_le [of s] by simp
qed simp

declare split_ws.simps [simp del]

definition is_alnum :: "char \<Rightarrow> bool" where
  "is_alnum c \<longleftrightarrow> is_ascii_digit c \<or> (65 \<le> byte c \<and> byte c \<le> 90) \<or> (97 \<le> byte c \<and> byte c \<le> 122)"

definition to_upper :: "char \<Rightarrow> char" where
  "to_upper c = (if 97 \<le> byte c \<and> byte c \<le> 122 then char_of (byte c - 32) else c)"

subsection \<open>The store\<close>

definition pair_alphabet :: string where "pair_alphabet = ''ABCDEFGHJKMNPQRSTUVWXYZ23456789''"
definition pair_code_len :: nat where "pair_code_len = 8"
definition pair_ttl :: nat where "pair_ttl = 300"
definition pair_tries :: nat where "pair_tries = 5"

record pair_store =
  ps_codes :: "(string \<times> nat) list"
  ps_fails :: nat

definition read_line_into :: "pair_store \<Rightarrow> string \<Rightarrow> pair_store" where
  "read_line_into st line =
     (case split_ws line of
        a # b # e # _ \<Rightarrow>
          (if a = ''code'' then (case parse_u64 e of Some x \<Rightarrow> st\<lparr>ps_codes := ps_codes st @ [(b, x)]\<rparr> | None \<Rightarrow> st) else st)
      | [a, n] \<Rightarrow>
          (if a = ''fails'' then st\<lparr>ps_fails := (case parse_u64 n of Some k \<Rightarrow> if k < 2 ^ 32 then k else 0 | None \<Rightarrow> 0)\<rparr> else st)
      | _ \<Rightarrow> st)"

text \<open>The file's text, \<open>None\<close> when it is absent or cannot be read.\<close>

definition read_store :: "string option \<Rightarrow> pair_store" where
  "read_store f =
     foldl read_line_into \<lparr>ps_codes = [], ps_fails = 0\<rparr> (std_lines (case f of Some t \<Rightarrow> t | None \<Rightarrow> []))"

definition store_text :: "pair_store \<Rightarrow> string" where
  "store_text st =
     concat (map (\<lambda>(code, e). ''code '' @ code @ '' '' @ show_nat e @ [newline_char]) (ps_codes st)) @
     ''fails '' @ show_nat (ps_fails st) @ [newline_char]"

definition write_store :: "bool \<Rightarrow> pair_store \<Rightarrow> string option \<Rightarrow> string option" where
  "write_store ok st f = (if ok then Some (store_text st) else f)"

subsection \<open>Codes\<close>

definition normalize_code :: "string \<Rightarrow> string" where
  "normalize_code typed = map to_upper (filter is_alnum typed)"

definition display_code :: "string \<Rightarrow> string" where
  "display_code code = (if length code = pair_code_len then take 4 code @ ''-'' @ drop 4 code else code)"

text \<open>
  Drawing the characters: \<open>raw\<close> is what is left of the buffer, \<open>later\<close> the reads of the random source still
  to come; a byte past the last multiple of the alphabet's length is rejected.
\<close>

definition draw_limit :: nat where
  "draw_limit = 256 - 256 mod length pair_alphabet"

function draw_code :: "nat list \<Rightarrow> nat list list \<Rightarrow> string \<Rightarrow> string option" where
  "draw_code raw later code =
     (if pair_code_len \<le> length code then Some code
      else case raw of
        b # bs \<Rightarrow>
          draw_code bs later (if b < draw_limit then code @ [pair_alphabet ! (b mod length pair_alphabet)] else code)
      | [] \<Rightarrow> (case later of [] \<Rightarrow> None | r # rs \<Rightarrow> draw_code r rs code))"
  by pat_completeness auto
termination
  by (relation "measures [\<lambda>(raw, later, code). length later, \<lambda>(raw, later, code). length raw]") auto

declare draw_code.simps [simp del]

definition mint_pair_code :: "nat list list \<Rightarrow> nat \<Rightarrow> bool \<Rightarrow> string option \<Rightarrow> string option \<times> string option" where
  "mint_pair_code reads now ok f =
     (case draw_code [] reads [] of
        None \<Rightarrow> (None, f)
      | Some code \<Rightarrow>
          (let st = read_store f;
               st' = st\<lparr>ps_codes := filter (\<lambda>(_, e). now < e) (ps_codes st) @ [(code, (now + pair_ttl) mod 2 ^ 64)]\<rparr>
           in (if ok then Some code else None, write_store ok st' f)))"

text \<open>\<open>ct_eq\<close>: every byte is compared, whatever the ones before it gave.\<close>

definition ct_diff :: "string \<Rightarrow> string \<Rightarrow> 8 word" where
  "ct_diff a b = foldl (\<lambda>d (x, y). d OR (word_of_nat (byte x) XOR word_of_nat (byte y))) 0 (zip a b)"

definition ct_eq :: "string \<Rightarrow> string \<Rightarrow> bool" where
  "ct_eq a b \<longleftrightarrow> length a = length b \<and> ct_diff a b = 0"

text \<open>A miss: counted, and at the limit every code is burned.\<close>

definition miss_store :: "(string \<times> nat) list \<Rightarrow> nat \<Rightarrow> pair_store" where
  "miss_store live fails =
     (let n = (fails + 1) mod 2 ^ 32
      in if pair_tries \<le> n then \<lparr>ps_codes = [], ps_fails = 0\<rparr> else \<lparr>ps_codes = live, ps_fails = n\<rparr>)"

definition redeem_pair_code :: "string \<Rightarrow> nat \<Rightarrow> bool \<Rightarrow> string option \<Rightarrow> bool \<times> string option" where
  "redeem_pair_code typed now ok f =
     (let code = normalize_code typed;
          st = read_store f;
          live = filter (\<lambda>(_, e). now < e) (ps_codes st);
          hit = foldl (\<lambda>h i. if ct_eq (fst (live ! i)) code then Some i else h) None [0..<length live];
          (res, st') = (case hit of
             Some i \<Rightarrow>
               if code \<noteq> [] then (True, \<lparr>ps_codes = take i live @ drop (Suc i) live, ps_fails = 0\<rparr>)
               else (False, miss_store live (ps_fails st))
           | None \<Rightarrow> (False, miss_store live (ps_fails st)))
      in (res, write_store ok st' f))"

end
