(* ===== verification/Gate.thy ===== *)
theory Gate
  imports Pairing Codex Mask Utf8
begin

text \<open>
  The server's gate (\<open>claude-replay-html/src/html_export/serve.rs\<close>): reading a request, finding its token, the
  peer's identity from the kernel's table, the ruling on access, the body's bounds, the pairing route and
  what a write needs.  A connection is the bytes that arrive on it before it ends; SHA-256, the
  kernel's table (ASCII text, \<open>None\<close> where there is none) and the socket's two ends are arguments.
\<close>

subsection \<open>Text\<close>

fun split_once :: "char \<Rightarrow> string \<Rightarrow> (string \<times> string) option" where
  "split_once sep [] = None"
| "split_once sep (c # cs) =
     (if c = sep then Some ([], cs) else map_option (\<lambda>(a, b). (c # a, b)) (split_once sep cs))"

function trim_prefix :: "string \<Rightarrow> string \<Rightarrow> string" where
  "trim_prefix p s = (if p \<noteq> [] \<and> s \<noteq> [] \<and> starts_with s p then trim_prefix p (drop (length p) s) else s)"
  by pat_completeness auto
termination
  by (relation "measure (\<lambda>(p, s). length s)") auto

declare trim_prefix.simps [simp del]

definition to_lower :: "char \<Rightarrow> char" where
  "to_lower c = (if 65 \<le> byte c \<and> byte c \<le> 90 then char_of (byte c + 32) else c)"

definition same_ignoring_case :: "string \<Rightarrow> string \<Rightarrow> bool" where
  "same_ignoring_case a b \<longleftrightarrow> map to_lower a = map to_lower b"

fun contains :: "string \<Rightarrow> string \<Rightarrow> bool" where
  "contains [] p \<longleftrightarrow> p = []"
| "contains (c # cs) p \<longleftrightarrow> starts_with (c # cs) p \<or> contains cs p"

definition header_value :: "string \<Rightarrow> string \<Rightarrow> string option" where
  "header_value headers name =
     List.find (\<lambda>_. True) (List.map_filter
       (\<lambda>l. case split_once (CHR '':'') l of
              Some (k, v) \<Rightarrow> if same_ignoring_case (trim k) name then Some (trim v) else None
            | None \<Rightarrow> None) (std_lines headers))"

definition query_get :: "string \<Rightarrow> string \<Rightarrow> string option" where
  "query_get query key =
     List.find (\<lambda>_. True) (List.map_filter
       (\<lambda>kv. case split_once (CHR ''='') kv of Some (k, v) \<Rightarrow> if k = key then Some v else None | None \<Rightarrow> None)
       (split_on (CHR ''&'') query))"

text \<open>An escape needs both digits before the end; anything else passes through.\<close>

fun percent_bytes :: "string \<Rightarrow> string" where
  "percent_bytes (c # h # l # s) =
     (if c = CHR ''%'' then
        (case (hex_value h, hex_value l) of
           (Some x, Some y) \<Rightarrow> char_of (x * 16 + y) # percent_bytes s
         | _ \<Rightarrow> c # percent_bytes (h # l # s))
      else c # percent_bytes (h # l # s))"
| "percent_bytes s = s"

definition percent_decode :: "string \<Rightarrow> string" where
  "percent_decode s = utf8_lossy (percent_bytes s)"

subsection \<open>Where a token comes from\<close>

definition legacy_cookie :: string where "legacy_cookie = ''cmauth''"

definition cookie_name :: "(string \<Rightarrow> string) \<Rightarrow> string \<Rightarrow> string" where
  "cookie_name sha tok = legacy_cookie @ ''-'' @ concat (map hex_byte (take 4 (sha tok)))"

definition cookie_max_age :: nat where "cookie_max_age = 400 * 24 * 3600"

definition set_cookie_line :: "(string \<Rightarrow> string) \<Rightarrow> string \<Rightarrow> string" where
  "set_cookie_line sha tok =
     ''Set-Cookie: '' @ cookie_name sha tok @ ''='' @ tok @ ''; Path=/; Max-Age='' @ show_nat cookie_max_age
       @ ''; HttpOnly; SameSite=Strict'' @ [CHR 0x0D, CHR 0x0A]"

datatype token_from = FromPresented | FromCookie | FromLegacyCookie

text \<open>One pair of a \<open>Cookie\<close> header: the first of either name counts.\<close>

definition take_cookie :: "string option \<Rightarrow> string option \<times> string option \<Rightarrow> string \<Rightarrow> string option \<times> string option" where
  "take_cookie own found kv =
     (case split_once (CHR ''='') kv of
        None \<Rightarrow> found
      | Some (k, v) \<Rightarrow>
          if own = Some (trim k) \<and> fst found = None then (Some (trim v), snd found)
          else if trim k = legacy_cookie \<and> snd found = None then (fst found, Some (trim v)) else found)"

definition header_either :: "string \<Rightarrow> string \<Rightarrow> string \<Rightarrow> string option" where
  "header_either big small l =
     (if starts_with l big then Some (drop (length big) l)
      else if starts_with l small then Some (drop (length small) l) else None)"

definition bearer_of :: "string \<Rightarrow> string option" where
  "bearer_of l =
     (case header_either ''Authorization:'' ''authorization:'' l of
        Some v \<Rightarrow> if starts_with (trim v) ''Bearer '' then Some (trim (drop 7 (trim v))) else None
      | None \<Rightarrow> None)"

fun extract_lines ::
  "string option \<Rightarrow> string list \<Rightarrow> string option \<times> string option \<Rightarrow> (string \<times> token_from) option" where
  "extract_lines own [] (mine, legacy) =
     (case (mine, legacy) of
        (Some t, _) \<Rightarrow> Some (t, FromCookie)
      | (None, Some t) \<Rightarrow> Some (t, FromLegacyCookie)
      | (None, None) \<Rightarrow> None)"
| "extract_lines own (l # ls) found =
     (case bearer_of l of
        Some t \<Rightarrow> Some (t, FromPresented)
      | None \<Rightarrow>
          extract_lines own ls
            (case header_either ''Cookie:'' ''cookie:'' l of
               Some v \<Rightarrow> foldl (take_cookie own) found (split_on (CHR '';'') v)
             | None \<Rightarrow> found))"

definition extract_token :: "string \<Rightarrow> string \<Rightarrow> string option \<Rightarrow> (string \<times> token_from) option" where
  "extract_token query headers own =
     (case query_get query ''token'' of
        Some t \<Rightarrow> Some (percent_decode t, FromPresented)
      | None \<Rightarrow> extract_lines own (std_lines headers) (None, None))"

subsection \<open>Who the peer is\<close>

text \<open>An address: the four octets, or the 128-bit value.\<close>

datatype ip_addr = IpV4 "nat list" | IpV6 nat

record sock_addr =
  sa_ip :: ip_addr
  sa_port :: nat

fun is_loopback :: "ip_addr \<Rightarrow> bool" where
  "is_loopback (IpV4 os) \<longleftrightarrow> hd os = 127"
| "is_loopback (IpV6 n) \<longleftrightarrow> n = 1"

fun hex_number :: "nat \<Rightarrow> string \<Rightarrow> nat option" where
  "hex_number acc [] = Some acc"
| "hex_number acc (c # cs) = (case hex_value c of Some d \<Rightarrow> hex_number (16 * acc + d) cs | None \<Rightarrow> None)"

definition parse_hex_u16 :: "string \<Rightarrow> nat option" where
  "parse_hex_u16 s =
     (let body = (if starts_with s ''+'' then tl s else s)
      in if body = [] then None
         else case hex_number 0 body of Some n \<Rightarrow> if n < 2 ^ 16 then Some n else None | None \<Rightarrow> None)"

definition parse_proc_addr :: "string \<Rightarrow> (nat list \<times> nat) option" where
  "parse_proc_addr field =
     (case split_once (CHR '':'') field of
        None \<Rightarrow> None
      | Some (a, p) \<Rightarrow>
          if length a \<noteq> 8 then None
          else (case those (map (\<lambda>i. hex_pair (a ! ((3 - i) * 2)) (a ! ((3 - i) * 2 + 1))) [0..<4]) of
                  Some os \<Rightarrow> map_option (\<lambda>port. (map byte os, port)) (parse_hex_u16 p)
                | None \<Rightarrow> None))"

definition parse_uid :: "string \<Rightarrow> nat option" where
  "parse_uid s = (case parse_u64 s of Some n \<Rightarrow> if n < 2 ^ 32 then Some n else None | None \<Rightarrow> None)"

fun find_peer_row :: "nat list \<times> nat \<Rightarrow> nat list \<times> nat \<Rightarrow> string list \<Rightarrow> nat option" where
  "find_peer_row peer lcl [] = None"
| "find_peer_row peer lcl (l # ls) =
     (let f = split_ws l
      in if length f < 3 then find_peer_row peer lcl ls
         else if parse_proc_addr (f ! 1) = Some peer \<and> parse_proc_addr (f ! 2) = Some lcl then
           (if 7 < length f then parse_uid (f ! 7) else None)
         else find_peer_row peer lcl ls)"

definition find_peer_uid :: "string \<Rightarrow> nat list \<times> nat \<Rightarrow> nat list \<times> nat \<Rightarrow> nat option" where
  "find_peer_uid contents peer lcl = find_peer_row peer lcl (drop 1 (std_lines contents))"

definition peer_uid_v4 :: "string option \<Rightarrow> nat list \<times> nat \<Rightarrow> nat list \<times> nat \<Rightarrow> nat option" where
  "peer_uid_v4 table peer lcl = (case table of Some c \<Rightarrow> find_peer_uid c peer lcl | None \<Rightarrow> None)"

subsection \<open>The gate\<close>

text \<open>What a refusal says and the pairing page's command are constant words and are left out.\<close>

record auth_gate =
  ag_euid :: "nat option"
  ag_token :: "string option"
  ag_pair_codes :: bool
  ag_public :: "string list"
  ag_trusted :: "(string \<Rightarrow> bool) option"
  ag_token_only :: bool
  ag_body_limits :: "(string \<times> nat) list"

datatype access = AccessOk | AccessOkSetCookie | AccessDenied

definition token_ok :: "auth_gate \<Rightarrow> string option \<Rightarrow> bool" where
  "token_ok g presented = (case (ag_token g, presented) of (Some t, Some p) \<Rightarrow> ct_eq t p | _ \<Rightarrow> False)"

fun same_user :: "auth_gate \<Rightarrow> string option \<Rightarrow> sock_addr \<Rightarrow> sock_addr \<Rightarrow> bool" where
  "same_user g table \<lparr>sa_ip = IpV4 p, sa_port = pp\<rparr> \<lparr>sa_ip = IpV4 l, sa_port = lp\<rparr> =
     (case peer_uid_v4 table (p, pp) (l, lp) of
        Some uid \<Rightarrow> ag_euid g = Some uid
      | None \<Rightarrow> ag_token g = None)"
| "same_user g table _ _ = (ag_token g = None)"

definition gate_decide :: "auth_gate \<Rightarrow> string option \<Rightarrow> sock_addr \<Rightarrow> sock_addr \<Rightarrow> string option \<Rightarrow> bool \<Rightarrow> access" where
  "gate_decide g table peer lcl presented from_cookie =
     (if token_ok g presented then (if from_cookie then AccessOk else AccessOkSetCookie)
      else if \<not> is_loopback (sa_ip peer) then AccessDenied
      else if ag_token_only g \<and> ag_token g \<noteq> None then AccessDenied
      else if same_user g table peer lcl then AccessOk else AccessDenied)"

subsection \<open>Host and Origin, and what a write needs\<close>

definition host_ours :: "nat \<Rightarrow> (string \<Rightarrow> bool) option \<Rightarrow> string \<Rightarrow> bool" where
  "host_ours port trusted raw =
     (let v = trim_prefix ''https://'' (trim_prefix ''http://'' (trim raw))
      in v = ''127.0.0.1:'' @ show_nat port \<or> v = ''localhost:'' @ show_nat port
         \<or> (case trusted of Some t \<Rightarrow> t (map to_lower v) | None \<Rightarrow> False))"

datatype foreign = ForeignHost | ForeignOrigin

definition foreign_header :: "string \<Rightarrow> nat \<Rightarrow> (string \<Rightarrow> bool) option \<Rightarrow> foreign option" where
  "foreign_header headers port trusted =
     (if \<not> (case header_value headers ''host'' of Some v \<Rightarrow> host_ours port trusted v | None \<Rightarrow> True) then Some ForeignHost
      else if \<not> (case header_value headers ''origin'' of Some v \<Rightarrow> host_ours port trusted v | None \<Rightarrow> True)
        then Some ForeignOrigin
      else None)"

record http_request =
  rq_method :: string
  rq_name :: string
  rq_query :: string
  rq_body :: string
  rq_authenticated :: bool
  rq_origin_ok :: bool
  rq_masked :: bool

datatype refused_by = RefusedMethod | RefusedOrigin | RefusedToken

definition deny_mutation :: "string \<Rightarrow> http_request \<Rightarrow> refused_by option" where
  "deny_mutation m rq =
     (if rq_method rq \<noteq> m then Some RefusedMethod
      else if \<not> rq_origin_ok rq then Some RefusedOrigin
      else if \<not> rq_authenticated rq then Some RefusedToken
      else None)"

definition deny_write :: "http_request \<Rightarrow> refused_by option" where
  "deny_write rq = deny_mutation ''POST'' rq"

definition rsplit_colon :: "string \<Rightarrow> string" where
  "rsplit_colon s = (case split_once (CHR '':'') (rev s) of Some (_, n) \<Rightarrow> rev n | None \<Rightarrow> s)"

definition host_is_local :: "string option \<Rightarrow> bool" where
  "host_is_local host =
     (case host of
        None \<Rightarrow> True
      | Some h0 \<Rightarrow>
          (let h = trim h0
           in if h = [] then True
              else
                (let name = map to_lower (if starts_with h ''['' then hd (split_on (CHR '']'') (tl h)) else rsplit_colon h)
                 in name = ''localhost'' \<or> starts_with (rev name) (rev ''.localhost'') \<or> name = ''::1''
                    \<or> starts_with name ''127.'')))"

subsection \<open>One connection\<close>

text \<open>\<open>read_line\<close>: through the next newline or to the end; text that is not UTF-8 is an error.\<close>

definition read_text_line :: "string \<Rightarrow> (string \<times> string) option" where
  "read_text_line buf =
     (case (case split_line buf of Some p \<Rightarrow> p | None \<Rightarrow> (buf, [])) of
        (l, rest) \<Rightarrow> if is_utf8 l then Some (l, rest) else None)"

lemma read_text_line_less: "read_text_line buf = Some (l, rest) \<Longrightarrow> l \<noteq> [] \<Longrightarrow> length rest < length buf"
  using split_line_less by (fastforce simp: read_text_line_def split: option.splits prod.splits if_splits)

function read_headers :: "string \<Rightarrow> string \<Rightarrow> (string \<times> string) option" where
  "read_headers acc buf =
     (case read_text_line buf of
        None \<Rightarrow> None
      | Some (h, rest) \<Rightarrow>
          if h = [] \<or> h = [CHR 0x0D, newline_char] \<or> h = [newline_char] \<or> 8192 < length acc then Some (acc, rest)
          else read_headers (acc @ h) rest)"
  by pat_completeness auto
termination
  by (relation "measure (\<lambda>(acc, buf). length buf)") (auto dest: read_text_line_less)

declare read_headers.simps [simp del]

definition max_body_bytes :: nat where "max_body_bytes = 64 * 1024"
definition hold_body_limit :: nat where "hold_body_limit = 8 * 1024 * 1024 + 64 * 1024"

definition body_limit :: "auth_gate \<Rightarrow> string \<Rightarrow> nat" where
  "body_limit g name =
     (case map_of (ag_body_limits g) name of
        Some n \<Rightarrow> n
      | None \<Rightarrow> if name = ''api/mdrev/hold'' then hold_body_limit else max_body_bytes)"

definition is_page_load :: "string \<Rightarrow> string \<Rightarrow> bool" where
  "is_page_load m headers =
     (m = ''GET'' \<and>
      (case header_value headers ''sec-fetch-dest'' of
         Some d \<Rightarrow> same_ignoring_case d ''document''
       | None \<Rightarrow> (case header_value headers ''accept'' of Some a \<Rightarrow> contains a ''text/html'' | None \<Rightarrow> False)))"

datatype pair_reply = PairPage | PairOk | PairWrong | PairBadMethod

definition pairing_route ::
  "(string \<Rightarrow> string) \<Rightarrow> string \<Rightarrow> string \<Rightarrow> string \<Rightarrow> string \<Rightarrow> nat \<Rightarrow> bool \<Rightarrow> string option
     \<Rightarrow> pair_reply \<times> string \<times> string option" where
  "pairing_route sha m name body tok now ok codes =
     (if name = ''pair'' \<and> m = ''GET'' then (PairPage, [], codes)
      else if name = ''api/pair'' \<and> m = ''POST'' then
        (case redeem_pair_code (utf8_lossy body) now ok codes of
           (hit, codes') \<Rightarrow> if hit then (PairOk, set_cookie_line sha tok, codes') else (PairWrong, [], codes'))
      else (PairBadMethod, [], codes))"

text \<open>What becomes of a connection; the \<open>Set-Cookie\<close> text is what the reply's head carries.\<close>

datatype served =
    ConnBroken
  | PairReply pair_reply string
  | RefusalPage
  | Unauthorized
  | TooLarge string
  | RootRedirect string
  | Routed http_request string

record conn_env =
  ce_sha :: "string \<Rightarrow> string"
  ce_table :: "string option"
  ce_peer :: "sock_addr option"
  ce_local :: "sock_addr option"
  ce_mask :: mask_policy
  ce_now :: nat
  ce_codes_ok :: bool

definition no_sock :: sock_addr where
  "no_sock = \<lparr>sa_ip = IpV4 [127, 0, 0, 1], sa_port = 0\<rparr>"

definition conn_access :: "conn_env \<Rightarrow> auth_gate \<Rightarrow> bool \<Rightarrow> string option \<Rightarrow> bool \<Rightarrow> access" where
  "conn_access env g public presented from_cookie =
     (if public then AccessOk
      else case (ce_peer env, ce_local env) of
             (Some p, Some l) \<Rightarrow> gate_decide g (ce_table env) p l presented from_cookie
           | _ \<Rightarrow>
               (if presented \<noteq> None \<and> gate_decide g (ce_table env) no_sock no_sock presented from_cookie \<noteq> AccessDenied
                then AccessOkSetCookie else AccessDenied))"

text \<open>The request line: method, target, query.\<close>

definition request_line :: "string \<Rightarrow> string \<times> string \<times> string" where
  "request_line l =
     (let f = split_ws l;
          target = (if 1 < length f then f ! 1 else ''/'');
          pq = (case split_once (CHR ''?'') target of Some p \<Rightarrow> p | None \<Rightarrow> (target, []))
      in (if f \<noteq> [] then hd f else ''GET'', trim_prefix ''/'' (fst pq), snd pq))"

definition make_request :: "conn_env \<Rightarrow> auth_gate \<Rightarrow> bool \<Rightarrow> string \<Rightarrow> string \<Rightarrow> string \<Rightarrow> string \<Rightarrow> string \<Rightarrow> string option \<Rightarrow> http_request" where
  "make_request env g public m name query headers body presented =
     \<lparr>rq_method = m, rq_name = name, rq_query = query, rq_body = body, rq_authenticated = token_ok g presented,
      rq_origin_ok = (\<not> public \<and>
        foreign_header headers (case ce_local env of Some l \<Rightarrow> sa_port l | None \<Rightarrow> 0) (ag_trusted g) = None),
      rq_masked = masks (ce_mask env) (host_is_local (header_value headers ''host''))\<rparr>"

text \<open>The answer under a ruling; \<open>named\<close> is the cookie's \<open>Set-Cookie\<close> line of a token, \<open>rq\<close> the request a route gets.\<close>

definition answer ::
  "(string \<Rightarrow> string) \<Rightarrow> access \<Rightarrow> bool \<Rightarrow> bool \<Rightarrow> bool \<Rightarrow> string option \<Rightarrow> string \<Rightarrow> http_request \<Rightarrow> served" where
  "answer named acc oversized from_cookie migrate presented headers rq =
     (case acc of
        AccessDenied \<Rightarrow> if is_page_load (rq_method rq) headers then RefusalPage else Unauthorized
      | AccessOk \<Rightarrow>
          (if oversized then TooLarge []
           else Routed rq (case (if migrate then presented else None) of Some t \<Rightarrow> named t | None \<Rightarrow> []))
      | AccessOkSetCookie \<Rightarrow>
          (let tok = (case presented of Some t \<Rightarrow> t | None \<Rightarrow> []);
               root_nav = (rq_name rq = [] \<or> rq_name rq = ''index.html'' \<or> rq_name rq = ''index'')
           in if root_nav \<and> \<not> from_cookie then RootRedirect (named tok)
              else if oversized then TooLarge (named tok)
              else Routed rq (named tok)))"

text \<open>Answering a request that was read: \<open>rest\<close> is what came behind the headers.\<close>

definition serve_request ::
  "conn_env \<Rightarrow> auth_gate \<Rightarrow> string \<Rightarrow> string \<Rightarrow> string \<Rightarrow> string \<Rightarrow> string \<Rightarrow> string option \<Rightarrow> served \<times> string option" where
  "serve_request env g m name query headers rest codes =
     (let found = extract_token query headers (map_option (cookie_name (ce_sha env)) (ag_token g));
          presented = map_option fst found;
          from_cookie = (map_option snd found = Some FromCookie \<or> map_option snd found = Some FromLegacyCookie);
          migrate = (map_option snd found = Some FromLegacyCookie \<and> token_ok g presented);
          public = (m = ''GET'' \<and> name \<in> set (ag_public g));
          acc = conn_access env g public presented from_cookie;
          declared = (case header_value headers ''content-length'' of
                        Some v \<Rightarrow> (case parse_u64 v of Some n \<Rightarrow> n | None \<Rightarrow> 0) | None \<Rightarrow> 0);
          oversized = (body_limit g name < declared);
          denied_large = (max_body_bytes < declared \<and> acc = AccessDenied);
          want = (if \<not> oversized \<and> \<not> denied_large then declared else 0);
          body = take want rest
      in if length rest < want then (ConnBroken, codes)
         else if ag_token g \<noteq> None \<and> ag_pair_codes g \<and> \<not> denied_large \<and> (name = ''pair'' \<or> name = ''api/pair'') then
           (case pairing_route (ce_sha env) m name body (the (ag_token g)) (ce_now env) (ce_codes_ok env) codes of
              (r, cookie, codes') \<Rightarrow> (PairReply r cookie, codes'))
         else
           (answer (set_cookie_line (ce_sha env)) acc oversized from_cookie migrate presented headers
              (make_request env g public m name query headers body presented), codes))"

definition serve_connection :: "conn_env \<Rightarrow> auth_gate \<Rightarrow> string \<Rightarrow> string option \<Rightarrow> served \<times> string option" where
  "serve_connection env g input codes =
     (case read_text_line input of
        None \<Rightarrow> (ConnBroken, codes)
      | Some (l, rest) \<Rightarrow>
          (case read_headers [] rest of
             None \<Rightarrow> (ConnBroken, codes)
           | Some (headers, rest') \<Rightarrow>
               (case request_line l of (m, name, query) \<Rightarrow> serve_request env g m name query headers rest' codes)))"

end
