(* ===== verification/Stamp.thy ===== *)
theory Stamp
  imports Gate
begin

text \<open>
  Which local files the server hands out (\<open>claude-replay-html/src/html_export/sig.rs\<close> and the file decisions of
  \<open>serve.rs\<close>): the stamps on offered paths, the render policy, containment in a session's directories.
  SHA-256, the signing key and what the file system answers are arguments; so are a project's live
  directory and an agent's scratch directories, which are looked up on the disk.  A path is its text;
  a path rebuilt from its components is written without repeated slashes and dots.
\<close>

subsection \<open>Stamps\<close>

definition xor_byte :: "char \<Rightarrow> nat \<Rightarrow> char" where
  "xor_byte c n = char_of (byte c XOR n)"

definition block_key :: "(string \<Rightarrow> string) \<Rightarrow> string \<Rightarrow> string" where
  "block_key sha key =
     (if 64 < length key then sha key @ replicate (64 - 32) (char_of (0 :: nat))
      else key @ replicate (64 - length key) (char_of (0 :: nat)))"

definition hmac_sha256 :: "(string \<Rightarrow> string) \<Rightarrow> string \<Rightarrow> string \<Rightarrow> string" where
  "hmac_sha256 sha key msg =
     (let k = block_key sha key; ipad = map (\<lambda>c. xor_byte c 0x36) k; opad = map (\<lambda>c. xor_byte c 0x5c) k
      in sha (opad @ sha (ipad @ msg)))"

definition to_hex :: "string \<Rightarrow> string" where
  "to_hex b = concat (map hex_byte b)"

definition from_hex :: "string \<Rightarrow> string option" where
  "from_hex s =
     (if length s \<noteq> 64 then None else those (map (\<lambda>i. hex_pair (s ! (i * 2)) (s ! (i * 2 + 1))) [0..<32]))"

datatype cap = CapFile | CapReveal | CapHeld | CapHanded

fun cap_str :: "cap \<Rightarrow> string" where
  "cap_str CapFile = ''file''"
| "cap_str CapReveal = ''reveal''"
| "cap_str CapHeld = ''held''"
| "cap_str CapHanded = ''handed''"

text \<open>The key is \<open>None\<close> when it can neither be read nor made.\<close>

definition stamp_sign :: "(string \<Rightarrow> string) \<Rightarrow> string option \<Rightarrow> cap \<Rightarrow> string \<Rightarrow> string option" where
  "stamp_sign sha key c path =
     map_option (\<lambda>k. to_hex (hmac_sha256 sha k (cap_str c @ '':'' @ path))) key"

definition stamp_verify :: "(string \<Rightarrow> string) \<Rightarrow> string option \<Rightarrow> cap \<Rightarrow> string \<Rightarrow> string option \<Rightarrow> bool" where
  "stamp_verify sha key c path sg =
     (case (stamp_sign sha key c path, sg) of (Some want, Some s) \<Rightarrow> ct_eq want s | _ \<Rightarrow> False)"

subsection \<open>Paths\<close>

definition path_comps :: "string \<Rightarrow> string list" where
  "path_comps p = filter (\<lambda>q. \<not> path_junk q) (split_on (CHR ''/'') p)"

definition abs_path :: "string list \<Rightarrow> string" where
  "abs_path cs = CHR ''/'' # join_with ''/'' cs"

definition path_join :: "string \<Rightarrow> string \<Rightarrow> string" where
  "path_join a b =
     (if path_root b then b else if a \<noteq> [] \<and> last a \<noteq> CHR ''/'' then a @ ''/'' @ b else a @ b)"

definition path_under :: "string \<Rightarrow> string \<Rightarrow> bool" where
  "path_under p base \<longleftrightarrow> path_strip_prefix p base \<noteq> None"

definition same_path :: "string \<Rightarrow> string \<Rightarrow> bool" where
  "same_path p q \<longleftrightarrow> path_root p = path_root q \<and> path_cur p = path_cur q \<and> path_comps p = path_comps q"

definition relocate :: "string \<Rightarrow> string \<Rightarrow> string \<Rightarrow> string" where
  "relocate p old_root new_root =
     (case path_strip_prefix p old_root of Some rest \<Rightarrow> path_join new_root rest | None \<Rightarrow> p)"

subsection \<open>The policy\<close>

datatype render_policy = RenderNever | RenderOffered | RenderAllow "string list"

definition expand_tilde :: "string option \<Rightarrow> string \<Rightarrow> string" where
  "expand_tilde home s =
     (if starts_with s ''~/'' then (case home of Some h \<Rightarrow> path_join h (drop 2 s) | None \<Rightarrow> s) else s)"

text \<open>The policy file's value, \<open>None\<close> when it is absent or does not parse.\<close>

definition read_policy :: "(string \<Rightarrow> string option) \<Rightarrow> string option \<Rightarrow> json option \<Rightarrow> render_policy" where
  "read_policy canon home v =
     (case v of
        None \<Rightarrow> RenderOffered
      | Some j \<Rightarrow>
          (let mode = get_str j ''mode''
           in if mode = Some ''never'' then RenderNever
              else if mode = Some ''allowlist'' then
                RenderAllow (List.map_filter canon (map (expand_tilde home)
                  (case json_get j ''dirs'' of
                     Some (JArr ds) \<Rightarrow> List.map_filter (\<lambda>d. case d of JStr s \<Rightarrow> Some s | _ \<Rightarrow> None) ds | _ \<Rightarrow> [])))
              else RenderOffered))"

definition policy_hands :: "render_policy \<Rightarrow> bool" where
  "policy_hands pol \<longleftrightarrow> pol \<noteq> RenderNever"

text \<open>The nearest ancestor that resolves, with the rest joined on; the components stand in reverse.\<close>

fun resolved_up :: "(string \<Rightarrow> string option) \<Rightarrow> string list \<Rightarrow> string list \<Rightarrow> string option" where
  "resolved_up canon [] rest = None"
| "resolved_up canon (name # up) rest =
     (if name = ''..'' then None
      else case canon (abs_path (rev up)) of
             Some disk \<Rightarrow> Some (foldl path_join disk (name # rest))
           | None \<Rightarrow> resolved_up canon up (name # rest))"

definition resolved :: "(string \<Rightarrow> string option) \<Rightarrow> string \<Rightarrow> string option" where
  "resolved canon p =
     (case canon p of
        Some disk \<Rightarrow> Some disk
      | None \<Rightarrow> if path_root p then resolved_up canon (rev (path_comps p)) [] else None)"

definition policy_decide :: "(string \<Rightarrow> string option) \<Rightarrow> render_policy \<Rightarrow> string \<Rightarrow> bool" where
  "policy_decide canon pol p =
     (case pol of
        RenderNever \<Rightarrow> False
      | RenderOffered \<Rightarrow> True
      | RenderAllow dirs \<Rightarrow> (case resolved canon p of Some disk \<Rightarrow> list_ex (path_under disk) dirs | None \<Rightarrow> False))"

datatype ceiling = CeilInside | CeilOutside | CeilNone

definition policy_ceiling :: "render_policy \<Rightarrow> string \<Rightarrow> ceiling" where
  "policy_ceiling pol disk =
     (case pol of
        RenderNever \<Rightarrow> CeilOutside
      | RenderOffered \<Rightarrow> CeilNone
      | RenderAllow dirs \<Rightarrow> if list_ex (path_under disk) dirs then CeilInside else CeilOutside)"

subsection \<open>Containment\<close>

record hosted_root =
  hr_cwd :: string
  hr_path :: string

text \<open>The file system at the time of the question, and what is looked up on it for a transcript.\<close>

record file_world =
  fw_canon :: "string \<Rightarrow> string option"
  fw_is_file :: "string \<Rightarrow> bool"
  fw_is_dir :: "string \<Rightarrow> bool"
  fw_exists :: "string \<Rightarrow> bool"
  fw_project :: "string \<Rightarrow> string option"
  fw_scratch :: "hosted_root \<Rightarrow> string list"
  fw_home :: "string option"

fun remap_reveal :: "file_world \<Rightarrow> hosted_root list \<Rightarrow> string \<Rightarrow> string option" where
  "remap_reveal w [] dead = None"
| "remap_reveal w (r # rs) dead =
     (if hr_cwd r = [] \<or> \<not> path_under dead (hr_cwd r) then remap_reveal w rs dead
      else case fw_project w (hr_path r) of
             None \<Rightarrow> remap_reveal w rs dead
           | Some proj \<Rightarrow>
               (if \<not> same_path proj (hr_cwd r) \<and> fw_exists w (relocate dead (hr_cwd r) proj)
                then Some (relocate dead (hr_cwd r) proj) else remap_reveal w rs dead))"

text \<open>The path on the disk: as recorded, or a moved repository's copy.\<close>

definition find_real :: "file_world \<Rightarrow> hosted_root list \<Rightarrow> string \<Rightarrow> string option" where
  "find_real w roots want =
     (case fw_canon w want of
        Some disk \<Rightarrow> Some disk
      | None \<Rightarrow> (case remap_reveal w roots want of Some p \<Rightarrow> fw_canon w p | None \<Rightarrow> None))"

definition too_broad :: "file_world \<Rightarrow> string \<Rightarrow> bool" where
  "too_broad w base =
     (case (case fw_home w of Some h \<Rightarrow> fw_canon w h | None \<Rightarrow> None) of
        Some home \<Rightarrow> path_under home base | None \<Rightarrow> False)"

definition path_parent :: "string \<Rightarrow> string option" where
  "path_parent p =
     (if path_comps p = [] then None
      else Some (if path_root p then abs_path (butlast (path_comps p)) else join_with ''/'' (butlast (path_comps p))))"

definition allowed_dirs :: "file_world \<Rightarrow> hosted_root \<Rightarrow> string list" where
  "allowed_dirs w r =
     (if hr_cwd r \<noteq> [] then [hr_cwd r] else [])
     @ (case fw_project w (hr_path r) of Some p \<Rightarrow> [p] | None \<Rightarrow> [])
     @ (case path_parent (hr_path r) of Some d \<Rightarrow> [d] | None \<Rightarrow> [])
     @ fw_scratch w r"

definition explains :: "file_world \<Rightarrow> string \<Rightarrow> string \<Rightarrow> bool" where
  "explains w disk a =
     (case fw_canon w a of Some a' \<Rightarrow> \<not> too_broad w a' \<and> path_under disk a' | None \<Rightarrow> False)"

definition contained_kind :: "file_world \<Rightarrow> hosted_root list \<Rightarrow> string \<Rightarrow> bool \<Rightarrow> string option" where
  "contained_kind w roots want dirs_ok =
     (if \<not> path_root want then None
      else case find_real w roots want of
             None \<Rightarrow> None
           | Some disk \<Rightarrow>
               (if \<not> (fw_is_file w disk \<or> dirs_ok \<and> fw_is_dir w disk) then None
                else if list_ex (\<lambda>r. list_ex (explains w disk) (allowed_dirs w r)) roots then Some disk else None))"

definition revealable :: "file_world \<Rightarrow> hosted_root list \<Rightarrow> string \<Rightarrow> string option" where
  "revealable w roots want =
     (if \<not> path_root want then None
      else case fw_canon w want of
             Some disk \<Rightarrow> if fw_is_file w disk \<or> fw_is_dir w disk then Some disk else contained_kind w roots want True
           | None \<Rightarrow> contained_kind w roots want True)"

subsection \<open>Serving a file\<close>

datatype refusal = RefAllowlist | RefNoSession | RefNever

datatype unservable = NotOffered | Gone | WorktreeRemoved string | NotAFile | Refused refusal

fun split_at :: "string \<Rightarrow> string \<Rightarrow> (string \<times> string) option" where
  "split_at pat [] = (if pat = [] then Some ([], []) else None)"
| "split_at pat (c # cs) =
     (if starts_with (c # cs) pat then Some ([], drop (length pat) (c # cs))
      else map_option (\<lambda>(a, b). (c # a, b)) (split_at pat cs))"

definition removed_worktree :: "file_world \<Rightarrow> string \<Rightarrow> string option" where
  "removed_worktree w p =
     (case split_at ''/.claude/worktrees/'' p of
        None \<Rightarrow> None
      | Some (repo, rest) \<Rightarrow>
          (let name = hd (split_on (CHR ''/'') rest)
           in if name = [] \<or> fw_exists w (path_join (path_join repo ''.claude/worktrees'') name) then None else Some name))"

definition serve_under ::
  "(string \<Rightarrow> string) \<Rightarrow> string option \<Rightarrow> file_world \<Rightarrow> hosted_root list \<Rightarrow> render_policy \<Rightarrow> string \<Rightarrow> string option
     \<Rightarrow> unservable + string" where
  "serve_under sha key w roots pol path stamp =
     (if \<not> path_root path then Inl NotOffered
      else if \<not> stamp_verify sha key CapFile path stamp \<and> \<not> stamp_verify sha key CapHanded path stamp then Inl NotOffered
      else
        (let handed = (\<not> stamp_verify sha key CapFile path stamp)
         in case find_real w roots path of
              None \<Rightarrow> Inl (case removed_worktree w path of Some n \<Rightarrow> WorktreeRemoved n | None \<Rightarrow> Gone)
            | Some disk \<Rightarrow>
                (if \<not> fw_is_file w disk then Inl NotAFile
                 else if handed then (if pol = RenderNever then Inl (Refused RefNever) else Inr disk)
                 else
                   (case policy_ceiling pol disk of
                      CeilInside \<Rightarrow> Inr disk
                    | CeilNone \<Rightarrow>
                        (case contained_kind w roots disk False of
                           Some p \<Rightarrow> Inr p | None \<Rightarrow> Inl (Refused RefNoSession))
                    | CeilOutside \<Rightarrow> Inl (Refused (if pol = RenderNever then RefNever else RefAllowlist))))))"

end
