(* ===== verification/Pairing_Props.thy ===== *)
theory Pairing_Props
  imports Pairing Durable_Props Codex
begin

text \<open>
  What a pairing code is worth: the store file reads back as it was written, a code typed as it is
  printed is the code, and over any sequence of mints and redemptions each minted code opens the
  door at most once, in its five minutes, and not after five misses in a row.
\<close>

subsection \<open>Comparing\<close>

lemma ct_fold: "foldl (\<lambda>d (x, y). d OR (word_of_nat (byte x) XOR word_of_nat (byte y))) d xs = (0 :: 8 word)
    \<longleftrightarrow> d = 0 \<and> (\<forall>(x, y) \<in> set xs. x = y)"
proof (induction xs arbitrary: d)
  case (Cons p xs)
  obtain x y where p: "p = (x, y)" by (cases p)
  have x: "(word_of_nat (byte x) XOR word_of_nat (byte y) = (0 :: 8 word)) \<longleftrightarrow> x = y"
  proof
    assume e: "word_of_nat (byte x) XOR word_of_nat (byte y) = (0 :: 8 word)"
    have "(word_of_nat (byte x) :: 8 word) = (word_of_nat (byte x) XOR word_of_nat (byte y)) XOR word_of_nat (byte y)"
      by (simp add: xor.assoc)
    then have "(word_of_nat (byte x) :: 8 word) = word_of_nat (byte y)" by (simp add: e)
    then have "byte x = byte y"
      using byte_lt [of x] byte_lt [of y] by (simp add: word_of_nat_eq_iff take_bit_nat_eq_self)
    then show "x = y" by (metis char_of_byte)
  qed simp
  show ?case unfolding p by (simp add: Cons.IH x or_eq_0_iff)
qed simp

lemma ct_eq_iff: "ct_eq a b \<longleftrightarrow> a = b"
  unfolding ct_eq_def ct_diff_def ct_fold
  by (auto simp: list_eq_iff_zip_eq)

subsection \<open>Words and lines\<close>

definition plain_word :: "string \<Rightarrow> bool" where
  "plain_word w \<longleftrightarrow> w \<noteq> [] \<and> (\<forall>c \<in> set w. is_alnum c)"

lemma ws_codes_head:
  "33 \<le> a \<Longrightarrow> a < 194 \<Longrightarrow> ws_codes (a # xs) = 0" "ws_codes (32 # xs) = 1"
  by (cases "a # xs" rule: ws_codes.cases; simp) (cases "32 # xs" rule: ws_codes.cases; simp)

lemma ws_head_alnum: "is_alnum c \<Longrightarrow> ws_head (c # cs) = 0"
  using ws_codes_head(1) [of "byte c" "map byte (take 2 cs)"]
  by (auto simp: ws_head_def is_alnum_def is_ascii_digit_def)

lemma ws_head_space: "ws_head (CHR '' '' # cs) = 1"
proof -
  have "byte (CHR '' '') = 32" by (simp add: byte_def)
  then show ?thesis using ws_codes_head(2) [of "map byte (take 2 cs)"] by (simp add: ws_head_def)
qed

lemma trim_start_alnum: "is_alnum c \<Longrightarrow> trim_start (c # cs) = c # cs"
  by (subst trim_start.simps) (simp add: ws_head_alnum)

lemma trim_start_space: "trim_start (CHR '' '' # cs) = trim_start cs"
  by (subst trim_start.simps) (simp add: ws_head_space)

lemma split_ws_space: "split_ws (CHR '' '' # s) = split_ws s"
  by (subst (1 2) split_ws.simps) (simp add: trim_start_space)

lemma take_word_plain:
  "\<forall>c \<in> set w. is_alnum c \<Longrightarrow> take_word (w @ CHR '' '' # s) = (w, CHR '' '' # s)"
  "\<forall>c \<in> set w. is_alnum c \<Longrightarrow> take_word w = (w, [])"
  by (induction w) (simp_all add: ws_head_alnum ws_head_space)

lemma trim_start_plain: "plain_word w \<Longrightarrow> trim_start (w @ s) = w @ s"
  by (cases w) (simp_all add: plain_word_def trim_start_alnum)

lemma split_ws_nil: "split_ws [] = []"
  by (subst split_ws.simps) (simp add: trim_start.simps ws_head_def)

lemma split_ws_word: "plain_word w \<Longrightarrow> split_ws (w @ CHR '' '' # s) = w # split_ws s"
  using take_word_plain(1) [of w s] trim_start_plain [of w "CHR '' '' # s"]
  by (subst split_ws.simps) (simp add: plain_word_def split_ws_space)

lemma split_ws_last: "plain_word w \<Longrightarrow> split_ws w = [w]"
  using take_word_plain(2) [of w] trim_start_plain [of w "[]"]
  by (subst split_ws.simps) (simp add: plain_word_def split_ws_nil)

lemma plain_show_nat: "plain_word (show_nat n)"
  using show_nat_digits by (auto simp: plain_word_def is_alnum_def)

lemma plain_const: "plain_word ''code''" "plain_word ''fails''"
  by (simp_all add: plain_word_def is_alnum_def byte_def)

subsection \<open>The file reads back\<close>

definition store_ok :: "pair_store \<Rightarrow> bool" where
  "store_ok st \<longleftrightarrow> (\<forall>(c, e) \<in> set (ps_codes st). plain_word c \<and> e \<le> u64_max) \<and> ps_fails st < 2 ^ 32"

lemma read_code_line:
  assumes "plain_word c" and "e \<le> u64_max"
  shows "read_line_into st (''code '' @ c @ '' '' @ show_nat e) = st\<lparr>ps_codes := ps_codes st @ [(c, e)]\<rparr>"
proof -
  have "split_ws (''code'' @ CHR '' '' # c @ CHR '' '' # show_nat e) = [''code'', c, show_nat e]"
    using assms(1) plain_const(1) plain_show_nat by (simp only: split_ws_word split_ws_last)
  then show ?thesis using assms(2) by (simp add: read_line_into_def parse_u64_show)
qed

lemma read_fails_line:
  assumes "n < 2 ^ 32"
  shows "read_line_into st (''fails '' @ show_nat n) = st\<lparr>ps_fails := n\<rparr>"
proof -
  have "split_ws (''fails'' @ CHR '' '' # show_nat n) = [''fails'', show_nat n]"
    using plain_const(2) plain_show_nat by (simp only: split_ws_word split_ws_last)
  then show ?thesis using assms by (simp add: read_line_into_def parse_u64_show u64_max_def)
qed

lemma plain_no_break: "\<forall>c \<in> set w. is_alnum c \<Longrightarrow> newline_char \<notin> set w"
  by (auto simp: is_alnum_def is_ascii_digit_def byte_def)

lemma strip_digit: "strip_last (CHR 0x0D) (x @ show_nat n) = x @ show_nat n"
proof -
  have "last (show_nat n) \<in> set (show_nat n)" by simp
  then have "is_ascii_digit (last (show_nat n))" by (rule show_nat_digits)
  then show ?thesis by (auto simp: strip_last_def is_ascii_digit_def byte_def)
qed

lemma store_line:
  assumes "newline_char \<notin> set x"
  shows "std_lines (x @ show_nat n @ newline_char # t) = (x @ show_nat n) # std_lines t"
proof -
  have "newline_char \<notin> set (x @ show_nat n)"
    using assms show_nat_notin [of newline_char n] by (simp add: is_ascii_digit_def byte_def)
  from std_lines_nl [OF this, of t] show ?thesis by (simp add: strip_digit)
qed

lemma read_codes:
  assumes "\<forall>(c, e) \<in> set cs. plain_word c \<and> e \<le> u64_max"
  shows "foldl read_line_into st
      (std_lines (concat (map (\<lambda>(code, e). ''code '' @ code @ '' '' @ show_nat e @ [newline_char]) cs) @ t))
    = foldl read_line_into (st\<lparr>ps_codes := ps_codes st @ cs\<rparr>) (std_lines t)"
  using assms
proof (induction cs arbitrary: st)
  case (Cons p cs)
  obtain c e where p: "p = (c, e)" "plain_word c" "e \<le> u64_max" using Cons.prems by (cases p) auto
  have "newline_char \<notin> set (''code '' @ c @ '' '')"
    using plain_no_break [of c] p(2) by (simp add: plain_word_def)
  note l = store_line [OF this, of e]
  show ?case using Cons.IH Cons.prems read_code_line [OF p(2,3), of st] l p(1) by simp
qed simp

theorem store_roundtrip: "store_ok st \<Longrightarrow> read_store (Some (store_text st)) = st"
proof -
  assume ok: "store_ok st"
  have f: "std_lines (''fails '' @ show_nat (ps_fails st) @ newline_char # []) = [''fails '' @ show_nat (ps_fails st)]"
    by (subst store_line) simp_all
  have "\<forall>(c, e) \<in> set (ps_codes st). plain_word c \<and> e \<le> u64_max" using ok by (simp add: store_ok_def)
  from read_codes [OF this] show ?thesis
    using ok f read_fails_line [of "ps_fails st"] by (simp add: read_store_def store_text_def store_ok_def)
qed

subsection \<open>Codes\<close>

lemma draw_code_shape:
  assumes "draw_code raw later code = Some c" and "length code \<le> pair_code_len" and "set code \<subseteq> set pair_alphabet"
  shows "length c = pair_code_len \<and> set c \<subseteq> set pair_alphabet"
  using assms
proof (induction raw later code rule: draw_code.induct)
  case (1 raw later code)
  have a: "pair_alphabet ! (b mod length pair_alphabet) \<in> set pair_alphabet" for b
    by (rule nth_mem) (simp add: pair_alphabet_def)
  show ?case
  proof (cases "pair_code_len \<le> length code")
    case True
    then show ?thesis using "1.prems" by (subst (asm) draw_code.simps) simp
  next
    case False
    show ?thesis
    proof (cases raw)
      case Nil
      then show ?thesis using "1.prems" False "1.IH"(1) [OF False Nil]
        by (auto simp: draw_code.simps [of "[]" later code] split: list.splits)
    next
      case (Cons b bs)
      then show ?thesis using "1.prems" False "1.IH"(2) [OF False Cons] a
        by (auto simp: draw_code.simps [of "b # bs" later code] split: if_splits)
    qed
  qed
qed

lemma alphabet_upper: "c \<in> set pair_alphabet \<Longrightarrow> is_alnum c \<and> to_upper c = c"
proof -
  have "\<forall>c \<in> set pair_alphabet. is_alnum c \<and> to_upper c = c" by code_simp
  then show "c \<in> set pair_alphabet \<Longrightarrow> is_alnum c \<and> to_upper c = c" by blast
qed

lemma normalize_shown:
  assumes "set c \<subseteq> set pair_alphabet"
  shows "normalize_code (display_code c) = c"
proof -
  have n: "normalize_code x = x" if "set x \<subseteq> set pair_alphabet" for x
    using that alphabet_upper by (induction x) (auto simp: normalize_code_def)
  have d: "normalize_code (x @ ''-'' @ y) = normalize_code x @ normalize_code y" for x y
    by (simp add: normalize_code_def is_alnum_def is_ascii_digit_def byte_def)
  have t: "set (take 4 c) \<subseteq> set pair_alphabet" "set (drop 4 c) \<subseteq> set pair_alphabet"
    using assms by (auto dest: in_set_takeD in_set_dropD)
  show ?thesis
  proof (cases "length c = pair_code_len")
    case True
    then show ?thesis using d [of "take 4 c" "drop 4 c"] n [OF t(1)] n [OF t(2)] by (simp add: display_code_def)
  qed (simp add: display_code_def n [OF assms])
qed

subsection \<open>Sequences of mints and redemptions\<close>

datatype pair_op = MintOp "nat list list" nat | RedeemOp string nat

datatype pair_event = Minted string nat | NotMinted | Hit string nat | Missed

fun pair_step :: "pair_op \<Rightarrow> string option \<Rightarrow> pair_event \<times> string option" where
  "pair_step (MintOp reads now) f =
     (case mint_pair_code reads now True f of (Some c, f') \<Rightarrow> (Minted c now, f') | (None, f') \<Rightarrow> (NotMinted, f'))"
| "pair_step (RedeemOp typed now) f =
     (case redeem_pair_code typed now True f of
        (res, f') \<Rightarrow> (if res then Hit (normalize_code typed) now else Missed, f'))"

fun pair_run :: "pair_op list \<Rightarrow> string option \<Rightarrow> pair_event list" where
  "pair_run [] f = []"
| "pair_run (op # ops) f = (case pair_step op f of (e, f') \<Rightarrow> e # pair_run ops f')"

text \<open>The clock is far from the end of its 64 bits.\<close>

fun in_time :: "pair_op \<Rightarrow> bool" where
  "in_time (MintOp reads now) \<longleftrightarrow> now + pair_ttl \<le> u64_max"
| "in_time (RedeemOp typed now) \<longleftrightarrow> True"

fun mints_of :: "string \<Rightarrow> pair_event \<Rightarrow> bool" where
  "mints_of c (Minted c' t) \<longleftrightarrow> c = c'"
| "mints_of c _ \<longleftrightarrow> False"

fun hits_of :: "string \<Rightarrow> pair_event \<Rightarrow> bool" where
  "hits_of c (Hit c' t) \<longleftrightarrow> c = c'"
| "hits_of c _ \<longleftrightarrow> False"

text \<open>Misses in a row after \<open>n\<close> of them, and whether they ever reached the limit.\<close>

fun streak_step :: "nat \<Rightarrow> pair_event \<Rightarrow> nat" where
  "streak_step n Missed = n + 1"
| "streak_step n (Hit c t) = 0"
| "streak_step n _ = n"

definition miss_streak :: "pair_event list \<Rightarrow> nat" where
  "miss_streak es = foldl streak_step 0 es"

definition burnt :: "pair_event list \<Rightarrow> bool" where
  "burnt es \<longleftrightarrow> list_ex (\<lambda>k. pair_tries \<le> miss_streak (take k es)) [0..<Suc (length es)]"

lemma burnt_snoc: "burnt (es @ [e]) \<longleftrightarrow> burnt es \<or> pair_tries \<le> miss_streak (es @ [e])"
  by (auto simp: burnt_def list_ex_iff less_Suc_eq)

text \<open>Every hit so far was earned by a mint before it.\<close>

definition hits_earned :: "pair_event list \<Rightarrow> bool" where
  "hits_earned evs \<longleftrightarrow> (\<forall>i < length evs. \<forall>c t. evs ! i = Hit c t \<longrightarrow>
     (\<exists>j < i. \<exists>t0. evs ! j = Minted c t0 \<and> t < t0 + pair_ttl \<and> \<not> burnt (drop (Suc j) (take i evs))))"

definition minted_by :: "pair_event list \<Rightarrow> nat \<Rightarrow> string \<times> nat \<Rightarrow> bool" where
  "minted_by evs fails p \<longleftrightarrow> (\<exists>j < length evs. \<exists>t. evs ! j = Minted (fst p) t \<and> snd p = t + pair_ttl
     \<and> \<not> burnt (drop (Suc j) evs) \<and> miss_streak (drop (Suc j) evs) \<le> fails)"

definition pair_inv :: "pair_event list \<Rightarrow> string option \<Rightarrow> bool" where
  "pair_inv evs f \<longleftrightarrow> (let st = read_store f in
     store_ok st \<and> ps_fails st < pair_tries
     \<and> (\<forall>c. length (filter (\<lambda>p. fst p = c) (ps_codes st)) + length (filter (hits_of c) evs) \<le> length (filter (mints_of c) evs))
     \<and> (\<forall>p \<in> set (ps_codes st). minted_by evs (ps_fails st) p) \<and> hits_earned evs)"

lemma pair_invI:
  assumes "f = Some (store_text st)" and "store_ok st" and "ps_fails st < pair_tries" and "hits_earned evs"
    and "\<And>c. length (filter (\<lambda>p. fst p = c) (ps_codes st)) + length (filter (hits_of c) evs) \<le> length (filter (mints_of c) evs)"
    and "\<And>p. p \<in> set (ps_codes st) \<Longrightarrow> minted_by evs (ps_fails st) p"
  shows "pair_inv evs f"
  using assms by (simp add: pair_inv_def store_roundtrip)

lemma hits_earned_snoc:
  assumes "hits_earned evs"
    and "\<And>c t. e = Hit c t \<Longrightarrow> \<exists>j < length evs. \<exists>t0. evs ! j = Minted c t0 \<and> t < t0 + pair_ttl \<and> \<not> burnt (drop (Suc j) evs)"
  shows "hits_earned (evs @ [e])"
  unfolding hits_earned_def
proof (intro allI impI)
  fix i c t assume i: "i < length (evs @ [e])" and h: "(evs @ [e]) ! i = Hit c t"
  show "\<exists>j < i. \<exists>t0. (evs @ [e]) ! j = Minted c t0 \<and> t < t0 + pair_ttl \<and> \<not> burnt (drop (Suc j) (take i (evs @ [e])))"
  proof (cases "i = length evs")
    case True
    then obtain j t0 where "j < length evs" "evs ! j = Minted c t0" "t < t0 + pair_ttl" "\<not> burnt (drop (Suc j) evs)"
      using assms(2) [of c t] h by auto
    then show ?thesis using True by (intro exI [of _ j]) (auto simp: nth_append)
  next
    case False
    then have l: "i < length evs" "evs ! i = Hit c t" using i h by (auto simp: nth_append)
    then obtain j t0 where "j < i" "evs ! j = Minted c t0" "t < t0 + pair_ttl" "\<not> burnt (drop (Suc j) (take i evs))"
      using assms(1) [unfolded hits_earned_def, rule_format, OF l] by blast
    then show ?thesis using l(1) by (intro exI [of _ j]) (auto simp: nth_append)
  qed
qed

lemma minted_by_snoc:
  assumes "minted_by evs fails p" and "streak_step fails e \<le> fails'" and "fails' < pair_tries" and "fails < pair_tries"
  shows "minted_by (evs @ [e]) fails' p"
proof -
  obtain j t where j: "j < length evs" "evs ! j = Minted (fst p) t" "snd p = t + pair_ttl"
      "\<not> burnt (drop (Suc j) evs)" "miss_streak (drop (Suc j) evs) \<le> fails"
    using assms(1) by (auto simp: minted_by_def)
  have d: "drop (Suc j) (evs @ [e]) = drop (Suc j) evs @ [e]" using j(1) by simp
  have "streak_step (miss_streak (drop (Suc j) evs)) e \<le> streak_step fails e"
    using j(5) by (cases e) simp_all
  then have s: "miss_streak (drop (Suc j) evs @ [e]) \<le> fails'" using assms(2) by (simp add: miss_streak_def)
  then have "\<not> burnt (drop (Suc j) evs @ [e])" using j(4) assms(3) by (simp add: burnt_snoc)
  then show ?thesis
    unfolding minted_by_def using j(1-3) s d by (intro exI [of _ j]) (auto simp: nth_append)
qed

lemma last_index_found:
  "foldl (\<lambda>h i. if P i then Some i else h) None [0..<n] = Some i \<Longrightarrow> i < n \<and> P i"
  "foldl (\<lambda>h i. if P i then Some i else h) None [0..<n] = None \<Longrightarrow> \<forall>i < n. \<not> P i"
  by (induction n) (auto simp: less_Suc_eq split: if_splits)

lemma redeem_cases:
  fixes now :: nat
  assumes "redeem_pair_code typed now True f = (res, f')"
  defines "live \<equiv> filter (\<lambda>p. now < snd p) (ps_codes (read_store f))"
  obtains (hit) i where "res" "i < length live" "fst (live ! i) = normalize_code typed"
      "f' = Some (store_text \<lparr>ps_codes = take i live @ drop (Suc i) live, ps_fails = 0\<rparr>)"
  | (miss) "\<not> res" "f' = Some (store_text (miss_store live (ps_fails (read_store f))))"
proof -
  have l: "live = filter (\<lambda>(_, e). now < e) (ps_codes (read_store f))"
    unfolding live_def by (simp add: case_prod_unfold)
  let ?hit = "foldl (\<lambda>h i. if ct_eq (fst (live ! i)) (normalize_code typed) then Some i else h) None [0..<length live]"
  show thesis
  proof (cases ?hit)
    case None
    then show thesis using assms(1) miss unfolding redeem_pair_code_def Let_def l [symmetric] by (simp add: write_store_def)
  next
    case (Some i)
    from last_index_found(1) [OF Some] have i: "i < length live" "fst (live ! i) = normalize_code typed"
      by (simp_all add: ct_eq_iff)
    show thesis
    proof (cases "normalize_code typed = []")
      case True
      then show thesis
        using assms(1) miss Some unfolding redeem_pair_code_def Let_def l [symmetric] by (simp add: write_store_def)
    next
      case False
      then show thesis
        using assms(1) hit [of i] Some i unfolding redeem_pair_code_def Let_def l [symmetric] by (simp add: write_store_def)
    qed
  qed
qed

lemma live_count:
  "length (filter (\<lambda>p. fst p = c) (filter P xs)) \<le> length (filter (\<lambda>p. fst p = c) xs)"
  by (induction xs) auto

lemma removed_count:
  assumes "i < length xs"
  shows "length (filter (\<lambda>p. fst p = c) xs) =
    length (filter (\<lambda>p. fst p = c) (take i xs @ drop (Suc i) xs)) + (if fst (xs ! i) = c then 1 else 0)"
  by (subst id_take_nth_drop [OF assms]) simp

lemma pair_inv_mint:
  assumes i: "pair_inv evs f" and t: "in_time (MintOp reads now)" and s: "pair_step (MintOp reads now) f = (e, f')"
  shows "pair_inv (evs @ [e]) f'"
proof -
  let ?st = "read_store f"
  have inv: "store_ok ?st" "ps_fails ?st < pair_tries" "hits_earned evs"
      "\<And>c. length (filter (\<lambda>p. fst p = c) (ps_codes ?st)) + length (filter (hits_of c) evs) \<le> length (filter (mints_of c) evs)"
      "\<And>p. p \<in> set (ps_codes ?st) \<Longrightarrow> minted_by evs (ps_fails ?st) p"
    using i by (auto simp: pair_inv_def Let_def)
  show ?thesis
  proof (cases "draw_code [] reads []")
    case None
    then have e: "e = NotMinted" "f' = f" using s by (auto simp: mint_pair_code_def)
    have "minted_by (evs @ [e]) (ps_fails ?st) p" if "p \<in> set (ps_codes ?st)" for p
      using minted_by_snoc [OF inv(5) [OF that]] inv(2) e by simp
    then show ?thesis using inv e hits_earned_snoc [OF inv(3), of e] by (auto simp: pair_inv_def Let_def)
  next
    case (Some c)
    have shape: "length c = pair_code_len \<and> set c \<subseteq> set pair_alphabet" by (rule draw_code_shape [OF Some]) simp_all
    then have plain: "plain_word c" using alphabet_upper by (auto simp: plain_word_def pair_code_len_def)
    let ?new = "?st\<lparr>ps_codes := filter (\<lambda>(_, e). now < e) (ps_codes ?st) @ [(c, now + pair_ttl)]\<rparr>"
    have "(now + pair_ttl) mod 2 ^ 64 = now + pair_ttl" using t by (simp add: u64_max_def)
    then have e: "e = Minted c now" "f' = Some (store_text ?new)"
      using s Some by (auto simp: mint_pair_code_def Let_def write_store_def)
    show ?thesis
    proof (rule pair_invI [OF e(2)])
      show "store_ok ?new" using inv(1) plain t by (auto simp: store_ok_def)
      show "ps_fails ?new < pair_tries" using inv(2) by simp
      show "hits_earned (evs @ [e])" using hits_earned_snoc [OF inv(3), of e] e(1) by simp
    next
      fix d
      show "length (filter (\<lambda>p. fst p = d) (ps_codes ?new)) + length (filter (hits_of d) (evs @ [e]))
          \<le> length (filter (mints_of d) (evs @ [e]))"
        using inv(4) [of d] live_count [of d "\<lambda>(_, e). now < e" "ps_codes ?st"] e(1) by auto
    next
      fix p assume "p \<in> set (ps_codes ?new)"
      then consider "p \<in> set (ps_codes ?st)" | "p = (c, now + pair_ttl)" by auto
      then show "minted_by (evs @ [e]) (ps_fails ?new) p"
      proof cases
        case 1
        then show ?thesis using minted_by_snoc [OF inv(5) [OF 1]] inv(2) e(1) by simp
      next
        case 2
        have "\<not> burnt []" by (simp add: burnt_def miss_streak_def pair_tries_def)
        then show ?thesis using 2 e(1) unfolding minted_by_def
          by (intro exI [of _ "length evs"]) (simp add: miss_streak_def)
      qed
    qed
  qed
qed

lemma pair_inv_redeem:
  assumes i: "pair_inv evs f" and s: "pair_step (RedeemOp typed now) f = (e, f')"
  shows "pair_inv (evs @ [e]) f'"
proof -
  let ?st = "read_store f" and ?live = "filter (\<lambda>p. now < snd p) (ps_codes (read_store f))"
  have inv: "store_ok ?st" "ps_fails ?st < pair_tries" "hits_earned evs"
      "\<And>c. length (filter (\<lambda>p. fst p = c) (ps_codes ?st)) + length (filter (hits_of c) evs) \<le> length (filter (mints_of c) evs)"
      "\<And>p. p \<in> set (ps_codes ?st) \<Longrightarrow> minted_by evs (ps_fails ?st) p"
    using i by (auto simp: pair_inv_def Let_def)
  have count: "length (filter (\<lambda>p. fst p = c) ?live) + length (filter (hits_of c) evs) \<le> length (filter (mints_of c) evs)" for c
    using inv(4) [of c] live_count [of c "\<lambda>p. now < snd p" "ps_codes ?st"] by simp
  obtain res where r: "redeem_pair_code typed now True f = (res, f')"
      and e: "e = (if res then Hit (normalize_code typed) now else Missed)"
    using s by (auto split: prod.splits)
  from r show ?thesis
  proof (cases rule: redeem_cases)
    case (hit k)
    let ?c = "normalize_code typed" and ?rest = "take k ?live @ drop (Suc k) ?live"
    have sub: "set ?rest \<subseteq> set (ps_codes ?st)" by (auto dest: in_set_takeD in_set_dropD)
    have e: "e = Hit ?c now" using e hit(1) by simp
    have "?live ! k \<in> set ?live" using hit(2) by (rule nth_mem)
    then have k: "?live ! k \<in> set (ps_codes ?st)" "now < snd (?live ! k)" by simp_all
    show ?thesis
    proof (rule pair_invI [OF hit(4)])
      show "store_ok \<lparr>ps_codes = ?rest, ps_fails = 0\<rparr>" using inv(1) sub by (auto simp: store_ok_def)
      show "hits_earned (evs @ [e])"
      proof (rule hits_earned_snoc [OF inv(3)])
        fix c t assume "e = Hit c t"
        then have "c = fst (?live ! k)" "t = now" using e hit(3) by simp_all
        then show "\<exists>j < length evs. \<exists>t0. evs ! j = Minted c t0 \<and> t < t0 + pair_ttl \<and> \<not> burnt (drop (Suc j) evs)"
          using inv(5) [OF k(1)] k(2) unfolding minted_by_def by metis
      qed
    next
      fix d
      show "length (filter (\<lambda>p. fst p = d) (ps_codes \<lparr>ps_codes = ?rest, ps_fails = 0\<rparr>)) + length (filter (hits_of d) (evs @ [e]))
          \<le> length (filter (mints_of d) (evs @ [e]))"
        using count [of d] removed_count [OF hit(2), of d] hit(3) e by auto
    next
      fix p assume "p \<in> set (ps_codes \<lparr>ps_codes = ?rest, ps_fails = 0\<rparr>)"
      then have "p \<in> set (ps_codes ?st)" using sub by auto
      then show "minted_by (evs @ [e]) (ps_fails \<lparr>ps_codes = ?rest, ps_fails = 0\<rparr>) p"
        using minted_by_snoc [OF inv(5), of p e 0] inv(2) e by (simp add: pair_tries_def)
    qed (simp add: pair_tries_def)
  next
    case miss
    let ?n = "ps_fails ?st + 1"
    have e: "e = Missed" using e miss(1) by simp
    have n: "?n mod 2 ^ 32 = ?n" using inv(2) by (simp add: pair_tries_def)
    let ?new = "miss_store ?live (ps_fails ?st)"
    have new: "?new = (if pair_tries \<le> ?n then \<lparr>ps_codes = [], ps_fails = 0\<rparr> else \<lparr>ps_codes = ?live, ps_fails = ?n\<rparr>)"
      by (simp only: miss_store_def Let_def n)
    show ?thesis
    proof (rule pair_invI [OF miss(2)])
      show "store_ok ?new" using inv(1,2) by (auto simp: new store_ok_def pair_tries_def)
      show "ps_fails ?new < pair_tries" by (simp add: new pair_tries_def)
      show "hits_earned (evs @ [e])" using hits_earned_snoc [OF inv(3), of e] e by simp
    next
      fix d
      show "length (filter (\<lambda>p. fst p = d) (ps_codes ?new)) + length (filter (hits_of d) (evs @ [e]))
          \<le> length (filter (mints_of d) (evs @ [e]))"
        using count [of d] e by (simp add: new)
    next
      fix p assume p: "p \<in> set (ps_codes ?new)"
      then have l: "\<not> pair_tries \<le> ?n" "p \<in> set (ps_codes ?st)" by (auto simp: new split: if_splits)
      then show "minted_by (evs @ [e]) (ps_fails ?new) p"
        using minted_by_snoc [OF inv(5), of p e ?n] inv(2) e by (simp add: new)
    qed
  qed
qed

lemma pair_inv_run:
  assumes "pair_inv evs f" and "list_all in_time ops"
  shows "\<exists>f'. pair_inv (evs @ pair_run ops f) f'"
  using assms
proof (induction ops arbitrary: evs f)
  case (Cons op ops)
  obtain e f' where s: "pair_step op f = (e, f')" by fastforce
  have "pair_inv (evs @ [e]) f'"
    using pair_inv_mint [OF Cons.prems(1)] pair_inv_redeem [OF Cons.prems(1)] Cons.prems(2) s by (cases op) auto
  from Cons.IH [OF this] show ?case using Cons.prems(2) s by simp
qed auto

lemma pair_inv_start: "pair_inv [] None"
  by (simp add: pair_inv_def read_store_def store_ok_def pair_tries_def hits_earned_def)


lemma redeem_hit:
  assumes "(c, e) \<in> set (ps_codes (read_store f))" and "t < e" and "normalize_code typed = c" and "c \<noteq> []"
  shows "fst (redeem_pair_code typed t ok f)"
proof -
  let ?live = "filter (\<lambda>(_, e). t < e) (ps_codes (read_store f))"
  have "(c, e) \<in> set ?live" using assms(1,2) by simp
  then obtain k where "k < length ?live" "?live ! k = (c, e)" by (meson in_set_conv_nth)
  then have "foldl (\<lambda>h i. if ct_eq (fst (?live ! i)) c then Some i else h) None [0..<length ?live] \<noteq> None"
    using last_index_found(2) by (fastforce simp: ct_eq_iff)
  then show ?thesis using assms(3,4) by (auto simp: redeem_pair_code_def Let_def)
qed

lemma mint_cases:
  assumes "mint_pair_code reads now True f = (Some c, f')" and "now + pair_ttl \<le> u64_max"
  shows "length c = pair_code_len \<and> set c \<subseteq> set pair_alphabet"
    and "f' = Some (store_text ((read_store f)\<lparr>ps_codes :=
       filter (\<lambda>(_, e). now < e) (ps_codes (read_store f)) @ [(c, now + pair_ttl)]\<rparr>))"
proof -
  have m: "(now + pair_ttl) mod 2 ^ 64 = now + pair_ttl" using assms(2) by (simp add: u64_max_def)
  have d: "draw_code [] reads [] = Some c" using assms(1) by (auto simp: mint_pair_code_def Let_def split: option.splits)
  show "length c = pair_code_len \<and> set c \<subseteq> set pair_alphabet" by (rule draw_code_shape [OF d]) simp_all
  show "f' = Some (store_text ((read_store f)\<lparr>ps_codes :=
       filter (\<lambda>(_, e). now < e) (ps_codes (read_store f)) @ [(c, now + pair_ttl)]\<rparr>))"
    using assms(1) d m by (auto simp: mint_pair_code_def Let_def write_store_def)
qed

lemma mint_ok:
  assumes "mint_pair_code reads now True f = (Some c, f')" and "now + pair_ttl \<le> u64_max" and "store_ok (read_store f)"
  shows "ps_codes (read_store f') = filter (\<lambda>(_, e). now < e) (ps_codes (read_store f)) @ [(c, now + pair_ttl)]"
proof -
  note m = mint_cases [OF assms(1,2)]
  have "plain_word c" using m(1) alphabet_upper by (auto simp: plain_word_def pair_code_len_def)
  then have "store_ok ((read_store f)\<lparr>ps_codes :=
       filter (\<lambda>(_, e). now < e) (ps_codes (read_store f)) @ [(c, now + pair_ttl)]\<rparr>)"
    using assms(2,3) by (auto simp: store_ok_def)
  from store_roundtrip [OF this] show ?thesis by (simp add: m(2))
qed

text \<open>A code that was minted is accepted.  Typed as the terminal prints it, with its dash, in lower case or
  not, within five minutes, the code just written to the store is taken.\<close>

theorem pair_code_works:
  assumes "mint_pair_code reads now True f = (Some c, f')" and "now + pair_ttl \<le> u64_max" and "store_ok (read_store f)"
    and "t < now + pair_ttl" and "map to_upper typed = display_code c"
  shows "fst (redeem_pair_code typed t ok f')"
proof (rule redeem_hit)
  note c = conjunct2 [OF mint_cases(1) [OF assms(1,2)]]
  show "(c, now + pair_ttl) \<in> set (ps_codes (read_store f'))" using mint_ok [OF assms(1-3)] by simp
  have "normalize_code typed = normalize_code (map to_upper typed)"
    by (induction typed) (auto simp: normalize_code_def to_upper_def is_alnum_def is_ascii_digit_def byte_def)
  then show "normalize_code typed = c" using normalize_shown [OF c] assms(5) by simp
  show "c \<noteq> []" using mint_cases(1) [OF assms(1,2)] by (auto simp: pair_code_len_def)
qed (rule assms(4))

text \<open>
  The lock is the server's own: the command line mints in another process.  When it reads the store before a
  redemption and writes it after, the redeemed code is back in the file and is accepted again.
\<close>

lemma mint_race_reuses:
  assumes "store_ok (read_store f)" and "(c, e) \<in> set (ps_codes (read_store f))" and "c \<noteq> []"
    and "normalize_code typed = c" and "t < e" and "now < e" and "t' < e"
    and m: "mint_pair_code reads now True f = (Some d, f')" and "now + pair_ttl \<le> u64_max"
  shows "fst (redeem_pair_code typed t ok f)" and "fst (redeem_pair_code typed t' ok' f')"
proof -
  show "fst (redeem_pair_code typed t ok f)" by (rule redeem_hit [OF assms(2,5,4,3)])
  have "(c, e) \<in> set (ps_codes (read_store f'))" using mint_ok [OF m assms(9,1)] assms(2,6) by simp
  then show "fst (redeem_pair_code typed t' ok' f')" using assms(7,4,3) by (rule redeem_hit)
qed

text \<open>A redemption whose write fails succeeds and leaves the code in the file.\<close>

lemma failed_write_reuses: "redeem_pair_code typed t False f = (res, f') \<Longrightarrow> f' = f"
  by (auto simp: redeem_pair_code_def Let_def write_store_def split: prod.splits)

subsection \<open>An example\<close>

definition sample_reads :: "nat list list" where "sample_reads = [[0, 1, 2, 3, 4, 5, 6, 255, 7]]"

lemma sample_draw: "draw_code [] sample_reads [] = Some ''ABCDEFGH''"
  by (simp add: draw_code.simps sample_reads_def pair_code_len_def draw_limit_def pair_alphabet_def)

lemma sample_mint: "\<exists>f. mint_pair_code sample_reads 1000 True g = (Some ''ABCDEFGH'', f)"
  by (simp add: mint_pair_code_def sample_draw Let_def)

lemma sample_typed: "map to_upper ''abcd-efgh'' = display_code ''ABCDEFGH''" "normalize_code ''abcd-efgh'' = ''ABCDEFGH''"
  by code_simp+

lemma empty_store: "store_ok (read_store None)" by (simp add: read_store_def store_ok_def)

lemma pair_code_works_witness:
  "\<exists>f. mint_pair_code sample_reads 1000 True None = (Some ''ABCDEFGH'', f) \<and> fst (redeem_pair_code ''abcd-efgh'' 1299 True f)"
proof -
  obtain f where f: "mint_pair_code sample_reads 1000 True None = (Some ''ABCDEFGH'', f)" using sample_mint by blast
  then show ?thesis
    using pair_code_works [OF f _ empty_store _ sample_typed(1), of 1299 True] by (simp add: pair_ttl_def u64_max_def)
qed


end
