(* ===== verification/Gate_Props.thy ===== *)
theory Gate_Props
  imports Gate Pairing_Props
begin

text \<open>
  What the gate guarantees: which connections reach a route, what a route's write check establishes of the
  bytes that came, which cookie is ever set, and two limits: a connection without socket addresses, and
  headers past the first 8 KB.
\<close>

subsection \<open>What came on the connection\<close>

definition request_parts :: "string \<Rightarrow> (string \<times> string \<times> string \<times> string \<times> string) option" where
  "request_parts input =
     (case read_text_line input of
        None \<Rightarrow> None
      | Some (l, rest) \<Rightarrow>
          (case read_headers [] rest of
             None \<Rightarrow> None
           | Some (headers, rest') \<Rightarrow> (case request_line l of (m, name, query) \<Rightarrow> Some (m, name, query, headers, rest'))))"

definition request_headers :: "string \<Rightarrow> string" where
  "request_headers input = (case request_parts input of Some (_, _, _, headers, _) \<Rightarrow> headers | None \<Rightarrow> [])"

text \<open>The token a connection carries, in the query, in an \<open>Authorization\<close> header or in a cookie.\<close>

definition carried_token :: "conn_env \<Rightarrow> auth_gate \<Rightarrow> string \<Rightarrow> string option" where
  "carried_token env g input =
     (case request_parts input of
        Some (_, _, query, headers, _) \<Rightarrow>
          map_option fst (extract_token query headers (map_option (cookie_name (ce_sha env)) (ag_token g)))
      | None \<Rightarrow> None)"

definition holds_token :: "conn_env \<Rightarrow> auth_gate \<Rightarrow> string \<Rightarrow> bool" where
  "holds_token env g input \<longleftrightarrow> (\<exists>t. ag_token g = Some t \<and> carried_token env g input = Some t)"

text \<open>
  The peer is the server's own user: the kernel's table says so, or nothing can and the gate is unpaired.
\<close>

definition own_user :: "auth_gate \<Rightarrow> string option \<Rightarrow> sock_addr \<Rightarrow> sock_addr \<Rightarrow> bool" where
  "own_user g table p l \<longleftrightarrow>
     (\<exists>a b uid. sa_ip p = IpV4 a \<and> sa_ip l = IpV4 b \<and> peer_uid_v4 table (a, sa_port p) (b, sa_port l) = Some uid
        \<and> ag_euid g = Some uid)
     \<or> ag_token g = None"

lemma token_ok_iff: "token_ok g presented \<longleftrightarrow> (\<exists>t. ag_token g = Some t \<and> presented = Some t)"
  by (auto simp: token_ok_def ct_eq_iff split: option.splits)

lemma same_user_own: "same_user g table p l \<Longrightarrow> own_user g table p l"
proof -
  assume s: "same_user g table p l"
  obtain a pp b lp where "p = \<lparr>sa_ip = a, sa_port = pp\<rparr>" "l = \<lparr>sa_ip = b, sa_port = lp\<rparr>"
    by (cases p, cases l) auto
  with s show ?thesis by (cases a; cases b) (auto simp: own_user_def split: option.splits)
qed

lemma decide_admits:
  "gate_decide g table p l presented c \<noteq> AccessDenied \<Longrightarrow>
     token_ok g presented \<or> is_loopback (sa_ip p) \<and> \<not> (ag_token_only g \<and> ag_token g \<noteq> None) \<and> own_user g table p l"
  using same_user_own by (auto simp: gate_decide_def split: if_splits)

subsection \<open>Reaching a route\<close>

lemma presented_at_set_cookie:
  "conn_access env g public presented c = AccessOkSetCookie \<Longrightarrow> presented \<noteq> None"
  by (auto simp: conn_access_def gate_decide_def token_ok_def split: if_splits option.splits)

lemma answer_routed:
  assumes "answer named acc oversized c migrate presented headers rq0 = Routed rq cookie"
  shows "rq = rq0" and "acc \<noteq> AccessDenied"
    and "cookie = [] \<or> cookie = named (case presented of Some t \<Rightarrow> t | None \<Rightarrow> []) \<and> (acc = AccessOkSetCookie \<or> migrate)"
  using assms by (auto simp: answer_def Let_def split: access.splits if_splits option.splits)

lemma serve_request_routed:
  assumes "serve_request env g m name query headers rest codes = (Routed rq cookie, codes')"
  defines "public \<equiv> m = ''GET'' \<and> name \<in> set (ag_public g)"
    and "found \<equiv> extract_token query headers (map_option (cookie_name (ce_sha env)) (ag_token g))"
  shows "\<exists>body oversized c migrate. codes' = codes \<and> length body \<le> body_limit g name
     \<and> answer (set_cookie_line (ce_sha env)) (conn_access env g public (map_option fst found) c) oversized c
         (migrate \<and> token_ok g (map_option fst found)) (map_option fst found) headers
         (make_request env g public m name query headers body (map_option fst found)) = Routed rq cookie"
  using assms(1) unfolding serve_request_def Let_def public_def [symmetric] found_def [symmetric]
  by (simp split: if_splits prod.splits) (force simp: min_def)+

lemma connection_routed:
  assumes "serve_connection env g input codes = (Routed rq cookie, codes')"
  obtains m name query headers rest where "request_parts input = Some (m, name, query, headers, rest)"
    "serve_request env g m name query headers rest codes = (Routed rq cookie, codes')"
  using assms by (auto simp: serve_connection_def request_parts_def split: option.splits prod.splits)

text \<open>Everything a routed request establishes of the connection, in one place.\<close>

lemma routed_facts:
  assumes "serve_connection env g input codes = (Routed rq cookie, codes')"
  obtains headers c where "request_headers input = headers"
    "codes' = codes" "length (rq_body rq) \<le> body_limit g (rq_name rq)"
    "conn_access env g (rq_method rq = ''GET'' \<and> rq_name rq \<in> set (ag_public g)) (carried_token env g input) c \<noteq> AccessDenied"
    "rq_authenticated rq \<longleftrightarrow> holds_token env g input"
    "rq_origin_ok rq \<longleftrightarrow> \<not> (rq_method rq = ''GET'' \<and> rq_name rq \<in> set (ag_public g))
       \<and> foreign_header headers (case ce_local env of Some l \<Rightarrow> sa_port l | None \<Rightarrow> 0) (ag_trusted g) = None"
    "cookie = [] \<or> (\<exists>t. carried_token env g input = Some t \<and> cookie = set_cookie_line (ce_sha env) t)"
proof -
  obtain m name query headers rest where parts: "request_parts input = Some (m, name, query, headers, rest)"
    and r: "serve_request env g m name query headers rest codes = (Routed rq cookie, codes')"
    using connection_routed [OF assms] by blast
  have tok: "map_option fst (extract_token query headers (map_option (cookie_name (ce_sha env)) (ag_token g)))
    = carried_token env g input" by (simp add: carried_token_def parts)
  let ?public = "m = ''GET'' \<and> name \<in> set (ag_public g)"
  obtain body oversized c migrate where b: "codes' = codes" "length body \<le> body_limit g name"
    and a: "answer (set_cookie_line (ce_sha env)) (conn_access env g ?public (carried_token env g input) c) oversized c
       (migrate \<and> token_ok g (carried_token env g input)) (carried_token env g input) headers
       (make_request env g ?public m name query headers body (carried_token env g input)) = Routed rq cookie"
    using serve_request_routed [OF r] unfolding tok by blast
  note f = answer_routed [OF a]
  have rq: "rq_method rq = m" "rq_name rq = name" "rq_body rq = body" by (simp_all add: f(1) make_request_def)
  show ?thesis
  proof (rule that [of headers c])
    show "cookie = [] \<or> (\<exists>t. carried_token env g input = Some t \<and> cookie = set_cookie_line (ce_sha env) t)"
      using f(3) presented_at_set_cookie [of env g ?public "carried_token env g input" c] by (auto simp: token_ok_iff)
  qed (use b f parts rq in \<open>simp_all add: request_headers_def f(1) make_request_def token_ok_iff holds_token_def\<close>)
qed



subsection \<open>Limits\<close>

text \<open>
  Where the socket's ends cannot be read, a gate without a token admits any connection that carries some
  token, whatever it is, and sets it as a cookie; the comment at this place speaks of a token that matches.
\<close>

lemma no_identity_admits:
  assumes "ce_peer env = None" and "ce_table env = None" and "ag_token g = None"
  shows "conn_access env g False (Some t) c = AccessOkSetCookie"
  using assms by (simp add: conn_access_def gate_decide_def token_ok_def no_sock_def peer_uid_v4_def)

lemma read_headers_more:
  "read_text_line buf = Some (h, rest) \<Longrightarrow> h \<noteq> [] \<Longrightarrow> h \<noteq> [CHR 0x0D, newline_char] \<Longrightarrow> h \<noteq> [newline_char] \<Longrightarrow>
     length acc \<le> 8192 \<Longrightarrow> read_headers acc buf = read_headers (acc @ h) rest"
  by (subst read_headers.simps) simp

text \<open>
  Once more than 8192 bytes of headers are read the next line is dropped and the rest is taken for the body: an
  \<open>Origin\<close> behind them is not seen, and an absent one counts as ours.
\<close>

lemma late_headers_unseen:
  assumes "8192 < length h" and "read_text_line (h @ buf) = Some (h, buf)" and "read_text_line buf = Some (dropped, rest)"
  shows "read_headers [] (h @ buf) = Some (h, rest)"
proof -
  have "h \<noteq> []" "h \<noteq> [CHR 0x0D, newline_char]" "h \<noteq> [newline_char]" using assms(1) by auto
  then have "read_headers [] (h @ buf) = read_headers h buf" using assms(2) by (subst read_headers.simps) simp
  also have "\<dots> = Some (h, rest)" using assms(1,3) by (subst read_headers.simps) simp
  finally show ?thesis .
qed

subsection \<open>An example\<close>

definition crlf :: string where "crlf = [CHR 0x0D, newline_char]"

definition sample_conn :: conn_env where
  "sample_conn = \<lparr>ce_sha = (\<lambda>_. ''abcd''), ce_table = None,
     ce_peer = Some \<lparr>sa_ip = IpV4 [127, 0, 0, 1], sa_port = 9\<rparr>, ce_local = Some \<lparr>sa_ip = IpV4 [127, 0, 0, 1], sa_port = 7\<rparr>,
     ce_mask = MaskOff, ce_now = 5, ce_codes_ok = True\<rparr>"

definition sample_gate :: auth_gate where
  "sample_gate = \<lparr>ag_euid = Some 1, ag_token = Some ''k'', ag_pair_codes = True, ag_public = [], ag_trusted = None,
     ag_token_only = False, ag_body_limits = []\<rparr>"

definition line1 :: string where "line1 = ''POST /api/x HTTP/1.1'' @ crlf"
definition header1 :: string where "header1 = ''Host: localhost:7'' @ crlf"
definition header2 :: string where "header2 = ''Authorization: Bearer k'' @ crlf"
definition header3 :: string where "header3 = ''Content-Length: 2'' @ crlf"

definition sample_head :: string where "sample_head = header1 @ header2 @ header3"

definition sample_post :: string where
  "sample_post = line1 @ header1 @ header2 @ header3 @ crlf @ ''hi''"

definition sample_request :: http_request where
  "sample_request = \<lparr>rq_method = ''POST'', rq_name = ''api/x'', rq_query = [], rq_body = ''hi'', rq_authenticated = True,
     rq_origin_ok = True, rq_masked = False\<rparr>"

lemma sample_lines:
  "read_text_line sample_post = Some (line1, header1 @ header2 @ header3 @ crlf @ ''hi'')"
  "read_text_line (header1 @ header2 @ header3 @ crlf @ ''hi'') = Some (header1, header2 @ header3 @ crlf @ ''hi'')"
  "read_text_line (header2 @ header3 @ crlf @ ''hi'') = Some (header2, header3 @ crlf @ ''hi'')"
  "read_text_line (header3 @ crlf @ ''hi'') = Some (header3, crlf @ ''hi'')"
  "read_text_line (crlf @ ''hi'') = Some (crlf, ''hi'')"
  by code_simp+

lemma sample_headers: "read_headers [] (header1 @ header2 @ header3 @ crlf @ ''hi'') = Some (sample_head, ''hi'')"
proof -
  have l: "h \<noteq> [] \<and> h \<noteq> [CHR 0x0D, newline_char] \<and> h \<noteq> [newline_char] \<and> length h < 30" if "h \<in> {header1, header2, header3}" for h
    using that by (auto simp: header1_def header2_def header3_def crlf_def)
  have "read_headers [] (header1 @ header2 @ header3 @ crlf @ ''hi'') = read_headers header1 (header2 @ header3 @ crlf @ ''hi'')"
    using l [of header1] by (subst read_headers_more [OF sample_lines(2)]) simp_all
  also have "\<dots> = read_headers (header1 @ header2) (header3 @ crlf @ ''hi'')"
    using l [of header1] l [of header2] by (subst read_headers_more [OF sample_lines(3)]) simp_all
  also have "\<dots> = read_headers ((header1 @ header2) @ header3) (crlf @ ''hi'')"
    using l [of header1] l [of header2] l [of header3] by (subst read_headers_more [OF sample_lines(4)]) simp_all
  also have "\<dots> = Some (sample_head, ''hi'')"
    using sample_lines(5) by (subst read_headers.simps) (simp add: crlf_def sample_head_def)
  finally show ?thesis .
qed

lemma sample_values:
  "request_line line1 = (''POST'', ''api/x'', [])"
  "header_value sample_head ''content-length'' = Some ''2''"
  "foreign_header sample_head 7 None = None" "host_is_local (header_value sample_head ''host'')"
  by code_simp+

lemma sample_length: "parse_u64 ''2'' = Some 2"
  by (simp add: parse_u64_def u64_max_def is_ascii_digit_def byte_def)

lemma sample_token:
  "extract_token [] sample_head (Some (cookie_name (\<lambda>_. ''abcd'') ''k'')) = Some (''k'', FromPresented)"
  by code_simp

lemma sample_routed:
  "serve_connection sample_conn sample_gate sample_post None
     = (Routed sample_request (set_cookie_line (\<lambda>_. ''abcd'') ''k''), None)"
  by (simp add: serve_connection_def serve_request_def sample_lines sample_headers sample_values sample_length sample_token Let_def
      sample_conn_def sample_gate_def conn_access_def gate_decide_def token_ok_iff body_limit_def max_body_bytes_def
      answer_def make_request_def sample_request_def)



end
