(* ===== verification/Stamp_Props.thy ===== *)
theory Stamp_Props
  imports Stamp Gate_Props
begin

text \<open>
  What a stamp and the render policy guarantee: a stamp opens only the path and the capability it was made
  for, short of a collision of SHA-256; a file is served exactly when it was offered, is there and lies
  under the ceiling; and what the policy lets a page offer it also lets the server hand out.
\<close>

subsection \<open>Stamps\<close>

lemma hex_digit_inj: "hex_digit a = hex_digit b \<Longrightarrow> a < 16 \<Longrightarrow> b < 16 \<Longrightarrow> a = b"
  using hex_digit_value by (metis option.inject)

lemma nibbles: "byte a div 16 < 16" "byte a mod 16 < 16"
  using less_mult_imp_div_less [of "byte a" 16 16] by (simp_all add: byte_def)

lemma hex_byte_inj: "hex_byte a = hex_byte b \<Longrightarrow> a = b"
proof -
  assume h: "hex_byte a = hex_byte b"
  then have "byte a div 16 = byte b div 16" "byte a mod 16 = byte b mod 16"
    using nibbles [of a] nibbles [of b] by (auto simp: hex_byte_def dest: hex_digit_inj)
  then have "byte a = byte b" by (metis div_mult_mod_eq)
  then show "a = b" by (simp add: byte_def)
qed

lemma to_hex_inj: "to_hex a = to_hex b \<Longrightarrow> a = b"
proof (induction a arbitrary: b)
  case Nil
  then show ?case by (cases b) (auto simp: to_hex_def hex_byte_def)
next
  case (Cons c a)
  then obtain d b' where b: "b = d # b'" by (cases b) (auto simp: to_hex_def hex_byte_def)
  then have "hex_byte c = hex_byte d" "to_hex a = to_hex b'" using Cons.prems by (auto simp: to_hex_def hex_byte_def)
  then show ?case using Cons.IH hex_byte_inj b by blast
qed

lemma cap_message_inj: "cap_str c @ '':'' @ p = cap_str d @ '':'' @ q \<Longrightarrow> c = d \<and> p = q"
  by (cases c; cases d) auto

text \<open>The two texts a stamp's making hashes.\<close>

definition hashed_texts :: "(string \<Rightarrow> string) \<Rightarrow> string \<Rightarrow> string \<Rightarrow> string set" where
  "hashed_texts sha k m =
     (let ipad = map (\<lambda>c. xor_byte c 0x36) (block_key sha k); opad = map (\<lambda>c. xor_byte c 0x5c) (block_key sha k)
      in {ipad @ m, opad @ sha (ipad @ m)})"

lemma hmac_collision:
  assumes "hmac_sha256 sha k m = hmac_sha256 sha k m'" and "m \<noteq> m'"
  shows "\<exists>x \<in> hashed_texts sha k m. \<exists>y \<in> hashed_texts sha k m'. x \<noteq> y \<and> sha x = sha y"
  using assms by (auto simp: hmac_sha256_def hashed_texts_def Let_def)

lemma stamp_verify_iff: "stamp_verify sha key c p sg \<longleftrightarrow> (\<exists>s. stamp_sign sha key c p = Some s \<and> sg = Some s)"
  by (auto simp: stamp_verify_def ct_eq_iff split: option.splits)

text \<open>A stamp opens what it was made for and nothing else.  The stamp made for a path and a capability
  verifies for them; if it verifies for another path or another capability, then two different ones of the
  four texts hashed for the two have the same SHA-256; and without a key nothing verifies.\<close>

theorem stamp_bound:
  "(stamp_sign sha key c p = Some s \<longrightarrow> stamp_verify sha key c p (Some s))
    \<and> (stamp_sign sha (Some k) c p = Some s \<longrightarrow> stamp_verify sha (Some k) d q (Some s) \<longrightarrow> (c, p) \<noteq> (d, q) \<longrightarrow>
         (\<exists>x \<in> hashed_texts sha k (cap_str c @ '':'' @ p). \<exists>y \<in> hashed_texts sha k (cap_str d @ '':'' @ q).
            x \<noteq> y \<and> sha x = sha y))
    \<and> \<not> stamp_verify sha None d q sg \<and> \<not> stamp_verify sha key d q None"
proof (intro conjI impI)
  assume "stamp_sign sha (Some k) c p = Some s" and "stamp_verify sha (Some k) d q (Some s)" and ne: "(c, p) \<noteq> (d, q)"
  then have "to_hex (hmac_sha256 sha k (cap_str c @ '':'' @ p)) = to_hex (hmac_sha256 sha k (cap_str d @ '':'' @ q))"
    by (simp add: stamp_verify_iff stamp_sign_def)
  then have "hmac_sha256 sha k (cap_str c @ '':'' @ p) = hmac_sha256 sha k (cap_str d @ '':'' @ q)" by (rule to_hex_inj)
  moreover have "cap_str c @ '':'' @ p \<noteq> cap_str d @ '':'' @ q" using cap_message_inj ne by blast
  ultimately show "\<exists>x \<in> hashed_texts sha k (cap_str c @ '':'' @ p). \<exists>y \<in> hashed_texts sha k (cap_str d @ '':'' @ q).
      x \<noteq> y \<and> sha x = sha y" by (rule hmac_collision)
qed (auto simp: stamp_verify_iff stamp_sign_def)

theorem stamp_bound_witness:
  "stamp_verify (\<lambda>x. x) (Some ''key'') CapFile ''/a'' (stamp_sign (\<lambda>x. x) (Some ''key'') CapFile ''/a'')"
  using stamp_bound [of "\<lambda>x. x" "Some ''key''" CapFile "''/a''"] by (simp add: stamp_sign_def)

text \<open>A key that was written is read back.\<close>

lemma hex_pair_byte: "hex_pair (hex_digit (byte c div 16)) (hex_digit (byte c mod 16)) = Some c"
  using hex_digit_ascii [OF nibbles(1)] nibbles [of c] by (simp add: hex_pair_def byte_def)

lemma those_map_Some: "those (map Some xs) = Some xs"
  by (induction xs) simp_all

lemma to_hex_nth: "i < length b \<Longrightarrow> to_hex b ! (i * 2) = hex_digit (byte (b ! i) div 16)
    \<and> to_hex b ! (i * 2 + 1) = hex_digit (byte (b ! i) mod 16)"
proof (induction b arbitrary: i)
  case (Cons c b)
  then show ?case by (cases i) (auto simp: to_hex_def hex_byte_def)
qed simp

lemma to_hex_length: "length (to_hex b) = 2 * length b"
  by (induction b) (simp_all add: to_hex_def hex_byte_def)

lemma key_roundtrip: "length k = 32 \<Longrightarrow> from_hex (to_hex k) = Some k"
proof -
  assume k: "length k = 32"
  have "map (\<lambda>i. hex_pair (to_hex k ! (i * 2)) (to_hex k ! (i * 2 + 1))) [0..<32] = map (\<lambda>i. Some (k ! i)) [0..<32]"
    using to_hex_nth [of _ k] k hex_pair_byte by (intro map_cong refl) auto
  also have "\<dots> = map Some (map ((!) k) [0..<length k])" using k by simp
  also have "\<dots> = map Some k" by (simp add: map_nth)
  finally show ?thesis using k to_hex_length [of k] by (simp add: from_hex_def those_map_Some)
qed

subsection \<open>Serving\<close>

text \<open>\<open>canonicalize\<close> gives an absolute path that is its own canonical path.\<close>

definition canon_ok :: "file_world \<Rightarrow> bool" where
  "canon_ok w \<longleftrightarrow> (\<forall>p r. fw_canon w p = Some r \<longrightarrow> path_root r \<and> fw_canon w r = Some r)"

definition explained :: "file_world \<Rightarrow> hosted_root list \<Rightarrow> string \<Rightarrow> bool" where
  "explained w roots disk \<longleftrightarrow>
     (\<exists>r \<in> set roots. \<exists>a \<in> set (allowed_dirs w r). \<exists>a'. fw_canon w a = Some a' \<and> \<not> too_broad w a' \<and> path_under disk a')"

lemma explained_iff: "list_ex (\<lambda>r. list_ex (explains w disk) (allowed_dirs w r)) roots \<longleftrightarrow> explained w roots disk"
  unfolding explained_def list_ex_iff explains_def
  by (intro bex_cong refl) (auto split: option.splits)

lemma find_real_canonical: "canon_ok w \<Longrightarrow> find_real w roots p = Some disk \<Longrightarrow> path_root disk \<and> fw_canon w disk = Some disk"
  by (auto simp: find_real_def canon_ok_def split: option.splits)

lemma contained_canonical:
  assumes "path_root disk" and "fw_canon w disk = Some disk" and "fw_is_file w disk"
  shows "contained_kind w roots disk ok = (if explained w roots disk then Some disk else None)"
  using assms by (simp add: contained_kind_def find_real_def explained_iff)

definition under_ceiling :: "file_world \<Rightarrow> hosted_root list \<Rightarrow> render_policy \<Rightarrow> string \<Rightarrow> bool" where
  "under_ceiling w roots pol disk =
     (case pol of
        RenderNever \<Rightarrow> False
      | RenderOffered \<Rightarrow> explained w roots disk
      | RenderAllow dirs \<Rightarrow> (\<exists>d \<in> set dirs. path_under disk d))"

text \<open>C29: What the server hands out.  A file is served exactly when the page holds this server's stamp for that
  very path, the path (or a moved repository's copy of it) resolves to a regular file, and either the
  stamp says the file was handed to the reader and the policy is not \<open>never\<close>, or it lies under the
  policy's ceiling: an allowed directory, or, with no list, a directory of a hosted session that is
  not the home directory or above it.  What is served is that file.\<close>

theorem served_exactly:
  assumes "canon_ok w"
  shows "serve_under sha key w roots pol path stamp = Inr p \<longleftrightarrow>
    path_root path \<and> find_real w roots path = Some p \<and> fw_is_file w p
    \<and> (if stamp_verify sha key CapFile path stamp then under_ceiling w roots pol p
       else stamp_verify sha key CapHanded path stamp \<and> pol \<noteq> RenderNever)"
proof (cases "find_real w roots path")
  case None
  then show ?thesis by (simp add: serve_under_def Let_def)
next
  case (Some disk)
  note c = find_real_canonical [OF assms Some]
  show ?thesis
  proof (cases "fw_is_file w disk \<and> path_root path \<and> stamp_verify sha key CapFile path stamp")
    case True
    then have "serve_under sha key w roots pol path stamp = Inr p \<longleftrightarrow> under_ceiling w roots pol disk \<and> p = disk"
      using c Some contained_canonical [of disk w roots False]
      by (cases pol) (auto simp: serve_under_def Let_def policy_ceiling_def under_ceiling_def list_ex_iff)
    then show ?thesis using True Some by auto
  next
    case False
    then show ?thesis using Some by (auto simp: serve_under_def Let_def)
  qed
qed

text \<open>What a page may offer while it exists, the ceiling lets through as long as the policy stands.\<close>

lemma offered_is_under_ceiling:
  "policy_decide canon pol p \<Longrightarrow> canon p = Some disk \<Longrightarrow> policy_ceiling pol disk \<noteq> CeilOutside"
  by (auto simp: policy_decide_def policy_ceiling_def resolved_def split: render_policy.splits)

text \<open>An allowlist none of whose directories resolves lets nothing through.\<close>

lemma empty_allowlist_closed:
  assumes "get_str j ''mode'' = Some ''allowlist''"
  shows "policy_ceiling (read_policy (\<lambda>_. None) home (Some j)) disk = CeilOutside"
proof -
  have "List.map_filter (\<lambda>_. None :: string option) xs = []" for xs :: "string list" by (induction xs) (simp_all add: map_filter_simps)
  then show ?thesis using assms by (simp add: read_policy_def Let_def policy_ceiling_def)
qed

subsection \<open>An example\<close>

definition sample_world :: file_world where
  "sample_world = \<lparr>fw_canon = (\<lambda>p. if path_root p then Some p else None), fw_is_file = (\<lambda>p. p = ''/w/a''), fw_is_dir = (\<lambda>_. False),
     fw_exists = (\<lambda>_. True), fw_project = (\<lambda>_. None), fw_scratch = (\<lambda>_. []), fw_home = None\<rparr>"

theorem served_exactly_witness:
  "serve_under (\<lambda>x. x) (Some ''key'') sample_world [] (RenderAllow [''/w'']) ''/w/a''
     (stamp_sign (\<lambda>x. x) (Some ''key'') CapFile ''/w/a'') = Inr ''/w/a''"
proof -
  have c: "canon_ok sample_world" by (auto simp: canon_ok_def sample_world_def split: if_splits)
  have "path_root ''/w/a''" "find_real sample_world [] ''/w/a'' = Some ''/w/a''" "fw_is_file sample_world ''/w/a''"
    "path_under ''/w/a'' ''/w''"
    by (simp_all add: sample_world_def find_real_def path_root_def path_under_def path_strip_prefix_def path_cur_def path_junk_def)
  moreover have "stamp_verify (\<lambda>x. x) (Some ''key'') CapFile ''/w/a'' (stamp_sign (\<lambda>x. x) (Some ''key'') CapFile ''/w/a'')"
    by (simp add: stamp_verify_iff stamp_sign_def)
  ultimately show ?thesis
    by (subst served_exactly [OF c]) (simp add: under_ceiling_def)
qed

end
