(* ===== verification/Send_Target.thy ===== *)
theory Send_Target
  imports Gate
begin

text \<open>
  Which process and pane a prompt for a session may be typed into, and when a finished session may be
  resumed instead (\<open>claude-monitor/src/index.rs\<close>): over one scan's rows, links and processes.  A hash map
  is an association list in any order; the extra agent patterns and the shared runtime's answer are
  arguments.
\<close>

subsection \<open>Processes\<close>

datatype vendor = VClaude | VCodex | VQoderwork | VQoder | VQwenwork | VOther

datatype mux = MuxTmux | MuxHerdr | MuxOther

datatype identity = IdMissing | IdVerified string | IdContinued string string

fun id_session :: "identity \<Rightarrow> string option" where
  "id_session IdMissing = None"
| "id_session (IdVerified s) = Some s"
| "id_session (IdContinued source s) = Some s"

datatype pane_addr = PaneTmux "string option" string | PaneHerdr "string option" string

text \<open>A process, a row and the state hold the fields of theirs that the decisions read.\<close>

record agent_proc =
  pc_pid :: nat
  pc_native :: identity
  pc_argv :: string
  pc_exe :: string
  pc_cwd :: "string option"
  pc_tty :: "string option"
  pc_stat :: "string option"
  pc_pane_tty :: "string option"
  pc_pane :: "string option"
  pc_tmux_sock :: "string option"
  pc_screen :: "string option"
  pc_herdr_pane :: "string option"
  pc_herdr_socket :: "string option"
  pc_inner_mux :: "mux option"
  pc_under_agent :: bool
  pc_cli_launch :: bool
  pc_parked :: bool

datatype agent_pattern = PatBasename string | PatArgv string

fun pattern_matches :: "agent_pattern \<Rightarrow> string \<Rightarrow> string \<Rightarrow> bool" where
  "pattern_matches (PatBasename n) exe argv = same_ignoring_case exe n"
| "pattern_matches (PatArgv n) exe argv = contains argv n"

definition builtin_agents :: "string list" where
  "builtin_agents = [''claude'', ''codex'', ''qoderwork'', ''qoder'', ''qwenwork'', ''qwenworkcn'']"

definition is_agent_exe :: "agent_pattern list \<Rightarrow> string \<Rightarrow> string \<Rightarrow> bool" where
  "is_agent_exe pats exe argv \<longleftrightarrow>
     list_ex (same_ignoring_case exe) builtin_agents \<or> list_ex (\<lambda>p. pattern_matches p exe argv) pats"

definition proc_agent :: "agent_proc \<Rightarrow> vendor option" where
  "proc_agent p =
     (let e = map to_lower (pc_exe p)
      in if e = ''claude'' then Some VClaude else if e = ''codex'' then Some VCodex
         else if e = ''qoderwork'' then Some VQoderwork else if e = ''qoder'' then Some VQoder
         else if e = ''qwenwork'' \<or> e = ''qwenworkcn'' then Some VQwenwork else None)"

definition proc_serves :: "agent_proc \<Rightarrow> vendor \<Rightarrow> bool" where
  "proc_serves p a \<longleftrightarrow> (case proc_agent p of None \<Rightarrow> True | Some b \<Rightarrow> b = a)"

definition is_helper :: "string \<Rightarrow> bool" where
  "is_helper argv \<longleftrightarrow>
     (case split_ws argv of _ # t # _ \<Rightarrow> t \<in> {''daemon'', ''bg-pty-host'', ''bg-spare''} | _ \<Rightarrow> False)
     \<or> list_ex (\<lambda>t. t = ''--bg-pty-host'' \<or> t = ''--bg-spare'') (split_ws argv)"

definition argv_says_one_shot :: "string \<Rightarrow> bool" where
  "argv_says_one_shot argv \<longleftrightarrow> list_ex (\<lambda>t. t = ''-p'' \<or> t = ''--print'') (split_ws argv)"

definition codex_value_options :: "string list" where
  "codex_value_options =
     [''-c'', ''--config'', ''--enable'', ''--disable'', ''--remote'', ''--remote-auth-token-env'', ''-i'', ''--image'',
      ''-m'', ''--model'', ''--local-provider'', ''-p'', ''--profile'', ''-s'', ''--sandbox'', ''-C'', ''--cd'', ''--add-dir'',
      ''-a'', ''--ask-for-approval'']"

fun codex_subcommand :: "string list \<Rightarrow> string option" where
  "codex_subcommand [] = None"
| "codex_subcommand [t] = (if starts_with t ''-'' then None else Some t)"
| "codex_subcommand (t # v # ts) =
     (if starts_with t ''-'' then
        (if t \<in> set codex_value_options then codex_subcommand ts else codex_subcommand (v # ts))
      else Some t)"

definition codex_headless :: "string \<Rightarrow> bool" where
  "codex_headless argv \<longleftrightarrow>
     codex_subcommand (drop 1 (split_ws argv)) \<in> {Some ''exec'', Some ''e'', Some ''review''}
     \<or> ''exec'' \<in> set (drop 1 (split_ws argv))"

definition one_shot :: "agent_proc \<Rightarrow> bool" where
  "one_shot p \<longleftrightarrow>
     (if proc_agent p = Some VCodex then codex_headless (pc_argv p)
      else \<not> pc_cli_launch p \<and> argv_says_one_shot (pc_argv p))"

subsection \<open>Terminals\<close>

datatype terminal = TermTmux string "string option" | TermHerdr string "string option" | TermScreen string | TermTty | TermDetached

definition tty_or_detached :: "agent_proc \<Rightarrow> terminal" where
  "tty_or_detached p = (if pc_tty p \<noteq> None then TermTty else TermDetached)"

text \<open>Without a herdr marker to believe, or with tmux nearer than it.\<close>

definition terminal_plain :: "agent_proc \<Rightarrow> terminal" where
  "terminal_plain p =
     (case (pc_pane p, pc_screen p) of
        (Some pane, sty) \<Rightarrow>
          (if sty \<noteq> None \<and> pc_inner_mux p = Some MuxOther then TermScreen (the sty)
           else if pc_inner_mux p \<noteq> Some MuxTmux then tty_or_detached p
           else TermTmux pane
             (case pc_tmux_sock p of
                Some s \<Rightarrow> (let b = last (split_on (CHR ''/'') s) in if b \<noteq> ''default'' then Some b else None)
              | None \<Rightarrow> None))
      | (None, Some sty) \<Rightarrow> TermScreen sty
      | (None, None) \<Rightarrow> tty_or_detached p)"

definition terminal_of :: "agent_proc \<Rightarrow> terminal" where
  "terminal_of p =
     (case pc_herdr_pane p of
        None \<Rightarrow> terminal_plain p
      | Some pane \<Rightarrow>
          (case (pc_inner_mux p, pc_herdr_socket p) of
             (Some MuxHerdr, Some socket) \<Rightarrow> TermHerdr pane (Some socket)
           | (Some MuxTmux, _) \<Rightarrow> if pc_pane p \<noteq> None then terminal_plain p else tty_or_detached p
           | (Some MuxOther, _) \<Rightarrow>
               (case pc_screen p of Some sty \<Rightarrow> TermScreen sty | None \<Rightarrow> tty_or_detached p)
           | _ \<Rightarrow> tty_or_detached p))"

fun terminal_addr :: "terminal \<Rightarrow> pane_addr option" where
  "terminal_addr (TermTmux pane sock) = Some (PaneTmux sock pane)"
| "terminal_addr (TermHerdr pane socket) = Some (PaneHerdr socket pane)"
| "terminal_addr _ = None"

fun is_herdr :: "pane_addr \<Rightarrow> bool" where
  "is_herdr (PaneHerdr _ _) = True"
| "is_herdr (PaneTmux _ _) = False"

fun addr_pane :: "pane_addr \<Rightarrow> string" where
  "addr_pane (PaneTmux _ p) = p"
| "addr_pane (PaneHerdr _ p) = p"

fun consent_sock :: "pane_addr \<Rightarrow> string option" where
  "consent_sock (PaneTmux sock _) = sock"
| "consent_sock (PaneHerdr socket _) = Some (''herdr:'' @ (case socket of Some s \<Rightarrow> s | None \<Rightarrow> ''default''))"

definition grant_follows :: "pane_addr \<Rightarrow> bool \<Rightarrow> bool" where
  "grant_follows addr named \<longleftrightarrow> named \<and> is_herdr addr"

subsection \<open>One scan\<close>

record send_link =
  sl_pid :: "nat option"
  sl_pane :: "pane_addr option"
  sl_confirmed :: bool
  sl_named :: bool

definition no_link :: send_link where
  "no_link = \<lparr>sl_pid = None, sl_pane = None, sl_confirmed = False, sl_named = False\<rparr>"

record session_row =
  sr_agent :: vendor
  sr_cwd :: "string option"
  sr_one_shot :: bool
  sr_spawned_by :: "string option"
  sr_continued_in :: "string option"

text \<open>\<open>xs_owns\<close>: a shared Codex runtime is required, and says whether it owns a session.\<close>

record scan_state =
  xs_owns :: "(string \<Rightarrow> bool) option"
  xs_rows :: "(string \<times> session_row) list"
  xs_procs :: "agent_proc list"
  xs_links :: "(string \<times> send_link) list"
  xs_started_by :: "(string \<times> string) list"

datatype send_refusal =
  NoSuchSession | SessionIsLive | ProjectHasActiveSession | UnsupportedAgent | SessionNotLive | UnprovenLink | NotInTmux
| NoConsent | HerdrClaudeOnly | PaneShared | PaneNotForeground | PaneOtherTerminal | ContinuedElsewhere | PaneParked

definition started_by :: "scan_state \<Rightarrow> string \<Rightarrow> string option" where
  "started_by st sid =
     (case map_of (xs_rows st) sid of
        None \<Rightarrow> None
      | Some row \<Rightarrow>
          (case (case map_of (xs_started_by st) sid of
                   Some p \<Rightarrow> Some p | None \<Rightarrow> if sr_one_shot row then sr_spawned_by row else None) of
             None \<Rightarrow> None
           | Some parent \<Rightarrow> if parent \<noteq> sid \<and> map_of (xs_rows st) parent \<noteq> None then Some parent else None))"

definition allow_session :: "scan_state \<Rightarrow> vendor \<Rightarrow> string \<Rightarrow> send_refusal option" where
  "allow_session st agent sid =
     (case xs_owns st of
        Some owns \<Rightarrow> if agent = VCodex \<and> owns sid then Some SessionIsLive else None
      | None \<Rightarrow> None)"

definition pane_target_from :: "vendor \<Rightarrow> send_link \<Rightarrow> send_refusal + nat \<times> pane_addr" where
  "pane_target_from agent link =
     (if agent \<noteq> VClaude \<and> agent \<noteq> VCodex then Inl UnsupportedAgent
      else case sl_pid link of
             None \<Rightarrow> Inl SessionNotLive
           | Some pid \<Rightarrow>
               (if \<not> sl_confirmed link then Inl UnprovenLink
                else case sl_pane link of
                       None \<Rightarrow> Inl NotInTmux
                     | Some addr \<Rightarrow> if is_herdr addr \<and> agent \<noteq> VClaude then Inl HerdrClaudeOnly else Inr (pid, addr)))"

definition project_has_other_live ::
  "string \<Rightarrow> string option \<Rightarrow> (string \<times> send_link) list \<Rightarrow> (string \<Rightarrow> string option) \<Rightarrow> (string \<Rightarrow> string option) \<Rightarrow> bool" where
  "project_has_other_live sid cwd links cwd_of starter =
     (case cwd of
        None \<Rightarrow> False
      | Some d \<Rightarrow>
          list_ex (\<lambda>(other, l). other \<noteq> sid \<and> sl_pid l \<noteq> None \<and> cwd_of other = Some d \<and> starter other \<noteq> Some sid) links)"

definition registry_identifies :: "agent_proc list \<Rightarrow> nat \<Rightarrow> string \<Rightarrow> bool" where
  "registry_identifies procs pid sid \<longleftrightarrow> list_ex (\<lambda>p. pc_pid p = pid \<and> id_session (pc_native p) = Some sid) procs"

definition beside_siblings :: "agent_proc list \<Rightarrow> nat \<Rightarrow> string \<Rightarrow> pane_addr \<Rightarrow> bool" where
  "beside_siblings procs pid sid addr \<longleftrightarrow> is_herdr addr \<and> registry_identifies procs pid sid"

definition pane_shared :: "agent_pattern list \<Rightarrow> agent_proc list \<Rightarrow> nat \<Rightarrow> pane_addr \<Rightarrow> bool" where
  "pane_shared pats procs pid addr =
     list_ex (\<lambda>p.
       if pc_pid p = pid then pc_under_agent p
       else is_agent_exe pats (pc_exe p) (pc_argv p)
         \<and> (\<not> pc_under_agent p \<or> is_herdr addr \<and> proc_serves p VClaude)
         \<and> \<not> is_helper (pc_argv p)
         \<and> \<not> (pc_under_agent p \<and> one_shot p)
         \<and> terminal_addr (terminal_of p) = Some addr) procs"

text \<open>Claude processes whose record names a session no live link has: the directories they occupy.\<close>

definition unresolved_cwds :: "agent_proc list \<Rightarrow> (string \<times> send_link) list \<Rightarrow> string list" where
  "unresolved_cwds procs links =
     List.map_filter pc_cwd
       (filter (\<lambda>p. \<not> is_helper (pc_argv p) \<and>
          (case id_session (pc_native p) of
             Some sid \<Rightarrow> (case map_of links sid of Some l \<Rightarrow> sl_pid l = None | None \<Rightarrow> True)
           | None \<Rightarrow> False)) procs)"

definition unresolved_writer :: "agent_proc list \<Rightarrow> vendor \<Rightarrow> string option \<Rightarrow> (string \<times> send_link) list \<Rightarrow> bool" where
  "unresolved_writer procs agent cwd links =
     (case cwd of Some d \<Rightarrow> agent = VClaude \<and> d \<in> set (unresolved_cwds procs links) | None \<Rightarrow> False)"

definition holds_foreground :: "string \<Rightarrow> bool" where
  "holds_foreground stat \<longleftrightarrow> CHR ''+'' \<in> set stat \<and> CHR ''T'' \<notin> set stat"

definition tmux_pane_refusal :: "agent_proc list \<Rightarrow> nat \<Rightarrow> pane_addr \<Rightarrow> send_refusal option" where
  "tmux_pane_refusal procs pid addr =
     (if is_herdr addr then None
      else case find (\<lambda>p. pc_pid p = pid) procs of
             None \<Rightarrow> None
           | Some p \<Rightarrow>
               (if (case pc_stat p of Some s \<Rightarrow> \<not> holds_foreground s | None \<Rightarrow> False) then Some PaneNotForeground
                else case (pc_tty p, pc_pane_tty p) of
                       (Some tty, Some pane) \<Rightarrow> if tty \<noteq> pane then Some PaneOtherTerminal else None
                     | _ \<Rightarrow> None))"

definition pid_parked :: "agent_proc list \<Rightarrow> nat \<Rightarrow> bool" where
  "pid_parked procs pid \<longleftrightarrow> list_ex (\<lambda>p. pc_pid p = pid \<and> pc_parked p) procs"

definition row_cwd :: "scan_state \<Rightarrow> vendor \<Rightarrow> string \<Rightarrow> string option" where
  "row_cwd st agent sid =
     (case map_of (xs_rows st) sid of Some r \<Rightarrow> if sr_agent r = agent then sr_cwd r else None | None \<Rightarrow> None)"

definition link_of :: "scan_state \<Rightarrow> string \<Rightarrow> send_link" where
  "link_of st sid = (case map_of (xs_links st) sid of Some l \<Rightarrow> l | None \<Rightarrow> no_link)"

definition pane_send_target :: "agent_pattern list \<Rightarrow> scan_state \<Rightarrow> string \<Rightarrow> send_refusal + nat \<times> pane_addr" where
  "pane_send_target pats st sid =
     (case map_of (xs_rows st) sid of
        None \<Rightarrow> Inl NoSuchSession
      | Some row \<Rightarrow>
     (case allow_session st (sr_agent row) sid of
        Some e \<Rightarrow> Inl e
      | None \<Rightarrow>
     (case pane_target_from (sr_agent row) (link_of st sid) of
        Inl e \<Rightarrow> Inl e
      | Inr (pid, addr) \<Rightarrow>
          (if pid_parked (xs_procs st) pid then Inl PaneParked
           else if pane_shared pats (xs_procs st) pid addr then Inl PaneShared
           else case tmux_pane_refusal (xs_procs st) pid addr of
                  Some e \<Rightarrow> Inl e
                | None \<Rightarrow>
                    (if \<not> beside_siblings (xs_procs st) pid sid addr
                        \<and> (unresolved_writer (xs_procs st) (sr_agent row) (sr_cwd row) (xs_links st)
                           \<or> project_has_other_live sid (sr_cwd row) (xs_links st) (row_cwd st (sr_agent row)) (started_by st))
                     then Inl ProjectHasActiveSession else Inr (pid, addr))))))"

subsection \<open>Resuming a finished session\<close>

definition moved_on :: "scan_state \<Rightarrow> string \<Rightarrow> string option" where
  "moved_on st sid =
     (case map_of (xs_rows st) sid of
        None \<Rightarrow> None
      | Some row \<Rightarrow>
          (case sr_continued_in row of
             None \<Rightarrow> None
           | Some c \<Rightarrow>
               (if c \<noteq> sid \<and> (case map_of (xs_rows st) c of Some t \<Rightarrow> sr_agent t = sr_agent row | None \<Rightarrow> True)
                then Some c else None)))"

definition send_liveness_ok :: "scan_state \<Rightarrow> string \<Rightarrow> vendor \<Rightarrow> string option \<Rightarrow> send_refusal option" where
  "send_liveness_ok st sid agent cwd =
     (if sl_pid (link_of st sid) \<noteq> None then Some SessionIsLive
      else if unresolved_writer (xs_procs st) agent cwd (xs_links st)
           \<or> project_has_other_live sid cwd (xs_links st) (row_cwd st agent) (started_by st)
        then Some ProjectHasActiveSession
      else None)"

definition resume_target :: "scan_state \<Rightarrow> string \<Rightarrow> send_refusal + string \<times> vendor \<times> string option" where
  "resume_target st sid =
     (case map_of (xs_rows st) sid of
        None \<Rightarrow> Inl NoSuchSession
      | Some row \<Rightarrow>
     (case allow_session st (sr_agent row) sid of
        Some e \<Rightarrow> Inl e
      | None \<Rightarrow>
          (if sr_agent row \<noteq> VClaude \<and> sr_agent row \<noteq> VCodex then Inl UnsupportedAgent
           else if sl_pid (link_of st sid) = None \<and> moved_on st sid \<noteq> None then Inl ContinuedElsewhere
           else case send_liveness_ok st sid (sr_agent row) (sr_cwd row) of
                  Some e \<Rightarrow> Inl e
                | None \<Rightarrow> Inr (sid, sr_agent row, sr_cwd row))))"

end
