(* ===== verification/Consent.thy ===== *)
theory Consent
  imports Send_Target
begin

text \<open>
  Typing into a live agent's pane (\<open>claude-monitor/src/consent.rs\<close> and the routes of \<open>control.rs\<close>): the grants
  and the passcode as their files, the lockout, the consent route and the send's decision up to the
  point where keys go out.  Printing and parsing JSON, SHA-256, the salt, the clocks and what each file
  operation answers are arguments; an instant is nanoseconds since some start.
\<close>

subsection \<open>Files\<close>

text \<open>How a write of a secret file ends: it truncates first, so a failed one leaves the start of the text.\<close>

datatype write_end = WriteOk | WriteNoOpen | WriteTorn nat

definition write_0600 :: "write_end \<Rightarrow> string \<Rightarrow> string option \<Rightarrow> bool \<times> string option" where
  "write_0600 we text f =
     (case we of
        WriteOk \<Rightarrow> (True, Some text)
      | WriteNoOpen \<Rightarrow> (False, f)
      | WriteTorn k \<Rightarrow> (False, Some (take (min k (length text - 1)) text)))"

record json_codec =
  jt_print :: "json \<Rightarrow> string"
  jt_parse :: "string \<Rightarrow> json option"

definition get_u64 :: "json \<Rightarrow> string \<Rightarrow> nat option" where
  "get_u64 v k =
     (case json_get v k of Some (JInt n) \<Rightarrow> if 0 \<le> n \<and> nat n \<le> u64_max then Some (nat n) else None | _ \<Rightarrow> None)"

subsection \<open>Grants\<close>

definition grant_ttl :: nat where "grant_ttl = 8 * 3600"

record grant =
  gn_sock :: "string option"
  gn_pane :: string
  gn_sid :: string
  gn_pid :: nat
  gn_granted_at :: nat
  gn_expires_at :: nat

definition grant_to_value :: "grant \<Rightarrow> json" where
  "grant_to_value g =
     JObj [(''expires_at'', JInt (int (gn_expires_at g))), (''granted_at'', JInt (int (gn_granted_at g))),
       (''pane'', JStr (gn_pane g)), (''pid'', JInt (int (gn_pid g))), (''sid'', JStr (gn_sid g)),
       (''sock'', case gn_sock g of Some s \<Rightarrow> JStr s | None \<Rightarrow> JNull)]"

definition grant_from_value :: "json \<Rightarrow> grant option" where
  "grant_from_value v =
     (case (get_str v ''pane'', get_str v ''sid'', get_u64 v ''pid'', get_u64 v ''granted_at'', get_u64 v ''expires_at'') of
        (Some pane, Some sid, Some pid, Some a, Some e) \<Rightarrow>
          (if pid < 2 ^ 32 then
             Some \<lparr>gn_sock = get_str v ''sock'', gn_pane = pane, gn_sid = sid, gn_pid = pid, gn_granted_at = a, gn_expires_at = e\<rparr>
           else None)
      | _ \<Rightarrow> None)"

definition granted_exactly :: "grant list \<Rightarrow> string option \<Rightarrow> string \<Rightarrow> string \<Rightarrow> nat \<Rightarrow> nat \<Rightarrow> bool" where
  "granted_exactly gs sock pane sid pid now \<longleftrightarrow>
     list_ex (\<lambda>g. gn_sock g = sock \<and> gn_pane g = pane \<and> gn_sid g = sid \<and> gn_pid g = pid \<and> now < gn_expires_at g) gs"

definition carried :: "grant list \<Rightarrow> string option \<Rightarrow> string \<Rightarrow> string \<Rightarrow> nat \<Rightarrow> bool \<Rightarrow> nat \<Rightarrow> bool" where
  "carried gs sock pane sid pid follows now \<longleftrightarrow>
     follows \<and> (case sock of Some s \<Rightarrow> starts_with s ''herdr:'' | None \<Rightarrow> False)
     \<and> list_ex (\<lambda>g. gn_sock g = sock \<and> gn_pane g = pane \<and> gn_sid g = sid \<and> gn_pid g \<noteq> pid \<and> now < gn_expires_at g) gs"

definition covers :: "grant list \<Rightarrow> string option \<Rightarrow> string \<Rightarrow> string \<Rightarrow> nat \<Rightarrow> bool \<Rightarrow> nat \<Rightarrow> bool" where
  "covers gs sock pane sid pid follows now \<longleftrightarrow>
     granted_exactly gs sock pane sid pid now \<or> carried gs sock pane sid pid follows now"

definition prune :: "nat \<Rightarrow> grant list \<Rightarrow> grant list" where
  "prune now gs = filter (\<lambda>g. now < gn_expires_at g) gs"

text \<open>\<open>f\<close>: the file's bytes, \<open>None\<close> when it is absent or cannot be read.\<close>

definition load_grants :: "json_codec \<Rightarrow> string option \<Rightarrow> grant list" where
  "load_grants jt f =
     (case f of
        None \<Rightarrow> []
      | Some raw \<Rightarrow> (case jt_parse jt raw of Some (JArr items) \<Rightarrow> List.map_filter grant_from_value items | _ \<Rightarrow> []))"

definition save_grants :: "json_codec \<Rightarrow> write_end \<Rightarrow> grant list \<Rightarrow> string option \<Rightarrow> bool \<times> string option" where
  "save_grants jt we gs f = write_0600 we (jt_print jt (JArr (map grant_to_value gs))) f"

definition make_grant :: "string option \<Rightarrow> string \<Rightarrow> string \<Rightarrow> nat \<Rightarrow> nat \<Rightarrow> grant" where
  "make_grant sock pane sid pid now =
     \<lparr>gn_sock = sock, gn_pane = pane, gn_sid = sid, gn_pid = pid, gn_granted_at = now,
      gn_expires_at = (now + grant_ttl) mod 2 ^ 64\<rparr>"

definition store_grant ::
  "json_codec \<Rightarrow> write_end \<Rightarrow> string option \<Rightarrow> string \<Rightarrow> string \<Rightarrow> nat \<Rightarrow> nat \<Rightarrow> string option \<Rightarrow> bool \<times> string option" where
  "store_grant jt we sock pane sid pid now f =
     save_grants jt we
       (filter (\<lambda>g. \<not> (gn_sock g = sock \<and> gn_pane g = pane \<and> gn_sid g = sid)) (prune now (load_grants jt f))
        @ [make_grant sock pane sid pid now]) f"

definition store_revoke :: "json_codec \<Rightarrow> write_end \<Rightarrow> string \<Rightarrow> nat \<Rightarrow> string option \<Rightarrow> string option" where
  "store_revoke jt we sid now f =
     (let gs = load_grants jt f; kept = filter (\<lambda>g. gn_sid g \<noteq> sid) (prune now gs)
      in if length kept \<noteq> length gs then snd (save_grants jt we kept f) else f)"

definition active_grants :: "json_codec \<Rightarrow> nat \<Rightarrow> string option \<Rightarrow> grant list" where
  "active_grants jt now f = prune now (load_grants jt f)"

subsection \<open>The passcode\<close>

definition pass_iters :: nat where "pass_iters = 100000"

definition derive_hash :: "(string \<Rightarrow> string) \<Rightarrow> string \<Rightarrow> nat \<Rightarrow> string \<Rightarrow> string" where
  "derive_hash sha salt iters plain = ((\<lambda>h. sha (salt @ h)) ^^ (max iters 1 - 1)) (sha (salt @ plain))"

definition byte_array :: "string \<Rightarrow> json" where
  "byte_array s = JArr (map (\<lambda>c. JInt (int (byte c))) s)"

fun json_byte :: "json \<Rightarrow> char option" where
  "json_byte (JInt n) = (if 0 \<le> n \<and> n < 256 then Some (char_of (nat n)) else None)"
| "json_byte _ = None"

definition get_bytes :: "json \<Rightarrow> string \<Rightarrow> string option" where
  "get_bytes v k = (case json_get v k of Some (JArr xs) \<Rightarrow> those (map json_byte xs) | _ \<Rightarrow> None)"

definition load_passcode :: "json_codec \<Rightarrow> string option \<Rightarrow> (string \<times> string \<times> nat) option" where
  "load_passcode jt f =
     (case f of
        None \<Rightarrow> None
      | Some raw \<Rightarrow>
          (case jt_parse jt raw of
             None \<Rightarrow> None
           | Some v \<Rightarrow>
               (case (get_bytes v ''salt'', get_bytes v ''hash'', get_u64 v ''iters'') of
                  (Some salt, Some hash, Some n) \<Rightarrow>
                    (if n < 2 ^ 32 \<and> salt \<noteq> [] \<and> hash \<noteq> [] then Some (salt, hash, n) else None)
                | _ \<Rightarrow> None)))"

definition passcode_is_set :: "json_codec \<Rightarrow> string option \<Rightarrow> bool" where
  "passcode_is_set jt f \<longleftrightarrow> load_passcode jt f \<noteq> None"

text \<open>An empty one clears the file; \<open>salt\<close> is the sixteen random bytes.\<close>

definition passcode_set ::
  "json_codec \<Rightarrow> (string \<Rightarrow> string) \<Rightarrow> write_end \<Rightarrow> string \<Rightarrow> string \<Rightarrow> string option \<Rightarrow> bool \<times> string option" where
  "passcode_set jt sha we salt plain f =
     (if plain = [] then (if we = WriteOk then (True, None) else (False, f))
      else write_0600 we
             (jt_print jt (JObj [(''hash'', byte_array (derive_hash sha salt pass_iters plain)),
                (''iters'', JInt (int pass_iters)), (''salt'', byte_array salt)])) f)"

definition passcode_verify :: "json_codec \<Rightarrow> (string \<Rightarrow> string) \<Rightarrow> string option \<Rightarrow> string \<Rightarrow> bool" where
  "passcode_verify jt sha f plain =
     (case load_passcode jt f of Some (salt, hash, n) \<Rightarrow> ct_eq (derive_hash sha salt n plain) hash | None \<Rightarrow> False)"

record attempts =
  am_fails :: nat
  am_until :: "nat option"

datatype pass_verdict = PassOk | PassLocked nat | PassRequired | PassBad

definition second :: nat where "second = 1000000000"
definition lockout :: nat where "lockout = 30 * second"

text \<open>An attempt outside a lockout; the fifth wrong one arms the next.\<close>

definition passcode_try :: "string \<Rightarrow> attempts \<Rightarrow> (string \<Rightarrow> bool) \<Rightarrow> nat \<Rightarrow> pass_verdict \<times> attempts" where
  "passcode_try submitted am verify now =
     (if submitted = [] then (PassRequired, am)
      else if \<not> verify submitted then
        (PassBad, if 5 \<le> am_fails am + 1 then am\<lparr>am_until := Some (now + lockout), am_fails := 0\<rparr>
                  else am\<lparr>am_fails := am_fails am + 1\<rparr>)
      else (PassOk, am\<lparr>am_fails := 0\<rparr>))"

definition passcode_verdict :: "string \<Rightarrow> attempts \<Rightarrow> (string \<Rightarrow> bool) \<Rightarrow> nat \<Rightarrow> pass_verdict \<times> attempts" where
  "passcode_verdict body am verify now =
     (let submitted = trim (utf8_lossy body)
      in case am_until am of
           Some u \<Rightarrow>
             (if now < u then (PassLocked ((u - now) div second + 1), am)
              else passcode_try submitted (am\<lparr>am_until := None\<rparr>) verify now)
         | None \<Rightarrow> passcode_try submitted am verify now)"

subsection \<open>Routes\<close>

record pane_target =
  pn_sid :: string
  pn_pid :: nat
  pn_addr :: pane_addr
  pn_named :: bool

definition resolve_pane_send :: "agent_pattern list \<Rightarrow> scan_state \<Rightarrow> string \<Rightarrow> send_refusal + pane_target" where
  "resolve_pane_send pats st sid =
     (case pane_send_target pats st sid of
        Inl e \<Rightarrow> Inl e
      | Inr (pid, addr) \<Rightarrow> Inr \<lparr>pn_sid = sid, pn_pid = pid, pn_addr = addr, pn_named = sl_named (link_of st sid)\<rparr>)"

text \<open>The reader's grant covers this pane and process, at the time of the send.\<close>

definition target_granted :: "json_codec \<Rightarrow> string option \<Rightarrow> nat \<Rightarrow> pane_target \<Rightarrow> bool" where
  "target_granted jt consents now t =
     covers (load_grants jt consents) (consent_sock (pn_addr t)) (addr_pane (pn_addr t)) (pn_sid t) (pn_pid t)
       (grant_follows (pn_addr t) (pn_named t)) now"

record monitor_state =
  mo_consents :: "string option"
  mo_passcode :: "string option"
  mo_attempts :: attempts

datatype consent_reply =
  ConsentDenied refused_by | ConsentNoTarget | ConsentRevoked | ConsentRefused send_refusal | ConsentPass pass_verdict
| ConsentGranted | ConsentFailed

text \<open>What the route meets: one scan, the clocks, and how the write of the grants ends.\<close>

record route_world =
  rw_pats :: "agent_pattern list"
  rw_scan :: scan_state
  rw_now :: nat
  rw_instant :: nat
  rw_write :: write_end

definition route_target :: "http_request \<Rightarrow> string option" where
  "route_target rq = map_option percent_decode (query_get (rq_query rq) ''target'')"

definition consent_route ::
  "json_codec \<Rightarrow> (string \<Rightarrow> string) \<Rightarrow> route_world \<Rightarrow> http_request \<Rightarrow> monitor_state \<Rightarrow> consent_reply \<times> monitor_state" where
  "consent_route jt sha w rq ms =
     (case deny_write rq of
        Some why \<Rightarrow> (ConsentDenied why, ms)
      | None \<Rightarrow>
     (case route_target rq of
        None \<Rightarrow> (ConsentNoTarget, ms)
      | Some sid \<Rightarrow>
     (if query_get (rq_query rq) ''op'' = Some ''revoke'' then
        (ConsentRevoked, ms\<lparr>mo_consents := store_revoke jt (rw_write w) sid (rw_now w) (mo_consents ms)\<rparr>)
      else
     (case resolve_pane_send (rw_pats w) (rw_scan w) sid of
        Inl e \<Rightarrow> (ConsentRefused e, ms)
      | Inr t \<Rightarrow>
          (let (verdict, am) =
             (if passcode_is_set jt (mo_passcode ms) then
                passcode_verdict (rq_body rq) (mo_attempts ms) (passcode_verify jt sha (mo_passcode ms)) (rw_instant w)
              else (PassOk, mo_attempts ms));
               ms' = ms\<lparr>mo_attempts := am\<rparr>
           in if verdict \<noteq> PassOk then (ConsentPass verdict, ms')
              else case store_grant jt (rw_write w) (consent_sock (pn_addr t)) (addr_pane (pn_addr t)) (pn_sid t) (pn_pid t)
                          (rw_now w) (mo_consents ms') of
                     (ok, f) \<Rightarrow> (if ok then ConsentGranted else ConsentFailed, ms'\<lparr>mo_consents := f\<rparr>))))))"

definition send_prompt_bytes :: nat where "send_prompt_bytes = 64 * 1024"

text \<open>
  The body of a send: plain text, or with \<open>images=1\<close> what \<open>with_images\<close> makes of the JSON (the checks of the
  images are left to it); \<open>None\<close> is an answer that says what is wrong.
\<close>

definition parse_send_body :: "(string \<Rightarrow> (string \<times> nat) option) \<Rightarrow> string \<Rightarrow> bool \<Rightarrow> (string \<times> nat) option" where
  "parse_send_body with_images body imgs =
     (if imgs then with_images body
      else if send_prompt_bytes < length body then None else Some (trim (utf8_lossy body), 0))"

datatype send_reply =
  SendDenied refused_by | SendBadBody | SendNoTarget | SendEmpty | SendHerdrOnly | SendRefusedBy send_refusal | SendNoConsent
| SendResume string vendor "string option" string
| SendTypes pane_target string

text \<open>\<open>w\<close> is the world of the first scan, \<open>st2\<close> the second scan a live session gets.\<close>

definition send_pane_checked :: "json_codec \<Rightarrow> route_world \<Rightarrow> scan_state \<Rightarrow> string option \<Rightarrow> string \<Rightarrow> string \<Rightarrow> nat \<Rightarrow> send_reply" where
  "send_pane_checked jt w st2 consents sid prompt imgs =
     (case resolve_pane_send (rw_pats w) st2 sid of
        Inl e \<Rightarrow> SendRefusedBy e
      | Inr t \<Rightarrow>
          (if imgs \<noteq> 0 \<and> \<not> is_herdr (pn_addr t) then SendHerdrOnly
           else if \<not> target_granted jt consents (rw_now w) t then SendNoConsent
           else SendTypes t prompt))"

definition send_route ::
  "json_codec \<Rightarrow> (string \<Rightarrow> (string \<times> nat) option) \<Rightarrow> route_world \<Rightarrow> scan_state \<Rightarrow> string option \<Rightarrow> http_request \<Rightarrow> send_reply" where
  "send_route jt with_images w st2 consents rq =
     (case deny_write rq of
        Some why \<Rightarrow> SendDenied why
      | None \<Rightarrow>
     (case parse_send_body with_images (rq_body rq) (query_get (rq_query rq) ''images'' = Some ''1'') of
        None \<Rightarrow> SendBadBody
      | Some (prompt, imgs) \<Rightarrow>
     (case route_target rq of
        None \<Rightarrow> SendNoTarget
      | Some sid \<Rightarrow>
          (if prompt = [] \<and> imgs = 0 then SendEmpty
           else case resume_target (rw_scan w) sid of
                  Inr (s, agent, cwd) \<Rightarrow> if imgs \<noteq> 0 then SendHerdrOnly else SendResume s agent cwd prompt
                | Inl e \<Rightarrow>
                    (if e = SessionIsLive then send_pane_checked jt w st2 consents sid prompt imgs
                     else SendRefusedBy e)))))"

end
