(* ===== verification/Send_Props.thy ===== *)
theory Send_Props
  imports Send_Target
begin

text \<open>
  What the send decision guarantees of one scan: where a prompt may be typed, and that a session is never
  offered both a pane and a resume.
\<close>

text \<open>A process other than \<open>pid\<close> may be reading what is typed at the address.\<close>

definition reads_pane :: "agent_pattern list \<Rightarrow> pane_addr \<Rightarrow> agent_proc \<Rightarrow> bool" where
  "reads_pane pats addr p \<longleftrightarrow>
     is_agent_exe pats (pc_exe p) (pc_argv p) \<and> \<not> is_helper (pc_argv p) \<and> terminal_addr (terminal_of p) = Some addr
     \<and> (\<not> pc_under_agent p \<or> is_herdr addr \<and> proc_serves p VClaude \<and> \<not> one_shot p)"

text \<open>Another session drives the same directory: live, of the same agent, and not started by this one.\<close>

definition rival :: "scan_state \<Rightarrow> string \<Rightarrow> session_row \<Rightarrow> string \<Rightarrow> bool" where
  "rival st sid row other \<longleftrightarrow>
     other \<noteq> sid \<and> (\<exists>l. (other, l) \<in> set (xs_links st) \<and> sl_pid l \<noteq> None) \<and> sr_cwd row \<noteq> None
     \<and> row_cwd st (sr_agent row) other = sr_cwd row \<and> started_by st other \<noteq> Some sid"

lemma pane_shared_iff:
  "pane_shared pats procs pid addr \<longleftrightarrow>
     (\<exists>p \<in> set procs. pc_pid p = pid \<and> pc_under_agent p) \<or> (\<exists>p \<in> set procs. pc_pid p \<noteq> pid \<and> reads_pane pats addr p)"
  unfolding pane_shared_def reads_pane_def list_ex_iff by (auto split: if_splits)

lemma rival_iff:
  "project_has_other_live sid (sr_cwd row) (xs_links st) (row_cwd st (sr_agent row)) (started_by st) \<longleftrightarrow> (\<exists>other. rival st sid row other)"
  by (cases "sr_cwd row") (auto simp: project_has_other_live_def rival_def list_ex_iff)

lemma pane_target_from_ok:
  "pane_target_from agent link = Inr (pid, addr) \<longleftrightarrow>
     (agent = VClaude \<or> agent = VCodex \<and> \<not> is_herdr addr) \<and> sl_pid link = Some pid \<and> sl_confirmed link \<and> sl_pane link = Some addr"
  by (auto simp: pane_target_from_def split: option.splits)

text \<open>C30: Where a prompt may be typed.  The send to a live session names a process and pane exactly when the
  session's link is proven and in a pane, the process neither runs below another agent nor parked its
  conversation, no other agent may be reading that pane, a tmux process that was read holds its pane's
  foreground and terminal, and no rival session drives the directory, unless the pane is herdr's and
  the process's own record names the session.\<close>

theorem pane_send_exactly:
  "pane_send_target pats st sid = Inr (pid, addr) \<longleftrightarrow>
    (\<exists>row. map_of (xs_rows st) sid = Some row \<and> allow_session st (sr_agent row) sid = None
      \<and> (sr_agent row = VClaude \<or> sr_agent row = VCodex \<and> \<not> is_herdr addr)
      \<and> sl_pid (link_of st sid) = Some pid \<and> sl_confirmed (link_of st sid) \<and> sl_pane (link_of st sid) = Some addr
      \<and> (\<forall>p \<in> set (xs_procs st). if pc_pid p = pid then \<not> pc_parked p \<and> \<not> pc_under_agent p else \<not> reads_pane pats addr p)
      \<and> tmux_pane_refusal (xs_procs st) pid addr = None
      \<and> (is_herdr addr \<and> (\<exists>p \<in> set (xs_procs st). pc_pid p = pid \<and> id_session (pc_native p) = Some sid)
         \<or> \<not> unresolved_writer (xs_procs st) (sr_agent row) (sr_cwd row) (xs_links st) \<and> (\<nexists>other. rival st sid row other)))"
proof (cases "map_of (xs_rows st) sid")
  case None
  then show ?thesis by (simp add: pane_send_target_def)
next
  case (Some row)
  let ?procs = "xs_procs st"
  have beside: "beside_siblings ?procs pid sid addr
      \<longleftrightarrow> is_herdr addr \<and> (\<exists>p \<in> set ?procs. pc_pid p = pid \<and> id_session (pc_native p) = Some sid)"
    by (auto simp: beside_siblings_def registry_identifies_def list_ex_iff)
  have quiet: "\<not> pid_parked ?procs pid \<and> \<not> pane_shared pats ?procs pid addr
      \<longleftrightarrow> (\<forall>p \<in> set ?procs. if pc_pid p = pid then \<not> pc_parked p \<and> \<not> pc_under_agent p else \<not> reads_pane pats addr p)"
    by (auto simp: pid_parked_def pane_shared_iff list_ex_iff)
  have "pane_send_target pats st sid = Inr (pid, addr) \<longleftrightarrow>
      allow_session st (sr_agent row) sid = None \<and> pane_target_from (sr_agent row) (link_of st sid) = Inr (pid, addr)
      \<and> \<not> pid_parked ?procs pid \<and> \<not> pane_shared pats ?procs pid addr \<and> tmux_pane_refusal ?procs pid addr = None
      \<and> (beside_siblings ?procs pid sid addr
         \<or> \<not> unresolved_writer ?procs (sr_agent row) (sr_cwd row) (xs_links st) \<and> (\<nexists>other. rival st sid row other))"
    using Some by (auto simp: pane_send_target_def rival_iff split: option.splits sum.splits if_splits)
  then show ?thesis unfolding pane_target_from_ok beside quiet [symmetric] using Some by auto
qed

text \<open>
  A session offered a resume has no live process, is refused a pane send for just that, did not go on elsewhere,
  and no rival session drives its directory.
\<close>

lemma resume_excludes_pane:
  assumes "resume_target st sid = Inr t"
  shows "pane_send_target pats st sid = Inl SessionNotLive" and "moved_on st sid = None"
    and "map_of (xs_rows st) sid = Some row \<Longrightarrow> \<nexists>other. rival st sid row other"
proof -
  obtain row' where row: "map_of (xs_rows st) sid = Some row'" "allow_session st (sr_agent row') sid = None"
    "sr_agent row' = VClaude \<or> sr_agent row' = VCodex"
    and l: "sl_pid (link_of st sid) = None \<longrightarrow> moved_on st sid = None"
    "send_liveness_ok st sid (sr_agent row') (sr_cwd row') = None"
    using assms by (auto simp: resume_target_def split: option.splits if_splits)
  then have n: "sl_pid (link_of st sid) = None"
    "\<not> project_has_other_live sid (sr_cwd row') (xs_links st) (row_cwd st (sr_agent row')) (started_by st)"
    by (auto simp: send_liveness_ok_def split: if_splits)
  then show "moved_on st sid = None" using l by simp
  show "pane_send_target pats st sid = Inl SessionNotLive"
    using row n(1) by (auto simp: pane_send_target_def pane_target_from_def)
  show "\<nexists>other. rival st sid row other" if "map_of (xs_rows st) sid = Some row"
    using n(2) that row(1) by (simp add: rival_iff)
qed

subsection \<open>An example\<close>

definition sample_proc :: agent_proc where
  "sample_proc = \<lparr>pc_pid = 7, pc_native = IdMissing, pc_argv = ''claude'', pc_exe = ''claude'', pc_cwd = Some ''/w'',
     pc_tty = Some ''tty1'', pc_stat = Some ''S+'', pc_pane_tty = Some ''tty1'', pc_pane = Some ''%1'', pc_tmux_sock = None,
     pc_screen = None, pc_herdr_pane = None, pc_herdr_socket = None, pc_inner_mux = Some MuxTmux,
     pc_under_agent = False, pc_cli_launch = False, pc_parked = False\<rparr>"

definition sample_scan :: scan_state where
  "sample_scan = \<lparr>xs_owns = None,
     xs_rows = [(''s'', \<lparr>sr_agent = VClaude, sr_cwd = Some ''/w'', sr_one_shot = False, sr_spawned_by = None, sr_continued_in = None\<rparr>)],
     xs_procs = [sample_proc],
     xs_links = [(''s'', \<lparr>sl_pid = Some 7, sl_pane = Some (PaneTmux None ''%1''), sl_confirmed = True, sl_named = False\<rparr>)],
     xs_started_by = []\<rparr>"

theorem pane_send_exactly_witness: "pane_send_target [] sample_scan ''s'' = Inr (7, PaneTmux None ''%1'')"
  by (subst pane_send_exactly)
    (simp add: sample_scan_def sample_proc_def link_of_def allow_session_def tmux_pane_refusal_def holds_foreground_def
      unresolved_writer_def unresolved_cwds_def map_filter_simps rival_def)

end
