(* ===== verification/Consent_Props.thy ===== *)
theory Consent_Props
  imports Consent Send_Props Gate_Props "HOL-Library.Countable"
begin

text \<open>
  What consent guarantees over any run of the routes and the passcode command, and where it fails: keys go only
  to a pane whose session was granted, the passcode's guesses are bounded in time, a revoke can be lost,
  and a torn passcode file opens the gate.
\<close>

subsection \<open>The file of grants\<close>

definition grants_text :: "json_codec \<Rightarrow> grant list \<Rightarrow> string" where
  "grants_text jt gs = jt_print jt (JArr (map grant_to_value gs))"

definition small_grant :: "grant \<Rightarrow> bool" where
  "small_grant g \<longleftrightarrow> gn_pid g < 2 ^ 32 \<and> gn_granted_at g \<le> u64_max \<and> gn_expires_at g \<le> u64_max"

text \<open>A printed list of grants is some text that parses back, and no part of it that lacks its end parses.\<close>

definition json_codec_ok :: "json_codec \<Rightarrow> bool" where
  "json_codec_ok jt \<longleftrightarrow>
     (\<forall>gs. list_all small_grant gs \<longrightarrow> grants_text jt gs \<noteq> [] \<and> jt_parse jt (grants_text jt gs) = Some (JArr (map grant_to_value gs))
        \<and> (\<forall>k < length (grants_text jt gs). jt_parse jt (take k (grants_text jt gs)) = None))"

lemma grant_value_roundtrip: "small_grant g \<Longrightarrow> grant_from_value (grant_to_value g) = Some g"
  by (cases "gn_sock g") (simp_all add: grant_from_value_def grant_to_value_def small_grant_def get_u64_def get_str_def u64_max_def)

lemma grants_from_values: "list_all small_grant gs \<Longrightarrow> List.map_filter grant_from_value (map grant_to_value gs) = gs"
  by (induction gs) (simp_all add: map_filter_simps grant_value_roundtrip)

lemma load_whole: "json_codec_ok jt \<Longrightarrow> list_all small_grant gs \<Longrightarrow> load_grants jt (Some (grants_text jt gs)) = gs"
  by (simp add: load_grants_def json_codec_ok_def grants_from_values)

lemma load_torn:
  assumes "json_codec_ok jt" and "list_all small_grant gs"
  shows "load_grants jt (Some (take (min k (length (grants_text jt gs) - 1)) (grants_text jt gs))) = []"
proof -
  have "grants_text jt gs \<noteq> []" using assms by (simp add: json_codec_ok_def)
  then have "min k (length (grants_text jt gs) - 1) < length (grants_text jt gs)" by (simp add: min_less_iff_disj)
  then have "jt_parse jt (take (min k (length (grants_text jt gs) - 1)) (grants_text jt gs)) = None"
    using assms by (simp add: json_codec_ok_def)
  then show ?thesis by (simp add: load_grants_def)
qed

text \<open>The file any run leaves: none, a whole list or a torn one.\<close>

definition grants_file_ok :: "json_codec \<Rightarrow> string option \<Rightarrow> bool" where
  "grants_file_ok jt f \<longleftrightarrow> list_all small_grant (load_grants jt f)"

lemma save_cases:
  assumes "json_codec_ok jt" and "list_all small_grant gs" and "save_grants jt we gs f = (ok, f')"
  shows "ok = (we = WriteOk)"
    and "load_grants jt f' = (case we of WriteOk \<Rightarrow> gs | WriteNoOpen \<Rightarrow> load_grants jt f | WriteTorn k \<Rightarrow> [])"
  using assms load_whole [OF assms(1,2)] load_torn [OF assms(1,2)]
  by (auto simp: save_grants_def write_0600_def grants_text_def split: write_end.splits)

subsection \<open>Runs\<close>

datatype monitor_event = MeRoute route_world http_request | MePasscode write_end string string

definition mon_step :: "json_codec \<Rightarrow> (string \<Rightarrow> string) \<Rightarrow> monitor_event \<Rightarrow> monitor_state \<Rightarrow> monitor_state" where
  "mon_step jt sha ev ms =
     (case ev of
        MeRoute w rq \<Rightarrow> snd (consent_route jt sha w rq ms)
      | MePasscode we salt plain \<Rightarrow> ms\<lparr>mo_passcode := snd (passcode_set jt sha we salt plain (mo_passcode ms))\<rparr>)"

definition mon_run :: "json_codec \<Rightarrow> (string \<Rightarrow> string) \<Rightarrow> monitor_state \<Rightarrow> monitor_event list \<Rightarrow> monitor_state" where
  "mon_run jt sha ms evs = foldl (\<lambda>ms ev. mon_step jt sha ev ms) ms evs"

lemma mon_run_snoc [simp]: "mon_run jt sha ms (evs @ [ev]) = mon_step jt sha ev (mon_run jt sha ms evs)"
  by (simp add: mon_run_def)

text \<open>A paired, same-origin revoke of the session whose write did at least open the file.\<close>

fun revokes :: "string \<Rightarrow> monitor_event \<Rightarrow> bool" where
  "revokes sid (MeRoute w rq) \<longleftrightarrow>
     deny_write rq = None \<and> route_target rq = Some sid \<and> query_get (rq_query rq) ''op'' = Some ''revoke'' \<and> rw_write w \<noteq> WriteNoOpen"
| "revokes sid (MePasscode we salt plain) \<longleftrightarrow> False"

text \<open>The clock and the process ids fit their types, and no grant outlives the clock.\<close>

fun event_small :: "monitor_event \<Rightarrow> bool" where
  "event_small (MeRoute w rq) \<longleftrightarrow>
     rw_now w + grant_ttl \<le> u64_max
     \<and> (\<forall>sid t. resolve_pane_send (rw_pats w) (rw_scan w) sid = Inr t \<longrightarrow> pn_pid t < 2 ^ 32)"
| "event_small (MePasscode we salt plain) \<longleftrightarrow> True"

text \<open>The route's request made this grant: it named the session, its target resolved, and the passcode was given.\<close>

definition grants_by :: "json_codec \<Rightarrow> (string \<Rightarrow> string) \<Rightarrow> monitor_state \<Rightarrow> route_world \<Rightarrow> http_request \<Rightarrow> pane_target \<Rightarrow> bool" where
  "grants_by jt sha ms w rq t \<longleftrightarrow>
     deny_write rq = None \<and> route_target rq = Some (pn_sid t)
     \<and> resolve_pane_send (rw_pats w) (rw_scan w) (pn_sid t) = Inr t
     \<and> (passcode_is_set jt (mo_passcode ms) \<longrightarrow>
          passcode_verify jt sha (mo_passcode ms) (trim (utf8_lossy (rq_body rq))))"

abbreviation grant_of :: "route_world \<Rightarrow> pane_target \<Rightarrow> grant" where
  "grant_of w t \<equiv> make_grant (consent_sock (pn_addr t)) (addr_pane (pn_addr t)) (pn_sid t) (pn_pid t) (rw_now w)"

lemma resolve_sid: "resolve_pane_send pats st sid = Inr t \<Longrightarrow> pn_sid t = sid"
  by (auto simp: resolve_pane_send_def split: sum.splits prod.splits)

lemma verdict_ok: "passcode_verdict body am verify now = (PassOk, am') \<Longrightarrow> verify (trim (utf8_lossy body))"
  by (auto simp: passcode_verdict_def passcode_try_def Let_def split: option.splits if_splits)

lemma filter_all_small: "list_all small_grant gs \<Longrightarrow> list_all small_grant (filter P gs)"
  by (auto simp: list_all_iff)

lemma filter_full: "length (filter P xs) = length xs \<longleftrightarrow> filter P xs = xs"
  by (metis filter_id_conv length_filter_less linorder_not_le order_refl)

abbreviation without_sid :: "string \<Rightarrow> nat \<Rightarrow> grant list \<Rightarrow> grant list" where
  "without_sid sid now gs \<equiv> filter (\<lambda>g. gn_sid g \<noteq> sid) (prune now gs)"

lemma without_sid_full: "length (without_sid sid now gs) = length gs \<longleftrightarrow> without_sid sid now gs = gs"
  unfolding prune_def filter_filter by (rule filter_full)

lemma store_revoke_load:
  assumes "json_codec_ok jt" and "grants_file_ok jt f"
  shows "load_grants jt (store_revoke jt we sid now f)
      = (if without_sid sid now (load_grants jt f) = load_grants jt f then load_grants jt f
         else case we of WriteOk \<Rightarrow> without_sid sid now (load_grants jt f) | WriteNoOpen \<Rightarrow> load_grants jt f | WriteTorn k \<Rightarrow> [])"
proof -
  have small: "list_all small_grant (without_sid sid now (load_grants jt f))"
    using assms(2) by (auto simp: grants_file_ok_def prune_def list_all_iff)
  obtain ok f' where w: "save_grants jt we (without_sid sid now (load_grants jt f)) f = (ok, f')" by fastforce
  show ?thesis using save_cases(2) [OF assms(1) small w] w by (simp add: store_revoke_def Let_def without_sid_full)
qed

lemma store_grant_load:
  assumes "json_codec_ok jt" and "grants_file_ok jt f" and "small_grant (make_grant sock pane sid pid now)"
    and "store_grant jt we sock pane sid pid now f = (ok, f')"
  shows "ok = (we = WriteOk)"
    and "we = WriteOk \<Longrightarrow> set (load_grants jt f') \<subseteq> insert (make_grant sock pane sid pid now) (set (load_grants jt f))"
    and "we = WriteNoOpen \<Longrightarrow> load_grants jt f' = load_grants jt f"
    and "we = WriteTorn k \<Longrightarrow> load_grants jt f' = []"
proof -
  let ?gs = "filter (\<lambda>g. \<not> (gn_sock g = sock \<and> gn_pane g = pane \<and> gn_sid g = sid)) (prune now (load_grants jt f))
    @ [make_grant sock pane sid pid now]"
  have "list_all small_grant ?gs" using assms(2,3) by (auto simp: grants_file_ok_def prune_def list_all_iff)
  note c = save_cases [OF assms(1) this assms(4) [unfolded store_grant_def]]
  show "ok = (we = WriteOk)" by (rule c(1))
  show "we = WriteOk \<Longrightarrow> set (load_grants jt f') \<subseteq> insert (make_grant sock pane sid pid now) (set (load_grants jt f))"
    using c(2) filter_is_subset [of _ "load_grants jt f"] by (simp add: prune_def) blast
  show "we = WriteNoOpen \<Longrightarrow> load_grants jt f' = load_grants jt f" "we = WriteTorn k \<Longrightarrow> load_grants jt f' = []"
    using c(2) by simp_all
qed

text \<open>A request to the consent route leaves the grants, loses them, revokes a session's, or adds one it earned.\<close>

definition route_effect ::
  "json_codec \<Rightarrow> (string \<Rightarrow> string) \<Rightarrow> route_world \<Rightarrow> http_request \<Rightarrow> monitor_state \<Rightarrow> grant list \<Rightarrow> bool" where
  "route_effect jt sha w rq ms gs' \<longleftrightarrow>
     (let gs = load_grants jt (mo_consents ms)
      in set gs' \<subseteq> set gs \<and> (\<forall>sid. revokes sid (MeRoute w rq) \<longrightarrow> (\<forall>g \<in> set gs'. gn_sid g \<noteq> sid))
         \<or> (\<exists>t. grants_by jt sha ms w rq t \<and> rw_write w = WriteOk \<and> set gs' \<subseteq> insert (grant_of w t) (set gs)
               \<and> small_grant (grant_of w t)) \<and> (\<forall>sid. \<not> revokes sid (MeRoute w rq)))"

lemma effect_subset:
  assumes "set gs' \<subseteq> set (load_grants jt (mo_consents ms))"
    and "\<And>sid g. revokes sid (MeRoute w rq) \<Longrightarrow> g \<in> set gs' \<Longrightarrow> gn_sid g \<noteq> sid"
  shows "route_effect jt sha w rq ms gs'"
  unfolding route_effect_def Let_def using assms by blast

lemma without_sid_sub: "set (without_sid sid now gs) \<subseteq> set gs"
  unfolding prune_def filter_filter by (rule filter_is_subset)

lemma revoke_effect:
  assumes "json_codec_ok jt" and "grants_file_ok jt (mo_consents ms)" and "route_target rq = Some sid"
  shows "route_effect jt sha w rq ms (load_grants jt (store_revoke jt (rw_write w) sid (rw_now w) (mo_consents ms)))"
    (is "route_effect _ _ _ _ _ ?gs'")
proof (rule effect_subset)
  note l = store_revoke_load [OF assms(1,2), of "rw_write w" sid "rw_now w"]
  show "set ?gs' \<subseteq> set (load_grants jt (mo_consents ms))"
    using l without_sid_sub [of sid "rw_now w" "load_grants jt (mo_consents ms)"]
    by (cases "rw_write w") (auto simp only: list.set split: if_splits write_end.splits)
  fix sid' g
  assume r: "revokes sid' (MeRoute w rq)" and g: "g \<in> set ?gs'"
  have "g \<in> set (without_sid sid (rw_now w) (load_grants jt (mo_consents ms)))"
  proof (cases "without_sid sid (rw_now w) (load_grants jt (mo_consents ms)) = load_grants jt (mo_consents ms)")
    case True
    then show ?thesis using l g by (simp only: simp_thms if_True)
  next
    case False
    then show ?thesis using l g r by (cases "rw_write w") simp_all
  qed
  then show "gn_sid g \<noteq> sid'" using r assms(3) by simp
qed

lemma grant_effect:
  assumes "json_codec_ok jt" and "grants_file_ok jt (mo_consents ms)" and "event_small (MeRoute w rq)"
    and "deny_write rq = None" and "route_target rq = Some sid" and "query_get (rq_query rq) ''op'' \<noteq> Some ''revoke''"
  shows "set (load_grants jt (mo_consents (snd (consent_route jt sha w rq ms)))) \<subseteq> set (load_grants jt (mo_consents ms))
    \<or> (\<exists>t. grants_by jt sha ms w rq t \<and> rw_write w = WriteOk \<and> small_grant (grant_of w t)
         \<and> set (load_grants jt (mo_consents (snd (consent_route jt sha w rq ms)))) \<subseteq> insert (grant_of w t) (set (load_grants jt (mo_consents ms))))"
proof (cases "resolve_pane_send (rw_pats w) (rw_scan w) sid")
  case (Inl e)
  then show ?thesis using assms(4-6) by (simp add: consent_route_def)
next
  case (Inr t)
  obtain verdict am where v: "(if passcode_is_set jt (mo_passcode ms) then
      passcode_verdict (rq_body rq) (mo_attempts ms) (passcode_verify jt sha (mo_passcode ms)) (rw_instant w)
    else (PassOk, mo_attempts ms)) = (verdict, am)" by fastforce
  obtain ok f where f: "store_grant jt (rw_write w) (consent_sock (pn_addr t)) (addr_pane (pn_addr t)) (pn_sid t) (pn_pid t)
      (rw_now w) (mo_consents ms) = (ok, f)" by fastforce
  have r: "mo_consents (snd (consent_route jt sha w rq ms)) = (if verdict \<noteq> PassOk then mo_consents ms else f)"
    using assms(4-6) Inr v f by (simp add: consent_route_def)
  show ?thesis
  proof (cases "verdict = PassOk")
    case False
    then show ?thesis using r by simp
  next
    case True
    have "pn_pid t < 2 ^ 32" "rw_now w + grant_ttl \<le> u64_max" using assms(3) Inr by auto
    then have small: "small_grant (grant_of w t)"
      by (simp add: small_grant_def make_grant_def u64_max_def grant_ttl_def)
    have "grants_by jt sha ms w rq t"
      using assms(4,5) Inr resolve_sid [OF Inr] v True verdict_ok [of "rq_body rq" "mo_attempts ms" _ "rw_instant w" am]
      by (auto simp: grants_by_def split: if_splits)
    then show ?thesis
      using store_grant_load [OF assms(1,2) small f] small r True by (cases "rw_write w") auto
  qed
qed

lemma consent_route_effect:
  assumes "json_codec_ok jt" and "grants_file_ok jt (mo_consents ms)" and "event_small (MeRoute w rq)"
  shows "route_effect jt sha w rq ms (load_grants jt (mo_consents (snd (consent_route jt sha w rq ms))))"
proof -
  let ?gs = "load_grants jt (mo_consents ms)"
  have same: "route_effect jt sha w rq ms ?gs" if "\<And>sid. \<not> revokes sid (MeRoute w rq)"
    by (rule effect_subset) (simp_all add: that del: revokes.simps)
  show ?thesis
  proof (cases "deny_write rq = None \<and> (\<exists>sid. route_target rq = Some sid)")
    case False
    then have "\<not> revokes sid (MeRoute w rq)" for sid by auto
    moreover have "snd (consent_route jt sha w rq ms) = ms"
      using False by (auto simp: consent_route_def split: option.splits)
    ultimately show ?thesis using same by simp
  next
    case True
    then obtain sid where sid: "deny_write rq = None" "route_target rq = Some sid" by auto
    show ?thesis
    proof (cases "query_get (rq_query rq) ''op'' = Some ''revoke''")
      case True
      then show ?thesis using revoke_effect [OF assms(1,2) sid(2)] sid by (simp add: consent_route_def)
    next
      case norevoke: False
      then have n: "\<not> revokes sid' (MeRoute w rq)" for sid' by simp
      show ?thesis
        using grant_effect [OF assms sid norevoke] n unfolding route_effect_def Let_def by blast
    qed
  qed
qed

subsection \<open>Where grants come from\<close>

definition earned ::
  "json_codec \<Rightarrow> (string \<Rightarrow> string) \<Rightarrow> monitor_state \<Rightarrow> monitor_event list \<Rightarrow> grant \<Rightarrow> bool" where
  "earned jt sha ms0 evs g \<longleftrightarrow>
     (\<exists>pre w rq post t. evs = pre @ MeRoute w rq # post \<and> grants_by jt sha (mon_run jt sha ms0 pre) w rq t
        \<and> rw_write w = WriteOk \<and> g = grant_of w t \<and> (\<forall>ev \<in> set post. \<not> revokes (gn_sid g) ev))"

lemma earned_later: "earned jt sha ms0 evs g \<Longrightarrow> \<not> revokes (gn_sid g) ev \<Longrightarrow> earned jt sha ms0 (evs @ [ev]) g"
  unfolding earned_def by (elim exE, rule_tac x = pre in exI, rule_tac x = w in exI, rule_tac x = rq in exI,
      rule_tac x = "post @ [ev]" in exI, rule_tac x = t in exI) (auto simp del: revokes.simps)

lemma earned_now:
  assumes "grants_by jt sha (mon_run jt sha ms0 evs) w rq t" and "rw_write w = WriteOk"
  shows "earned jt sha ms0 (evs @ [MeRoute w rq]) (grant_of w t)"
  unfolding earned_def using assms by (intro exI [of _ evs] exI [of _ w] exI [of _ rq] exI [of _ "[]"] exI [of _ t]) simp

lemma grants_earned:
  assumes "json_codec_ok jt" and "load_grants jt (mo_consents ms0) = []" and "\<forall>ev \<in> set evs. event_small ev"
  shows "\<forall>g \<in> set (load_grants jt (mo_consents (mon_run jt sha ms0 evs))). small_grant g \<and> earned jt sha ms0 evs g"
  using assms(3)
proof (induction evs rule: rev_induct)
  case Nil
  then show ?case using assms(2) by (simp add: mon_run_def)
next
  case (snoc ev evs)
  then have IH: "\<forall>g \<in> set (load_grants jt (mo_consents (mon_run jt sha ms0 evs))). small_grant g \<and> earned jt sha ms0 evs g"
    by simp
  show ?case
  proof (cases ev)
    case (MePasscode we salt plain)
    then show ?thesis using IH by (simp add: mon_step_def earned_later)
  next
    case (MeRoute w rq)
    have "grants_file_ok jt (mo_consents (mon_run jt sha ms0 evs))" using IH by (simp add: grants_file_ok_def list_all_iff)
    moreover have "event_small (MeRoute w rq)" using snoc.prems MeRoute by simp
    ultimately have "route_effect jt sha w rq (mon_run jt sha ms0 evs)
        (load_grants jt (mo_consents (mon_run jt sha ms0 (evs @ [ev]))))"
      using consent_route_effect [OF assms(1)] MeRoute by (simp add: mon_step_def)
    then show ?thesis
      using IH earned_later [of jt sha ms0 evs _ ev] earned_now [of jt sha ms0 evs w rq] MeRoute
      unfolding route_effect_def Let_def by blast
  qed
qed

subsection \<open>Typing\<close>

lemma send_types_only:
  assumes "send_route jt wi w st2 consents rq = SendTypes t prompt"
  shows "deny_write rq = None" and "resolve_pane_send (rw_pats w) st2 (pn_sid t) = Inr t"
    and "target_granted jt consents (rw_now w) t"
  using assms resolve_sid [of "rw_pats w" st2]
  by (auto simp: send_route_def send_pane_checked_def split: option.splits sum.splits prod.splits if_splits)

lemma granted_by_one:
  assumes "target_granted jt consents now t"
  shows "\<exists>g \<in> set (load_grants jt consents). gn_sock g = consent_sock (pn_addr t) \<and> gn_pane g = addr_pane (pn_addr t)
    \<and> gn_sid g = pn_sid t \<and> (gn_pid g = pn_pid t \<or> grant_follows (pn_addr t) (pn_named t)) \<and> now < gn_expires_at g"
  using assms unfolding target_granted_def covers_def granted_exactly_def carried_def list_ex_iff by blast

lemma resolve_inner: "resolve_pane_send pats st sid = Inr t \<Longrightarrow> pane_send_target pats st sid = Inr (pn_pid t, pn_addr t)"
  by (auto simp: resolve_pane_send_def split: sum.splits prod.splits)


subsection \<open>A run\<close>

instance json :: countable
  by countable_datatype

text \<open>A way to print and parse that satisfies the law: a number in unary with an end mark.\<close>

definition unary_text :: json_codec where
  "unary_text = \<lparr>jt_print = (\<lambda>v. replicate (to_nat v) (CHR ''a'') @ ''b''),
     jt_parse = (\<lambda>s. if s \<noteq> [] \<and> last s = CHR ''b'' then Some (from_nat (length s - 1)) else None)\<rparr>"

lemma unary_text_ok: "json_codec_ok unary_text"
  by (simp add: json_codec_ok_def grants_text_def unary_text_def) (auto simp: last_conv_nth nth_append)

definition sample_allow :: http_request where
  "sample_allow = \<lparr>rq_method = ''POST'', rq_name = ''api/consent'', rq_query = ''target=s'', rq_body = [], rq_authenticated = True,
     rq_origin_ok = True, rq_masked = False\<rparr>"

definition sample_send :: http_request where
  "sample_send = sample_allow\<lparr>rq_name := ''api/send'', rq_body := ''go''\<rparr>"

definition sample_route_world :: route_world where
  "sample_route_world = \<lparr>rw_pats = [], rw_scan = sample_scan, rw_now = 100, rw_instant = 0, rw_write = WriteOk\<rparr>"

definition sample_target :: pane_target where
  "sample_target = \<lparr>pn_sid = ''s'', pn_pid = 7, pn_addr = PaneTmux None ''%1'', pn_named = False\<rparr>"

definition fresh_monitor :: monitor_state where
  "fresh_monitor = \<lparr>mo_consents = None, mo_passcode = None, mo_attempts = \<lparr>am_fails = 0, am_until = None\<rparr>\<rparr>"

lemma sample_pane: "pane_send_target [] sample_scan ''s'' = Inr (7, PaneTmux None ''%1'')"
  by code_simp

lemma sample_query:
  "query_get ''target=s'' ''target'' = Some ''s''" "query_get ''target=s'' ''op'' = None" "query_get ''target=s'' ''images'' = None"
  "percent_decode ''s'' = ''s''" "trim (utf8_lossy ''go'') = ''go''"
  by code_simp+

lemma sample_resolves: "resolve_pane_send [] sample_scan ''s'' = Inr sample_target"
  by (simp add: resolve_pane_send_def sample_pane sample_target_def) (simp add: sample_scan_def link_of_def)

lemma sample_granted:
  "consent_route unary_text sha sample_route_world sample_allow fresh_monitor
     = (ConsentGranted, fresh_monitor\<lparr>mo_consents := Some (grants_text unary_text [grant_of sample_route_world sample_target])\<rparr>)"
  by (simp add: consent_route_def deny_write_def deny_mutation_def sample_allow_def route_target_def sample_query fresh_monitor_def
      sample_route_world_def sample_resolves passcode_is_set_def load_passcode_def store_grant_def save_grants_def write_0600_def
      load_grants_def prune_def grants_text_def sample_target_def)

lemma sample_send_types:
  "send_route unary_text wi sample_route_world sample_scan
     (mo_consents (mon_run unary_text sha fresh_monitor [MeRoute sample_route_world sample_allow])) sample_send
     = SendTypes sample_target ''go''"
proof -
  have "small_grant (grant_of sample_route_world sample_target)"
    by (simp add: small_grant_def make_grant_def sample_target_def sample_route_world_def grant_ttl_def u64_max_def)
  then have l: "load_grants unary_text (Some (grants_text unary_text [grant_of sample_route_world sample_target]))
      = [grant_of sample_route_world sample_target]"
    by (intro load_whole unary_text_ok) simp
  have "mo_consents (mon_run unary_text sha fresh_monitor [MeRoute sample_route_world sample_allow])
      = Some (grants_text unary_text [grant_of sample_route_world sample_target])"
    by (simp add: mon_run_def mon_step_def sample_granted)
  moreover have "resume_target sample_scan ''s'' = Inl SessionIsLive" by code_simp
  moreover have "target_granted unary_text (Some (grants_text unary_text [grant_of sample_route_world sample_target])) 100 sample_target"
    by (simp add: target_granted_def l covers_def granted_exactly_def) (simp add: make_grant_def sample_route_world_def grant_ttl_def)
  moreover have "rw_scan sample_route_world = sample_scan" "rw_pats sample_route_world = []" "rw_now sample_route_world = 100"
    by (simp_all add: sample_route_world_def)
  ultimately show ?thesis
    by (simp add: send_route_def sample_send_def sample_allow_def deny_write_def deny_mutation_def sample_query parse_send_body_def
        send_prompt_bytes_def route_target_def send_pane_checked_def sample_resolves)
qed

lemma target_pid: "pane_send_target pats st sid = Inr (pid, addr) \<Longrightarrow> sl_pid (link_of st sid) = Some pid"
  by (auto simp: pane_send_target_def pane_target_from_def split: option.splits sum.splits prod.splits if_splits)

lemma sample_small: "event_small (MeRoute sample_route_world rq)"
proof -
  have "pn_pid t < 2 ^ 32" if "resolve_pane_send [] sample_scan sid = Inr t" for sid t
    using target_pid [OF resolve_inner [OF that]] by (simp add: sample_scan_def link_of_def no_link_def split: if_splits)
  then show ?thesis by (simp add: sample_route_world_def grant_ttl_def u64_max_def)
qed


subsection \<open>Guesses\<close>

text \<open>The verdicts of attempts in turn, each its body, what would verify it, and its instant.\<close>

fun verdicts :: "attempts \<Rightarrow> (string \<times> (string \<Rightarrow> bool) \<times> nat) list \<Rightarrow> pass_verdict list" where
  "verdicts am [] = []"
| "verdicts am ((body, verify, now) # xs) =
     (case passcode_verdict body am verify now of (v, am') \<Rightarrow> v # verdicts am' xs)"

definition budget :: "nat \<Rightarrow> nat \<Rightarrow> nat" where
  "budget until s = 5 * ((until + lockout - s) div lockout)"

lemma lockout_pos: "0 < lockout"
  by (simp add: lockout_def second_def)

lemma budget_mono: "s \<le> s' \<Longrightarrow> budget e s' \<le> budget e s"
  by (simp add: budget_def div_le_mono)

lemma budget_step: "s \<le> e \<Longrightarrow> budget e s = budget e (s + lockout) + 5"
proof -
  assume "s \<le> e"
  then have "e + lockout - s = (e - s) + lockout" "e + lockout - (s + lockout) = e - s" by linarith+
  moreover have "((e - s) + lockout) div lockout = (e - s) div lockout + 1" using lockout_pos by simp
  ultimately show ?thesis by (simp add: budget_def)
qed

text \<open>What is left of the budget at \<open>t\<close> covers \<open>n\<close> more wrong guesses.\<close>

definition spent :: "nat \<Rightarrow> attempts \<Rightarrow> nat \<Rightarrow> nat \<Rightarrow> bool" where
  "spent e am t n \<longleftrightarrow>
     (case am_until am of Some u \<Rightarrow> n \<le> budget e (max u t) | None \<Rightarrow> n + am_fails am \<le> budget e t)"

definition counter_ok :: "attempts \<Rightarrow> bool" where
  "counter_ok am \<longleftrightarrow> am_fails am < 5 \<and> (am_until am = None \<or> am_fails am = 0)"

lemma try_step:
  assumes "passcode_try submitted am verify now = (v, am')" and "v \<noteq> PassOk" and "am_until am = None" and "am_fails am < 5"
    and "now \<le> e" and "counter_ok am' \<Longrightarrow> spent e am' now n"
  shows "(if v = PassBad then Suc n else n) + am_fails am \<le> budget e now"
proof (cases "v = PassBad")
  case False
  then have "am' = am" using assms(1,2) by (auto simp: passcode_try_def split: if_splits)
  then show ?thesis using False assms(3,4,6) by (simp add: spent_def counter_ok_def)
next
  case bad: True
  show ?thesis
  proof (cases "am_fails am = 4")
    case True
    then have "am' = am\<lparr>am_until := Some (now + lockout), am_fails := 0\<rparr>"
      using assms(1) bad by (auto simp: passcode_try_def split: if_splits)
    then have "n \<le> budget e (now + lockout)" using assms(6) by (simp add: spent_def counter_ok_def)
    then show ?thesis using True bad budget_step [OF assms(5)] by simp
  next
    case False
    then have "am' = am\<lparr>am_fails := am_fails am + 1\<rparr>"
      using assms(1,4) bad by (auto simp: passcode_try_def split: if_splits)
    then have "n + (am_fails am + 1) \<le> budget e now"
      using assms(3,4,6) False by (simp add: spent_def counter_ok_def)
    then show ?thesis using bad by simp
  qed
qed

lemma verdict_step:
  assumes "passcode_verdict body am verify now = (v, am')" and "v \<noteq> PassOk" and "counter_ok am" and "t \<le> now" and "now \<le> e"
    and "counter_ok am' \<Longrightarrow> spent e am' now n"
  shows "spent e am t (if v = PassBad then Suc n else n)"
proof (cases "am_until am")
  case None
  then have "(if v = PassBad then Suc n else n) + am_fails am \<le> budget e now"
    using assms try_step [of _ am verify now v am' e n] by (simp add: passcode_verdict_def counter_ok_def)
  then show ?thesis using None budget_mono [OF assms(4), of e] by (simp add: spent_def)
next
  case (Some u)
  then have f: "am_fails am = 0" using assms(3) by (simp add: counter_ok_def)
  show ?thesis
  proof (cases "now < u")
    case True
    then have "v \<noteq> PassBad" "am' = am" using assms(1) Some by (auto simp: passcode_verdict_def Let_def)
    then show ?thesis using assms(3,4,6) Some True by (simp add: spent_def max_def)
  next
    case False
    then have "passcode_try (trim (utf8_lossy body)) (am\<lparr>am_until := None\<rparr>) verify now = (v, am')"
      using assms(1) Some by (simp add: passcode_verdict_def)
    from try_step [OF this assms(2) _ _ assms(5,6)] f
    have "(if v = PassBad then Suc n else n) \<le> budget e now" by simp
    moreover have "max u t \<le> now" using False assms(4) by simp
    ultimately show ?thesis using Some budget_mono [of "max u t" now e] by (simp add: spent_def)
  qed
qed

lemma counter_kept:
  assumes "passcode_verdict body am verify now = (v, am')" and "counter_ok am"
  shows "counter_ok am'"
  using assms by (auto simp: passcode_verdict_def passcode_try_def counter_ok_def Let_def split: option.splits if_splits)

abbreviation instants :: "(string \<times> (string \<Rightarrow> bool) \<times> nat) list \<Rightarrow> nat list" where
  "instants xs \<equiv> map (\<lambda>x. snd (snd x)) xs"

lemma guesses_spent:
  assumes "counter_ok am" and "sorted (t # instants xs @ [e])" and "PassOk \<notin> set (verdicts am xs)"
  shows "spent e am t (count_list (verdicts am xs) PassBad)"
  using assms
proof (induction xs arbitrary: am t)
  case Nil
  have "am_fails am \<le> budget e t"
    using budget_step [of t e] Nil by (simp add: counter_ok_def)
  then show ?case by (simp add: spent_def split: option.split)
next
  case (Cons x xs)
  obtain body verify now where x: "x = (body, verify, now)" by (cases x)
  obtain v am' where v: "passcode_verdict body am verify now = (v, am')" by fastforce
  have "spent e am' now (count_list (verdicts am' xs) PassBad)"
    using Cons.IH [OF counter_kept [OF v Cons.prems(1)]] Cons.prems x v by simp
  then show ?case using verdict_step [OF v _ Cons.prems(1), of t e "count_list (verdicts am' xs) PassBad"] Cons.prems x v by auto
qed

text \<open>
  C31: between two instants, however the attempts fall and whatever each would have matched, as long as
  none succeeds the lockout lets at most five wrong passcodes through, and five more for each full thirty
  seconds that pass.
\<close>

theorem guesses_bounded:
  assumes "sorted (t0 # instants xs @ [t1])" and "PassOk \<notin> set (verdicts \<lparr>am_fails = 0, am_until = None\<rparr> xs)"
  shows "count_list (verdicts \<lparr>am_fails = 0, am_until = None\<rparr> xs) PassBad \<le> 5 * (1 + (t1 - t0) div lockout)"
proof -
  have "t0 \<le> t1" using assms(1) by simp
  then have "t1 + lockout - t0 = (t1 - t0) + lockout" by linarith
  moreover have "((t1 - t0) + lockout) div lockout = 1 + (t1 - t0) div lockout" using lockout_pos by simp
  ultimately have "budget t1 t0 = 5 * (1 + (t1 - t0) div lockout)" unfolding budget_def by (simp only:)
  moreover have "spent t1 \<lparr>am_fails = 0, am_until = None\<rparr> t0 (count_list (verdicts \<lparr>am_fails = 0, am_until = None\<rparr> xs) PassBad)"
    by (rule guesses_spent [OF _ assms]) (simp add: counter_ok_def)
  ultimately show ?thesis unfolding spent_def by simp
qed

lemma x_guess: "trim (utf8_lossy ''x'') = ''x''"
  by code_simp

lemma two_guesses:
  "verdicts \<lparr>am_fails = 0, am_until = None\<rparr> [(''x'', \<lambda>s. s = ''open'', 3), (''x'', \<lambda>s. s = ''open'', 4)] = [PassBad, PassBad]"
  by (simp add: passcode_verdict_def passcode_try_def x_guess)

theorem guesses_bounded_witness:
  "count_list (verdicts \<lparr>am_fails = 0, am_until = None\<rparr> [(''x'', \<lambda>s. s = ''open'', 3), (''x'', \<lambda>s. s = ''open'', 4)]) PassBad
     \<le> 5 * (1 + (5 - 2) div lockout)"
  by (rule guesses_bounded) (simp_all only: two_guesses list.set, simp_all)

subsection \<open>Where consent fails\<close>

text \<open>A passcode file cut short by a failed write reads as no passcode: the consent route then asks for none.\<close>

lemma torn_passcode_opens:
  assumes "passcode_set jt sha (WriteTorn k) salt plain f = (ok, f')" and "plain \<noteq> []"
    and "\<And>v. jt_parse jt (take (min k (length (jt_print jt v) - 1)) (jt_print jt v)) = None"
  shows "\<not> ok" and "\<not> passcode_is_set jt f'"
  using assms by (auto simp: passcode_set_def write_0600_def passcode_is_set_def load_passcode_def)

text \<open>A revoke whose write cannot open the file says it revoked and keeps every grant.\<close>

lemma failed_revoke_keeps:
  assumes "deny_write rq = None" and "route_target rq = Some sid" and "query_get (rq_query rq) ''op'' = Some ''revoke''"
    and "rw_write w = WriteNoOpen"
  shows "consent_route jt sha w rq ms = (ConsentRevoked, ms)"
  using assms by (simp add: consent_route_def store_revoke_def save_grants_def write_0600_def Let_def)

text \<open>
  Grant and revoke read the file, then write it, with no lock: a grant for \<open>sid'\<close> that read before the revoke of
  \<open>sid\<close> and writes after it puts the revoked grant back.
\<close>

lemma lost_revoke:
  assumes "json_codec_ok jt" and "grants_file_ok jt f" and "g \<in> set (load_grants jt f)" and "gn_sid g = sid"
    and "now < gn_expires_at g" and "sid' \<noteq> sid" and "small_grant (make_grant sock pane sid' pid now)"
    and "store_grant jt WriteOk sock pane sid' pid now f = (ok, granted)"
  shows "g \<in> set (load_grants jt granted)"
    and "g \<notin> set (load_grants jt (store_revoke jt WriteOk sid now f))"
proof -
  let ?gs = "filter (\<lambda>g. \<not> (gn_sock g = sock \<and> gn_pane g = pane \<and> gn_sid g = sid')) (prune now (load_grants jt f))
    @ [make_grant sock pane sid' pid now]"
  have "list_all small_grant ?gs" using assms(2,7) by (auto simp: grants_file_ok_def prune_def list_all_iff)
  from save_cases(2) [OF assms(1) this assms(8) [unfolded store_grant_def]]
  show "g \<in> set (load_grants jt granted)" using assms(3-6) by (simp add: prune_def)
  have n: "g \<notin> set (without_sid sid now (load_grants jt f))" using assms(4) by simp
  then have "without_sid sid now (load_grants jt f) \<noteq> load_grants jt f" using assms(3) by metis
  then show "g \<notin> set (load_grants jt (store_revoke jt WriteOk sid now f))"
    using n unfolding store_revoke_load [OF assms(1,2)] by simp
qed

text \<open>The route compares the trimmed text: a passcode kept with outer blanks is never what it compares.\<close>

lemma padded_passcode: "passcode_verdict body am (\<lambda>s. s = plain) now = (PassOk, am') \<Longrightarrow> \<exists>s. plain = trim s"
  using verdict_ok [of body am "\<lambda>s. s = plain" now am'] by metis

end
