(* ===== verification/Spec2Isabelle.thy ===== *)
theory Spec2Isabelle
  imports Fold_Props Tasks Codex Meta_Sync Shared_Props Tail Utf8 Entry_Props Mask_Json Agent_State_Props Slots_Props
    Task_Queue Turn_Index_Props Diff_Props Stamp_Props Consent_Props
begin

text \<open>
  A verification development for \<open>claude-replay\<close>, a viewer that parses the transcripts of coding agents
  into a session of blocks, follows them while they grow, keeps the parse in a durable cache, serves it
  to a terminal and to browsers, types prompts into the panes of running agents, and supervises
  unattended runs.  This root theory imports the
  components; each theory opens with what it holds and names the file under \<open>src/\<close> it models.

  The program's parts, from the transcript up, and the theories that model them:

    \<^item> Reading (\<open>claude-replay-engine/src/engine/elide.rs\<close>, \<open>reader.rs\<close>): \<open>Elide\<close> is the streaming filter
      that cuts the middle of oversized strings, \<open>Elide_Props\<close> and \<open>Read_Line\<close> its invertibility and its
      independence of buffering; \<open>Lines\<close>, \<open>Lines_Props\<close> and \<open>Utf8\<close> are the line source with its torn-tail policy.
    \<^item> Folding (\<open>model.rs\<close>, \<open>engine/message.rs\<close>, \<open>engine/tasks.rs\<close>, \<open>engine/ansi.rs\<close>, \<open>engine/replay.rs\<close>): \<open>Model\<close>
      and \<open>Message\<close> are the data, \<open>Finish\<close> the turn finishers, \<open>Tasks\<close> the task list, \<open>Ansi\<close> the terminal
      stripper, \<open>Replay\<close> the session fold with its durability frontier; \<open>Replay_Inv\<close> and \<open>Fold_Props\<close> its
      invariant and guarantees.  \<open>Codex\<close> is one agent's four shaping hooks.
    \<^item> The session (\<open>engine/session.rs\<close>, \<open>engine/tier_b.rs\<close>, \<open>engine/meta_stream.rs\<close>, \<open>engine/builder.rs\<close>): \<open>Session\<close> holds
      the block stores and the header, \<open>Meta\<close> the durable records and their fold, \<open>Builder\<close> the accumulator
      that takes one line at a time; \<open>Builder_Inv\<close>, \<open>Parse_Props\<close> and \<open>Meta_Sync\<close> its invariant, and what a parse,
      a reset and the authored records guarantee.
    \<^item> Following and sharing (\<open>follow.rs\<close>, \<open>claude-replay-present/src/pull.rs\<close>, \<open>cache/shared.rs\<close>): \<open>Follow\<close> is one tick
      over what the file system answers, \<open>Tail\<close> composes it with the line source, \<open>Pull\<close> is the cursor
      protocol between server and client, \<open>Shared\<close> the session behind a lock with its two counters.
    \<^item> The durable cache (\<open>cache/stream.rs\<close>, \<open>lock.rs\<close>, \<open>admit.rs\<close>, \<open>fs.rs\<close>, \<open>mod.rs\<close>, and the two block logs \<open>store.rs\<close>
      and \<open>record_store.rs\<close>): \<open>Durable\<close> is the record stream as a file of lines, \<open>Lock\<close> the writer lock, \<open>Claim\<close> the
      decision to resume or rebuild an entry, \<open>Block_Log\<close> the logs, \<open>Entry\<close> the providers that open an entry
      over any store, \<open>Slots\<close> the keyed cache of live sessions.
    \<^item> What leaves the machine (\<open>html_export/mask.rs\<close>, \<open>pairing.rs\<close>, \<open>turn_index.rs\<close>): \<open>Mask\<close>, with \<open>Mask_Props\<close> and
      \<open>Mask_Json\<close>, stars the keys; \<open>Pairing\<close> and \<open>Pairing_Props\<close> are the one-time codes that admit a device;
      \<open>Turn_Index\<close> and \<open>Turn_Index_Props\<close> the sidecar that tells a page what it has not fetched yet.
    \<^item> Who is let in, and to what (\<open>html_export/serve.rs\<close>, \<open>sig.rs\<close>): \<open>Gate\<close> and \<open>Gate_Props\<close> take one connection
      from its bytes to its ruling, \<open>Stamp\<close> and \<open>Stamp_Props\<close> hold the stamps on offered paths, the render
      policy and the decision to serve a file.
    \<^item> Typing into a pane (\<open>claude-monitor/src/index.rs\<close>, \<open>consent.rs\<close>, \<open>control.rs\<close>): \<open>Send_Target\<close> and \<open>Send_Props\<close> decide
      which process and pane a prompt may go to, \<open>Consent\<close> and \<open>Consent_Props\<close> are the reader's grants, the
      passcode with its lockout, and the two routes.
    \<^item> Edit rows (\<open>claude-replay-engine/src/diff.rs\<close>): \<open>Diff\<close> and \<open>Diff_Props\<close>, with base64.
    \<^item> Busy, waiting, idle (\<open>state.rs\<close>): \<open>Agent_State\<close> and \<open>Agent_State_Props\<close>.
    \<^item> Unattended runs (\<open>src/jdi/\<close>): \<open>Jdi_State\<close> is the meta file and the backlog directories, \<open>Supervisor\<close> the
      classification of a turn by either agent and the retry loop, \<open>Supervisor_Props\<close> and \<open>Backlog_Props\<close> its
      guarantees, \<open>Task_Queue\<close> Claude's task files.

  How state and operations correspond.  A struct is a record with a two-letter prefix, an enum a datatype
  with the source's constructors, a method a definition of the same name taking and returning the
  record.  A Rust string is its UTF-8 bytes.  A panic and a failed operation are \<open>None\<close> or \<open>Inl\<close>, so that
  freedom from panics is a theorem about the value.  What is not under \<open>src/\<close>, or depends on the
  machine, is an argument: \<open>serde_json\<close> is a printer and a parser with the laws of \<open>codec_ok\<close>, the file system
  is the answers its calls give (including failed and torn writes), a clock or a fingerprint is its
  value.  Operations that run under a lock, and processes that interleave, are the steps of an
  inductive relation (\<open>lock_step\<close>, \<open>cache_step\<close>, the shared session's steps), with the properties over all
  reachable states.

  Interfaces are locales, each interpreted on the code's own providers: \<open>turn_finish\<close> and \<open>fold_shaping\<close> (an
  agent's hooks), \<open>lossless_store\<close> (the in-memory and the on-disk block store), \<open>durable_store\<close> (the two block
  logs), \<open>entry_provider\<close> (admission), \<open>turn_policy\<close> (an agent under the supervisor).

  What the groups of lemmas show.  The fold, the accumulator and the follower never panic on any input,
  and keep headers, turn times and blocks aligned; the durability frontier, the choice of store,
  buffering, polling and resets are invisible in what a reader sees (equivalence with a batch parse);
  a client that polls once is up to date; every crash of a writer leaves a readable prefix that a
  reopened writer extends, and what is recovered is a state the parse went through; an entry has one
  writer; masked text keeps its structure and holds no listed key; a pairing code opens once, and opens
  for whoever types it in time; a request that a route answers got past the gate, a write carries the
  token, a file is served under its stamp and its ceiling, and a prompt is typed only where an
  unrevoked consent reaches; a line diff is a shortest one; the turn index is the one the log gives; a verdict on a session is
  justified by its signals; a supervised run ends, loses no queued item and does not stop with work left.

  Bounds and fuel.  Timestamps are rationals (the code's are floating point, only compared and
  subtracted).  Counters of the meta stream and the supervisor's attempt counter are unbounded, those
  of the backlog's names wrap at 32 bits as in a release build; lengths in block locators are 32 bit.  Loops over input
  are recursive functions with a measure.  The only fuel is a number of turns in \<open>sup_run\<close>: there
  \<open>supervisor_stops\<close> gives a number that suffices, and shows what it does not cover.

  Not modelled.  The vendor decoders (12,000 lines for Claude alone) are the argument \<open>decode\<close> of the
  accumulator: what it may not do is a named hypothesis.  HTML and terminal rendering, the bytes
  of HTTP replies, the monitors' scan and layout, the Codex and fleet monitors, the command line, discovery of files, prices and metrics
  rendering are input and output around the parts above.  Where a behaviour of the code breaks a guarantee one
  would expect, the theory states it as a lemma beside the guarantee it limits (\<open>withdrawn_turn_stays\<close>,
  \<open>lost_reset_panics\<close>, \<open>reset_view_stale\<close>, \<open>unterminated_record_loses_all\<close>, \<open>two_writers\<close>, \<open>late_drop_unlocks\<close>,
  \<open>url_user_key_shown\<close>, \<open>window_cut_hides_prompt\<close>, \<open>recreate_never_stops\<close>, \<open>circle_reads_done\<close>,
  \<open>mint_race_reuses\<close>, \<open>failed_write_reuses\<close>, \<open>no_identity_admits\<close>, \<open>late_headers_unseen\<close>, \<open>torn_passcode_opens\<close>,
  \<open>failed_revoke_keeps\<close>, \<open>lost_revoke\<close>, \<open>padded_passcode\<close>).
\<close>

end
